(* ===== verification/Prelude.thy ===== *)
theory Prelude
  imports Main "HOL-Library.Word"
begin

text \<open>
  Shared vocabulary of the development.

  Machine integers are words (\<open>u8\<close>, \<open>u16\<close>, \<open>u32\<close>, \<open>u64\<close>); a byte buffer
  (\<open>Vec<u8>\<close>, \<open>&[u8]\<close>) is a list of bytes; \<open>usize\<close> offsets and lengths are natural
  numbers, with the width written out where the code's checked or saturating arithmetic
  depends on it. A cut index that panics in Rust is a value of \<open>outcome\<close> wherever the
  guards of the code do not rule it out; \<open>.get(..)\<close> is the option-valued reader.
  Human-readable report lines (\<open>format!\<close>) are kept structured: the template and the
  interpolated values; typographic dashes of a template are written as ASCII hyphens.
  The locale of scanners states what every byte scanner of the program promises.
\<close>

section \<open>Types\<close>

type_synonym u8 = "8 word"
type_synonym u16 = "16 word"
type_synonym u32 = "32 word"
type_synonym u64 = "64 word"
type_synonym bytes = "u8 list"

text \<open>A Rust call either returns or panics.\<close>

datatype 'a outcome = Returned 'a | Panicked

primrec bind_outcome :: "'a outcome \<Rightarrow> ('a \<Rightarrow> 'b outcome) \<Rightarrow> 'b outcome" where
  "bind_outcome (Returned x) f = f x"
| "bind_outcome Panicked f = Panicked"

text \<open>A \<open>format!\<close> line: its template and its arguments.\<close>

datatype arg = N nat | S string

datatype message = Msg string "arg list"

named_theorems cut_simps \<open>slices of concatenated and overwritten buffers\<close>
named_theorems le_simps \<open>little-endian encoding and decoding\<close>

lemma bind_outcome_Returned_iff [simp]:
  "bind_outcome m f = Returned y \<longleftrightarrow> (\<exists>x. m = Returned x \<and> f x = Returned y)"
  by (cases m) auto

lemma bind_outcome_Panicked_iff:
  "bind_outcome m f = Panicked \<longleftrightarrow> m = Panicked \<or> (\<exists>x. m = Returned x \<and> f x = Panicked)"
  by (cases m) auto

section \<open>Slices\<close>

text \<open>\<open>&data[a..b]\<close> under guards that put \<open>a..b\<close> inside the buffer.\<close>

definition cut :: "'a list \<Rightarrow> nat \<Rightarrow> nat \<Rightarrow> 'a list" where
  "cut d a b = take (b - a) (drop a d)"

text \<open>\<open>&data[a..b]\<close> where no guard rules out the panic.\<close>

definition index_range :: "'a list \<Rightarrow> nat \<Rightarrow> nat \<Rightarrow> 'a list outcome" where
  "index_range d a b = (if a \<le> b \<and> b \<le> length d then Returned (cut d a b) else Panicked)"

text \<open>\<open>data.get(i)\<close> and \<open>data.get(a..b)\<close>.\<close>

definition get_at :: "'a list \<Rightarrow> nat \<Rightarrow> 'a option" where
  "get_at d i = (if i < length d then Some (d ! i) else None)"

definition get_range :: "'a list \<Rightarrow> nat \<Rightarrow> nat \<Rightarrow> 'a list option" where
  "get_range d a b = (if a \<le> b \<and> b \<le> length d then Some (cut d a b) else None)"

text \<open>\<open>data[off..off + bs.len()].copy_from_slice(bs)\<close>, in range.\<close>

definition overwrite :: "'a list \<Rightarrow> nat \<Rightarrow> 'a list \<Rightarrow> 'a list" where
  "overwrite d off bs = take off d @ bs @ drop (off + length bs) d"

lemma length_cut [simp]: "length (cut d a b) = min (b - a) (length d - a)"
  by (simp add: cut_def)

lemma cut_empty [simp]: "b \<le> a \<Longrightarrow> cut d a b = []"
  by (simp add: cut_def)

lemma cut_0: "cut d 0 b = take b d"
  by (simp add: cut_def)

lemma nth_cut: "i < b - a \<Longrightarrow> a + i < length d \<Longrightarrow> cut d a b ! i = d ! (a + i)"
  by (simp add: cut_def)

lemma cut_append_left [cut_simps]:
  "b \<le> length xs \<Longrightarrow> cut (xs @ ys) a b = cut xs a b"
  by (simp add: cut_def)

lemma cut_append_right [cut_simps]:
  "length xs \<le> a \<Longrightarrow> cut (xs @ ys) a b = cut ys (a - length xs) (b - length xs)"
  by (cases "a \<le> b") (auto simp: cut_def)

lemma cut_append_mid:
  "a = length xs \<Longrightarrow> b = length xs + length ys \<Longrightarrow> cut (xs @ ys @ zs) a b = ys"
  by (simp add: cut_def)

lemma cut_full: "length d \<le> b \<Longrightarrow> cut d a b = drop a d"
  by (simp add: cut_def)

lemma cut_cut: "a + d \<le> b \<Longrightarrow> cut (cut xs a b) c d = cut xs (a + c) (a + d)"
  by (simp add: cut_def drop_take min_def add.commute)

lemma cut_concat:
  "a \<le> b \<Longrightarrow> b \<le> c \<Longrightarrow> cut d a b @ cut d b c = cut d a c"
proof -
  assume "a \<le> b" "b \<le> c"
  then have "cut d a c = take ((b - a) + (c - b)) (drop a d)"
    by (simp add: cut_def)
  also have "\<dots> = take (b - a) (drop a d) @ take (c - b) (drop (b - a) (drop a d))"
    by (rule take_add)
  also have "\<dots> = cut d a b @ cut d b c"
    using \<open>a \<le> b\<close> by (simp add: cut_def)
  finally show ?thesis by simp
qed

lemma take_cut_drop: "a \<le> b \<Longrightarrow> take a d @ cut d a b @ drop b d = d"
proof -
  assume "a \<le> b"
  then have "cut d a b @ drop b d = drop a d"
    by (simp add: cut_def) (metis append_take_drop_id drop_drop le_add_diff_inverse2)
  then show ?thesis by simp
qed

lemma get_at_Some: "get_at d i = Some x \<longleftrightarrow> i < length d \<and> d ! i = x"
  by (auto simp: get_at_def)

lemma get_range_Some: "get_range d a b = Some xs \<longleftrightarrow> a \<le> b \<and> b \<le> length d \<and> xs = cut d a b"
  by (auto simp: get_range_def)

section \<open>Searching a list\<close>

lemma find_SomeD: "find P xs = Some x \<Longrightarrow> x \<in> set xs \<and> P x"
  by (induction xs) (auto split: if_splits)

lemma find_hd_filter: "find P xs = Some x \<Longrightarrow> hd (filter P xs) = x"
  by (induction xs) (auto split: if_splits)

lemma map_of_rev_distinct:
  assumes "distinct (map fst xs)"
  shows "map_of (rev xs) = map_of xs"
proof (rule ext)
  fix k
  show "map_of (rev xs) k = map_of xs k"
  proof (cases "map_of xs k")
    case None
    then have "map_of (rev xs) k = None" unfolding map_of_eq_None_iff by simp
    with None show ?thesis by simp
  next
    case (Some v)
    then have "(k, v) \<in> set (rev xs)" by (simp add: map_of_SomeD)
    moreover have "distinct (map fst (rev xs))" using assms by (simp add: rev_map [symmetric])
    ultimately show ?thesis using Some map_of_is_SomeI by metis
  qed
qed

section \<open>Overwriting a field\<close>

lemma length_overwrite [simp]:
  "off + length bs \<le> length d \<Longrightarrow> length (overwrite d off bs) = length d"
  by (simp add: overwrite_def)

lemma cut_overwrite_same [cut_simps]:
  "off + length bs \<le> length d \<Longrightarrow> b = off + length bs \<Longrightarrow> cut (overwrite d off bs) off b = bs"
  by (simp add: overwrite_def cut_def)

lemma cut_overwrite_before [cut_simps]:
  "b \<le> off \<Longrightarrow> off \<le> length d \<Longrightarrow> cut (overwrite d off bs) a b = cut d a b"
  by (cases "a \<le> b") (simp_all add: overwrite_def cut_def drop_take)

lemma nth_overwrite:
  assumes "off + length bs \<le> length d"
  shows "overwrite d off bs ! i =
    (if off \<le> i \<and> i < off + length bs then bs ! (i - off) else d ! i)"
proof -
  have "length (take off d) = off" using assms by simp
  moreover have "d ! i = drop (off + length bs) d ! (i - (off + length bs))"
    if "off + length bs \<le> i"
    using that assms by (simp add: nth_drop)
  ultimately show ?thesis
    using assms by (auto simp: overwrite_def nth_append)
qed

lemma cut_overwrite_after [cut_simps]:
  assumes "off + length bs \<le> a" "off + length bs \<le> length d"
  shows "cut (overwrite d off bs) a b = cut d a b"
  using assms by (simp add: overwrite_def cut_def)

lemma cut_overwrite_within:
  assumes "off \<le> a" "b \<le> off + length bs" "off + length bs \<le> length d"
  shows "cut (overwrite d off bs) a b = cut bs (a - off) (b - off)"
proof -
  have "cut (overwrite d off bs) a b = cut (bs @ drop (off + length bs) d) (a - off) (b - off)"
    using assms by (simp add: overwrite_def cut_append_right)
  also have "\<dots> = cut bs (a - off) (b - off)"
    using assms by (simp add: cut_append_left)
  finally show ?thesis .
qed

lemma cut_overwrite_inner:
  assumes "k + length c \<le> n" "off + n \<le> length d"
  shows "cut (overwrite d (off + k) c) off (off + n) = overwrite (cut d off (off + n)) k c"
  using assms by (intro nth_equalityI) (auto simp: nth_cut nth_overwrite)

lemma overwrite_inner:
  assumes "k + length c \<le> n" "off + n \<le> length d"
  shows "overwrite d off (overwrite (cut d off (off + n)) k c) = overwrite d (off + k) c"
  using assms by (intro nth_equalityI) (auto simp: nth_cut nth_overwrite)

lemma take_overwrite: "n \<le> off \<Longrightarrow> off \<le> length d \<Longrightarrow> take n (overwrite d off bs) = take n d"
  by (simp add: overwrite_def)

lemma drop_overwrite:
  "off + length bs \<le> n \<Longrightarrow> off + length bs \<le> length d \<Longrightarrow> drop n (overwrite d off bs) = drop n d"
  by (simp add: overwrite_def)

lemma take_eq_mono:
  assumes "take n d = take n d'" "m \<le> n"
  shows "take m d = take m d'"
proof -
  have "take m (take n d) = take m (take n d')" using assms(1) by simp
  with assms(2) show ?thesis by (simp add: min_def)
qed

lemma cut_take: "b \<le> n \<Longrightarrow> cut (take n d) a b = cut d a b"
  by (simp add: cut_def drop_take min_def)

lemma cut_eq_take: "take n d = take n d' \<Longrightarrow> b \<le> n \<Longrightarrow> cut d a b = cut d' a b"
  by (metis cut_take)

lemma cut_eq_drop: "drop n d = drop n d' \<Longrightarrow> n \<le> a \<Longrightarrow> cut d a b = cut d' a b"
  unfolding cut_def by (metis drop_drop le_add_diff_inverse2)

lemma overwrite_self: "off + n \<le> length d \<Longrightarrow> overwrite d off (cut d off (off + n)) = d"
  by (simp add: overwrite_def take_cut_drop)

lemma overwrite_overwrite:
  "off + length bs \<le> length d \<Longrightarrow> length cs = length bs \<Longrightarrow>
    overwrite (overwrite d off bs) off cs = overwrite d off cs"
  by (simp add: overwrite_def)

section \<open>Little-endian integers\<close>

primrec le_nat :: "bytes \<Rightarrow> nat" where
  "le_nat [] = 0"
| "le_nat (b # bs) = unat b + 256 * le_nat bs"

primrec to_le :: "nat \<Rightarrow> nat \<Rightarrow> bytes" where
  "to_le 0 n = []"
| "to_le (Suc k) n = of_nat (n mod 256) # to_le k (n div 256)"

text \<open>\<open>u16::from_le_bytes\<close>, \<open>u32::from_le_bytes\<close>, \<open>u64::from_le_bytes\<close> of the bytes at an offset.\<close>

definition u16_at :: "bytes \<Rightarrow> nat \<Rightarrow> u16" where
  "u16_at d p = of_nat (le_nat (cut d p (p + 2)))"

definition u32_at :: "bytes \<Rightarrow> nat \<Rightarrow> u32" where
  "u32_at d p = of_nat (le_nat (cut d p (p + 4)))"

definition u64_at :: "bytes \<Rightarrow> nat \<Rightarrow> u64" where
  "u64_at d p = of_nat (le_nat (cut d p (p + 8)))"

definition u16_bytes :: "u16 \<Rightarrow> bytes" where
  "u16_bytes w = to_le 2 (unat w)"

definition u32_bytes :: "u32 \<Rightarrow> bytes" where
  "u32_bytes w = to_le 4 (unat w)"

definition u64_bytes :: "u64 \<Rightarrow> bytes" where
  "u64_bytes w = to_le 8 (unat w)"

lemma length_to_le [simp]: "length (to_le k n) = k"
  by (induction k arbitrary: n) auto

lemma unat_of_nat_byte [simp]: "unat (of_nat (n mod 256) :: u8) = n mod 256"
  by (simp add: unat_of_nat take_bit_eq_mod)

lemma le_nat_to_le [le_simps]: "le_nat (to_le k n) = n mod 256 ^ k"
proof (induction k arbitrary: n)
  case 0
  then show ?case by simp
next
  case (Suc k)
  have "le_nat (to_le (Suc k) n) = n mod 256 + 256 * (n div 256 mod 256 ^ k)"
    by (simp add: Suc.IH)
  also have "\<dots> = n mod (256 * 256 ^ k)"
    by (simp add: mod_mult2_eq)
  finally show ?case by simp
qed

lemma le_nat_bound: "le_nat bs < 256 ^ length bs"
proof (induction bs)
  case Nil
  then show ?case by simp
next
  case (Cons b bs)
  have "unat b < 256" using unsigned_less [of b] by simp
  with Cons show ?case by simp
qed

lemma to_le_le_nat: "to_le (length bs) (le_nat bs) = bs"
proof (induction bs)
  case Nil
  then show ?case by simp
next
  case (Cons b bs)
  have *: "unat b < 256" using unsigned_less [of b] by simp
  then have "(unat b + 256 * le_nat bs) mod 256 = unat b"
    and "(unat b + 256 * le_nat bs) div 256 = le_nat bs"
    by auto
  with Cons show ?case by simp
qed

lemma length_word_bytes [simp]:
  "length (u16_bytes a) = 2" "length (u32_bytes b) = 4" "length (u64_bytes c) = 8"
  by (simp_all add: u16_bytes_def u32_bytes_def u64_bytes_def)

lemma u16_of_bytes [le_simps]: "(of_nat (le_nat (u16_bytes w)) :: u16) = w"
proof -
  have "unat w < 2 ^ LENGTH(16)" by (rule unsigned_less)
  then show ?thesis by (simp add: u16_bytes_def le_nat_to_le)
qed

lemma u32_of_bytes [le_simps]: "(of_nat (le_nat (u32_bytes w)) :: u32) = w"
proof -
  have "unat w < 2 ^ LENGTH(32)" by (rule unsigned_less)
  then show ?thesis by (simp add: u32_bytes_def le_nat_to_le)
qed

lemma u64_of_bytes [le_simps]: "(of_nat (le_nat (u64_bytes w)) :: u64) = w"
proof -
  have "unat w < 2 ^ LENGTH(64)" by (rule unsigned_less)
  then show ?thesis by (simp add: u64_bytes_def le_nat_to_le)
qed

lemma u32_bytes_of_cut:
  assumes "p + 4 \<le> length d"
  shows "u32_bytes (u32_at d p) = cut d p (p + 4)"
proof -
  have len: "length (cut d p (p + 4)) = 4" using assms by simp
  have "le_nat (cut d p (p + 4)) < 256 ^ 4"
    using le_nat_bound [of "cut d p (p + 4)"] len by simp
  then have "unat (u32_at d p) = le_nat (cut d p (p + 4))"
    by (simp add: u32_at_def unat_of_nat take_bit_eq_mod)
  then show ?thesis
    using to_le_le_nat [of "cut d p (p + 4)"] len by (simp add: u32_bytes_def)
qed

lemma u32_at_overwrite [le_simps]:
  "p + 4 \<le> length d \<Longrightarrow> u32_at (overwrite d p (u32_bytes w)) p = w"
  by (simp add: u32_at_def cut_overwrite_same u32_of_bytes)

lemma word_at_append [le_simps]:
  "u16_at (pre @ d) (length pre + k) = u16_at d k"
  "u32_at (pre @ d) (length pre + k) = u32_at d k"
  "u64_at (pre @ d) (length pre + k) = u64_at d k"
  by (simp_all add: u16_at_def u32_at_def u64_at_def cut_append_right)

lemma to_le_4:
  "to_le 4 n = [of_nat (n mod 256), of_nat (n div 256 mod 256), of_nat (n div 256 div 256 mod 256),
     of_nat (n div 256 div 256 div 256 mod 256)]"
proof -
  have four: "4 = Suc (Suc (Suc (Suc 0)))" by simp
  show ?thesis by (subst four) (simp only: to_le.simps)
qed

lemma to_le_2: "to_le 2 n = [of_nat (n mod 256), of_nat (n div 256 mod 256)]"
proof -
  have two: "2 = Suc (Suc 0)" by simp
  show ?thesis by (subst two) (simp only: to_le.simps)
qed

lemma word_at_skip:
  "length xs \<le> k \<Longrightarrow> u16_at (xs @ d) k = u16_at d (k - length xs)"
  "length xs \<le> k \<Longrightarrow> u32_at (xs @ d) k = u32_at d (k - length xs)"
  "u16_at (u16_bytes a @ d) 0 = a" "u32_at (u32_bytes b @ d) 0 = b"
  by (simp_all add: u16_at_def u32_at_def cut_append_right cut_append_left cut_0 le_simps Suc_diff_le)

text \<open>\<open>n.div_ceil(k)\<close>.\<close>

definition div_ceil :: "nat \<Rightarrow> nat \<Rightarrow> nat" where
  "div_ceil n k = (n + k - 1) div k"

lemma div_ceil_mult_ge: "0 < k \<Longrightarrow> n \<le> div_ceil n k * k"
proof -
  assume "0 < k"
  then have "n + k - 1 = div_ceil n k * k + (n + k - 1) mod k"
    by (simp add: div_ceil_def)
  moreover have "(n + k - 1) mod k < k" using \<open>0 < k\<close> by simp
  ultimately show ?thesis using \<open>0 < k\<close> by linarith
qed

lemma div_ceil_mult_less: "0 < k \<Longrightarrow> div_ceil n k * k < n + k"
proof -
  assume "0 < k"
  have "div_ceil n k * k \<le> n + k - 1"
    by (simp add: div_ceil_def)
  with \<open>0 < k\<close> show ?thesis by linarith
qed

lemma div_ceil_exact: "0 < k \<Longrightarrow> div_ceil (m * k) k = m"
proof -
  assume k: "0 < k"
  then have "(m * k + k - 1) div k = m + (k - 1) div k"
    by (metis Nat.add_diff_assoc Suc_leI add.commute div_mult_self1 less_numeral_extra(3) One_nat_def)
  with k show ?thesis by (simp add: div_ceil_def)
qed

section \<open>Scans that claim byte spans\<close>

text \<open>Half-open spans in order, without overlap, between \<open>lo\<close> and \<open>n\<close>.\<close>

fun spans_within :: "nat \<Rightarrow> nat \<Rightarrow> (nat \<times> nat) list \<Rightarrow> bool" where
  "spans_within lo n [] \<longleftrightarrow> True"
| "spans_within lo n ((a, b) # xs) \<longleftrightarrow> lo \<le> a \<and> a \<le> b \<and> b \<le> n \<and> spans_within b n xs"

lemma spans_within_mono: "spans_within lo n xs \<Longrightarrow> lo' \<le> lo \<Longrightarrow> spans_within lo' n xs"
  by (cases xs) auto

lemma spans_within_mem: "spans_within lo n xs \<Longrightarrow> (a, b) \<in> set xs \<Longrightarrow> lo \<le> a \<and> a \<le> b \<and> b \<le> n"
proof (induction xs arbitrary: lo)
  case (Cons x xs)
  then show ?case by (cases x) fastforce
qed simp

lemma spans_within_nth:
  "spans_within lo n xs \<Longrightarrow> i < j \<Longrightarrow> j < length xs \<Longrightarrow> snd (xs ! i) \<le> fst (xs ! j)"
proof (induction xs arbitrary: lo i j)
  case (Cons x xs)
  obtain a b where x: "x = (a, b)" by (cases x)
  obtain k where j: "j = Suc k" "k < length xs" using Cons.prems by (cases j) auto
  show ?case
  proof (cases i)
    case 0
    obtain c d where "xs ! k = (c, d)" by (cases "xs ! k")
    moreover from this have "(c, d) \<in> set xs" using j(2) by (metis nth_mem)
    ultimately show ?thesis using Cons.prems(1) 0 x j spans_within_mem [of b n xs c d] by simp
  next
    case (Suc l)
    then show ?thesis using Cons.IH [of b l k] Cons.prems x j by simp
  qed
qed simp

lemma spans_within_total: "spans_within lo n xs \<Longrightarrow> lo \<le> n \<Longrightarrow> lo + (\<Sum>(a, b)\<leftarrow>xs. b - a) \<le> n"
proof (induction xs arbitrary: lo)
  case (Cons x xs)
  obtain a b where "x = (a, b)" by (cases x)
  with Cons show ?case by fastforce
qed simp

text \<open>
  What every scanner promises: the regions it claims lie in the input, in order and disjoint.
  The clients' facts follow once for all scanners.
\<close>

locale segment_scanner =
  fixes scan :: "bytes \<Rightarrow> 'seg list" and span :: "'seg \<Rightarrow> nat \<times> nat"
  assumes scan_spans: "spans_within 0 (length d) (map span (scan d))"
begin

lemma scan_in_bounds:
  assumes "s \<in> set (scan d)"
  shows "fst (span s) \<le> snd (span s) \<and> snd (span s) \<le> length d"
proof -
  have "(fst (span s), snd (span s)) \<in> set (map span (scan d))"
    using assms by force
  then show ?thesis using spans_within_mem [OF scan_spans] by blast
qed

lemma scan_disjoint:
  "i < j \<Longrightarrow> j < length (scan d) \<Longrightarrow> snd (span (scan d ! i)) \<le> fst (span (scan d ! j))"
  using spans_within_nth [OF scan_spans, of i j d] by simp

text \<open>No byte of the input is claimed twice, so the claimed total never exceeds the input.\<close>

lemma scan_total: "(\<Sum>s\<leftarrow>scan d. snd (span s) - fst (span s)) \<le> length d"
proof -
  have "(\<Sum>(a, b)\<leftarrow>map span (scan d). b - a) = (\<Sum>s\<leftarrow>scan d. snd (span s) - fst (span s))"
    by (simp add: o_def case_prod_beta)
  then show ?thesis
    using spans_within_total [OF scan_spans [of d]] by simp
qed

end

end
