(* ===== verification/Evidence.thy ===== *)
theory Evidence
  imports Prelude
begin

text \<open>
  The evidence model (\<open>phx_recovery/src/evidence/mod.rs\<close>): records on the probabilistic,
  logical and suggestion axes, the builder calls that construct them, the emission guard
  \<open>finish\<close>, \<open>can_emit\<close> and the health gate \<open>raises_health\<close>.
  Shown: the guard accepts exactly the records that may be emitted and hold no tautological
  verifier, bits are the saturated sum over the independent verifiers, and health only rises
  on the three bases the model allows.
\<close>

section \<open>Data\<close>

datatype Axis = Probabilistic | Logical | Suggestion

datatype EvidenceClass =
  ExactErasure | AlgebraicIndependent | ExactCopy
| StructuralUnique | StructuralHeuristic | Suggested

record Verifier =
  vf_kind :: string
  vf_width :: u32
  vf_region :: "u64 \<times> u64"

record SolvedAgainst =
  sa_kind :: string
  sa_region :: "u64 \<times> u64"

datatype EvidenceError =
  NoIndependentVerifier | TautologicalVerifier string | UntrustedErasureTarget

record EvidenceRecord =
  er_axis :: Axis
  er_class :: EvidenceClass
  independent_verifiers :: "Verifier list"
  er_solved_against :: "SolvedAgainst list"
  logical_constraints_used :: "string list"
  target_trust :: "string option"
  unique_gate_passed :: bool
  clean_differential :: bool

definition HEALTH_MIN_BITS :: u32 where
  "HEALTH_MIN_BITS = 32"

section \<open>Builders\<close>

definition evidence_base :: "Axis \<Rightarrow> EvidenceClass \<Rightarrow> EvidenceRecord" where
  "evidence_base ax cl =
     \<lparr> er_axis = ax, er_class = cl, independent_verifiers = [], er_solved_against = [],
       logical_constraints_used = [], target_trust = None,
       unique_gate_passed = False, clean_differential = False \<rparr>"

definition exact_erasure :: "string \<Rightarrow> EvidenceRecord" where
  "exact_erasure trust =
     (evidence_base Probabilistic ExactErasure)\<lparr> target_trust := Some trust \<rparr>"

definition algebraic_independent :: EvidenceRecord where
  "algebraic_independent = evidence_base Probabilistic AlgebraicIndependent"

definition exact_copy :: EvidenceRecord where
  "exact_copy = evidence_base Probabilistic ExactCopy"

definition structural_unique :: "bool \<Rightarrow> bool \<Rightarrow> EvidenceRecord" where
  "structural_unique gate clean =
     (evidence_base Logical StructuralUnique)
       \<lparr> unique_gate_passed := gate, clean_differential := clean \<rparr>"

definition structural_heuristic :: EvidenceRecord where
  "structural_heuristic = evidence_base Logical StructuralHeuristic"

definition suggested :: EvidenceRecord where
  "suggested = evidence_base Suggestion Suggested"

definition solved_against :: "string \<Rightarrow> u64 \<times> u64 \<Rightarrow> EvidenceRecord \<Rightarrow> EvidenceRecord" where
  "solved_against kind region r =
     r\<lparr> er_solved_against := er_solved_against r @ [\<lparr> sa_kind = kind, sa_region = region \<rparr>] \<rparr>"

definition verified_by :: "string \<Rightarrow> u32 \<Rightarrow> u64 \<times> u64 \<Rightarrow> EvidenceRecord \<Rightarrow> EvidenceRecord" where
  "verified_by kind width region r =
     r\<lparr> independent_verifiers := independent_verifiers r
          @ [\<lparr> vf_kind = kind, vf_width = width, vf_region = region \<rparr>] \<rparr>"

definition with_constraint :: "string \<Rightarrow> EvidenceRecord \<Rightarrow> EvidenceRecord" where
  "with_constraint c r = r\<lparr> logical_constraints_used := logical_constraints_used r @ [c] \<rparr>"

section \<open>Guards\<close>

text \<open>\<open>u32::saturating_add\<close>.\<close>

definition saturating_add_u32 :: "u32 \<Rightarrow> u32 \<Rightarrow> u32" where
  "saturating_add_u32 a b = (if unat a + unat b < 2 ^ 32 then a + b else 0xFFFFFFFF)"

definition evidence_bits :: "EvidenceRecord \<Rightarrow> u32" where
  "evidence_bits r =
     (case er_axis r of
        Probabilistic \<Rightarrow> foldl saturating_add_u32 0 (map vf_width (independent_verifiers r))
      | Logical \<Rightarrow> 0
      | Suggestion \<Rightarrow> 0)"

definition overlaps :: "u64 \<times> u64 \<Rightarrow> u64 \<times> u64 \<Rightarrow> bool" where
  "overlaps a b \<longleftrightarrow> fst a < snd b \<and> fst b < snd a"

definition tautological :: "EvidenceRecord \<Rightarrow> Verifier \<Rightarrow> bool" where
  "tautological r v \<longleftrightarrow>
     list_ex (\<lambda>s. sa_kind s = vf_kind v \<and> overlaps (sa_region s) (vf_region v))
       (er_solved_against r)"

definition finish :: "EvidenceRecord \<Rightarrow> EvidenceError + EvidenceRecord" where
  "finish r =
     (case find (tautological r) (independent_verifiers r) of
        Some v \<Rightarrow> Inl (TautologicalVerifier (vf_kind v))
      | None \<Rightarrow>
          (case (er_axis r, er_class r) of
             (Probabilistic, ExactErasure) \<Rightarrow>
               if target_trust r = None then Inl UntrustedErasureTarget else Inr r
           | (Probabilistic, _) \<Rightarrow>
               if evidence_bits r = 0 then Inl NoIndependentVerifier else Inr r
           | _ \<Rightarrow> Inr r))"

definition can_emit :: "EvidenceRecord \<Rightarrow> bool" where
  "can_emit r =
     (case er_axis r of
        Probabilistic \<Rightarrow>
          (case er_class r of
             ExactErasure \<Rightarrow> target_trust r \<noteq> None
           | _ \<Rightarrow> 0 < evidence_bits r)
      | Logical \<Rightarrow> True
      | Suggestion \<Rightarrow> True)"

definition raises_health :: "EvidenceRecord \<Rightarrow> bool" where
  "raises_health r =
     (case (er_axis r, er_class r) of
        (Probabilistic, ExactErasure) \<Rightarrow> target_trust r \<noteq> None
      | (Probabilistic, _) \<Rightarrow>
          HEALTH_MIN_BITS \<le> evidence_bits r \<and> independent_verifiers r \<noteq> []
      | (Logical, StructuralUnique) \<Rightarrow> unique_gate_passed r \<and> clean_differential r
      | _ \<Rightarrow> False)"

definition false_accept_bound :: "EvidenceRecord \<Rightarrow> message" where
  "false_accept_bound r =
     (case er_axis r of
        Probabilistic \<Rightarrow>
          (case er_class r of
             ExactErasure \<Rightarrow> Msg ''deterministic (exact erasure under trusted target)'' []
           | _ \<Rightarrow> Msg ''2^-{}'' [N (unat (evidence_bits r))])
      | Logical \<Rightarrow> Msg ''model-incompleteness (empirical: 0 on corpus)'' []
      | Suggestion \<Rightarrow> Msg ''suggestion - not a correctness claim'' [])"

section \<open>Bits\<close>

lemma unat_saturating_add:
  "unat (saturating_add_u32 a b) = min (unat a + unat b) (2 ^ 32 - 1)"
proof (cases "unat a + unat b < 2 ^ 32")
  case True
  then show ?thesis
    by (simp add: saturating_add_u32_def unat_word_ariths)
next
  case False
  have "unat (0xFFFFFFFF :: u32) = 2 ^ 32 - 1" by simp
  with False show ?thesis by (simp add: saturating_add_u32_def)
qed

lemma unat_foldl_saturating:
  "unat (foldl saturating_add_u32 a ws) = min (unat a + sum_list (map unat ws)) (2 ^ 32 - 1)"
proof (induction ws arbitrary: a)
  case Nil
  have "unat a < 2 ^ LENGTH(32)" by (rule unsigned_less)
  then show ?case by simp
next
  case (Cons w ws)
  then show ?case by (simp add: unat_saturating_add)
qed

lemma unat_evidence_bits:
  "er_axis r = Probabilistic \<Longrightarrow>
    unat (evidence_bits r)
      = min (\<Sum>v\<leftarrow>independent_verifiers r. unat (vf_width v)) (2 ^ 32 - 1)"
  by (simp add: evidence_bits_def unat_foldl_saturating o_def)

lemma find_tautological_None:
  "find (tautological r) vs = None \<longleftrightarrow> (\<forall>v\<in>set vs. \<not> tautological r v)"
  by (auto simp: find_None_iff)

lemma finish_cases:
  "finish r =
     (if \<exists>v\<in>set (independent_verifiers r). tautological r v
      then Inl (TautologicalVerifier
        (vf_kind (hd [v \<leftarrow> independent_verifiers r. tautological r v])))
      else if can_emit r then Inr r
      else if er_class r = ExactErasure then Inl UntrustedErasureTarget
      else Inl NoIndependentVerifier)"
proof (cases "find (tautological r) (independent_verifiers r)")
  case None
  then have no: "\<not> (\<exists>v\<in>set (independent_verifiers r). tautological r v)"
    by (simp add: find_tautological_None)
  have nz: "0 < evidence_bits r \<longleftrightarrow> evidence_bits r \<noteq> 0" by (simp add: word_gt_0)
  show ?thesis unfolding if_not_P [OF no]
    using None by (cases "er_axis r"; cases "er_class r")
      (simp_all add: finish_def can_emit_def nz)
next
  case (Some v)
  then have "v = hd [v \<leftarrow> independent_verifiers r. tautological r v]"
    and "\<exists>v\<in>set (independent_verifiers r). tautological r v"
    by (auto dest: find_SomeD simp: find_hd_filter)
  with Some show ?thesis by (simp add: finish_def)
qed

lemma finish_Inr_iff:
  "finish r = Inr r' \<longleftrightarrow>
    r' = r \<and> can_emit r \<and> \<not> (\<exists>v\<in>set (independent_verifiers r). tautological r v)"
  by (auto simp: finish_cases)

lemma raises_health_can_emit: "raises_health r \<Longrightarrow> can_emit r"
  by (cases "er_axis r"; cases "er_class r")
    (auto simp: raises_health_def can_emit_def HEALTH_MIN_BITS_def word_le_nat_alt word_less_nat_alt)

text \<open>
  The emission guard \<open>finish\<close> returns a record exactly when the record may be emitted
  and none of its verifiers coincides with a target it was solved against; it returns the
  record unchanged, and each of its errors names the reason.
\<close>

theorem finish_accepts_iff_emittable:
  "finish r =
     (if \<exists>v\<in>set (independent_verifiers r). tautological r v
      then Inl (TautologicalVerifier
        (vf_kind (hd [v \<leftarrow> independent_verifiers r. tautological r v])))
      else if can_emit r then Inr r
      else if er_class r = ExactErasure then Inl UntrustedErasureTarget
      else Inl NoIndependentVerifier)"
  by (rule finish_cases)

section \<open>Sequences of builder calls\<close>

text \<open>The calls a client chains onto a base record, in any order.\<close>

datatype builder_call =
  SolvedCall string "u64 \<times> u64"
| VerifiedCall string u32 "u64 \<times> u64"
| ConstraintCall string

primrec builder_step :: "EvidenceRecord \<Rightarrow> builder_call \<Rightarrow> EvidenceRecord" where
  "builder_step r (SolvedCall k reg) = solved_against k reg r"
| "builder_step r (VerifiedCall k w reg) = verified_by k w reg r"
| "builder_step r (ConstraintCall c) = with_constraint c r"

definition built_by :: "EvidenceRecord \<Rightarrow> builder_call list \<Rightarrow> EvidenceRecord" where
  "built_by r cs = foldl builder_step r cs"

fun call_width :: "builder_call \<Rightarrow> nat" where
  "call_width (VerifiedCall k w reg) = unat w"
| "call_width c = 0"

text \<open>A verification call that repeats a target some call says was solved against.\<close>

fun repeats_target :: "builder_call \<Rightarrow> builder_call \<Rightarrow> bool" where
  "repeats_target (VerifiedCall k w reg) (SolvedCall k' reg') \<longleftrightarrow> k' = k \<and> overlaps reg' reg"
| "repeats_target c c' \<longleftrightarrow> False"

lemma repeats_target_iff:
  "repeats_target c c' \<longleftrightarrow>
    (\<exists>k w reg reg'. c = VerifiedCall k w reg \<and> c' = SolvedCall k reg' \<and> overlaps reg' reg)"
  by (cases c; cases c') auto

lemmas builder_defs = solved_against_def verified_by_def with_constraint_def

lemma built_by_simps [simp]:
  "built_by r [] = r" "built_by r (c # cs) = built_by (builder_step r c) cs"
  by (simp_all add: built_by_def)

lemma builder_step_kind [simp]:
  "er_axis (builder_step r c) = er_axis r" "er_class (builder_step r c) = er_class r"
  "target_trust (builder_step r c) = target_trust r"
  "unique_gate_passed (builder_step r c) = unique_gate_passed r"
  "clean_differential (builder_step r c) = clean_differential r"
  by (cases c; simp add: builder_defs)+

lemma built_by_kind [simp]:
  "er_axis (built_by r cs) = er_axis r" "er_class (built_by r cs) = er_class r"
  "target_trust (built_by r cs) = target_trust r"
  "unique_gate_passed (built_by r cs) = unique_gate_passed r"
  "clean_differential (built_by r cs) = clean_differential r"
  by (induction cs arbitrary: r) simp_all

lemma built_by_widths:
  "(\<Sum>v\<leftarrow>independent_verifiers (built_by r cs). unat (vf_width v))
    = (\<Sum>v\<leftarrow>independent_verifiers r. unat (vf_width v)) + (\<Sum>c\<leftarrow>cs. call_width c)"
proof (induction cs arbitrary: r)
  case (Cons c cs)
  then show ?case by (cases c) (simp_all add: builder_defs)
qed simp

lemma built_by_verifiers:
  "set (independent_verifiers (built_by r cs)) = set (independent_verifiers r)
    \<union> {\<lparr> vf_kind = k, vf_width = w, vf_region = reg \<rparr> | k w reg. VerifiedCall k w reg \<in> set cs}"
proof (induction cs arbitrary: r)
  case (Cons c cs)
  then show ?case by (cases c) (auto simp: builder_defs)
qed simp

lemma built_by_solved:
  "set (er_solved_against (built_by r cs)) = set (er_solved_against r)
    \<union> {\<lparr> sa_kind = k, sa_region = reg \<rparr> | k reg. SolvedCall k reg \<in> set cs}"
proof (induction cs arbitrary: r)
  case (Cons c cs)
  then show ?case by (cases c) (auto simp: builder_defs)
qed simp

lemma built_tautological:
  assumes "independent_verifiers r = []" "er_solved_against r = []"
  shows "(\<exists>v\<in>set (independent_verifiers (built_by r cs)). tautological (built_by r cs) v)
    \<longleftrightarrow> (\<exists>c\<in>set cs. \<exists>c'\<in>set cs. repeats_target c c')"
proof -
  have "(\<exists>v\<in>set (independent_verifiers (built_by r cs)). tautological (built_by r cs) v)
    \<longleftrightarrow> (\<exists>k w reg reg'. VerifiedCall k w reg \<in> set cs \<and> SolvedCall k reg' \<in> set cs
          \<and> overlaps reg' reg)"
    using assms by (fastforce simp: tautological_def list_ex_iff built_by_verifiers built_by_solved)
  also have "\<dots> \<longleftrightarrow> (\<exists>c\<in>set cs. \<exists>c'\<in>set cs. repeats_target c c')"
    unfolding repeats_target_iff by blast
  finally show ?thesis .
qed

lemma raises_health_probabilistic:
  assumes "er_axis r = Probabilistic" "er_class r \<noteq> ExactErasure"
  shows "raises_health r \<longleftrightarrow> 32 \<le> (\<Sum>v\<leftarrow>independent_verifiers r. unat (vf_width v))"
proof -
  have "HEALTH_MIN_BITS \<le> evidence_bits r
    \<longleftrightarrow> 32 \<le> (\<Sum>v\<leftarrow>independent_verifiers r. unat (vf_width v))"
    using assms by (simp add: word_le_nat_alt HEALTH_MIN_BITS_def unat_evidence_bits)
  with assms show ?thesis
    by (cases "er_class r") (auto simp: raises_health_def)
qed

text \<open>
  C30. The tautology rule and the health gate over whole histories: whatever sequence of builder
  calls is chained onto an algebraic candidate, in whatever order, the guarded record is
  accepted and raises health exactly when no verification call repeats a target the
  candidate was solved against and the verification calls carry at least 32 bits between
  them. Calls that record a solved-against target never contribute a bit.
\<close>

theorem health_needs_independent_bits:
  "(\<exists>r. finish (built_by algebraic_independent cs) = Inr r \<and> raises_health r)
    \<longleftrightarrow> (\<forall>c\<in>set cs. \<forall>c'\<in>set cs. \<not> repeats_target c c') \<and> 32 \<le> (\<Sum>c\<leftarrow>cs. call_width c)"
proof -
  let ?r = "built_by algebraic_independent cs"
  have kind: "er_axis ?r = Probabilistic" "er_class ?r = AlgebraicIndependent"
    by (simp_all add: algebraic_independent_def evidence_base_def)
  have health: "raises_health ?r \<longleftrightarrow> 32 \<le> (\<Sum>c\<leftarrow>cs. call_width c)"
    using kind built_by_widths [of algebraic_independent cs]
    by (simp add: raises_health_probabilistic) (simp add: algebraic_independent_def evidence_base_def)
  have "(\<exists>r. finish ?r = Inr r \<and> raises_health r) \<longleftrightarrow>
    \<not> (\<exists>v\<in>set (independent_verifiers ?r). tautological ?r v) \<and> raises_health ?r"
    using finish_Inr_iff [of ?r] raises_health_can_emit [of ?r] by auto
  also have "\<dots> \<longleftrightarrow> (\<forall>c\<in>set cs. \<forall>c'\<in>set cs. \<not> repeats_target c c') \<and> 32 \<le> (\<Sum>c\<leftarrow>cs. call_width c)"
    using built_tautological [of algebraic_independent cs] health
    by (simp add: algebraic_independent_def evidence_base_def)
  finally show ?thesis .
qed

theorem health_needs_independent_bits_witness:
  "\<exists>r. finish (built_by algebraic_independent
      [SolvedCall ''Adler-32'' (0, 100), VerifiedCall ''CRC-32/ISO-HDLC'' 32 (0, 100)]) = Inr r
    \<and> raises_health r"
  by (subst health_needs_independent_bits) simp

end
