(* ===== verification/Resync.thy ===== *)
theory Resync
  imports Prelude
begin

text \<open>
  The salvage result shared by the exact-recovery scanners (\<open>phx_recovery/src/resync/mod.rs\<close>)
  and the stored-block scanner for raw DEFLATE (\<open>resync/deflate.rs\<close>).
  Shown: the tallies of a salvage result agree with its segments, and the stored-block scan
  finds in-bounds, ordered, disjoint blocks whose payload is copied verbatim.
\<close>

section \<open>Segments and salvage results\<close>

datatype SegmentKind =
  VerifiedGzipMember | VerifiedTarMember | StoredBlockSalvage | PartialInflate

definition is_verified :: "SegmentKind \<Rightarrow> bool" where
  "is_verified k \<longleftrightarrow> k = VerifiedGzipMember \<or> k = VerifiedTarMember"

record Segment =
  seg_kind :: SegmentKind
  seg_name :: "string option"
  source_offset :: nat
  source_end :: nat
  seg_bytes :: bytes
  seg_note :: message

definition seg_verified :: "Segment \<Rightarrow> bool" where
  "seg_verified s = is_verified (seg_kind s)"

record SalvageResult =
  sr_format :: string
  segments :: "Segment list"
  members_total :: nat
  members_verified :: nat
  verified_bytes :: nat
  unverified_bytes :: nat
  sr_warnings :: "message list"

definition salvage_new :: "string \<Rightarrow> SalvageResult" where
  "salvage_new fmt =
     \<lparr> sr_format = fmt, segments = [], members_total = 0, members_verified = 0,
       verified_bytes = 0, unverified_bytes = 0, sr_warnings = [] \<rparr>"

definition salvage_push :: "SalvageResult \<Rightarrow> Segment \<Rightarrow> SalvageResult" where
  "salvage_push res seg =
     (if seg_verified seg
      then res\<lparr> verified_bytes := verified_bytes res + length (seg_bytes seg),
                members_verified := members_verified res + 1,
                segments := segments res @ [seg] \<rparr>
      else res\<lparr> unverified_bytes := unverified_bytes res + length (seg_bytes seg),
                segments := segments res @ [seg] \<rparr>)"

definition verified_payload :: "SalvageResult \<Rightarrow> bytes" where
  "verified_payload res = concat (map seg_bytes (filter seg_verified (segments res)))"

text \<open>\<open>res.warnings.push(..)\<close>.\<close>

definition salvage_warn :: "SalvageResult \<Rightarrow> message \<Rightarrow> SalvageResult" where
  "salvage_warn res m = res\<lparr> sr_warnings := sr_warnings res @ [m] \<rparr>"

text \<open>The tallies say what the segments say.\<close>

definition tallies_ok :: "SalvageResult \<Rightarrow> bool" where
  "tallies_ok res \<longleftrightarrow>
     members_verified res = length (filter seg_verified (segments res))
   \<and> verified_bytes res = length (verified_payload res)
   \<and> unverified_bytes res
       = (\<Sum>s\<leftarrow>filter (\<lambda>s. \<not> seg_verified s) (segments res). length (seg_bytes s))"

lemma tallies_new [simp]: "tallies_ok (salvage_new f)"
  by (simp add: tallies_ok_def salvage_new_def verified_payload_def)

lemma tallies_push [simp]: "tallies_ok res \<Longrightarrow> tallies_ok (salvage_push res s)"
  by (simp add: tallies_ok_def salvage_push_def verified_payload_def)

lemma tallies_warn [simp]: "tallies_ok (salvage_warn res m) = tallies_ok res"
  by (simp add: tallies_ok_def salvage_warn_def verified_payload_def)

lemma tallies_total [simp]: "tallies_ok (res\<lparr> members_total := n \<rparr>) = tallies_ok res"
  by (simp add: tallies_ok_def verified_payload_def)

lemma segments_simps [simp]:
  "segments (salvage_new f) = []"
  "segments (salvage_push res s) = segments res @ [s]"
  "segments (salvage_warn res m) = segments res"
  by (simp_all add: salvage_new_def salvage_push_def salvage_warn_def)

lemma members_total_simps [simp]:
  "members_total (salvage_new f) = 0"
  "members_total (salvage_push res s) = members_total res"
  "members_total (salvage_warn res m) = members_total res"
  by (simp_all add: salvage_new_def salvage_push_def salvage_warn_def)

lemma sr_format_simps [simp]:
  "sr_format (salvage_new f) = f"
  "sr_format (salvage_push res s) = sr_format res"
  "sr_format (salvage_warn res m) = sr_format res"
  by (simp_all add: salvage_new_def salvage_push_def salvage_warn_def)

section \<open>Stored blocks\<close>

record StoredBlock =
  header_offset :: nat
  sb_len :: nat
  sb_payload :: bytes

definition MIN_STORED_LEN :: nat where
  "MIN_STORED_LEN = 8"

text \<open>The body of the scan's loop at \<open>i\<close>: the block that qualifies there, if any.\<close>

definition stored_block_at :: "bytes \<Rightarrow> nat \<Rightarrow> StoredBlock option" where
  "stored_block_at data i =
     (let len = u16_at data i; nlen = u16_at data (i + 2);
          payload_start = i + 4; payload_end = payload_start + unat len in
      if xor len nlen = 0xFFFF \<and> MIN_STORED_LEN \<le> unat len \<and> payload_end \<le> length data
      then Some \<lparr> header_offset = i, sb_len = unat len,
                  sb_payload = cut data payload_start payload_end \<rparr>
      else None)"

function scan_stored_from :: "bytes \<Rightarrow> nat \<Rightarrow> StoredBlock list" where
  "scan_stored_from data i =
     (if i + 4 \<le> length data then
        (case stored_block_at data i of
           Some b \<Rightarrow> b # scan_stored_from data (i + 4 + sb_len b)
         | None \<Rightarrow> scan_stored_from data (i + 1))
      else [])"
  by pat_completeness auto
termination by (relation "measure (\<lambda>(data, i). length data - i)") auto

declare scan_stored_from.simps [simp del]

definition scan_stored_blocks :: "bytes \<Rightarrow> StoredBlock list" where
  "scan_stored_blocks data =
     (if length data < 4 + MIN_STORED_LEN then [] else scan_stored_from data 0)"

definition stored_block_bytes :: "bytes \<Rightarrow> nat" where
  "stored_block_bytes data = (\<Sum>b\<leftarrow>scan_stored_blocks data. sb_len b)"

definition stored_span :: "StoredBlock \<Rightarrow> nat \<times> nat" where
  "stored_span b = (header_offset b, header_offset b + 4 + sb_len b)"

lemma stored_block_at_Some:
  "stored_block_at data i = Some b \<Longrightarrow>
    header_offset b = i \<and> i + 4 + sb_len b \<le> length data \<and> MIN_STORED_LEN \<le> sb_len b
    \<and> sb_payload b = cut data (i + 4) (i + 4 + sb_len b)
    \<and> xor (u16_at data i) (u16_at data (i + 2)) = 0xFFFF \<and> sb_len b = unat (u16_at data i)"
  by (auto simp: stored_block_at_def Let_def split: if_splits)

lemma scan_stored_from_spans:
  "spans_within i (length data) (map stored_span (scan_stored_from data i))"
proof (induction data i rule: scan_stored_from.induct)
  case (1 data i)
  show ?case
  proof (cases "i + 4 \<le> length data")
    case False
    then show ?thesis by (simp add: scan_stored_from.simps [of data i])
  next
    case True
    show ?thesis
    proof (cases "stored_block_at data i")
      case None
      with 1 True have "spans_within (i + 1) (length data)
        (map stored_span (scan_stored_from data (i + 1)))" by blast
      with None True show ?thesis
        by (auto simp: scan_stored_from.simps [of data i] intro: spans_within_mono)
    next
      case (Some b)
      with 1 True have "spans_within (i + 4 + sb_len b) (length data)
        (map stored_span (scan_stored_from data (i + 4 + sb_len b)))" by blast
      with Some True stored_block_at_Some [OF Some] show ?thesis
        by (simp add: scan_stored_from.simps [of data i] stored_span_def [of b])
    qed
  qed
qed

interpretation stored_scan: segment_scanner scan_stored_blocks stored_span
  by unfold_locales (simp add: scan_stored_blocks_def scan_stored_from_spans)

lemma scan_stored_from_mem:
  "b \<in> set (scan_stored_from data i) \<Longrightarrow> stored_block_at data (header_offset b) = Some b"
proof (induction data i rule: scan_stored_from.induct)
  case (1 data i)
  show ?case
  proof (cases "i + 4 \<le> length data")
    case True
    then show ?thesis
      using 1 stored_block_at_Some [of data i]
      by (cases "stored_block_at data i") (auto simp: scan_stored_from.simps [of data i])
  qed (use 1(3) in \<open>simp add: scan_stored_from.simps [of data i]\<close>)
qed

text \<open>A scan that starts at a qualifying block takes that block first.\<close>

lemma scan_stored_from_hit:
  "i + 4 \<le> length data \<Longrightarrow> stored_block_at data i = Some b \<Longrightarrow>
    scan_stored_from data i = b # scan_stored_from data (i + 4 + sb_len b)"
  by (simp add: scan_stored_from.simps [of data i])

text \<open>The bytes of a stored block: \<open>LEN\<close>, its complement, the payload.\<close>

definition stored_encode :: "bytes \<Rightarrow> bytes" where
  "stored_encode p = to_le 2 (length p) @ to_le 2 (0xFFFF - length p) @ p"

definition storable :: "bytes \<Rightarrow> bool" where
  "storable p \<longleftrightarrow> MIN_STORED_LEN \<le> length p \<and> length p < 2 ^ 16"

lemma length_stored_encode [simp]: "length (stored_encode p) = 4 + length p"
  by (simp add: stored_encode_def)

lemma complement_u16:
  assumes "n < 2 ^ 16"
  shows "xor (of_nat n) (of_nat (0xFFFF - n)) = (0xFFFF :: u16)"
proof -
  have ff: "(0xFFFF :: u16) = - 1" by (simp add: eq_neg_iff_add_eq_0)
  have "(of_nat (0xFFFF - n) :: u16) = 0xFFFF - of_nat n"
    using assms by (simp add: of_nat_diff)
  also have "\<dots> = - of_nat n - 1"
    unfolding ff by (simp only: diff_conv_add_uminus add.commute)
  also have "\<dots> = not (of_nat n)" by (simp only: not_eq_complement)
  finally show ?thesis by (simp add: ff)
qed

lemma stored_encode_fields:
  assumes "length p < 2 ^ 16"
  shows "u16_at (stored_encode p @ rest) 0 = of_nat (length p)"
    and "u16_at (stored_encode p @ rest) 2 = of_nat (0xFFFF - length p)"
    and "cut (stored_encode p @ rest) 4 (4 + length p) = p"
  using assms
  by (simp_all add: stored_encode_def u16_at_def cut_append_left cut_append_right cut_0 le_nat_to_le)

lemma stored_block_at_encode:
  assumes "storable p"
  shows "stored_block_at (pre @ stored_encode p @ rest) (length pre)
    = Some \<lparr> header_offset = length pre, sb_len = length p, sb_payload = p \<rparr>"
proof -
  let ?d = "stored_encode p @ rest"
  have lt: "length p < 2 ^ 16" using assms by (simp add: storable_def)
  have "u16_at (pre @ ?d) (length pre) = of_nat (length p)"
    using word_at_append(1) [of pre ?d 0] stored_encode_fields(1) [OF lt] by simp
  moreover have "u16_at (pre @ ?d) (length pre + 2) = of_nat (0xFFFF - length p)"
    using word_at_append(1) [of pre ?d 2] stored_encode_fields(2) [OF lt] by simp
  moreover have "cut (pre @ ?d) (length pre + 4) (length pre + 4 + length p) = p"
    using stored_encode_fields(3) [OF lt] by (simp add: cut_append_right)
  moreover have "unat (of_nat (length p) :: u16) = length p"
    using lt by (simp add: unat_of_nat take_bit_eq_mod)
  ultimately show ?thesis
    using assms complement_u16 [OF lt] by (simp add: stored_block_at_def Let_def storable_def)
qed

lemma scan_stored_from_encoded:
  "list_all storable ps \<Longrightarrow>
    map sb_payload (scan_stored_from (pre @ concat (map stored_encode ps)) (length pre)) = ps"
proof (induction ps arbitrary: pre)
  case Nil
  then show ?case by (simp add: scan_stored_from.simps)
next
  case (Cons p ps)
  let ?rest = "concat (map stored_encode ps)"
  have "map sb_payload (scan_stored_from ((pre @ stored_encode p) @ ?rest)
    (length (pre @ stored_encode p))) = ps"
    using Cons.IH [of "pre @ stored_encode p"] Cons.prems by simp
  moreover have "stored_block_at (pre @ stored_encode p @ ?rest) (length pre)
    = Some \<lparr> header_offset = length pre, sb_len = length p, sb_payload = p \<rparr>"
    using Cons.prems by (simp add: stored_block_at_encode)
  ultimately show ?case
    by (simp add: scan_stored_from_hit ac_simps)
qed

text \<open>
  A DEFLATE byte stream made of back-to-back stored blocks is salvaged completely: the scan
  returns exactly the payloads of the blocks, in order, provided each payload is at least
  as long as the trust floor and fits the 16-bit length field.
\<close>

theorem scan_stored_blocks_roundtrip:
  assumes "list_all storable ps"
  shows "map sb_payload (scan_stored_blocks (concat (map stored_encode ps))) = ps"
proof (cases "length (concat (map stored_encode ps)) < 4 + MIN_STORED_LEN")
  case True
  then have "ps = []" using assms by (cases ps) (auto simp: storable_def)
  then show ?thesis by (simp add: scan_stored_blocks_def MIN_STORED_LEN_def)
next
  case False
  then show ?thesis
    using scan_stored_from_encoded [OF assms, of "[]"] by (simp add: scan_stored_blocks_def)
qed

theorem scan_stored_blocks_roundtrip_witness:
  "map sb_payload (scan_stored_blocks (concat (map stored_encode
      [[1, 2, 3, 4, 5, 6, 7, 8], [9, 9, 9, 9, 9, 9, 9, 9, 9]])))
    = [[1, 2, 3, 4, 5, 6, 7, 8], [9, 9, 9, 9, 9, 9, 9, 9, 9]]"
  by (rule scan_stored_blocks_roundtrip) (simp add: storable_def MIN_STORED_LEN_def)

text \<open>
  On any input the stored-block scan stays honest: every block it reports satisfies the
  complement check and the length floor, its payload is the verbatim bytes that follow its
  header, and blocks are disjoint, so the salvaged total never exceeds the input.
\<close>

theorem scan_stored_blocks_sound:
  "(\<Sum>b\<leftarrow>scan_stored_blocks d. 4 + sb_len b) \<le> length d
   \<and> list_all (\<lambda>b. stored_block_at d (header_offset b) = Some b
        \<and> sb_payload b = cut d (header_offset b + 4) (header_offset b + 4 + sb_len b)
        \<and> length (sb_payload b) = sb_len b \<and> MIN_STORED_LEN \<le> sb_len b) (scan_stored_blocks d)"
proof
  have "(\<Sum>b\<leftarrow>scan_stored_blocks d. 4 + sb_len b)
    = (\<Sum>b\<leftarrow>scan_stored_blocks d. snd (stored_span b) - fst (stored_span b))"
    by (simp add: stored_span_def)
  then show "(\<Sum>b\<leftarrow>scan_stored_blocks d. 4 + sb_len b) \<le> length d"
    using stored_scan.scan_total [of d] by simp
  show "list_all (\<lambda>b. stored_block_at d (header_offset b) = Some b
        \<and> sb_payload b = cut d (header_offset b + 4) (header_offset b + 4 + sb_len b)
        \<and> length (sb_payload b) = sb_len b \<and> MIN_STORED_LEN \<le> sb_len b) (scan_stored_blocks d)"
    unfolding list_all_iff
  proof
    fix b assume "b \<in> set (scan_stored_blocks d)"
    then have "stored_block_at d (header_offset b) = Some b"
      by (auto simp: scan_stored_blocks_def dest: scan_stored_from_mem split: if_splits)
    then show "stored_block_at d (header_offset b) = Some b
        \<and> sb_payload b = cut d (header_offset b + 4) (header_offset b + 4 + sb_len b)
        \<and> length (sb_payload b) = sb_len b \<and> MIN_STORED_LEN \<le> sb_len b"
      using stored_block_at_Some [of d "header_offset b" b] by auto
  qed
qed

end
