(* ===== verification/Rust_Text.thy ===== *)
theory Rust_Text
  imports Prelude
begin

text \<open>
  The parts of Rust's standard library for text that the parsers use: UTF-8 validity and
  \<open>String::from_utf8_lossy\<close> (a \<open>String\<close> is the list of its UTF-8 bytes, as characters),
  \<open>u64::from_str_radix(_, 8)\<close>, \<open>split\<close> on NUL and space and at slashes, and \<open>format!("{:0wo}")\<close>.
  Shown: a valid string survives lossy decoding unchanged, and formatting a number in octal
  and parsing the field back gives the number.
\<close>

section \<open>Bytes and characters\<close>

definition char_of_byte :: "u8 \<Rightarrow> char" where
  "char_of_byte b = char_of (unat b)"

definition byte_of_char :: "char \<Rightarrow> u8" where
  "byte_of_char c = of_nat (of_char c)"

text \<open>\<open>s.as_bytes()\<close>, and a byte-string literal \<open>b"..."\<close>.\<close>

definition str_bytes :: "string \<Rightarrow> bytes" where
  "str_bytes s = map byte_of_char s"

lemma byte_of_char_of_byte [simp]: "byte_of_char (char_of_byte b) = b"
proof -
  have "unat b < 2 ^ LENGTH(8)" by (rule unsigned_less)
  then have "of_char (char_of (unat b)) = unat b" by simp
  then show ?thesis by (simp add: byte_of_char_def char_of_byte_def)
qed

lemma char_of_byte_of_char [simp]: "char_of_byte (byte_of_char c) = c"
proof -
  have "unat (of_nat (of_char c) :: u8) = of_char c mod 256"
    by (simp add: unat_of_nat take_bit_eq_mod)
  then show ?thesis by (simp add: byte_of_char_def char_of_byte_def)
qed

lemma length_str_bytes [simp]: "length (str_bytes s) = length s"
  by (simp add: str_bytes_def)

lemma map_char_str_bytes [simp]: "map char_of_byte (str_bytes s) = s"
  by (simp add: str_bytes_def o_def)

section \<open>UTF-8\<close>

definition is_cont :: "u8 \<Rightarrow> bool" where
  "is_cont b \<longleftrightarrow> 0x80 \<le> b \<and> b \<le> 0xBF"

definition byte_or_zero :: "bytes \<Rightarrow> nat \<Rightarrow> u8" where
  "byte_or_zero bs i = (if i < length bs then bs ! i else 0)"

text \<open>The next chunk of \<open>Utf8Chunks\<close>: is it a well-formed scalar, and how many bytes it takes.\<close>

definition utf8_step :: "bytes \<Rightarrow> bool \<times> nat" where
  "utf8_step bs =
     (let b0 = byte_or_zero bs 0; b1 = byte_or_zero bs 1;
          b2 = byte_or_zero bs 2; b3 = byte_or_zero bs 3 in
      if b0 < 0x80 then (True, 1)
      else if 0xC2 \<le> b0 \<and> b0 \<le> 0xDF then (if is_cont b1 then (True, 2) else (False, 1))
      else if 0xE0 \<le> b0 \<and> b0 \<le> 0xEF then
        (if \<not> (if b0 = 0xE0 then 0xA0 \<le> b1 \<and> b1 \<le> 0xBF
               else if b0 = 0xED then 0x80 \<le> b1 \<and> b1 \<le> 0x9F
               else is_cont b1) then (False, 1)
         else if is_cont b2 then (True, 3) else (False, 2))
      else if 0xF0 \<le> b0 \<and> b0 \<le> 0xF4 then
        (if \<not> (if b0 = 0xF0 then 0x90 \<le> b1 \<and> b1 \<le> 0xBF
               else if b0 = 0xF4 then 0x80 \<le> b1 \<and> b1 \<le> 0x8F
               else is_cont b1) then (False, 1)
         else if \<not> is_cont b2 then (False, 2)
         else if is_cont b3 then (True, 4) else (False, 3))
      else (False, 1))"

lemma utf8_step_pos: "0 < snd (utf8_step bs)"
  by (simp add: utf8_step_def Let_def)

definition utf8_replacement :: string where
  "utf8_replacement = map char_of_byte [0xEF, 0xBF, 0xBD]"

function from_utf8_lossy :: "bytes \<Rightarrow> string" where
  "from_utf8_lossy bs =
     (if bs = [] then []
      else (case utf8_step bs of (ok, n) \<Rightarrow>
        (if ok then map char_of_byte (take n bs) else utf8_replacement)
          @ from_utf8_lossy (drop n bs)))"
  by pat_completeness auto
termination
proof (relation "measure length")
  fix bs :: bytes and ok n
  assume "bs \<noteq> []" "(ok, n) = utf8_step bs"
  then have "0 < n" using utf8_step_pos [of bs] by (metis snd_conv)
  with \<open>bs \<noteq> []\<close> show "(drop n bs, bs) \<in> measure length" by simp
qed simp

function utf8_valid :: "bytes \<Rightarrow> bool" where
  "utf8_valid bs =
     (if bs = [] then True
      else (case utf8_step bs of (ok, n) \<Rightarrow> ok \<and> utf8_valid (drop n bs)))"
  by pat_completeness auto
termination
proof (relation "measure length")
  fix bs :: bytes and ok n
  assume "bs \<noteq> []" "(ok, n) = utf8_step bs"
  then have "0 < n" using utf8_step_pos [of bs] by (metis snd_conv)
  with \<open>bs \<noteq> []\<close> show "(drop n bs, bs) \<in> measure length" by simp
qed simp

declare from_utf8_lossy.simps [simp del] utf8_valid.simps [simp del]

lemma from_utf8_lossy_Nil [simp]: "from_utf8_lossy [] = []"
  by (simp add: from_utf8_lossy.simps)

lemma from_utf8_lossy_valid: "utf8_valid bs \<Longrightarrow> from_utf8_lossy bs = map char_of_byte bs"
proof (induction bs rule: utf8_valid.induct)
  case (1 bs)
  show ?case
  proof (cases "bs = []")
    case False
    obtain ok n where st: "utf8_step bs = (ok, n)" by (cases "utf8_step bs")
    from 1(2) False st have "ok" and v: "utf8_valid (drop n bs)"
      by (simp_all add: utf8_valid.simps [of bs])
    from 1(1) [OF False st [symmetric] v]
    have "from_utf8_lossy (drop n bs) = map char_of_byte (drop n bs)" .
    with False st \<open>ok\<close> show ?thesis
      by (simp add: from_utf8_lossy.simps [of bs] map_append [symmetric] del: map_append)
  qed simp
qed

text \<open>ASCII text is valid UTF-8.\<close>

lemma utf8_valid_ascii: "list_all (\<lambda>b. b < 0x80) bs \<Longrightarrow> utf8_valid bs"
proof (induction bs)
  case Nil
  then show ?case by (simp add: utf8_valid.simps)
next
  case (Cons b bs)
  then have "utf8_step (b # bs) = (True, 1)" by (simp add: utf8_step_def byte_or_zero_def Let_def)
  with Cons show ?case by (simp add: utf8_valid.simps [of "b # bs"])
qed

section \<open>Octal fields\<close>

definition octal_digit :: "u8 \<Rightarrow> nat option" where
  "octal_digit b = (if 0x30 \<le> b \<and> b \<le> 0x37 then Some (unat b - 48) else None)"

primrec octal_value :: "bytes \<Rightarrow> nat \<Rightarrow> nat option" where
  "octal_value [] acc = Some acc"
| "octal_value (b # bs) acc =
     (case octal_digit b of
        None \<Rightarrow> None
      | Some d \<Rightarrow> if acc * 8 + d < 2 ^ 64 then octal_value bs (acc * 8 + d) else None)"

text \<open>
  \<open>u64::from_str_radix(std::str::from_utf8(s).ok()?, 8).ok()\<close>: empty input and a lone sign are
  errors, one leading plus sign is accepted, every other byte must be an octal digit (so a
  string that is not UTF-8 fails either way), and overflow is an error.
\<close>

definition from_str_radix_8 :: "bytes \<Rightarrow> nat option" where
  "from_str_radix_8 s =
     (if s = [] then None
      else if s = [0x2B] \<or> s = [0x2D] then None
      else if hd s = 0x2B then octal_value (tl s) 0
      else octal_value s 0)"

definition is_octal_sep :: "u8 \<Rightarrow> bool" where
  "is_octal_sep b \<longleftrightarrow> b = 0 \<or> b = 0x20"

fun to_octal :: "nat \<Rightarrow> bytes" where
  "to_octal n = (if n < 8 then [of_nat (48 + n)] else to_octal (n div 8) @ [of_nat (48 + n mod 8)])"

declare to_octal.simps [simp del]

text \<open>\<open>format!("{n:0w$o}")\<close>.\<close>

definition format_octal :: "nat \<Rightarrow> nat \<Rightarrow> bytes" where
  "format_octal w n = replicate (w - length (to_octal n)) 0x30 @ to_octal n"

lemma unat_octal_digit: "d < 8 \<Longrightarrow> unat (of_nat (48 + d) :: u8) = 48 + d"
  by (simp add: unat_of_nat take_bit_eq_mod del: of_nat_add)

lemma octal_digit_of_nat: "d < 8 \<Longrightarrow> octal_digit (of_nat (48 + d)) = Some d"
proof -
  assume "d < 8"
  then have "unat (of_nat (48 + d) :: u8) = 48 + d" by (rule unat_octal_digit)
  with \<open>d < 8\<close> show ?thesis by (simp add: octal_digit_def word_le_nat_alt del: of_nat_add)
qed

lemma octal_value_append:
  "octal_value (xs @ ys) acc = Option.bind (octal_value xs acc) (octal_value ys)"
  by (induction xs arbitrary: acc) (auto split: option.splits)

lemma octal_value_to_octal: "n < 2 ^ 64 \<Longrightarrow> octal_value (to_octal n) 0 = Some n"
proof (induction n rule: to_octal.induct)
  case (1 n)
  show ?case
  proof (cases "n < 8")
    case True
    then show ?thesis using octal_digit_of_nat [of n] by (simp add: to_octal.simps [of n])
  next
    case False
    have "octal_value (to_octal (n div 8)) 0 = Some (n div 8)"
      using False 1 by (simp add: less_mult_imp_div_less)
    with False 1(2) octal_digit_of_nat [of "n mod 8"] show ?thesis
      by (simp add: to_octal.simps [of n] octal_value_append)
  qed
qed

lemma octal_value_zeros: "octal_value (replicate k 0x30 @ bs) 0 = octal_value bs 0"
proof -
  have "octal_digit 0x30 = Some 0" using octal_digit_of_nat [of 0] by simp
  then show ?thesis by (induction k) auto
qed

lemma octal_value_format: "n < 2 ^ 64 \<Longrightarrow> octal_value (format_octal w n) 0 = Some n"
  by (simp add: format_octal_def octal_value_zeros octal_value_to_octal)

lemma octal_value_bound: "octal_value bs acc = Some n \<Longrightarrow> acc < 2 ^ 64 \<Longrightarrow> n < 2 ^ 64"
  by (induction bs arbitrary: acc) (auto split: option.splits if_splits)

lemma octal_value_length_bound: "octal_value bs acc = Some n \<Longrightarrow> n < (acc + 1) * 8 ^ length bs"
proof (induction bs arbitrary: acc)
  case Nil
  then show ?case by simp
next
  case (Cons b bs)
  then obtain d where d: "octal_digit b = Some d" and v: "octal_value bs (acc * 8 + d) = Some n"
    by (auto split: option.splits if_splits)
  have "d \<le> 7" using d by (auto simp: octal_digit_def word_le_nat_alt split: if_splits)
  then have "(acc * 8 + d + 1) * 8 ^ length bs \<le> ((acc + 1) * 8) * 8 ^ length bs"
    by (intro mult_le_mono1) simp
  with Cons.IH [OF v] have "n < ((acc + 1) * 8) * 8 ^ length bs" by linarith
  then show ?case by (simp add: mult.assoc add_mult_distrib)
qed

lemma length_to_octal: "0 < k \<Longrightarrow> n < 8 ^ k \<Longrightarrow> length (to_octal n) \<le> k"
proof (induction k arbitrary: n)
  case (Suc k)
  show ?case
  proof (cases "n < 8")
    case False
    with Suc.prems have "n div 8 < 8 ^ k" and "0 < k"
      by (auto simp: less_mult_imp_div_less mult.commute intro: gr0I)
    with Suc.IH [of "n div 8"] False show ?thesis by (simp add: to_octal.simps [of n])
  qed (simp add: to_octal.simps [of n])
qed simp

lemma length_format_octal: "0 < w \<Longrightarrow> n < 8 ^ w \<Longrightarrow> length (format_octal w n) = w"
  using length_to_octal [of w n] by (simp add: format_octal_def)

lemma to_octal_value_bound: "n < 8 ^ length (to_octal n)"
proof (induction n rule: to_octal.induct)
  case (1 n)
  show ?case
  proof (cases "n < 8")
    case False
    with 1 have "n div 8 < 8 ^ length (to_octal (n div 8))" by simp
    then have "n < 8 * 8 ^ length (to_octal (n div 8))" by linarith
    with False show ?thesis by (simp add: to_octal.simps [of n])
  qed (simp add: to_octal.simps [of n])
qed

lemma format_octal_overflow: "8 ^ w \<le> n \<Longrightarrow> w < length (format_octal w n)"
proof -
  assume "8 ^ w \<le> n"
  then have "(8 :: nat) ^ w < 8 ^ length (to_octal n)" using to_octal_value_bound [of n] by linarith
  then have "w < length (to_octal n)" by (simp add: power_strict_increasing_iff)
  then show ?thesis by (simp add: format_octal_def)
qed

definition is_octal_byte :: "u8 \<Rightarrow> bool" where
  "is_octal_byte b \<longleftrightarrow> 0x30 \<le> b \<and> b \<le> 0x37"

lemma is_octal_byte_of_nat: "d < 8 \<Longrightarrow> is_octal_byte (of_nat (48 + d))"
proof -
  assume "d < 8"
  then have "unat (of_nat (48 + d) :: u8) = 48 + d" by (rule unat_octal_digit)
  with \<open>d < 8\<close> show ?thesis by (simp add: is_octal_byte_def word_le_nat_alt del: of_nat_add)
qed

lemma to_octal_bytes: "b \<in> set (to_octal n) \<Longrightarrow> is_octal_byte b"
proof (induction n rule: to_octal.induct)
  case (1 n)
  then show ?case
    using is_octal_byte_of_nat [of n] is_octal_byte_of_nat [of "n mod 8"]
    by (cases "n < 8") (auto simp: to_octal.simps [of n])
qed

lemma to_octal_nonempty [simp]: "to_octal n \<noteq> []"
  by (subst to_octal.simps) simp

lemma format_octal_bytes: "b \<in> set (format_octal w n) \<Longrightarrow> is_octal_byte b"
  using is_octal_byte_of_nat [of 0] by (auto simp: format_octal_def dest: to_octal_bytes)

lemma format_octal_nonempty [simp]: "format_octal w n \<noteq> []"
  by (simp add: format_octal_def)

lemma is_octal_byte_not_sep: "is_octal_byte b \<Longrightarrow> \<not> is_octal_sep b"
  by (auto simp: is_octal_byte_def is_octal_sep_def)

lemma is_octal_byte_not_sign: "is_octal_byte b \<Longrightarrow> b \<noteq> 0x2B \<and> b \<noteq> 0x2D"
  by (auto simp: is_octal_byte_def)

lemma from_str_radix_format: "n < 2 ^ 64 \<Longrightarrow> from_str_radix_8 (format_octal w n) = Some n"
proof -
  assume n: "n < 2 ^ 64"
  have "hd (format_octal w n) \<noteq> 0x2B \<and> hd (format_octal w n) \<noteq> 0x2D"
    by (intro is_octal_byte_not_sign format_octal_bytes) (rule hd_in_set, simp)
  then show ?thesis
    using octal_value_format [OF n, of w] by (auto simp: from_str_radix_8_def)
qed

text \<open>A formatted field followed by a separator is read back by a splitter.\<close>

lemma takeWhile_format_octal:
  assumes "is_octal_sep s"
  shows "takeWhile (\<lambda>b. \<not> is_octal_sep b) (format_octal w n @ s # rest) = format_octal w n"
  using assms by (subst takeWhile_append2) (auto dest: format_octal_bytes is_octal_byte_not_sep)

lemma dropWhile_format_octal:
  "dropWhile is_octal_sep (format_octal w n @ rest) = format_octal w n @ rest"
proof -
  have "\<not> is_octal_sep (hd (format_octal w n))"
    by (intro is_octal_byte_not_sep format_octal_bytes) (rule hd_in_set, simp)
  then show ?thesis by (cases "format_octal w n") auto
qed

section \<open>Decimal formatting\<close>

text \<open>\<open>format!("{n}")\<close>, and \<open>format!("{n:0w$}")\<close>.\<close>

fun fmt_nat :: "nat \<Rightarrow> string" where
  "fmt_nat n = (if n < 10 then [char_of (48 + n)] else fmt_nat (n div 10) @ [char_of (48 + n mod 10)])"

declare fmt_nat.simps [simp del]

definition fmt_nat_pad :: "nat \<Rightarrow> nat \<Rightarrow> string" where
  "fmt_nat_pad w n = replicate (w - length (fmt_nat n)) CHR ''0'' @ fmt_nat n"

section \<open>Splitting at slashes\<close>

text \<open>\<open>s.split('/')\<close>: at least one piece, with the empty ones.\<close>

fun split_slash :: "string \<Rightarrow> string list" where
  "split_slash [] = [[]]"
| "split_slash (c # cs) =
     (if c = CHR ''/'' then [] # split_slash cs
      else (case split_slash cs of [] \<Rightarrow> [[c]] | p # ps \<Rightarrow> (c # p) # ps))"

lemma split_slash_nonempty [simp]: "split_slash p \<noteq> []"
  by (induction p) (auto split: list.splits)

lemma split_slash_append: "split_slash (a @ CHR ''/'' # b) = split_slash a @ split_slash b"
proof (induction a)
  case (Cons c a)
  obtain p ps where "split_slash a = p # ps" by (cases "split_slash a") auto
  with Cons show ?case by simp
qed simp

lemma split_slash_plain: "CHR ''/'' \<notin> set p \<Longrightarrow> split_slash p = [p]"
  by (induction p) auto

lemma split_slash_pieces: "c \<in> set (split_slash p) \<Longrightarrow> CHR ''/'' \<notin> set c"
proof (induction p arbitrary: c)
  case (Cons x p)
  obtain q qs where q: "split_slash p = q # qs" by (cases "split_slash p") auto
  have q': "CHR ''/'' \<notin> set d" if "d = q \<or> d \<in> set qs" for d using Cons.IH [of d] q that by auto
  show ?case using Cons.prems q q' by (auto split: if_splits)
qed simp

section \<open>Paths\<close>

text \<open>\<open>std::path\<close> on a slash-separated string: the root, a leading current directory, the rest.\<close>

definition path_components :: "string \<Rightarrow> string list" where
  "path_components p =
     (let pieces = split_slash p in
      (if take 1 p = ''/'' then [''/''] else if hd pieces = ''.'' then [''.''] else [])
      @ filter (\<lambda>c. c \<noteq> [] \<and> c \<noteq> ''.'') pieces)"

definition path_eq :: "string \<Rightarrow> string \<Rightarrow> bool" where
  "path_eq a b \<longleftrightarrow> path_components a = path_components b"

lemma path_eq_refl [simp]: "path_eq p p"
  by (simp add: path_eq_def)

lemma path_eq_sym: "path_eq a b \<longleftrightarrow> path_eq b a"
  by (auto simp: path_eq_def)

text \<open>Trailing and doubled slashes do not change a path.\<close>

lemma path_eq_slashes: "path_eq ''a/'' ''a''" "path_eq ''a//b'' ''a/b''" "\<not> path_eq ''a'' ''/a''"
  by (simp_all add: path_eq_def path_components_def)

end
