(* ===== verification/Resync_Tar.thy ===== *)
theory Resync_Tar
  imports Resync Rust_Text
begin

text \<open>
  TAR continuation salvage (\<open>phx_recovery/src/resync/tar.rs\<close>) and the ustar encoder of
  \<open>resync/build.rs\<close>.
  Shown: every reported member is a checksum-valid header followed by its verbatim data, in
  order and without overlap; and a stream of members interleaved with arbitrary blocks that
  are not valid headers is salvaged to exactly its members.
\<close>

section \<open>Header fields\<close>

definition BLOCK :: nat where
  "BLOCK = 512"

definition ustar_magic :: bytes where
  "ustar_magic = [0x75, 0x73, 0x74, 0x61, 0x72]"

definition cstr :: "bytes \<Rightarrow> string" where
  "cstr field = from_utf8_lossy (takeWhile (\<lambda>b. b \<noteq> 0) field)"

definition read_name :: "bytes \<Rightarrow> string" where
  "read_name block =
     (let name = cstr (cut block 0 100); prefix = cstr (cut block 345 500) in
      if prefix = [] then name else prefix @ ''/'' @ name)"

definition compute_checksum :: "bytes \<Rightarrow> u32" where
  "compute_checksum block =
     (\<Sum>(i, b)\<leftarrow>enumerate 0 block. if 148 \<le> i \<and> i < 156 then 0x20 else ucast b)"

text \<open>The first non-empty piece between NULs and spaces, in base eight.\<close>

definition octal :: "bytes \<Rightarrow> nat option" where
  "octal field =
     (let s = takeWhile (\<lambda>b. \<not> is_octal_sep b) (dropWhile is_octal_sep field) in
      if s = [] then None else from_str_radix_8 s)"

definition read_checksum :: "bytes \<Rightarrow> u32 option" where
  "read_checksum block = map_option of_nat (octal (cut block 148 156))"

definition tar_size :: "bytes \<Rightarrow> nat" where
  "tar_size block = (case octal (cut block 124 136) of Some n \<Rightarrow> n | None \<Rightarrow> 0)"

section \<open>The walk\<close>

text \<open>
  \<open>data_start.checked_add(size)\<close> fails only on sums beyond every slice length, which the
  guard \<open>data_end <= data.len()\<close> sends to the same abstaining branch.
\<close>

function salvage_tar_loop ::
  "bytes \<Rightarrow> nat \<Rightarrow> nat \<Rightarrow> nat \<Rightarrow> SalvageResult \<Rightarrow> nat \<times> nat \<times> SalvageResult" where
  "salvage_tar_loop data pos zero_blocks skipped_headers res =
     (if pos + BLOCK \<le> length data then
        (let block = cut data pos (pos + BLOCK) in
         if list_all (\<lambda>b. b = 0) block
         then salvage_tar_loop data (pos + BLOCK) (zero_blocks + 1) skipped_headers res
         else if get_range block 257 262 \<noteq> Some ustar_magic
         then salvage_tar_loop data (pos + BLOCK) zero_blocks (skipped_headers + 1) res
         else if read_checksum block \<noteq> Some (compute_checksum block)
         then salvage_tar_loop data (pos + BLOCK) zero_blocks (skipped_headers + 1)
                (salvage_warn res
                  (Msg ''block {}: ustar checksum mismatch - skipped'' [N (pos div BLOCK)]))
         else
           (let res1 = res\<lparr> members_total := members_total res + 1 \<rparr>;
                name = read_name block;
                size = tar_size block;
                data_start = pos + BLOCK;
                data_blocks = div_ceil size BLOCK in
            if data_start + size \<le> length data
            then salvage_tar_loop data (data_start + data_blocks * BLOCK) zero_blocks skipped_headers
                   (salvage_push res1
                     \<lparr> seg_kind = VerifiedTarMember, seg_name = Some name, source_offset = pos,
                       source_end = min (data_start + data_blocks * BLOCK) (length data),
                       seg_bytes = cut data data_start (data_start + size),
                       seg_note = Msg ''ustar checksum verified; {size} B data (header-proven)''
                         [N size] \<rparr>)
            else salvage_tar_loop data (length data) zero_blocks skipped_headers
                   (salvage_warn res1
                     (Msg ''member '{name}': declared {size} B data is truncated - abstained''
                       [S name, N size]))))
      else (zero_blocks, skipped_headers, res))"
  by pat_completeness auto
termination
  by (relation "measure (\<lambda>(data, pos, _). length data - pos)") (auto simp: BLOCK_def)

declare salvage_tar_loop.simps [simp del]

definition salvage_tar :: "bytes \<Rightarrow> SalvageResult" where
  "salvage_tar data =
     (if length data < BLOCK
      then salvage_warn (salvage_new ''tar'')
             (Msg ''input shorter than one 512-byte TAR block'' [])
      else
        (case salvage_tar_loop data 0 0 0 (salvage_new ''tar'') of
           (zero_blocks, skipped_headers, res) \<Rightarrow>
             (let res1 = (if 0 < zero_blocks
                          then salvage_warn res
                            (Msg ''skipped {zero_blocks} zero block(s) and continued (ignore-zeros)''
                              [N zero_blocks])
                          else res);
                  res2 = (if 0 < skipped_headers
                          then salvage_warn res1
                            (Msg ''resynced past {skipped_headers} unreadable block(s)''
                              [N skipped_headers])
                          else res1)
              in if members_verified res2 = 0
                 then salvage_warn res2 (Msg ''no member could be checksum-verified'' [])
                 else res2)))"

section \<open>The encoder\<close>

definition write_octal :: "bytes \<Rightarrow> nat \<Rightarrow> bytes" where
  "write_octal field value =
     (let width = length field;
          b = format_octal (width - 1) value;
          tk = min (length b) (width - 1)
      in overwrite (overwrite field 0 (take tk b)) tk [0])"

text \<open>\<open>write_octal(&mut hdr[a..b], v)\<close>.\<close>

definition put_octal :: "nat \<Rightarrow> nat \<Rightarrow> nat \<Rightarrow> bytes \<Rightarrow> bytes" where
  "put_octal a b v hdr = overwrite hdr a (write_octal (cut hdr a b) v)"

definition tar_header_fields :: "string \<Rightarrow> nat \<Rightarrow> bytes" where
  "tar_header_fields name len =
     (let nb = str_bytes name;
          hdr = replicate BLOCK 0;
          hdr = overwrite hdr 0 (take (min (length nb) 100) nb);
          hdr = put_octal 100 108 420 hdr;
          hdr = put_octal 108 116 0 hdr;
          hdr = put_octal 116 124 0 hdr;
          hdr = put_octal 124 136 len hdr;
          hdr = put_octal 136 148 0 hdr;
          hdr = overwrite hdr 156 [0x30];
          hdr = overwrite hdr 257 (ustar_magic @ [0]);
          hdr = overwrite hdr 263 [0x30, 0x30]
      in overwrite hdr 148 (replicate 8 0x20))"

definition tar_member :: "string \<Rightarrow> bytes \<Rightarrow> bytes" where
  "tar_member name data =
     (let hdr = tar_header_fields name (length data);
          sum = (\<Sum>b\<leftarrow>hdr. ucast b) :: u32;
          cks = format_octal 6 (unat sum) @ [0, 0x20];
          hdr = overwrite hdr 148 (take 8 cks);
          pad = div_ceil (length data) BLOCK * BLOCK - length data
      in hdr @ data @ replicate pad 0)"

definition tar_archive :: "(string \<times> bytes) list \<Rightarrow> bytes" where
  "tar_archive members =
     concat (map (\<lambda>(name, data). tar_member name data) members) @ replicate (2 * BLOCK) 0"

section \<open>The members of a stream\<close>

text \<open>A block the salvager trusts as a member header.\<close>

definition valid_header :: "bytes \<Rightarrow> bool" where
  "valid_header block \<longleftrightarrow> \<not> list_all (\<lambda>b. b = 0) block
     \<and> get_range block 257 262 = Some ustar_magic
     \<and> read_checksum block = Some (compute_checksum block)"

text \<open>The members from \<open>pos\<close> on: what the walk adds to the segments.\<close>

function tar_segments :: "bytes \<Rightarrow> nat \<Rightarrow> Segment list" where
  "tar_segments data pos =
     (if pos + BLOCK \<le> length data then
        (let block = cut data pos (pos + BLOCK); size = tar_size block;
             next = pos + BLOCK + div_ceil size BLOCK * BLOCK in
         if \<not> valid_header block then tar_segments data (pos + BLOCK)
         else if pos + BLOCK + size \<le> length data
         then \<lparr> seg_kind = VerifiedTarMember, seg_name = Some (read_name block),
                source_offset = pos, source_end = min next (length data),
                seg_bytes = cut data (pos + BLOCK) (pos + BLOCK + size),
                seg_note = Msg ''ustar checksum verified; {size} B data (header-proven)''
                  [N size] \<rparr> # tar_segments data next
         else [])
      else [])"
  by pat_completeness auto
termination
  by (relation "measure (\<lambda>(data, pos). length data - pos)") (auto simp: BLOCK_def)

declare tar_segments.simps [simp del]

lemma salvage_tar_loop_done:
  "length data < pos + BLOCK \<Longrightarrow> salvage_tar_loop data pos z k res = (z, k, res)"
  by (simp add: salvage_tar_loop.simps [of data pos])

lemma salvage_tar_loop_segments:
  "salvage_tar_loop data pos z k res = (z', k', res') \<Longrightarrow>
     segments res' = segments res @ tar_segments data pos
   \<and> (tallies_ok res \<longrightarrow> tallies_ok res') \<and> sr_format res' = sr_format res"
proof (induction data pos z k res rule: salvage_tar_loop.induct)
  case (1 data pos z k res)
  show ?case
  proof (cases "pos + BLOCK \<le> length data")
    case False
    then show ?thesis using 1(6)
      by (simp add: salvage_tar_loop_done tar_segments.simps [of data pos])
  next
    case le: True
    let ?b = "cut data pos (pos + BLOCK)"
    consider (zero) "list_all (\<lambda>b. b = 0) ?b"
      | (magic) "\<not> list_all (\<lambda>b. b = 0) ?b" "get_range ?b 257 262 \<noteq> Some ustar_magic"
      | (sum) "\<not> list_all (\<lambda>b. b = 0) ?b" "get_range ?b 257 262 = Some ustar_magic"
          "read_checksum ?b \<noteq> Some (compute_checksum ?b)"
      | (ok) "valid_header ?b" "pos + BLOCK + tar_size ?b \<le> length data"
      | (short) "valid_header ?b" "\<not> pos + BLOCK + tar_size ?b \<le> length data"
      by (auto simp: valid_header_def)
    then show ?thesis
    proof cases
      case zero
      with 1(1) [OF le refl zero] 1(6) le show ?thesis
        by (simp add: salvage_tar_loop.simps [of data pos] tar_segments.simps [of data pos]
            valid_header_def Let_def)
    next
      case magic
      with 1(2) [OF le refl magic] 1(6) le show ?thesis
        by (simp add: salvage_tar_loop.simps [of data pos] tar_segments.simps [of data pos]
            valid_header_def Let_def)
    next
      case sum
      with 1(3) [OF le refl sum(1)] 1(6) le show ?thesis
        by (simp add: salvage_tar_loop.simps [of data pos] tar_segments.simps [of data pos]
            valid_header_def Let_def)
    next
      case ok
      note v = ok(1) [unfolded valid_header_def]
      from v 1(4) [OF le refl _ _ _ refl refl refl refl refl ok(2)] 1(6) le ok
      show ?thesis
        by (simp add: salvage_tar_loop.simps [of data pos] tar_segments.simps [of data pos]
            Let_def)
    next
      case short
      note v = short(1) [unfolded valid_header_def]
      from v 1(6) le short show ?thesis
        by (auto simp: salvage_tar_loop.simps [of data pos] tar_segments.simps [of data pos]
            Let_def salvage_tar_loop_done BLOCK_def)
    qed
  qed
qed

lemma salvage_tar_segments:
  "segments (salvage_tar d) = tar_segments d 0" and salvage_tar_tallies: "tallies_ok (salvage_tar d)"
proof -
  obtain z k res where l: "salvage_tar_loop d 0 0 0 (salvage_new ''tar'') = (z, k, res)"
    by (cases "salvage_tar_loop d 0 0 0 (salvage_new ''tar'')")
  note r = salvage_tar_loop_segments [OF l]
  show "segments (salvage_tar d) = tar_segments d 0"
    using r by (simp add: salvage_tar_def l tar_segments.simps [of d 0] Let_def)
  show "tallies_ok (salvage_tar d)"
    using r by (simp add: salvage_tar_def l Let_def)
qed

section \<open>Soundness of the walk\<close>

definition tar_span :: "Segment \<Rightarrow> nat \<times> nat" where
  "tar_span s = (source_offset s, source_end s)"

lemma tar_segments_beyond: "length data < pos + BLOCK \<Longrightarrow> tar_segments data pos = []"
  by (simp add: tar_segments.simps [of data pos])

lemma tar_segments_spans:
  "spans_within pos (length data) (map tar_span (tar_segments data pos))"
proof (induction data pos rule: tar_segments.induct)
  case (1 data pos)
  let ?b = "cut data pos (pos + BLOCK)"
  let ?next = "pos + BLOCK + div_ceil (tar_size ?b) BLOCK * BLOCK"
  show ?case
  proof (cases "pos + BLOCK \<le> length data")
    case False
    then show ?thesis by (simp add: tar_segments_beyond)
  next
    case le: True
    show ?thesis
    proof (cases "valid_header ?b")
      case False
      with 1(1) [OF le refl refl refl] le show ?thesis
        by (auto simp: tar_segments.simps [of data pos] Let_def intro: spans_within_mono)
    next
      case True
      show ?thesis
      proof (cases "pos + BLOCK + tar_size ?b \<le> length data")
        case False
        with True le show ?thesis by (simp add: tar_segments.simps [of data pos] Let_def)
      next
        case sz: True
        have "spans_within ?next (length data) (map tar_span (tar_segments data ?next))"
          using 1(2) [OF le refl refl refl _ sz] True by simp
        then have "spans_within (min ?next (length data)) (length data)
          (map tar_span (tar_segments data ?next))"
          by (rule spans_within_mono) simp
        with True sz le show ?thesis
          by (simp add: tar_segments.simps [of data pos] Let_def tar_span_def [of "\<lparr> seg_kind = _, seg_name = _, source_offset = _, source_end = _, seg_bytes = _, seg_note = _ \<rparr>"])
      qed
    qed
  qed
qed

definition tar_scan :: "bytes \<Rightarrow> Segment list" where
  "tar_scan d = segments (salvage_tar d)"

interpretation tar_walk: segment_scanner tar_scan tar_span
  by unfold_locales (simp add: tar_scan_def salvage_tar_segments tar_segments_spans)

text \<open>What one reported member is.\<close>

definition tar_segment_ok :: "bytes \<Rightarrow> Segment \<Rightarrow> bool" where
  "tar_segment_ok d s \<longleftrightarrow>
     (let off = source_offset s; h = cut d off (off + BLOCK); n = tar_size h in
      off + BLOCK + n \<le> length d \<and> valid_header h
    \<and> seg_kind s = VerifiedTarMember \<and> seg_name s = Some (read_name h)
    \<and> seg_bytes s = cut d (off + BLOCK) (off + BLOCK + n)
    \<and> source_end s = min (off + BLOCK + div_ceil n BLOCK * BLOCK) (length d))"

lemma tar_segments_ok: "s \<in> set (tar_segments d pos) \<Longrightarrow> tar_segment_ok d s"
proof (induction d pos rule: tar_segments.induct)
  case (1 data pos)
  let ?b = "cut data pos (pos + BLOCK)"
  show ?case
  proof (cases "pos + BLOCK \<le> length data")
    case False
    with 1(3) show ?thesis by (simp add: tar_segments_beyond)
  next
    case le: True
    then show ?thesis
      using 1(1) [OF le refl refl refl] 1(2) [OF le refl refl refl] 1(3)
      by (auto simp: tar_segments.simps [of data pos] Let_def tar_segment_ok_def split: if_splits)
  qed
qed

lemma salvage_tar_all_ok: "list_all (tar_segment_ok d) (segments (salvage_tar d))"
  by (simp add: list_all_iff salvage_tar_segments tar_segments_ok)

lemma salvage_tar_all_verified: "list_all seg_verified (segments (salvage_tar d))"
  using salvage_tar_all_ok [of d]
  by (auto simp: list_all_iff tar_segment_ok_def seg_verified_def is_verified_def Let_def)

lemma members_verified_salvage_tar:
  "members_verified (salvage_tar d) = length (segments (salvage_tar d))"
proof -
  have "filter seg_verified (segments (salvage_tar d)) = segments (salvage_tar d)"
    using salvage_tar_all_verified [of d] by (simp add: list_all_iff)
  then show ?thesis using salvage_tar_tallies [of d] by (simp add: tallies_ok_def)
qed

text \<open>
  On any byte stream, the TAR salvager reports only honest members: each is a checksum-valid
  header followed by all of its declared data, copied verbatim, under the header's name;
  the source spans of the members are disjoint and never exceed the input; and the
  counters agree with the segments, all of which are verified.
\<close>

theorem salvage_tar_sound:
  "list_all (tar_segment_ok d) (segments (salvage_tar d))
   \<and> (\<Sum>s\<leftarrow>segments (salvage_tar d). source_end s - source_offset s) \<le> length d
   \<and> members_verified (salvage_tar d) = length (segments (salvage_tar d))
   \<and> verified_payload (salvage_tar d) = concat (map seg_bytes (segments (salvage_tar d)))
   \<and> unverified_bytes (salvage_tar d) = 0"
proof -
  have all: "filter seg_verified (segments (salvage_tar d)) = segments (salvage_tar d)"
    and none: "filter (\<lambda>s. \<not> seg_verified s) (segments (salvage_tar d)) = []"
    using salvage_tar_all_verified [of d] by (simp_all add: list_all_iff filter_empty_conv)
  show ?thesis
    using salvage_tar_all_ok [of d] tar_walk.scan_total [of d] salvage_tar_tallies [of d] all none
    by (simp add: tar_scan_def tar_span_def tallies_ok_def verified_payload_def)
qed

section \<open>Streams of members and other blocks\<close>

datatype tar_item = Junk bytes | Member bytes bytes bytes

primrec item_bytes :: "tar_item \<Rightarrow> bytes" where
  "item_bytes (Junk b) = b"
| "item_bytes (Member h dat pad) = h @ dat @ pad"

text \<open>
  A junk block is any block that is not a valid header; a member is a valid header, data of
  the declared length and padding (of any bytes) to the block boundary.
\<close>

primrec item_ok :: "tar_item \<Rightarrow> bool" where
  "item_ok (Junk b) \<longleftrightarrow> length b = BLOCK \<and> \<not> valid_header b"
| "item_ok (Member h dat pad) \<longleftrightarrow>
     length h = BLOCK \<and> valid_header h \<and> tar_size h = length dat
   \<and> length dat + length pad = div_ceil (length dat) BLOCK * BLOCK"

primrec item_members :: "tar_item \<Rightarrow> (string \<times> bytes) list" where
  "item_members (Junk b) = []"
| "item_members (Member h dat pad) = [(read_name h, dat)]"

definition segment_member :: "Segment \<Rightarrow> string \<times> bytes" where
  "segment_member s = (the (seg_name s), seg_bytes s)"

lemma tar_segments_junk:
  "length b = BLOCK \<Longrightarrow> \<not> valid_header b \<Longrightarrow>
    tar_segments (pre @ b @ rest) (length pre) = tar_segments (pre @ b @ rest) (length (pre @ b))"
  by (subst tar_segments.simps) (simp add: Let_def cut_append_right cut_append_left cut_0)

lemma tar_segments_member:
  assumes "item_ok (Member h dat pad)"
  shows "map segment_member (tar_segments (pre @ (h @ dat @ pad) @ rest) (length pre))
    = (read_name h, dat)
      # map segment_member (tar_segments (pre @ (h @ dat @ pad) @ rest) (length (pre @ h @ dat @ pad)))"
proof -
  let ?d = "pre @ (h @ dat @ pad) @ rest" and ?p = "length pre"
  have h: "cut ?d ?p (?p + BLOCK) = h" and
    dat: "cut ?d (?p + BLOCK) (?p + BLOCK + length dat) = dat"
    using assms by (simp_all add: cut_append_right cut_append_left cut_0)
  have nxt: "?p + BLOCK + div_ceil (length dat) BLOCK * BLOCK = length (pre @ h @ dat @ pad)"
    using assms by simp
  have "?p + BLOCK + length dat \<le> length ?d" using assms by simp
  with assms h dat show ?thesis
    by (subst tar_segments.simps) (simp add: Let_def nxt [symmetric] segment_member_def add.assoc)
qed

lemma tar_segments_items:
  "list_all item_ok items \<Longrightarrow> length tail < BLOCK \<Longrightarrow>
    map segment_member (tar_segments (pre @ concat (map item_bytes items) @ tail) (length pre))
      = concat (map item_members items)"
proof (induction items arbitrary: pre)
  case Nil
  then show ?case by (simp add: tar_segments_beyond)
next
  case (Cons it items)
  let ?rest = "concat (map item_bytes items) @ tail"
  have IH: "map segment_member (tar_segments ((pre @ item_bytes it) @ ?rest)
      (length (pre @ item_bytes it))) = concat (map item_members items)"
    using Cons.IH [of "pre @ item_bytes it"] Cons.prems by simp
  show ?case
  proof (cases it)
    case (Junk b)
    with Cons.prems IH tar_segments_junk [of b pre ?rest] show ?thesis by simp
  next
    case (Member h dat pad)
    with Cons.prems IH tar_segments_member [of h dat pad pre ?rest] show ?thesis by simp
  qed
qed

lemma salvage_tar_items:
  assumes "list_all item_ok items" "length tail < BLOCK"
  shows "map segment_member (segments (salvage_tar (concat (map item_bytes items) @ tail)))
    = concat (map item_members items)"
  using tar_segments_items [OF assms, of "[]"] by (simp add: salvage_tar_segments)

section \<open>Headers written by the encoder\<close>

lemma write_octal_field:
  assumes "2 \<le> length field" "n < 8 ^ (length field - 1)"
  shows "write_octal field n = format_octal (length field - 1) n @ [0]"
proof -
  have "length (format_octal (length field - 1) n) = length field - 1"
    using assms by (simp add: length_format_octal)
  with assms(1) show ?thesis
    by (simp add: write_octal_def Let_def overwrite_def)
qed

lemma put_octal_eq:
  assumes "b \<le> length hdr" "a + 2 \<le> b" "n < 8 ^ (b - a - 1)"
  shows "put_octal a b n hdr = overwrite hdr a (format_octal (b - a - 1) n @ [0])"
  using assms write_octal_field [of "cut hdr a b" n] by (simp add: put_octal_def)

lemma length_put_octal [simp]:
  assumes "b \<le> length hdr" "a + 2 \<le> b" "n < 8 ^ (b - a - 1)"
  shows "length (put_octal a b n hdr) = length hdr"
proof -
  have "length (format_octal (b - a - 1) n) = b - a - 1"
    using assms by (intro length_format_octal) auto
  with assms show ?thesis by (simp add: put_octal_eq)
qed

lemma cut_put_octal [cut_simps]:
  assumes "b \<le> length hdr" "a + 2 \<le> b" "n < 8 ^ (b - a - 1)"
  shows "cut (put_octal a b n hdr) a b = format_octal (b - a - 1) n @ [0]"
    and "d \<le> a \<Longrightarrow> cut (put_octal a b n hdr) c d = cut hdr c d"
    and "b \<le> c \<Longrightarrow> cut (put_octal a b n hdr) c d = cut hdr c d"
proof -
  have "length (format_octal (b - a - 1) n) = b - a - 1"
    using assms by (intro length_format_octal) auto
  with assms show "cut (put_octal a b n hdr) a b = format_octal (b - a - 1) n @ [0]"
    and "d \<le> a \<Longrightarrow> cut (put_octal a b n hdr) c d = cut hdr c d"
    and "b \<le> c \<Longrightarrow> cut (put_octal a b n hdr) c d = cut hdr c d"
    by (simp_all add: put_octal_eq cut_simps)
qed

lemma octal_format: "n < 2 ^ 64 \<Longrightarrow> octal (format_octal w n @ [0] @ rest) = Some n"
  using takeWhile_format_octal [of 0 w n rest]
  by (simp add: octal_def dropWhile_format_octal is_octal_sep_def from_str_radix_format)

lemma compute_checksum_overwrite:
  assumes "length block = 512"
  shows "compute_checksum block = (\<Sum>b\<leftarrow>overwrite block 148 (replicate 8 0x20). ucast b)"
proof -
  have "map (\<lambda>(i, b). if 148 \<le> i \<and> i < 156 then 0x20 else ucast b) (enumerate 0 block)
    = map (ucast :: u8 \<Rightarrow> u32) (overwrite block 148 (replicate 8 0x20))"
    using assms by (intro nth_equalityI) (auto simp: nth_enumerate_eq nth_overwrite)
  then show ?thesis by (simp add: compute_checksum_def)
qed

lemma checksum_bound:
  assumes "length block = 512"
  shows "unat (compute_checksum block) < 8 ^ 6"
proof -
  have "unat (\<Sum>b\<leftarrow>bs. (ucast b :: u32)) \<le> 255 * length bs" for bs :: bytes
  proof (induction bs)
    case (Cons b bs)
    have "unat b < 2 ^ LENGTH(8)" by (rule unsigned_less)
    then have "unat (ucast b :: u32) \<le> 255" by (simp add: unsigned_ucast_eq take_bit_eq_mod)
    moreover have "unat (ucast b + (\<Sum>b\<leftarrow>bs. (ucast b :: u32)))
      \<le> unat (ucast b :: u32) + unat (\<Sum>b\<leftarrow>bs. (ucast b :: u32))"
      by (simp add: unat_word_ariths)
    ultimately show ?case using Cons by simp
  qed simp
  from this [of "overwrite block 148 (replicate 8 0x20)"] show ?thesis
    using assms by (simp add: compute_checksum_overwrite)
qed

lemma compute_checksum_seal:
  assumes "length block = 512" "length c = 8"
  shows "compute_checksum (overwrite block 148 c) = compute_checksum block"
  using assms by (simp add: compute_checksum_overwrite overwrite_overwrite)

text \<open>
  A block whose checksum field has been rewritten from its own sum, six octal digits and two
  separator bytes: the encoder and the repair strategies all write this form.
\<close>

definition seal :: "u8 \<Rightarrow> u8 \<Rightarrow> bytes \<Rightarrow> bytes" where
  "seal s1 s2 block =
     overwrite block 148 (take 8 (format_octal 6 (unat (compute_checksum block)) @ [s1, s2]))"

lemma seal_field:
  assumes "length block = 512"
  shows "length (seal s1 s2 block) = 512"
    and "cut (seal s1 s2 block) 148 156 = format_octal 6 (unat (compute_checksum block)) @ [s1, s2]"
    and "b \<le> 148 \<Longrightarrow> cut (seal s1 s2 block) a b = cut block a b"
    and "156 \<le> a \<Longrightarrow> cut (seal s1 s2 block) a b = cut block a b"
    and "compute_checksum (seal s1 s2 block) = compute_checksum block"
proof -
  have l: "length (format_octal 6 (unat (compute_checksum block))) = 6"
    using checksum_bound [OF assms] by (simp add: length_format_octal)
  show "length (seal s1 s2 block) = 512"
    and "cut (seal s1 s2 block) 148 156 = format_octal 6 (unat (compute_checksum block)) @ [s1, s2]"
    and "b \<le> 148 \<Longrightarrow> cut (seal s1 s2 block) a b = cut block a b"
    and "156 \<le> a \<Longrightarrow> cut (seal s1 s2 block) a b = cut block a b"
    and "compute_checksum (seal s1 s2 block) = compute_checksum block"
    using assms l by (simp_all add: seal_def cut_simps compute_checksum_seal)
qed

lemma read_checksum_seal:
  assumes "length block = 512" "is_octal_sep s1"
  shows "read_checksum (seal s1 s2 block) = Some (compute_checksum block)"
proof -
  have "unat (compute_checksum block) < 2 ^ 64" using checksum_bound [OF assms(1)] by simp
  then show ?thesis
    using takeWhile_format_octal [OF assms(2), of 6 "unat (compute_checksum block)" "[s2]"]
    by (simp add: read_checksum_def seal_field [OF assms(1)] octal_def
        dropWhile_format_octal from_str_radix_format)
qed

lemma valid_header_seal:
  assumes "length block = 512" "is_octal_sep s1" "cut block 257 262 = ustar_magic"
  shows "valid_header (seal s1 s2 block)"
proof -
  have "cut (seal s1 s2 block) 257 262 = ustar_magic"
    using assms seal_field(4) [OF assms(1)] by simp
  moreover from this have "seal s1 s2 block ! 257 = 0x75"
    using nth_cut [of 0 262 257 "seal s1 s2 block"] seal_field(1) [OF assms(1)]
    by (simp add: ustar_magic_def)
  then have "\<not> list_all (\<lambda>b. b = 0) (seal s1 s2 block)"
    using seal_field(1) [OF assms(1)] by (auto simp: list_all_length intro: exI [of _ 257])
  ultimately show ?thesis
    using assms seal_field(1,5) [OF assms(1)] read_checksum_seal [OF assms(1,2)]
    by (simp add: valid_header_def get_range_def)
qed

text \<open>The header of an encoded member.\<close>

definition member_ok :: "string \<times> bytes \<Rightarrow> bool" where
  "member_ok m \<longleftrightarrow> length (fst m) \<le> 100 \<and> 0 \<notin> set (str_bytes (fst m))
     \<and> utf8_valid (str_bytes (fst m)) \<and> length (snd m) < 8 ^ 11"

lemma length_ustar_magic [simp]: "length ustar_magic = 5"
  by (simp add: ustar_magic_def)

lemma header_put:
  assumes "length hdr = 512" "b \<le> 512" "a + 2 \<le> b" "n < 8 ^ (b - a - 1)"
  shows "length (put_octal a b n hdr) = 512"
    and "cut (put_octal a b n hdr) a b = format_octal (b - a - 1) n @ [0]"
    and "d \<le> a \<Longrightarrow> cut (put_octal a b n hdr) c d = cut hdr c d"
    and "b \<le> c \<Longrightarrow> cut (put_octal a b n hdr) c d = cut hdr c d"
  using assms by (simp_all add: cut_put_octal)

lemma header_overwrite:
  assumes "length hdr = 512" "a + length bs \<le> 512"
  shows "length (overwrite hdr a bs) = 512"
    and "d \<le> a \<Longrightarrow> cut (overwrite hdr a bs) c d = cut hdr c d"
    and "a + length bs \<le> c \<Longrightarrow> cut (overwrite hdr a bs) c d = cut hdr c d"
  using assms by (simp_all add: cut_simps)

lemma tar_header_fields_layout:
  assumes "n < 8 ^ 11"
  shows "length (tar_header_fields name n) = 512"
    and "cut (tar_header_fields name n) 0 100
      = take 100 (str_bytes name) @ replicate (100 - length name) 0"
    and "cut (tar_header_fields name n) 124 136 = format_octal 11 n @ [0]"
    and "cut (tar_header_fields name n) 257 262 = ustar_magic"
    and "cut (tar_header_fields name n) 345 500 = replicate 155 0"
    and "overwrite (tar_header_fields name n) 148 (replicate 8 0x20) = tar_header_fields name n"
proof -
  let ?nb = "take (min (length (str_bytes name)) 100) (str_bytes name)"
  define h1 where "h1 = overwrite (replicate 512 0) 0 ?nb"
  define h2 where "h2 = put_octal 100 108 420 h1"
  define h3 where "h3 = put_octal 108 116 0 h2"
  define h4 where "h4 = put_octal 116 124 0 h3"
  define h5 where "h5 = put_octal 124 136 n h4"
  define h6 where "h6 = put_octal 136 148 0 h5"
  define h7 where "h7 = overwrite h6 156 [0x30]"
  define h8 where "h8 = overwrite h7 257 (ustar_magic @ [0])"
  define h9 where "h9 = overwrite h8 263 [0x30, 0x30]"
  define h10 where "h10 = overwrite h9 148 (replicate 8 0x20)"
  have l1: "length h1 = 512" by (simp add: h1_def overwrite_def)
  have z1: "cut h1 0 100 = take 100 (str_bytes name) @ replicate (100 - length name) 0"
    "100 \<le> a \<Longrightarrow> b \<le> 512 \<Longrightarrow> cut h1 a b = replicate (b - a) 0" for a b
    by (auto simp: h1_def overwrite_def cut_0 min_def cut_def)
  note s2 = header_put [OF l1, of 108 100 420, folded h2_def, simplified]
  note s3 = header_put [OF s2(1), of 116 108 0, folded h3_def, simplified]
  note s4 = header_put [OF s3(1), of 124 116 0, folded h4_def, simplified]
  note s5 = header_put [OF s4(1), of 136 124 n, folded h5_def, simplified, OF assms [simplified]]
  note s6 = header_put [OF s5(1), of 148 136 0, folded h6_def, simplified]
  note s7 = header_overwrite [OF s6(1), of 156 "[0x30]", folded h7_def, simplified]
  note s8 = header_overwrite [OF s7(1), of 257 "ustar_magic @ [0]", folded h8_def, simplified]
  note s9 = header_overwrite [OF s8(1), of 263 "[0x30, 0x30]", folded h9_def, simplified]
  note s10 = header_overwrite [OF s9(1), of 148 "replicate 8 0x20", folded h10_def, simplified]
  have eq: "tar_header_fields name n = h10"
    by (simp add: tar_header_fields_def Let_def BLOCK_def h1_def h2_def h3_def h4_def h5_def
        h6_def h7_def h8_def h9_def h10_def)
  note steps = s2 s3 s4 s5 s6 s7 s8 s9 s10
  show "length (tar_header_fields name n) = 512"
    by (simp add: eq s10)
  show "cut (tar_header_fields name n) 0 100
      = take 100 (str_bytes name) @ replicate (100 - length name) 0"
    by (simp add: eq steps z1)
  show "cut (tar_header_fields name n) 124 136 = format_octal 11 n @ [0]"
    by (simp add: eq steps)
  show "cut (tar_header_fields name n) 257 262 = ustar_magic"
    by (simp add: eq steps) (simp add: h8_def s7 cut_overwrite_within cut_append_left cut_0)
  show "cut (tar_header_fields name n) 345 500 = replicate 155 0"
    by (simp add: eq steps z1)
  show "overwrite (tar_header_fields name n) 148 (replicate 8 0x20) = tar_header_fields name n"
    by (simp add: eq h10_def overwrite_overwrite s9)
qed

definition tar_member_header :: "string \<Rightarrow> nat \<Rightarrow> bytes" where
  "tar_member_header name n = seal 0 0x20 (tar_header_fields name n)"

lemma tar_member_item:
  assumes "length dat < 8 ^ 11"
  shows "tar_member name dat = item_bytes (Member (tar_member_header name (length dat)) dat
    (replicate (div_ceil (length dat) BLOCK * BLOCK - length dat) 0))"
proof -
  note lay = tar_header_fields_layout [OF assms, of name]
  have "(\<Sum>b\<leftarrow>tar_header_fields name (length dat). ucast b)
    = compute_checksum (tar_header_fields name (length dat))"
    by (simp add: compute_checksum_overwrite [OF lay(1)] lay(6))
  then show ?thesis by (simp add: tar_member_def Let_def tar_member_header_def seal_def)
qed

lemma cstr_padded:
  assumes "0 \<notin> set bs" "utf8_valid bs"
  shows "cstr (bs @ replicate k 0) = map char_of_byte bs"
proof -
  have "takeWhile (\<lambda>b. b \<noteq> 0) (bs @ replicate k 0) = bs"
    using assms(1) by (cases k) (auto simp: takeWhile_append)
  then show ?thesis using assms(2) by (simp add: cstr_def from_utf8_lossy_valid)
qed

lemma tar_member_header_ok:
  assumes "member_ok (name, dat)"
  shows "length (tar_member_header name (length dat)) = BLOCK"
    and "valid_header (tar_member_header name (length dat))"
    and "tar_size (tar_member_header name (length dat)) = length dat"
    and "read_name (tar_member_header name (length dat)) = name"
proof -
  let ?n = "length dat" and ?f = "tar_header_fields name (length dat)"
  have n: "?n < 8 ^ 11" and nm: "length name \<le> 100" "0 \<notin> set (str_bytes name)"
    "utf8_valid (str_bytes name)"
    using assms by (simp_all add: member_ok_def)
  note lay = tar_header_fields_layout [OF n, of name] and sf = seal_field [where block = ?f]
  show "length (tar_member_header name ?n) = BLOCK"
    and "valid_header (tar_member_header name ?n)"
    using lay sf(1) valid_header_seal [of ?f 0 "0x20"]
    by (simp_all add: tar_member_header_def BLOCK_def is_octal_sep_def)
  have "octal (format_octal 11 ?n @ [0]) = Some ?n"
    using octal_format [of ?n 11 "[]"] n by simp
  then show "tar_size (tar_member_header name ?n) = ?n"
    using lay sf(3) by (simp add: tar_size_def tar_member_header_def)
  have "cstr (replicate 155 0) = []" by (simp add: cstr_def)
  then show "read_name (tar_member_header name ?n) = name"
    using lay sf(3,4) nm cstr_padded [OF nm(2,3)] by (simp add: read_name_def tar_member_header_def)
qed

lemma tar_member_item_ok:
  assumes "member_ok (name, dat)"
  shows "item_ok (Member (tar_member_header name (length dat)) dat
    (replicate (div_ceil (length dat) BLOCK * BLOCK - length dat) 0))"
  using tar_member_header_ok [OF assms] div_ceil_mult_ge [of BLOCK "length dat"]
  by (simp add: BLOCK_def)

text \<open>A stream of encoded members (\<open>Inl\<close>) and other blocks (\<open>Inr\<close>).\<close>

definition stream_ok :: "(string \<times> bytes) + bytes \<Rightarrow> bool" where
  "stream_ok x = (case x of Inl m \<Rightarrow> member_ok m | Inr b \<Rightarrow> length b = BLOCK \<and> \<not> valid_header b)"

definition stream_bytes :: "(string \<times> bytes) + bytes \<Rightarrow> bytes" where
  "stream_bytes x = (case x of Inl m \<Rightarrow> tar_member (fst m) (snd m) | Inr b \<Rightarrow> b)"

definition stream_members :: "(string \<times> bytes) + bytes \<Rightarrow> (string \<times> bytes) list" where
  "stream_members x = (case x of Inl m \<Rightarrow> [m] | Inr b \<Rightarrow> [])"

lemma stream_item:
  assumes "stream_ok x"
  shows "\<exists>it. item_ok it \<and> item_bytes it = stream_bytes x \<and> item_members it = stream_members x"
proof (cases x)
  case (Inr b)
  with assms have "item_ok (Junk b) \<and> item_bytes (Junk b) = stream_bytes x
    \<and> item_members (Junk b) = stream_members x"
    by (simp add: stream_ok_def stream_bytes_def stream_members_def)
  then show ?thesis by blast
next
  case (Inl m)
  obtain name dat where m: "m = (name, dat)" by (cases m)
  let ?it = "Member (tar_member_header name (length dat)) dat
    (replicate (div_ceil (length dat) BLOCK * BLOCK - length dat) 0)"
  have ok: "member_ok (name, dat)" using assms Inl m by (simp add: stream_ok_def)
  then have "item_bytes ?it = stream_bytes x"
    using Inl m tar_member_item [of dat name] by (simp add: stream_bytes_def member_ok_def)
  moreover have "item_members ?it = stream_members x"
    using Inl m tar_member_header_ok(4) [OF ok] by (simp add: stream_members_def)
  ultimately show ?thesis using tar_member_item_ok [OF ok] by blast
qed

lemma stream_items:
  "list_all stream_ok xs \<Longrightarrow> \<exists>items. list_all item_ok items
    \<and> concat (map item_bytes items) = concat (map stream_bytes xs)
    \<and> concat (map item_members items) = concat (map stream_members xs)"
proof (induction xs)
  case (Cons x xs)
  then obtain items where "list_all item_ok items"
    "concat (map item_bytes items) = concat (map stream_bytes xs)"
    "concat (map item_members items) = concat (map stream_members xs)"
    by auto
  moreover obtain it where "item_ok it" "item_bytes it = stream_bytes x"
    "item_members it = stream_members x"
    using Cons.prems stream_item [of x] by auto
  ultimately show ?case by (intro exI [of _ "it # items"]) simp
qed (intro exI [of _ "[]"], simp)

lemma salvage_tar_stream:
  assumes "list_all stream_ok xs" "length tail < BLOCK"
  shows "map segment_member (segments (salvage_tar (concat (map stream_bytes xs) @ tail)))
    = concat (map stream_members xs)"
proof -
  obtain items where "list_all item_ok items"
    "concat (map item_bytes items) = concat (map stream_bytes xs)"
    "concat (map item_members items) = concat (map stream_members xs)"
    using stream_items [OF assms(1)] by blast
  with salvage_tar_items [OF _ assms(2), of items] show ?thesis by simp
qed

lemma zero_block_junk: "length b = BLOCK \<Longrightarrow> list_all (\<lambda>x. x = 0) b \<Longrightarrow> stream_ok (Inr b)"
  by (simp add: stream_ok_def valid_header_def)

lemma tar_archive_stream:
  "tar_archive ms = concat (map stream_bytes (map Inl ms @ [Inr (replicate BLOCK 0), Inr (replicate BLOCK 0)]))"
proof -
  have "replicate (2 * BLOCK) (0 :: u8) = replicate BLOCK 0 @ replicate BLOCK 0"
    by (simp add: replicate_add [symmetric] mult_2)
  moreover have "stream_bytes \<circ> Inl = (\<lambda>(name, dat). tar_member name dat)"
    by (auto simp: stream_bytes_def)
  ultimately show ?thesis by (simp add: tar_archive_def) (simp add: stream_bytes_def)
qed

text \<open>
  C25. Continuation salvage is complete: take any sequence of well-formed members and, between,
  before and after them, any 512-byte blocks that are not valid headers (zero blocks,
  garbage, headers with a damaged checksum) and a short tail; the salvager recovers exactly
  the names and contents of the members, in order. Neither a premature end-of-archive
  marker nor a corrupt header hides a later member.
\<close>

theorem salvage_tar_complete:
  assumes "list_all stream_ok xs" "length tail < BLOCK"
  shows "map segment_member (segments (salvage_tar (concat (map stream_bytes xs) @ tail)))
    = concat (map stream_members xs)"
  by (rule salvage_tar_stream [OF assms])

theorem salvage_tar_complete_witness:
  "map segment_member (segments (salvage_tar (concat (map stream_bytes
      [Inl (''a.txt'', [1, 2, 3]), Inr (replicate 512 0), Inr (replicate 512 7), Inl (''b'', [])]) @ [5])))
    = [(''a.txt'', [1, 2, 3]), (''b'', [])]"
proof -
  have "stream_ok (Inl (''a.txt'', [1, 2, 3]))" "stream_ok (Inl (''b'', []))"
    by (simp_all add: stream_ok_def member_ok_def str_bytes_def byte_of_char_def utf8_valid_ascii)
  moreover have "stream_ok (Inr (replicate 512 0))"
    by (rule zero_block_junk) (simp_all add: BLOCK_def list_all_iff)
  moreover have "stream_ok (Inr (replicate 512 7))"
  proof -
    have "replicate 5 (7 :: u8) \<noteq> ustar_magic"
    proof
      assume "replicate 5 (7 :: u8) = ustar_magic"
      then have "hd (replicate 5 (7 :: u8)) = hd ustar_magic" by simp
      then show False by (simp add: ustar_magic_def)
    qed
    then show ?thesis
      by (simp add: stream_ok_def valid_header_def BLOCK_def get_range_def cut_def)
  qed
  ultimately show ?thesis
    using salvage_tar_complete [of "[Inl (''a.txt'', [1, 2, 3]), Inr (replicate 512 0),
      Inr (replicate 512 7), Inl (''b'', [])]" "[5]"]
    by (simp add: BLOCK_def stream_members_def)
qed

text \<open>
  Encoding a list of files as a TAR archive and salvaging it gives back every file's name
  and contents, and counts each as verified.
\<close>

theorem tar_archive_roundtrip:
  assumes "list_all member_ok ms"
  shows "map segment_member (segments (salvage_tar (tar_archive ms))) = ms
    \<and> members_verified (salvage_tar (tar_archive ms)) = length ms"
proof -
  let ?xs = "map Inl ms @ [Inr (replicate BLOCK 0), Inr (replicate BLOCK 0)]"
  have "list_all stream_ok ?xs"
    using assms zero_block_junk [of "replicate BLOCK 0"]
    by (auto simp: list_all_iff stream_ok_def)
  then have "map segment_member (segments (salvage_tar (tar_archive ms))) = concat (map stream_members ?xs)"
    using salvage_tar_stream [of ?xs "[]"] by (simp add: tar_archive_stream BLOCK_def)
  also have "\<dots> = ms" by (induction ms) (simp_all add: stream_members_def)
  finally have ms: "map segment_member (segments (salvage_tar (tar_archive ms))) = ms" .
  then have "length (segments (salvage_tar (tar_archive ms))) = length ms"
    by (metis length_map)
  with ms members_verified_salvage_tar [of "tar_archive ms"] show ?thesis by simp
qed

theorem tar_archive_roundtrip_witness:
  "map segment_member (segments (salvage_tar (tar_archive [(''dir/x'', [0, 255])]))) = [(''dir/x'', [0, 255])]
    \<and> members_verified (salvage_tar (tar_archive [(''dir/x'', [0, 255])])) = 1"
  using tar_archive_roundtrip [of "[(''dir/x'', [0, 255])]"]
  by (simp add: member_ok_def str_bytes_def byte_of_char_def utf8_valid_ascii)

end
