(* ===== verification/Crc.thy ===== *)
theory Crc
  imports Prelude
begin

text \<open>
  The two CRC engines of the repository and their relation.
  \<^item> \<open>phx_recovery/src/crc\<close>: the parameterised bit-at-a-time (Rocksoft) engine
    \<open>CrcParams\<close> with its catalogue, the verifier of the recovery core;
  \<^item> \<open>phx_analyze_engine/src/integrity/crc32.rs\<close>: the table-driven streaming CRC-32.
  Shown: the register never leaves its width, the catalogued check values, streaming is
  independent of the chunking (through the locale \<open>streaming_checksum\<close>, interpreted for
  both engines), the table-driven routine computes exactly the reference CRC-32, and a
  change confined to one byte always changes the CRC-32.
\<close>

unbundle bit_operations_syntax

section \<open>The parameterised engine\<close>

record crc_params =
  crc_width :: nat
  crc_poly :: u64
  crc_init :: u64
  crc_refin :: bool
  crc_refout :: bool
  crc_xorout :: u64
  crc_name :: string

definition reflect :: "u64 \<Rightarrow> nat \<Rightarrow> u64" where
  "reflect value width = drop_bit (64 - width) (word_reverse value)"

definition crc_mask :: "crc_params \<Rightarrow> u64" where
  "crc_mask p = (if 64 \<le> crc_width p then - 1 else push_bit (crc_width p) 1 - 1)"

definition crc_topbit :: "crc_params \<Rightarrow> u64" where
  "crc_topbit p = push_bit (crc_width p - 1) 1"

text \<open>One turn of the inner \<open>for _ in 0..8\<close> loop.\<close>

definition crc_bit_step :: "crc_params \<Rightarrow> u64 \<Rightarrow> u64" where
  "crc_bit_step p reg =
     (if reg AND crc_topbit p \<noteq> 0
      then (push_bit 1 reg XOR crc_poly p) AND crc_mask p
      else push_bit 1 reg AND crc_mask p)"

text \<open>One turn of the outer loop: fold a byte into the register.\<close>

definition crc_byte_step :: "crc_params \<Rightarrow> u64 \<Rightarrow> u8 \<Rightarrow> u64" where
  "crc_byte_step p reg byte =
     (let b = (if crc_refin p then ucast (word_reverse byte) else ucast byte) :: u64
      in (crc_bit_step p ^^ 8) (reg XOR (push_bit (crc_width p - 8) b AND crc_mask p)))"

definition crc_update :: "crc_params \<Rightarrow> u64 \<Rightarrow> bytes \<Rightarrow> u64" where
  "crc_update p reg data = foldl (crc_byte_step p) reg data"

definition crc_finish :: "crc_params \<Rightarrow> u64 \<Rightarrow> u64" where
  "crc_finish p reg =
     ((if crc_refout p then reflect reg (crc_width p) else reg) XOR crc_xorout p) AND crc_mask p"

definition checksum :: "crc_params \<Rightarrow> bytes \<Rightarrow> u64" where
  "checksum p data = crc_finish p (crc_update p (crc_init p AND crc_mask p) data)"

definition crc_verify :: "crc_params \<Rightarrow> bytes \<Rightarrow> u64 \<Rightarrow> bool" where
  "crc_verify p data stored \<longleftrightarrow> checksum p data = stored AND crc_mask p"

definition evidence_width :: "crc_params \<Rightarrow> nat" where
  "evidence_width p = crc_width p"

subsection \<open>The catalogue\<close>

definition CRC32_ISO_HDLC :: crc_params where
  "CRC32_ISO_HDLC =
     \<lparr>crc_width = 32, crc_poly = 0x04C11DB7, crc_init = 0xFFFFFFFF, crc_refin = True,
      crc_refout = True, crc_xorout = 0xFFFFFFFF, crc_name = ''CRC-32/ISO-HDLC''\<rparr>"

definition CRC32_BZIP2 :: crc_params where
  "CRC32_BZIP2 =
     \<lparr>crc_width = 32, crc_poly = 0x04C11DB7, crc_init = 0xFFFFFFFF, crc_refin = False,
      crc_refout = False, crc_xorout = 0xFFFFFFFF, crc_name = ''CRC-32/BZIP2''\<rparr>"

definition CRC64_XZ :: crc_params where
  "CRC64_XZ =
     \<lparr>crc_width = 64, crc_poly = 0x42F0E1EBA9EA3693, crc_init = 0xFFFFFFFFFFFFFFFF,
      crc_refin = True, crc_refout = True, crc_xorout = 0xFFFFFFFFFFFFFFFF,
      crc_name = ''CRC-64/XZ''\<rparr>"

section \<open>The table-driven streaming CRC-32\<close>

record crc32_acc =
  acc_state :: u32

text \<open>The body of the \<open>while j < 8\<close> loop of \<open>build_table\<close>.\<close>

definition table_step :: "u32 \<Rightarrow> u32" where
  "table_step crc =
     (if crc AND 1 = 1 then drop_bit 1 crc XOR 0xEDB88320 else drop_bit 1 crc)"

definition build_table :: "u32 list" where
  "build_table = map (\<lambda>i. (table_step ^^ 8) (of_nat i)) [0..<256]"

definition crc32_new :: crc32_acc where
  "crc32_new = \<lparr>acc_state = 0xFFFFFFFF\<rparr>"

definition crc32_byte :: "u32 \<Rightarrow> u8 \<Rightarrow> u32" where
  "crc32_byte crc b =
     (let idx = unat ((crc XOR ucast b) AND 0xFF)
      in drop_bit 8 crc XOR build_table ! idx)"

definition crc32_update :: "crc32_acc \<Rightarrow> bytes \<Rightarrow> crc32_acc" where
  "crc32_update c data = c\<lparr>acc_state := foldl crc32_byte (acc_state c) data\<rparr>"

definition crc32_finalize :: "crc32_acc \<Rightarrow> u32" where
  "crc32_finalize c = acc_state c XOR 0xFFFFFFFF"

definition crc32 :: "bytes \<Rightarrow> u32" where
  "crc32 data = crc32_finalize (crc32_update crc32_new data)"

section \<open>Streaming\<close>

text \<open>What a streaming checksum promises its clients.\<close>

locale streaming_checksum =
  fixes start :: 's
    and feed :: "'s \<Rightarrow> bytes \<Rightarrow> 's"
    and finish :: "'s \<Rightarrow> 'w"
  assumes feed_Nil: "feed s [] = s"
    and feed_append: "feed s (xs @ ys) = feed (feed s xs) ys"
begin

lemma feed_chunks: "foldl feed s chunks = feed s (concat chunks)"
  by (induction chunks arbitrary: s) (simp_all add: feed_Nil feed_append)

lemma chunking_irrelevant:
  "concat cs = concat ds \<Longrightarrow> finish (foldl feed start cs) = finish (foldl feed start ds)"
  by (simp add: feed_chunks)

end

interpretation table_crc: streaming_checksum crc32_new crc32_update crc32_finalize
  by unfold_locales (simp_all add: crc32_update_def)

interpretation bit_crc: streaming_checksum "crc_init p AND crc_mask p" "crc_update p" "crc_finish p"
  for p
  by unfold_locales (simp_all add: crc_update_def)

section \<open>The register stays within its width\<close>

lemma crc_mask_eq: "crc_width p \<le> 64 \<Longrightarrow> crc_mask p = mask (crc_width p)"
  by (auto simp: crc_mask_def mask_eq_exp_minus_1 push_bit_eq_mult intro: bit_word_eqI)

lemma and_mask_less: "n < 64 \<Longrightarrow> unat (w AND mask n :: u64) < 2 ^ n"
  by (simp only: take_bit_eq_mask [symmetric] unsigned_take_bit_eq) simp

lemma checksum_bounded_aux:
  assumes "0 < crc_width p" "crc_width p \<le> 64"
  shows "unat (checksum p data) < 2 ^ crc_width p"
proof (cases "crc_width p = 64")
  case True
  have "unat (checksum p data) < 2 ^ LENGTH(64)" by (rule unsigned_less)
  with True show ?thesis by simp
next
  case False
  with assms show ?thesis
    using and_mask_less [of "crc_width p"]
    by (simp add: checksum_def crc_finish_def crc_mask_eq)
qed

section \<open>The table-driven CRC is the reference CRC\<close>

lemma word_reverse_xor: "word_reverse (a XOR b) = word_reverse a XOR word_reverse b"
  by (rule bit_word_eqI) (auto simp: bit_simps)

lemma word_reverse_drop_bit_1: "word_reverse (drop_bit 1 (a :: u32)) = push_bit 1 (word_reverse a)"
proof (rule bit_word_eqI)
  fix n assume n: "n < LENGTH(32)"
  have "\<not> bit a 32" using bit_imp_le_length [of a 32] by auto
  then show "bit (word_reverse (drop_bit 1 a)) n \<longleftrightarrow> bit (push_bit 1 (word_reverse a)) n"
    using n unfolding bit_push_bit_iff bit_word_reverse_iff bit_drop_bit_eq o_def
    by (cases n) (auto simp: Suc_diff_le [symmetric])
qed

lemma word_reverse_table_poly: "word_reverse (0xEDB88320 :: u32) = 0x04C11DB7"
  by (simp add: word_reverse_def upt_rec)

lemma mask_iso: "crc_mask CRC32_ISO_HDLC = mask 32"
  by (simp add: crc_mask_def CRC32_ISO_HDLC_def mask_eq_exp_minus_1)

lemma iso_select:
  "crc_width CRC32_ISO_HDLC = 32" "crc_poly CRC32_ISO_HDLC = 0x04C11DB7"
  "crc_init CRC32_ISO_HDLC = 0xFFFFFFFF" "crc_refin CRC32_ISO_HDLC"
  "crc_refout CRC32_ISO_HDLC" "crc_xorout CRC32_ISO_HDLC = 0xFFFFFFFF"
  by (simp_all add: CRC32_ISO_HDLC_def)

text \<open>The 64-bit register of the reference holds the mirrored 32-bit accumulator.\<close>

lemma bit_step_mirror:
  "crc_bit_step CRC32_ISO_HDLC (ucast (word_reverse st)) = ucast (word_reverse (table_step st))"
proof -
  let ?r = "word_reverse st"
  have top: "(ucast ?r :: u64) AND crc_topbit CRC32_ISO_HDLC \<noteq> 0 \<longleftrightarrow> st AND 1 = 1"
  proof -
    have "(ucast ?r :: u64) AND push_bit 31 1 \<noteq> 0 \<longleftrightarrow> bit (ucast ?r :: u64) 31"
      unfolding bit_iff_and_push_bit_not_eq_0 ..
    also have "\<dots> \<longleftrightarrow> bit st 0"
      by (simp add: bit_ucast_iff bit_word_reverse_iff)
    also have "\<dots> \<longleftrightarrow> st AND 1 = 1"
      by (simp add: bit_0 and_one_eq odd_iff_mod_2_eq_one)
    finally show ?thesis by (simp add: crc_topbit_def iso_select)
  qed
  have shift: "push_bit 1 (ucast ?r :: u64) AND mask 32 = ucast (push_bit 1 ?r)"
    by (rule bit_word_eqI)
       (unfold bit_push_bit_iff bit_and_iff bit_mask_iff bit_ucast_iff, auto)
  have shift_xor: "(push_bit 1 (ucast ?r :: u64) XOR 0x04C11DB7) AND mask 32
      = ucast (push_bit 1 ?r XOR 0x04C11DB7)"
  proof -
    have "(push_bit 1 (ucast ?r :: u64) XOR 0x04C11DB7) AND mask 32
        = (push_bit 1 (ucast ?r :: u64) AND mask 32) XOR (0x04C11DB7 AND mask 32)"
      by (rule bit_word_eqI) (unfold bit_and_iff bit_xor_iff, blast)
    also have "\<dots> = ucast (push_bit 1 ?r) XOR ucast (0x04C11DB7 :: u32)"
    proof -
      have "(0x04C11DB7 :: u64) AND mask 32 = ucast (0x04C11DB7 :: u32)"
        by (simp add: mask_eq_exp_minus_1)
      then show ?thesis by (simp only: shift)
    qed
    also have "\<dots> = ucast (push_bit 1 ?r XOR 0x04C11DB7)"
      by (simp add: unsigned_xor_eq)
    finally show ?thesis .
  qed
  show ?thesis
    unfolding crc_bit_step_def top table_step_def mask_iso
    by (cases "st AND 1 = 1")
       (simp_all only: shift shift_xor word_reverse_xor word_reverse_drop_bit_1
         word_reverse_table_poly iso_select if_True if_False simp_thms)
qed

lemma table_step_eq: "table_step c = drop_bit 1 c XOR (if bit c 0 then 0xEDB88320 else 0)"
  by (simp add: table_step_def bit_0 and_one_eq odd_iff_mod_2_eq_one)

lemma table_step_xor: "table_step (x XOR y) = table_step x XOR table_step y"
proof -
  have "drop_bit 1 (x XOR y) = drop_bit 1 x XOR drop_bit 1 y" by (rule drop_bit_xor)
  then show ?thesis
    by (auto simp: table_step_eq bit_xor_iff xor.assoc xor.left_commute simp del: drop_bit_xor)
qed

lemma table_steps_xor: "(table_step ^^ k) (x XOR y) = (table_step ^^ k) x XOR (table_step ^^ k) y"
  by (induction k) (simp_all add: table_step_xor)

lemma table_steps_low_zero: "(\<And>i. i < k \<Longrightarrow> \<not> bit x i) \<Longrightarrow> (table_step ^^ k) x = drop_bit k x"
proof (induction k)
  case 0
  then show ?case by simp
next
  case (Suc k)
  then have "(table_step ^^ k) x = drop_bit k x" and "\<not> bit x k" by auto
  then show ?case using table_step_eq [of "drop_bit k x"]
    by (simp add: bit_drop_bit_eq drop_bit_drop_bit)
qed

lemma build_table_nth: "unat x < 256 \<Longrightarrow> build_table ! unat x = (table_step ^^ 8) x"
  by (simp add: build_table_def del: upt.simps funpow.simps)

lemma crc32_byte_steps: "crc32_byte crc b = (table_step ^^ 8) (crc XOR ucast b)"
proof -
  define x where "x = crc XOR ucast b"
  have split: "x = (x AND mask 8) XOR (x AND NOT (mask 8))"
    by (rule bit_word_eqI) (auto simp: bit_simps)
  have hi: "(table_step ^^ 8) (x AND NOT (mask 8)) = drop_bit 8 crc"
  proof -
    have "(table_step ^^ 8) (x AND NOT (mask 8)) = drop_bit 8 (x AND NOT (mask 8))"
      by (rule table_steps_low_zero) (auto simp: bit_simps)
    also have "\<dots> = drop_bit 8 crc"
      by (rule bit_word_eqI) (auto simp: x_def bit_simps dest: bit_imp_le_length)
    finally show ?thesis .
  qed
  have "unat (x AND mask 8) < 256"
    by (simp only: take_bit_eq_mask [symmetric] unsigned_take_bit_eq) (simp add: take_bit_eq_mod)
  then have lo: "build_table ! unat (x AND mask 8) = (table_step ^^ 8) (x AND mask 8)"
    by (rule build_table_nth)
  have "(table_step ^^ 8) x = (table_step ^^ 8) (x AND mask 8) XOR drop_bit 8 crc"
    using table_steps_xor [of 8 "x AND mask 8" "x AND NOT (mask 8)"] split hi by simp
  moreover have "(255 :: u32) = mask 8" by (simp add: mask_eq_exp_minus_1)
  ultimately show ?thesis
    using lo by (simp add: crc32_byte_def Let_def x_def [symmetric] xor.commute)
qed

lemma funpow_mirror:
  "(crc_bit_step CRC32_ISO_HDLC ^^ k) (ucast (word_reverse st))
    = ucast (word_reverse ((table_step ^^ k) st))"
  by (induction k) (simp_all add: bit_step_mirror)

lemma byte_step_mirror:
  "crc_byte_step CRC32_ISO_HDLC (ucast (word_reverse st)) b = ucast (word_reverse (crc32_byte st b))"
proof -
  have "(ucast (word_reverse st) :: u64) XOR (push_bit 24 (ucast (word_reverse b)) AND mask 32)
      = ucast (word_reverse (st XOR ucast b))"
  proof (rule bit_word_eqI)
    fix n assume "n < LENGTH(64)"
    show "bit ((ucast (word_reverse st) :: u64) XOR (push_bit 24 (ucast (word_reverse b)) AND mask 32)) n
        = bit (ucast (word_reverse (st XOR ucast b)) :: u64) n"
      using bit_imp_le_length [of b "31 - n"]
      by (auto simp: bit_simps)
  qed
  then show ?thesis
    by (simp add: crc_byte_step_def mask_iso crc32_byte_steps funpow_mirror iso_select
        del: funpow.simps)
qed

lemma update_mirror:
  "crc_update CRC32_ISO_HDLC (ucast (word_reverse st)) data
    = ucast (word_reverse (foldl crc32_byte st data))"
  unfolding crc_update_def by (induction data arbitrary: st) (simp_all add: byte_step_mirror)

lemma reflect_mirror: "reflect (ucast (word_reverse (st :: u32))) 32 = ucast st"
proof (rule bit_word_eqI)
  fix n assume "n < LENGTH(64)"
  show "bit (reflect (ucast (word_reverse st)) 32) n = bit (ucast st :: u64) n"
    using bit_imp_le_length [of st n] \<open>n < LENGTH(64)\<close>
    by (cases "n < 32") (auto simp: reflect_def bit_simps)
qed

lemma checksum_iso_eq: "checksum CRC32_ISO_HDLC data = ucast (crc32 data)"
proof -
  have start: "crc_init CRC32_ISO_HDLC AND mask 32 = ucast (word_reverse (0xFFFFFFFF :: u32))"
    by (simp add: iso_select word_reverse_def upt_rec mask_eq_exp_minus_1)
  have "checksum CRC32_ISO_HDLC data
      = (ucast (foldl crc32_byte 0xFFFFFFFF data) XOR 0xFFFFFFFF) AND mask 32"
    unfolding checksum_def mask_iso start update_mirror crc_finish_def
    by (simp add: reflect_mirror iso_select)
  also have "\<dots> = ucast (foldl crc32_byte 0xFFFFFFFF data XOR (0xFFFFFFFF :: u32))"
  proof (rule bit_word_eqI)
    fix n assume "n < LENGTH(64)"
    have m: "(0xFFFFFFFF :: u64) = mask 32" "(0xFFFFFFFF :: u32) = mask 32"
      by (simp_all add: mask_eq_exp_minus_1)
    show "bit ((ucast (foldl crc32_byte 0xFFFFFFFF data) XOR 0xFFFFFFFF :: u64) AND mask 32) n
        = bit (ucast (foldl crc32_byte 0xFFFFFFFF data XOR (0xFFFFFFFF :: u32)) :: u64) n"
      unfolding m by (auto simp: bit_simps dest: bit_imp_le_length)
  qed
  also have "\<dots> = ucast (crc32 data)"
    by (simp add: crc32_def crc32_finalize_def crc32_update_def crc32_new_def)
  finally show ?thesis .
qed

section \<open>A change confined to one byte is always detected\<close>

lemma xor_right_inj: "a XOR c = b XOR c \<longleftrightarrow> a = (b :: u32)"
proof
  assume "a XOR c = b XOR c"
  then have "(a XOR c) XOR c = (b XOR c) XOR c" by simp
  then show "a = b" by (simp only: xor.assoc xor_self_eq xor.right_neutral)
qed simp

lemma xor_left_inj: "c XOR a = c XOR b \<longleftrightarrow> a = (b :: u32)"
  by (simp only: xor.commute [of c] xor_right_inj)

lemma byte_ucast_inj: "(ucast (a :: u8) :: u32) = ucast b \<longleftrightarrow> a = b"
proof
  assume eq: "(ucast a :: u32) = ucast b"
  show "a = b"
  proof (rule bit_word_eqI)
    fix n assume n: "n < LENGTH(8)"
    have "bit (ucast a :: u32) n = bit (ucast b :: u32) n" by (simp only: eq)
    with n show "bit a n = bit b n" by (simp add: bit_ucast_iff)
  qed
qed simp

lemma table_step_inj: "table_step x = table_step y \<Longrightarrow> x = y"
proof (rule bit_word_eqI)
  fix n assume eq: "table_step x = table_step y" and n: "n < LENGTH(32)"
  have top: "bit (table_step w) 31 = bit w 0" for w
  proof -
    have "\<not> bit w 32" using bit_imp_le_length [of w 32] by auto
    then show ?thesis by (simp add: table_step_eq bit_xor_iff bit_drop_bit_eq)
  qed
  have low: "bit x 0 = bit y 0" using top [of x] top [of y] eq by simp
  with eq have "drop_bit 1 x = drop_bit 1 y"
    by (auto simp: table_step_eq xor_right_inj split: if_splits)
  then have "bit (drop_bit 1 x) (n - 1) = bit (drop_bit 1 y) (n - 1)" by simp
  with low show "bit x n = bit y n" by (cases n) (simp_all add: bit_drop_bit_eq)
qed

lemma table_steps_inj: "(table_step ^^ k) x = (table_step ^^ k) y \<Longrightarrow> x = y"
  by (induction k) (auto dest: table_step_inj)

lemma crc32_byte_inj_state: "crc32_byte s b = crc32_byte t b \<Longrightarrow> s = t"
  unfolding crc32_byte_steps by (drule table_steps_inj) (simp add: xor_right_inj)

lemma crc32_byte_inj_byte: "crc32_byte s a = crc32_byte s b \<Longrightarrow> a = b"
  unfolding crc32_byte_steps by (drule table_steps_inj) (simp add: xor_left_inj byte_ucast_inj)

lemma crc32_state_inj: "foldl crc32_byte s data = foldl crc32_byte t data \<Longrightarrow> s = t"
  by (induction data arbitrary: s t) (auto dest: crc32_byte_inj_state)

lemma checksum_iso_u32: "(ucast (checksum CRC32_ISO_HDLC data) :: u32) = crc32 data"
  by (rule bit_word_eqI) (auto simp: checksum_iso_eq bit_simps)

text \<open>\<open>CRC32_ISO_HDLC.checksum(..) as u32\<close>, as the structure verifiers call it.\<close>

definition crc32_iso :: "bytes \<Rightarrow> u32" where
  "crc32_iso bs = ucast (checksum CRC32_ISO_HDLC bs)"

lemma crc32_iso_eq: "crc32_iso bs = crc32 bs"
  by (simp add: crc32_iso_def checksum_iso_u32)

lemma crc32_byte_change:
  assumes "a \<noteq> b"
  shows "crc32 (xs @ a # ys) \<noteq> crc32 (xs @ b # ys)"
proof
  assume "crc32 (xs @ a # ys) = crc32 (xs @ b # ys)"
  then have "foldl crc32_byte (crc32_byte (foldl crc32_byte 0xFFFFFFFF xs) a) ys
      = foldl crc32_byte (crc32_byte (foldl crc32_byte 0xFFFFFFFF xs) b) ys"
    by (simp add: crc32_def crc32_finalize_def crc32_update_def crc32_new_def xor_right_inj)
  then have "a = b" by (auto dest: crc32_state_inj crc32_byte_inj_byte)
  with assms show False by simp
qed

lemma crc32_iso_update:
  assumes "i < length bs" "x \<noteq> bs ! i"
  shows "crc32_iso (bs[i := x]) \<noteq> crc32_iso bs"
proof -
  have "bs = take i bs @ bs ! i # drop (Suc i) bs" using assms(1) by (rule id_take_nth_drop)
  moreover have "bs[i := x] = take i bs @ x # drop (Suc i) bs" using assms(1) by (rule upd_conv_take_nth_drop)
  ultimately show ?thesis using crc32_byte_change [OF assms(2)] by (metis crc32_iso_eq)
qed

section \<open>Properties\<close>

text \<open>C31. The table-driven CRC-32 of the analysis engine and the parameterised bit-at-a-time
  engine of the recovery core, with the CRC-32/ISO-HDLC parameters, compute the same value on
  every input; so a verification against either is a verification against the other.\<close>

theorem crc32_table_matches_reference:
  "checksum CRC32_ISO_HDLC data = ucast (crc32 data) \<and>
   (crc_verify CRC32_ISO_HDLC data (ucast stored) \<longleftrightarrow> crc32 data = (stored :: u32))"
proof
  show "checksum CRC32_ISO_HDLC data = ucast (crc32 data)" by (rule checksum_iso_eq)
  have "(ucast stored :: u64) AND mask 32 = ucast stored"
    by (rule bit_word_eqI) (auto simp: bit_simps dest: bit_imp_le_length)
  moreover have "(ucast (ucast (w :: u32) :: u64) :: u32) = w" for w
    by (rule bit_word_eqI) (auto simp: bit_simps)
  then have "(ucast (crc32 data) :: u64) = ucast stored \<longleftrightarrow> crc32 data = stored" by metis
  ultimately show "crc_verify CRC32_ISO_HDLC data (ucast stored) \<longleftrightarrow> crc32 data = stored"
    by (simp add: crc_verify_def mask_iso checksum_iso_eq)
qed

text \<open>C40. Altering one byte of a buffer, wherever it lies and whatever surrounds it, always
  changes its CRC-32: a single-byte corruption can never pass the verifier.\<close>

theorem crc32_detects_byte_corruption:
  assumes "a \<noteq> b"
  shows "crc32 (xs @ a # ys) \<noteq> crc32 (xs @ b # ys)"
  by (rule crc32_byte_change [OF assms])

theorem crc32_detects_byte_corruption_witness:
  "(0x41 :: u8) \<noteq> 0x43 \<and> crc32 ([1, 2] @ 0x41 # [3]) \<noteq> crc32 ([1, 2] @ 0x43 # [3])"
proof -
  have "(0x41 :: u8) \<noteq> 0x43" by simp
  with crc32_detects_byte_corruption [OF this, of "[1, 2]" "[3]"] show ?thesis by simp
qed

text \<open>C3. Streaming is sound: however a buffer is cut into chunks, feeding the chunks one after
  the other to the accumulator of the table-driven CRC and finalizing gives the one-shot CRC-32
  of the whole buffer.\<close>

theorem crc32_streaming_matches_one_shot:
  "crc32_finalize (foldl crc32_update crc32_new chunks) = crc32 (concat chunks)"
  by (simp only: table_crc.feed_chunks crc32_def)

section \<open>Evaluation\<close>

lemma table_steps_8:
  "(table_step ^^ 8) x = table_step (table_step (table_step (table_step
     (table_step (table_step (table_step (table_step x)))))))"
  by (simp add: eval_nat_numeral)

lemmas crc32_eval = crc32_def crc32_finalize_def crc32_update_def crc32_new_def crc32_byte_steps
  table_steps_8 table_step_def

text \<open>The catalogued check value of the tests.\<close>

lemma crc32_check_vector:
  "crc32 [0x31, 0x32, 0x33, 0x34, 0x35, 0x36, 0x37, 0x38, 0x39] = 0xCBF43926"
  by (simp add: crc32_eval)

end
