(* ===== verification/Rar.thy ===== *)
theory Rar
  imports Prelude Rust_Text Crc
begin

unbundle bit_operations_syntax

text \<open>
  The RAR5 block parser (\<open>phx_recovery/src/rar/mod.rs\<close>): variable-length integers, the file
  header, stored extraction and the verified inventory.
  Shown: every listed file comes from a header whose CRC-32 validates and every block
  reported corrupt fails it; blocks advance through the file; extracted bytes carry the
  declared length and CRC and one damaged byte makes extraction abstain.
\<close>

section \<open>Data\<close>

definition SIGNATURE5 :: bytes where
  "SIGNATURE5 = [0x52, 0x61, 0x72, 0x21, 0x1A, 0x07, 0x01, 0x00]"

definition T_MAIN :: u64 where
  "T_MAIN = 1"

definition T_FILE :: u64 where
  "T_FILE = 2"

definition T_SERVICE :: u64 where
  "T_SERVICE = 3"

definition T_ENDARC :: u64 where
  "T_ENDARC = 5"

definition ARC_VOLUME :: u64 where
  "ARC_VOLUME = 1"

definition ARC_RECOVERY_RECORD :: u64 where
  "ARC_RECOVERY_RECORD = 8"

record FileEntry =
  fe_name :: string
  fe_is_dir :: bool
  fe_size :: "u64 option"
  fe_crc32 :: "u32 option"
  header_crc_ok :: bool
  fe_method :: u8
  data_offset :: nat
  packed_size :: nat

record Inventory =
  files :: "FileEntry list"
  corrupt_blocks :: "nat list"
  has_end :: bool
  truncated :: bool
  has_recovery_record :: bool
  is_volume :: bool

definition inventory_default :: Inventory where
  "inventory_default =
     \<lparr> files = [], corrupt_blocks = [], has_end = False, truncated = False,
       has_recovery_record = False, is_volume = False \<rparr>"

section \<open>Primitive readers\<close>

text \<open>
  The readers take and return the cursor. \<open>vint_loop\<close> stops after ten bytes, when the shift
  would reach 70.
\<close>

function vint_loop :: "bytes \<Rightarrow> nat \<Rightarrow> nat \<Rightarrow> u64 \<Rightarrow> (u64 \<times> nat) option" where
  "vint_loop d p shift val =
     (if p < length d then
        (let b = d ! p;
             val1 = val OR push_bit shift (ucast (b AND 0x7F)) in
         if b AND 0x80 = 0 then Some (val1, p + 1)
         else if 64 \<le> shift + 7 then None
         else vint_loop d (p + 1) (shift + 7) val1)
      else None)"
  by pat_completeness auto
termination by (relation "measure (\<lambda>(d, p, _). length d - p)") auto

declare vint_loop.simps [simp del]

definition vint :: "bytes \<Rightarrow> nat \<Rightarrow> (u64 \<times> nat) option" where
  "vint d p = vint_loop d p 0 0"

definition u32le :: "bytes \<Rightarrow> nat \<Rightarrow> (u32 \<times> nat) option" where
  "u32le d p = (if p + 4 \<le> length d then Some (u32_at d p, p + 4) else None)"

section \<open>File headers\<close>

text \<open>The optional \<open>mtime\<close> and data CRC fields.\<close>

definition skip_mtime :: "u64 \<Rightarrow> bytes \<Rightarrow> nat \<Rightarrow> nat option" where
  "skip_mtime flags d p = (if flags AND 0x02 \<noteq> 0 then map_option snd (u32le d p) else Some p)"

definition read_data_crc :: "u64 \<Rightarrow> bytes \<Rightarrow> nat \<Rightarrow> (u32 option \<times> nat) option" where
  "read_data_crc flags d p =
     (if flags AND 0x04 \<noteq> 0 then map_option (\<lambda>(c, q). (Some c, q)) (u32le d p) else Some (None, p))"

definition parse_file_header :: "bytes \<Rightarrow> nat \<Rightarrow> nat \<Rightarrow> FileEntry option" where
  "parse_file_header d p end_pos =
     Option.bind (vint d p) (\<lambda>(file_flags, p).
     Option.bind (vint d p) (\<lambda>(unpacked_size, p).
     Option.bind (vint d p) (\<lambda>(_, p).
     Option.bind (skip_mtime file_flags d p) (\<lambda>p.
     Option.bind (read_data_crc file_flags d p) (\<lambda>(crc, p).
     Option.bind (vint d p) (\<lambda>(comp_info, p).
     Option.bind (vint d p) (\<lambda>(_, p).
     Option.bind (vint d p) (\<lambda>(name_len, p).
       (let stop = p + unat name_len in
        if end_pos < stop then None
        else Option.bind (get_range d p stop) (\<lambda>nm.
          (let is_dir = (file_flags AND 0x01 \<noteq> 0) in
           Some \<lparr> fe_name = from_utf8_lossy nm, fe_is_dir = is_dir,
                  fe_size = (if is_dir then None else Some unpacked_size),
                  fe_crc32 = (if is_dir then None else crc),
                  header_crc_ok = True,
                  fe_method = ucast (drop_bit 7 comp_info AND 0x07),
                  data_offset = 0, packed_size = 0 \<rparr>)))))))))))"

definition extract_stored :: "bytes \<Rightarrow> FileEntry \<Rightarrow> bytes option" where
  "extract_stored file e =
     (if fe_is_dir e \<or> fe_method e \<noteq> 0 then None
      else Option.bind (fe_size e) (\<lambda>size.
        if packed_size e \<noteq> unat size then None
        else Option.bind (fe_crc32 e) (\<lambda>crc.
          Option.bind (get_range file (data_offset e) (data_offset e + unat size)) (\<lambda>bs.
            if crc32_iso bs \<noteq> crc then None else Some bs))))"

section \<open>The inventory\<close>

text \<open>
  The head of the block at \<open>p\<close>: a reader that fails (\<open>?\<close>), a header past the end of the file,
  or the parsed head with the cursor behind its size fields. An overflowing
  \<open>checked_add\<close> exceeds every file length and takes the same branch as the bounds check.
\<close>

record block_head =
  bh_crc_ok :: bool
  bh_body_end :: nat
  bh_type :: u64
  bh_data_size :: nat
  bh_cursor :: nat

datatype head_result = Head_Fails | Head_Truncated | Head block_head

text \<open>The size fields behind type and flags: \<open>(data_size, cursor)\<close>.\<close>

definition block_sizes :: "bytes \<Rightarrow> u64 \<Rightarrow> nat \<Rightarrow> (nat \<times> nat) option" where
  "block_sizes file flags b =
     Option.bind (if flags AND 0x01 \<noteq> 0 then map_option snd (vint file b) else Some b) (\<lambda>b.
       if flags AND 0x02 \<noteq> 0 then map_option (\<lambda>(n, q). (unat n, q)) (vint file b)
       else Some (0, b))"

definition read_block_head :: "bytes \<Rightarrow> nat \<Rightarrow> head_result" where
  "read_block_head file p =
     (case u32le file p of
        None \<Rightarrow> Head_Fails
      | Some (crc, hs_start) \<Rightarrow>
        (case vint file hs_start of
           None \<Rightarrow> Head_Fails
         | Some (header_size, body_start) \<Rightarrow>
           (let body_end = body_start + unat header_size in
            if length file < body_end then Head_Truncated
            else
              (case Option.bind (vint file body_start) (\<lambda>(htype, b).
                     Option.bind (vint file b) (\<lambda>(flags, b).
                     Option.bind (block_sizes file flags b) (\<lambda>(data_size, b).
                       Some (htype, data_size, b)))) of
                 None \<Rightarrow> Head_Fails
               | Some (htype, data_size, b) \<Rightarrow>
                   Head \<lparr> bh_crc_ok = (crc32_iso (cut file hs_start body_end) = crc),
                          bh_body_end = body_end, bh_type = htype,
                          bh_data_size = data_size, bh_cursor = b \<rparr>))))"

definition absorb_block :: "bytes \<Rightarrow> nat \<Rightarrow> block_head \<Rightarrow> Inventory \<Rightarrow> Inventory" where
  "absorb_block file block_start h iv =
     (if bh_crc_ok h then
        (if bh_type h = T_MAIN then
           (case vint file (bh_cursor h) of
              Some (arc_flags, _) \<Rightarrow>
                iv\<lparr> has_recovery_record := (has_recovery_record iv
                       \<or> arc_flags AND ARC_RECOVERY_RECORD \<noteq> 0),
                     is_volume := (is_volume iv \<or> arc_flags AND ARC_VOLUME \<noteq> 0) \<rparr>
            | None \<Rightarrow> iv)
         else if bh_type h = T_FILE then
           (case parse_file_header file (bh_cursor h) (bh_body_end h) of
              Some e \<Rightarrow> iv\<lparr> files := files iv
                @ [e\<lparr> data_offset := bh_body_end h, packed_size := bh_data_size h \<rparr>] \<rparr>
            | None \<Rightarrow> iv)
         else if bh_type h = T_SERVICE then
           (case parse_file_header file (bh_cursor h) (bh_body_end h) of
              Some e \<Rightarrow> if fe_name e = ''RR'' then iv\<lparr> has_recovery_record := True \<rparr> else iv
            | None \<Rightarrow> iv)
         else if bh_type h = T_ENDARC then iv\<lparr> has_end := True \<rparr>
         else iv)
      else iv\<lparr> corrupt_blocks := corrupt_blocks iv @ [block_start] \<rparr>)"

lemma vint_loop_advances: "vint_loop d p s v = Some (w, q) \<Longrightarrow> p < q \<and> q \<le> length d"
proof (induction d p s v rule: vint_loop.induct)
  case (1 d p s v)
  show ?case
  proof (cases "p < length d")
    case True
    with 1 show ?thesis
      by (fastforce simp: vint_loop.simps [of d p] Let_def split: if_splits)
  qed (use 1(2) in \<open>simp add: vint_loop.simps [of d p]\<close>)
qed

lemma vint_advances: "vint d p = Some (w, q) \<Longrightarrow> p < q \<and> q \<le> length d"
  by (simp add: vint_def vint_loop_advances)

lemma read_block_head_advances: "read_block_head file p = Head h \<Longrightarrow> p + 5 \<le> bh_body_end h \<and> bh_body_end h \<le> length file"
  by (auto simp: read_block_head_def u32le_def Let_def dest!: vint_advances
      split: option.splits prod.splits if_splits)

function rar_loop :: "bytes \<Rightarrow> nat \<Rightarrow> nat \<Rightarrow> Inventory \<Rightarrow> Inventory option" where
  "rar_loop file p guard iv =
     (if p + 5 \<le> length file then
        (if 1000000 < guard + 1 then Some iv
         else
           (case read_block_head file p of
              Head_Fails \<Rightarrow> None
            | Head_Truncated \<Rightarrow> Some (iv\<lparr> truncated := True \<rparr>)
            | Head h \<Rightarrow>
                (let iv1 = absorb_block file p h iv;
                     next = bh_body_end h + bh_data_size h in
                 if length file < next then Some (iv1\<lparr> truncated := True \<rparr>)
                 else if bh_crc_ok h \<and> bh_type h = T_ENDARC then Some iv1
                 else rar_loop file next (guard + 1) iv1)))
      else Some iv)"
  by pat_completeness auto
termination
  by (relation "measure (\<lambda>(file, p, _). length file - p)") (auto dest: read_block_head_advances)

declare rar_loop.simps [simp del]

definition read_inventory :: "bytes \<Rightarrow> Inventory option" where
  "read_inventory file =
     (if length file < 8 \<or> take 8 file \<noteq> SIGNATURE5 then None
      else map_option (\<lambda>iv. if \<not> has_end iv \<and> corrupt_blocks iv = []
                             then iv\<lparr> truncated := True \<rparr> else iv)
             (rar_loop file 8 0 inventory_default))"

section \<open>Variable-length integers\<close>

text \<open>The encoder the format's writers use: seven bits a byte, low bits first.\<close>

fun put_vint :: "nat \<Rightarrow> bytes" where
  "put_vint v = (if v < 128 then [of_nat v] else of_nat (128 + v mod 128) # put_vint (v div 128))"

declare put_vint.simps [simp del]

lemma vint_byte:
  assumes "n < 128"
  shows "(of_nat n :: u8) AND 0x80 = 0" "(of_nat n :: u8) AND 0x7F = of_nat n"
    "(of_nat (128 + n) :: u8) AND 0x80 \<noteq> 0" "(of_nat (128 + n) :: u8) AND 0x7F = of_nat n"
proof -
  have "list_all (\<lambda>n. (of_nat n :: u8) AND 0x80 = 0 \<and> (of_nat n :: u8) AND 0x7F = of_nat n
    \<and> (of_nat (128 + n) :: u8) AND 0x80 \<noteq> 0 \<and> (of_nat (128 + n) :: u8) AND 0x7F = of_nat n) [0..<128]"
    by code_simp
  moreover have "n \<in> set [0..<128]" using assms by simp
  ultimately show "(of_nat n :: u8) AND 0x80 = 0" "(of_nat n :: u8) AND 0x7F = of_nat n"
    "(of_nat (128 + n) :: u8) AND 0x80 \<noteq> 0" "(of_nat (128 + n) :: u8) AND 0x7F = of_nat n"
    unfolding list_all_iff by blast+
qed

lemma ucast_small:
  assumes "n < 128"
  shows "(ucast (of_nat n :: u8) :: u64) = of_nat n"
proof -
  have "unat (ucast (of_nat n :: u8) :: u64) = n"
    using assms by (simp add: unsigned_ucast_eq take_bit_eq_mod unat_of_nat)
  moreover have "of_nat (unat (ucast (of_nat n :: u8) :: u64)) = (ucast (of_nat n :: u8) :: u64)"
    by simp
  ultimately show ?thesis by simp
qed

lemma bit_of_nat_u64: "bit (of_nat m :: u64) n \<longleftrightarrow> n < 64 \<and> bit m n"
proof -
  have "(of_nat m :: u64) = word_of_int (int m)" by simp
  then show ?thesis by (simp only: bit_word_of_int_iff) (simp add: bit_of_nat_iff)
qed

lemma push_bit_split:
  "push_bit s (of_nat (v mod 128) :: u64) OR push_bit (s + 7) (of_nat (v div 128)) = push_bit s (of_nat v)"
proof (rule bit_word_eqI)
  fix n assume n: "n < LENGTH(64)"
  have m: "v mod 128 = take_bit 7 v" and d: "v div 128 = drop_bit 7 v"
    by (simp_all add: take_bit_eq_mod drop_bit_eq_div)
  show "bit (push_bit s (of_nat (v mod 128) :: u64) OR push_bit (s + 7) (of_nat (v div 128))) n
      = bit (push_bit s (of_nat v) :: u64) n"
  proof (cases "s + 7 \<le> n")
    case True
    then have "7 + (n - (s + 7)) = n - s" by simp
    with True n show ?thesis
      unfolding m d
      by (auto simp: bit_or_iff bit_push_bit_iff bit_of_nat_u64 bit_take_bit_iff bit_drop_bit_eq)
  next
    case False
    with n show ?thesis
      unfolding m d
      by (auto simp: bit_or_iff bit_push_bit_iff bit_of_nat_u64 bit_take_bit_iff bit_drop_bit_eq)
  qed
qed

lemma vint_loop_step:
  assumes "p < length d"
  shows "vint_loop d p s v = (let val1 = v OR push_bit s (ucast (d ! p AND 0x7F)) in
    if d ! p AND 0x80 = 0 then Some (val1, p + 1)
    else if 64 \<le> s + 7 then None else vint_loop d (p + 1) (s + 7) val1)"
  using assms by (simp add: vint_loop.simps [of d p] Let_def)

lemma vint_loop_put:
  "v < 2 ^ (64 - s) \<Longrightarrow> s < 64 \<Longrightarrow>
    vint_loop (pre @ put_vint v @ rest) (length pre) s acc
      = Some (acc OR push_bit s (of_nat v), length pre + length (put_vint v))"
proof (induction v arbitrary: pre s acc rule: put_vint.induct)
  case (1 v)
  show ?case
  proof (cases "v < 128")
    case True
    then show ?thesis
      by (simp add: vint_loop_step put_vint.simps [of v] vint_byte ucast_small)
  next
    case False
    have "(2 :: nat) ^ 7 < 2 ^ (64 - s)" using 1(2) False by simp
    then have "7 < 64 - s" by (rule power_less_imp_less_exp [rotated]) simp
    then have s7: "s + 7 < 64" by simp
    then have "(2 :: nat) ^ (64 - s) = 128 * 2 ^ (64 - (s + 7))"
      using power_add [of "2 :: nat" 7 "64 - (s + 7)"] by simp
    then have v7: "v div 128 < 2 ^ (64 - (s + 7))" using 1(2) by (simp add: less_mult_imp_div_less mult.commute)
    let ?b = "of_nat (128 + v mod 128) :: u8"
    have m: "v mod 128 < 128" by simp
    have "vint_loop ((pre @ [?b]) @ put_vint (v div 128) @ rest) (length (pre @ [?b])) (s + 7)
        (acc OR push_bit s (of_nat (v mod 128)))
      = Some ((acc OR push_bit s (of_nat (v mod 128))) OR push_bit (s + 7) (of_nat (v div 128)),
          length (pre @ [?b]) + length (put_vint (v div 128)))"
      by (rule 1(1) [OF False v7 s7])
    moreover have "(acc OR push_bit s (of_nat (v mod 128))) OR push_bit (s + 7) (of_nat (v div 128))
      = acc OR push_bit s (of_nat v)"
      using push_bit_split [of s v] by (simp add: or.assoc)
    ultimately show ?thesis
      using False s7 vint_byte(3,4) [OF m]
      by (simp add: vint_loop_step put_vint.simps [of v] ucast_small del: of_nat_add)
  qed
qed

text \<open>
  RAR5 variable-length integers round-trip: at any position of any buffer, reading the
  encoding of a 64-bit value returns the value and the position right after it.
\<close>

theorem vint_roundtrip:
  assumes "v < 2 ^ 64"
  shows "vint (pre @ put_vint v @ rest) (length pre) = Some (of_nat v, length pre + length (put_vint v))"
  using vint_loop_put [of v 0 pre rest 0] assms by (simp add: vint_def)

theorem vint_roundtrip_witness:
  "vint ([7] @ put_vint 300 @ [9]) 1 = Some (300, 1 + length (put_vint 300))"
  using vint_roundtrip [of 300 "[7]" "[9]"] by simp

section \<open>Extraction\<close>

lemma extract_stored_Some:
  "extract_stored file e = Some bs \<longleftrightarrow>
    (\<exists>size crc. \<not> fe_is_dir e \<and> fe_method e = 0 \<and> fe_size e = Some size
      \<and> packed_size e = unat size \<and> fe_crc32 e = Some crc
      \<and> data_offset e + unat size \<le> length file
      \<and> bs = cut file (data_offset e) (data_offset e + unat size) \<and> crc32_iso bs = crc)"
  by (cases "fe_size e"; cases "fe_crc32 e") (auto simp: extract_stored_def get_range_def)

lemma cut_update:
  assumes "a \<le> i" "i < b" "b \<le> length d"
  shows "cut (d[i := x]) a b = (cut d a b)[i - a := x]"
  using assms by (simp add: cut_def drop_update_swap take_update_swap)

text \<open>
  Stored RAR5 extraction emits proven bytes only: what it returns is the verbatim data area,
  of the declared size and with the declared CRC-32, of an uncompressed regular file; and
  if any one byte of that data area is altered, extraction of the same entry abstains.
\<close>

theorem extract_stored_exact:
  assumes "extract_stored file e = Some bs"
  shows "fe_crc32 e = Some (crc32_iso bs) \<and> fe_size e = Some (of_nat (length bs)) \<and> \<not> fe_is_dir e
    \<and> bs = cut file (data_offset e) (data_offset e + length bs)
    \<and> (\<forall>i x. i < length bs \<and> x \<noteq> bs ! i \<longrightarrow> extract_stored (file[data_offset e + i := x]) e = None)"
proof -
  obtain size crc where a: "\<not> fe_is_dir e" "fe_size e = Some size" "fe_crc32 e = Some crc"
    "data_offset e + unat size \<le> length file"
    "bs = cut file (data_offset e) (data_offset e + unat size)" "crc32_iso bs = crc"
    using assms by (auto simp: extract_stored_Some)
  have len: "length bs = unat size" using a(4,5) by simp
  have "extract_stored (file[data_offset e + i := x]) e = None" if i: "i < length bs" "x \<noteq> bs ! i" for i x
  proof -
    have "cut (file[data_offset e + i := x]) (data_offset e) (data_offset e + unat size) = bs[i := x]"
      using i a(4,5) len by (simp add: cut_update del: length_cut)
    then have "crc32_iso (cut (file[data_offset e + i := x]) (data_offset e) (data_offset e + unat size)) \<noteq> crc"
      using crc32_iso_update [OF i] a(6) by simp
    then have "extract_stored (file[data_offset e + i := x]) e \<noteq> Some y" for y
      using a(2,3) by (auto simp: extract_stored_Some)
    then show ?thesis by (cases "extract_stored (file[data_offset e + i := x]) e") auto
  qed
  with a len show ?thesis by simp
qed

definition example_entry :: FileEntry where
  "example_entry = \<lparr> fe_name = ''hi'', fe_is_dir = False, fe_size = Some 2,
     fe_crc32 = Some (crc32_iso [5, 6]), header_crc_ok = True, fe_method = 0,
     data_offset = 1, packed_size = 2 \<rparr>"

theorem extract_stored_exact_witness:
  "extract_stored [9, 5, 6, 9] example_entry = Some [5, 6]
    \<and> extract_stored [9, 5, 7, 9] example_entry = None"
proof -
  have s: "extract_stored [9, 5, 6, 9] example_entry = Some [5, 6]"
    by (simp add: extract_stored_Some example_entry_def cut_def)
  have "extract_stored ([9, 5, 6, 9][data_offset example_entry + 1 := 7]) example_entry = None"
    using extract_stored_exact [OF s, THEN conjunct2, THEN conjunct2, THEN conjunct2, THEN conjunct2,
      rule_format, of 1 7] by simp
  moreover have "data_offset example_entry + 1 = Suc (Suc 0)" by (simp add: example_entry_def)
  ultimately show ?thesis using s by simp
qed

section \<open>The verified inventory\<close>

definition verified_entry :: "bytes \<Rightarrow> FileEntry \<Rightarrow> bool" where
  "verified_entry file e \<longleftrightarrow>
     (\<exists>p h e'. read_block_head file p = Head h \<and> bh_crc_ok h \<and> bh_type h = T_FILE
        \<and> parse_file_header file (bh_cursor h) (bh_body_end h) = Some e'
        \<and> e = e'\<lparr> data_offset := bh_body_end h, packed_size := bh_data_size h \<rparr>)"

definition corrupt_block :: "bytes \<Rightarrow> nat \<Rightarrow> bool" where
  "corrupt_block file p \<longleftrightarrow> (\<exists>h. read_block_head file p = Head h \<and> \<not> bh_crc_ok h)"

text \<open>Data areas in file order, each ending before the next begins.\<close>

fun areas_ordered :: "nat \<Rightarrow> FileEntry list \<Rightarrow> bool" where
  "areas_ordered lim [] \<longleftrightarrow> True"
| "areas_ordered lim (e # es) \<longleftrightarrow> lim \<le> data_offset e \<and> areas_ordered (data_offset e + packed_size e) es"

definition areas_end :: "nat \<Rightarrow> FileEntry list \<Rightarrow> nat" where
  "areas_end lim es = (if es = [] then lim else data_offset (last es) + packed_size (last es))"

lemma areas_ordered_snoc:
  "areas_ordered lim (es @ [e]) \<longleftrightarrow> areas_ordered lim es \<and> areas_end lim es \<le> data_offset e"
  by (induction es arbitrary: lim) (auto simp: areas_end_def)

definition inventory_ok :: "bytes \<Rightarrow> Inventory \<Rightarrow> bool" where
  "inventory_ok file iv \<longleftrightarrow> list_all (verified_entry file) (files iv)
     \<and> list_all (corrupt_block file) (corrupt_blocks iv) \<and> areas_ordered 0 (files iv)"

lemma inventory_ok_flags [simp]:
  "inventory_ok file (iv\<lparr> truncated := b \<rparr>) = inventory_ok file iv"
  by (simp add: inventory_ok_def)

lemma absorb_block_ok:
  assumes "read_block_head file p = Head h" "inventory_ok file iv" "areas_end 0 (files iv) \<le> p"
  shows "inventory_ok file (absorb_block file p h iv)"
    and "areas_end 0 (files (absorb_block file p h iv)) \<le> bh_body_end h + bh_data_size h"
proof -
  have adv: "p \<le> bh_body_end h" using read_block_head_advances [OF assms(1)] by simp
  show "inventory_ok file (absorb_block file p h iv)"
  proof (cases "bh_crc_ok h \<and> bh_type h = T_FILE")
    case True
    then show ?thesis
      using assms adv
      by (auto simp: absorb_block_def inventory_ok_def verified_entry_def areas_ordered_snoc T_MAIN_def T_FILE_def
          split: option.split)
  next
    case False
    then show ?thesis
      using assms
      by (auto simp: absorb_block_def inventory_ok_def corrupt_block_def split: option.split)
  qed
  show "areas_end 0 (files (absorb_block file p h iv)) \<le> bh_body_end h + bh_data_size h"
    using assms(3) adv
    by (auto simp: absorb_block_def areas_end_def split: option.split if_splits)
qed

lemma rar_loop_ok:
  "rar_loop d p g iv = Some iv' \<Longrightarrow> inventory_ok d iv \<Longrightarrow> areas_end 0 (files iv) \<le> p
    \<Longrightarrow> inventory_ok d iv'"
proof (induction d p g iv rule: rar_loop.induct)
  case (1 d p g iv)
  show ?case
  proof (cases "p + 5 \<le> length d \<and> g + 1 \<le> 1000000")
    case False
    then show ?thesis using 1(2,3) by (auto simp: rar_loop.simps [of d p] split: if_splits)
  next
    case True
    show ?thesis
    proof (cases "read_block_head d p")
      case (Head h)
      note ab = absorb_block_ok [OF Head 1(3,4)]
      from True Head 1(2) show ?thesis
        using 1(1) [OF _ _ Head refl refl] ab
        by (auto simp: rar_loop.simps [of d p] Let_def split: if_splits)
    qed (use True 1(2,3) in \<open>auto simp: rar_loop.simps [of d p]\<close>)
  qed
qed

text \<open>
  C39. The RAR5 inventory is proven, entry by entry: every listed file comes from a file block
  whose header CRC-32 validates, with its data area right behind that header; every block
  reported corrupt fails its CRC; and the data areas of the listed files are disjoint and
  in file order.
\<close>

theorem read_inventory_verified:
  assumes "read_inventory file = Some iv"
  shows "list_all (verified_entry file) (files iv) \<and> list_all (corrupt_block file) (corrupt_blocks iv)
    \<and> areas_ordered 0 (files iv)"
proof -
  obtain iv0 where l: "rar_loop file 8 0 inventory_default = Some iv0"
    and iv: "iv = (if \<not> has_end iv0 \<and> corrupt_blocks iv0 = [] then iv0\<lparr> truncated := True \<rparr> else iv0)"
  proof -
    have "\<not> (length file < 8 \<or> take 8 file \<noteq> SIGNATURE5)"
      using assms by (auto simp: read_inventory_def split: if_splits)
    then show ?thesis using assms that by (auto simp: read_inventory_def)
  qed
  have "inventory_ok file inventory_default"
    by (simp add: inventory_ok_def inventory_default_def)
  then have "inventory_ok file iv0"
    by (rule rar_loop_ok [OF l]) (simp add: areas_end_def inventory_default_def)
  then have "inventory_ok file iv" using iv by simp
  then show ?thesis by (simp add: inventory_ok_def)
qed

theorem read_inventory_verified_witness:
  "\<exists>iv. read_inventory SIGNATURE5 = Some iv \<and> list_all (verified_entry SIGNATURE5) (files iv)"
proof -
  have "\<exists>iv. read_inventory SIGNATURE5 = Some iv"
    by (simp add: read_inventory_def rar_loop.simps SIGNATURE5_def)
  then obtain iv where "read_inventory SIGNATURE5 = Some iv" by blast
  with read_inventory_verified [OF this] show ?thesis by blast
qed

text \<open>
  A RAR5 file cut inside the size field of a block header loses its whole inventory: whatever
  blocks were read before, the parser returns nothing instead of reporting the archive as
  truncated. The five bytes of a checksum and an unfinished size field after the signature
  are the smallest such file.
\<close>

theorem read_inventory_drops_truncated:
  "read_inventory (SIGNATURE5 @ [a, b, c, d, 0x80]) = None
   \<and> rar_loop (pre @ [a, b, c, d, 0x80]) (length pre) g iv = (if 1000000 < g + 1 then Some iv else None)"
proof -
  have "vint (pre @ [a, b, c, d, 0x80]) (length pre + 4) = None" for pre
    by (simp add: vint_def vint_loop.simps nth_append)
  then have h: "read_block_head (pre @ [a, b, c, d, 0x80]) (length pre) = Head_Fails" for pre
    by (simp add: read_block_head_def u32le_def)
  then have l: "rar_loop (pre @ [a, b, c, d, 0x80]) (length pre) g iv
      = (if 1000000 < g + 1 then Some iv else None)" for pre g iv
    by (simp add: rar_loop.simps [of _ "length pre"])
  have "length SIGNATURE5 = 8" by (simp add: SIGNATURE5_def)
  then have "read_inventory (SIGNATURE5 @ [a, b, c, d, 0x80]) = None"
    using l [of SIGNATURE5 0 inventory_default] by (simp add: read_inventory_def)
  with l show ?thesis by blast
qed

end
