(* ===== verification/Health.thy ===== *)
theory Health
  imports Prelude "HOL-Library.Multiset"
begin

text \<open>
  The analysis result as recovery sees it (\<open>phx_analyze_engine/src/model\<close>): formats, corruption
  categories, severities, byte ranges, corruptions with their diagnosis rule, integrity
  verdicts; and health scoring (\<open>health/weights.rs\<close>, \<open>health/scorer.rs\<close>, \<open>model/health.rs\<close>).
  Records carry the fields that health scoring, planning and recovery read.
  Shown: scores stay within range, depend only on which corruptions were found and never
  rise when more are found, and a perfect score means that nothing penalised was found.
\<close>

section \<open>The analysis model\<close>

datatype ArchiveFormat =
  Raw | Zip | Tar | Iso9660 | Gzip | Sqlite | SevenZ | Rar | Pdf | Bzip2 | Xz | Zstd | Lz4

definition is_archive :: "ArchiveFormat \<Rightarrow> bool" where
  "is_archive f \<longleftrightarrow> f \<noteq> Raw"

datatype CorruptionCategory =
  MissingData | BitFlip | BlockReorder | Truncation | PaddingMismatch | ChecksumMismatch
| StructuralCorruption | SecurityThreat

datatype Severity = Benign | Minor | Major | Catastrophic

record ByteRange =
  br_start :: u64
  br_end :: u64

definition byte_range_len :: "ByteRange \<Rightarrow> nat" where
  "byte_range_len r = unat (br_end r) - unat (br_start r)"

definition adjacent_or_overlapping :: "ByteRange \<Rightarrow> ByteRange \<Rightarrow> bool" where
  "adjacent_or_overlapping a b \<longleftrightarrow> br_start a \<le> br_end b \<and> br_start b \<le> br_end a"

text \<open>\<open>EvidenceType\<close>; the constructors carry a prefix, as some share a name with a category.\<close>

datatype EvidenceType =
  EvSignatureMismatch | EvChecksumMismatch | EvOffsetOutOfBounds | EvLengthOverflow
| EvLengthUnderflow | EvStructureMissing | EvValueOutOfRange | EvBlockReorder
| EvPaddingViolation | EvTruncationMarker | EvOverlappingEntries | EvRatioExceeded
| EvDepthExceeded | EvPathEscape | EvCycleDetected

record CorruptionLocation =
  cl_file_path :: "string option"
  offset_start :: nat
  offset_end :: nat

definition stream_location :: "nat \<Rightarrow> nat \<Rightarrow> CorruptionLocation" where
  "stream_location a b = \<lparr> cl_file_path = None, offset_start = a, offset_end = b \<rparr>"

text \<open>
  The primary piece of evidence. Confidences are hundredths: the code only takes them from a
  table of two-digit constants and compares them with the emission threshold.
\<close>

record PrimaryEvidence =
  pe_offset :: nat
  expected_bytes :: "bytes option"
  actual_bytes :: bytes
  field_name :: string
  field_description :: string
  pe_confidence :: nat
  pe_type :: EvidenceType

text \<open>\<open>rule_id\<close> is \<open>chain.primary.rule_id\<close>; chains have no supporting evidence.\<close>

record Corruption =
  category :: CorruptionCategory
  severity :: Severity
  byte_range :: "ByteRange option"
  rule_id :: string
  c_location :: CorruptionLocation
  c_primary :: PrimaryEvidence

definition MAX_EVIDENCE_BYTES :: nat where "MAX_EVIDENCE_BYTES = 64"

definition MIN_EMIT_CONFIDENCE :: nat where "MIN_EMIT_CONFIDENCE = 50"

definition evidence_new ::
  "nat \<Rightarrow> bytes option \<Rightarrow> bytes \<Rightarrow> string \<Rightarrow> string \<Rightarrow> nat \<Rightarrow> EvidenceType \<Rightarrow> PrimaryEvidence" where
  "evidence_new off expected actual nm descr conf ty =
     \<lparr> pe_offset = off, expected_bytes = map_option (take MAX_EVIDENCE_BYTES) expected,
       actual_bytes = take MAX_EVIDENCE_BYTES actual, field_name = nm, field_description = descr,
       pe_confidence = min conf 100, pe_type = ty \<rparr>"

text \<open>\<open>Corruption::synthetic\<close>.\<close>

definition synthetic ::
  "CorruptionLocation \<Rightarrow> CorruptionCategory \<Rightarrow> Severity \<Rightarrow> string \<Rightarrow> ByteRange option \<Rightarrow> Corruption" where
  "synthetic loc cat sev rid rng =
     \<lparr> category = cat, severity = sev, byte_range = rng, rule_id = rid, c_location = loc,
       c_primary = evidence_new (offset_start loc) None [] ''synthetic'' ''synthetic evidence'' 100
         EvStructureMissing \<rparr>"

datatype HashType = Sha256 | Sha3_512

definition digest_len :: "HashType \<Rightarrow> nat" where
  "digest_len h = (case h of Sha256 \<Rightarrow> 32 | Sha3_512 \<Rightarrow> 64)"

record IntegrityResult =
  hash_type :: HashType
  expected_hash :: "string option"
  actual_hash :: string
  matches :: bool
  manifest_present :: bool

definition without_manifest :: "HashType \<Rightarrow> string \<Rightarrow> IntegrityResult" where
  "without_manifest h actual =
     \<lparr> hash_type = h, expected_hash = None, actual_hash = actual, matches = False,
       manifest_present = False \<rparr>"

record HealthScore =
  overall :: nat
  structural_health :: nat
  data_health :: nat
  metadata_health :: nat

record AnalysisResult =
  target_path :: string
  total_size_bytes :: nat
  archive_format :: "ArchiveFormat option"
  integrity_result :: IntegrityResult
  corruptions :: "Corruption list"
  health_score :: HealthScore

definition is_clean :: "AnalysisResult \<Rightarrow> bool" where
  "is_clean r \<longleftrightarrow> corruptions r = []"

section \<open>The score\<close>

definition perfect :: HealthScore where
  "perfect = \<lparr> overall = 100, structural_health = 100, data_health = 100, metadata_health = 100 \<rparr>"

text \<open>
  \<open>(s * 0.4 + d * 0.4 + m * 0.2).round()\<close> for integers up to 100: the exact value is a multiple
  of one fifth, at least a tenth away from every tie, so rounding in \<open>f64\<close> agrees with
  rounding the exact fifth, which is what the integer formula computes.
\<close>

definition from_subscores :: "nat \<Rightarrow> nat \<Rightarrow> nat \<Rightarrow> HealthScore" where
  "from_subscores structural dat metadata =
     (let s = min structural 100; d = min dat 100; m = min metadata 100 in
      \<lparr> overall = min ((2 * s + 2 * d + m + 2) div 5) 100,
        structural_health = s, data_health = d, metadata_health = m \<rparr>)"

definition interpretation_band :: "HealthScore \<Rightarrow> string" where
  "interpretation_band h =
     (if overall h = 100 then ''Perfect''
      else if 80 \<le> overall h \<and> overall h \<le> 99 then ''Minor issues, fully usable''
      else if 50 \<le> overall h \<and> overall h \<le> 79 then ''Significant damage, partial loss''
      else if 20 \<le> overall h \<and> overall h \<le> 49 then ''Severe damage''
      else ''Catastrophic'')"

section \<open>Penalties\<close>

record RulePenalty =
  p_points :: nat
  p_structural :: bool
  p_data :: bool
  p_metadata :: bool

definition penalty_s :: "nat \<Rightarrow> RulePenalty" where
  "penalty_s p = \<lparr> p_points = p, p_structural = True, p_data = False, p_metadata = False \<rparr>"

definition penalty_d :: "nat \<Rightarrow> RulePenalty" where
  "penalty_d p = \<lparr> p_points = p, p_structural = False, p_data = True, p_metadata = False \<rparr>"

definition penalty_sd :: "nat \<Rightarrow> RulePenalty" where
  "penalty_sd p = \<lparr> p_points = p, p_structural = True, p_data = True, p_metadata = False \<rparr>"

definition penalty_all :: "nat \<Rightarrow> RulePenalty" where
  "penalty_all p = \<lparr> p_points = p, p_structural = True, p_data = True, p_metadata = True \<rparr>"

definition RULE_PENALTIES :: "(string \<times> RulePenalty) list" where
  "RULE_PENALTIES =
    [
     (''ZIP_EOCD_001'', penalty_all 85),
     (''ZIP_EOCD_002'', penalty_all 63),
     (''ZIP_EOCD_003'', penalty_all 63),
     (''ZIP_CD_001'', penalty_all 85),
     (''ZIP_CD_002'', penalty_sd 44),
     (''ZIP_CD_003'', penalty_sd 56),
     (''ZIP_LFH_001'', penalty_sd 56),
     (''ZIP_CRC_001'', penalty_d 10),
     (''ZIP_CRC_002'', penalty_sd 44),
     (''ZIP_SIZE_001'', penalty_sd 56),
     (''ZIP_TRUNC_001'', penalty_sd 13),
     (''ZIP_TRUNC_002'', penalty_sd 44),
     (''ZIP_TRUNC_003'', penalty_all 68),
     (''ZIP_TRUNC_004'', penalty_all 85),
     (''ZIP_FLIP_001'', penalty_d 10),
     (''ZIP_FLIP_002'', penalty_sd 40),
     (''ZIP_FLIP_003'', penalty_sd 44),
     (''ZIP_EXTRA_001'', penalty_sd 22),
     (''ZIP_Z64_001'', penalty_sd 56),
     (''TAR_UST_001'', penalty_sd 25),
     (''TAR_TERM_001'', penalty_d 10),
     (''TAR_SIZE_001'', penalty_sd 44),
     (''TAR_SIZE_002'', penalty_all 40),
     (''TAR_BLOCK_001'', penalty_sd 44),
     (''TAR_GNU_001'', penalty_sd 56),
     (''TAR_TRUNC_001'', penalty_sd 13),
     (''TAR_TRUNC_002'', penalty_sd 44),
     (''TAR_TRUNC_003'', penalty_all 85),
     (''TAR_FLIP_001'', penalty_d 10),
     (''TAR_FLIP_002'', penalty_sd 44),
     (''ISO_PVD_001'', penalty_all 85),
     (''ISO_PT_001'', penalty_all 63),
     (''ISO_SVD_001'', penalty_sd 44),
     (''ISO_DIR_001'', penalty_sd 44),
     (''ISO_SECTOR_001'', penalty_d 10),
     (''ISO_SECTOR_002'', penalty_sd 56),
     (''ISO_TRUNC_001'', penalty_sd 44),
     (''ISO_TRUNC_002'', penalty_all 68),
     (''GZ_MAGIC_001'', penalty_all 85),
     (''GZ_ICRC_001'', penalty_sd 56),
     (''GZ_ISIZE_001'', penalty_d 15),
     (''GZ_FLIP_001'', penalty_sd 56),
     (''PDF_HDR_001'', penalty_all 85),
     (''PDF_XREF_001'', penalty_sd 44),
     (''PDF_EOF_001'', penalty_sd 30),
     (''SQ_MAGIC_001'', penalty_all 85),
     (''SQ_PGSIZE_001'', penalty_all 85),
     (''SQ_PGSIZE_002'', penalty_sd 30),
     (''SQ_FC_001'', penalty_s 10),
     (''SQ_BTREE_001'', penalty_sd 44),
     (''SQ_BTREE_002'', penalty_sd 30),
     (''SQ_BTREE_003'', penalty_sd 20),
     (''SQ_FREE_001'', penalty_d 15),
     (''SQ_FREE_002'', penalty_sd 20),
     (''SQ_WAL_001'', penalty_s 10),
     (''SQ_WAL_002'', penalty_s 15),
     (''SQ_TRUNC_001'', penalty_sd 44),
     (''SQ_TRUNC_002'', penalty_all 75),
     (''SQ_FLIP_001'', penalty_d 10),
     (''SQ_FLIP_002'', penalty_sd 25),
     (''SQ_COMP_001'', penalty_all 70),
     (''GEN_TRUNC_001'', penalty_sd 44),
     (''GEN_FLIP_001'', penalty_d 10),
     (''GEN_MISSING_001'', penalty_sd 44),
     (''GEN_STRUCT_001'', penalty_sd 44),
     (''INTEGRITY_HASH_001'', penalty_d 20),
     (''RAR_MAGIC_001'', penalty_all 85),
     (''7Z_MAGIC_001'', penalty_all 85),
     (''7Z_TRUNC_001'', penalty_sd 50),
     (''BZ2_MAGIC_001'', penalty_all 85),
     (''XZ_MAGIC_001'', penalty_all 85),
     (''ZST_MAGIC_001'', penalty_all 85),
     (''LZ4_MAGIC_001'', penalty_all 85)]"

definition route :: "CorruptionCategory \<Rightarrow> nat \<Rightarrow> RulePenalty" where
  "route cat pts =
     (case cat of
        StructuralCorruption \<Rightarrow> penalty_s pts
      | BlockReorder \<Rightarrow> penalty_s pts
      | PaddingMismatch \<Rightarrow> penalty_s pts
      | BitFlip \<Rightarrow> penalty_d pts
      | ChecksumMismatch \<Rightarrow> penalty_d pts
      | MissingData \<Rightarrow> penalty_d pts
      | Truncation \<Rightarrow> penalty_sd pts
      | SecurityThreat \<Rightarrow> penalty_all pts)"

definition default_points :: "Severity \<Rightarrow> nat" where
  "default_points sev =
     (case sev of Benign \<Rightarrow> 0 | Minor \<Rightarrow> 10 | Major \<Rightarrow> 25 | Catastrophic \<Rightarrow> 50)"

definition penalty_for :: "string \<Rightarrow> Severity \<Rightarrow> CorruptionCategory \<Rightarrow> RulePenalty" where
  "penalty_for rid sev cat =
     (case find (\<lambda>(id, _). id = rid) RULE_PENALTIES of
        Some p \<Rightarrow> snd p
      | None \<Rightarrow>
          (let pts = default_points sev; routed = route cat pts in
           if sev = Catastrophic then penalty_all pts else routed))"

definition corruption_penalty :: "Corruption \<Rightarrow> RulePenalty" where
  "corruption_penalty c = penalty_for (rule_id c) (severity c) (category c)"

text \<open>One iteration of the scoring loop on the three running subscores.\<close>

definition score_step :: "int \<times> int \<times> int \<Rightarrow> Corruption \<Rightarrow> int \<times> int \<times> int" where
  "score_step st c =
     (case st of (s, d, m) \<Rightarrow>
       (let p = corruption_penalty c; pts = int (p_points p) in
        (if p_structural p then s - pts else s,
         if p_data p then d - pts else d,
         if p_metadata p then m - pts else m)))"

definition clamp_score :: "int \<Rightarrow> nat" where
  "clamp_score x = nat (max 0 (min x 100))"

definition score :: "Corruption list \<Rightarrow> HealthScore" where
  "score cs =
     (case foldl score_step (100, 100, 100) cs of
        (s, d, m) \<Rightarrow> from_subscores (clamp_score s) (clamp_score d) (clamp_score m))"

section \<open>Lemmas\<close>

definition total_penalty :: "(RulePenalty \<Rightarrow> bool) \<Rightarrow> Corruption list \<Rightarrow> nat" where
  "total_penalty hits cs =
     (\<Sum>c\<leftarrow>cs. if hits (corruption_penalty c) then p_points (corruption_penalty c) else 0)"

lemma score_fold:
  "foldl score_step (s, d, m) cs =
    (s - int (total_penalty p_structural cs), d - int (total_penalty p_data cs),
     m - int (total_penalty p_metadata cs))"
  by (induction cs arbitrary: s d m)
    (simp_all add: score_step_def total_penalty_def Let_def)

lemma clamp_score_penalty: "clamp_score (100 - int n) = 100 - n"
  by (simp add: clamp_score_def)

lemma score_eq:
  "score cs = from_subscores (100 - total_penalty p_structural cs)
    (100 - total_penalty p_data cs) (100 - total_penalty p_metadata cs)"
  by (simp add: score_def score_fold clamp_score_penalty)

lemma overall_score:
  "overall (score cs) = (2 * (100 - total_penalty p_structural cs)
    + 2 * (100 - total_penalty p_data cs) + (100 - total_penalty p_metadata cs) + 2) div 5"
  by (simp add: score_eq from_subscores_def Let_def min_def)

lemma total_penalty_mset:
  "total_penalty h cs = (\<Sum>c\<in>#mset cs. if h (corruption_penalty c) then p_points (corruption_penalty c) else 0)"
  by (simp add: total_penalty_def sum_mset_sum_list flip: mset_map)

lemma total_penalty_mono:
  assumes "mset cs \<subseteq># mset cs'"
  shows "total_penalty h cs \<le> total_penalty h cs'"
proof -
  obtain r where "mset cs' = mset cs + r" using assms by (metis mset_subset_eq_exists_conv)
  then show ?thesis by (simp add: total_penalty_mset)
qed

definition listed_rule :: "string \<Rightarrow> bool" where
  "listed_rule rid \<longleftrightarrow> list_ex (\<lambda>(id, _). id = rid) RULE_PENALTIES"

lemma table_penalties:
  "list_all (\<lambda>(id, p). 10 \<le> p_points p \<and> (p_structural p \<or> p_data p)) RULE_PENALTIES"
  by (simp add: RULE_PENALTIES_def penalty_s_def penalty_d_def penalty_sd_def penalty_all_def)

lemma route_hits: "p_structural (route cat n) \<or> p_data (route cat n)" "p_points (route cat n) = n"
  by (cases cat; simp add: route_def penalty_s_def penalty_d_def penalty_sd_def penalty_all_def)+

text \<open>A finding is free of charge exactly when its rule is not calibrated and it is benign.\<close>

lemma penalty_cases:
  assumes "p = corruption_penalty c"
  shows "p_points p = 0 \<and> \<not> listed_rule (rule_id c) \<and> severity c = Benign
    \<or> 10 \<le> p_points p \<and> (p_structural p \<or> p_data p) \<and> (listed_rule (rule_id c) \<or> severity c \<noteq> Benign)"
proof (cases "find (\<lambda>(id, _). id = rule_id c) RULE_PENALTIES")
  case None
  then have "\<not> listed_rule (rule_id c)"
    by (auto simp: find_None_iff listed_rule_def list_ex_iff)
  with None assms route_hits [of "category c" "default_points (severity c)"] show ?thesis
    by (cases "severity c")
      (simp_all add: corruption_penalty_def penalty_for_def default_points_def penalty_all_def Let_def)
next
  case (Some e)
  then have "e \<in> set RULE_PENALTIES" "fst e = rule_id c" by (auto dest: find_SomeD)
  then have "listed_rule (rule_id c)" "10 \<le> p_points (snd e) \<and> (p_structural (snd e) \<or> p_data (snd e))"
    using table_penalties by (auto simp: listed_rule_def list_ex_iff list_all_iff split_beta)
  with Some assms show ?thesis by (simp add: corruption_penalty_def penalty_for_def)
qed

lemma total_penalty_member:
  "c \<in> set cs \<Longrightarrow> h (corruption_penalty c) \<Longrightarrow> p_points (corruption_penalty c) \<le> total_penalty h cs"
  unfolding total_penalty_def by (induction cs) auto

lemma total_penalty_zero:
  "list_all (\<lambda>c. p_points (corruption_penalty c) = 0) cs \<Longrightarrow> total_penalty h cs = 0"
  unfolding total_penalty_def by (induction cs) auto

text \<open>
  Health never rises when more damage is found: if one analysis reports all the corruptions
  of another (as multisets, in any order) its overall score and each of its subscores are
  at most the other's. In particular the score does not depend on the order of findings.
\<close>

theorem score_antimono:
  assumes "mset cs \<subseteq># mset cs'"
  shows "overall (score cs') \<le> overall (score cs)
    \<and> structural_health (score cs') \<le> structural_health (score cs)
    \<and> data_health (score cs') \<le> data_health (score cs)
    \<and> metadata_health (score cs') \<le> metadata_health (score cs)"
proof -
  note m = total_penalty_mono [OF assms, of p_structural] total_penalty_mono [OF assms, of p_data]
    total_penalty_mono [OF assms, of p_metadata]
  have "overall (score cs') \<le> overall (score cs)"
    unfolding overall_score by (rule div_le_mono) (use m in linarith)
  moreover have "structural_health (score ds) = 100 - total_penalty p_structural ds"
    "data_health (score ds) = 100 - total_penalty p_data ds"
    "metadata_health (score ds) = 100 - total_penalty p_metadata ds" for ds
    by (simp_all add: score_eq from_subscores_def Let_def)
  ultimately show ?thesis using m by (simp add: diff_le_mono2)
qed

theorem score_antimono_witness:
  "overall (score [synthetic (stream_location 0 0) BitFlip Minor ''ZIP_CRC_001'' None])
    \<le> overall (score [])"
  using score_antimono [of "[]"
    "[synthetic (stream_location 0 0) BitFlip Minor ''ZIP_CRC_001'' None]"]
  by simp

text \<open>
  The overall score is at most 100, and it is 100 exactly when every finding is benign and
  its rule has no calibrated penalty: rounding never hides a penalised finding.
\<close>

theorem score_perfect_iff:
  "overall (score cs) \<le> 100
   \<and> (overall (score cs) = 100 \<longleftrightarrow>
        list_all (\<lambda>c. \<not> listed_rule (rule_id c) \<and> severity c = Benign) cs)"
proof (cases "list_all (\<lambda>c. p_points (corruption_penalty c) = 0) cs")
  case True
  then have "list_all (\<lambda>c. \<not> listed_rule (rule_id c) \<and> severity c = Benign) cs"
    using penalty_cases by (fastforce simp: list_all_iff)
  with total_penalty_zero [OF True] show ?thesis by (simp add: overall_score)
next
  case False
  then obtain c where c: "c \<in> set cs" "p_points (corruption_penalty c) \<noteq> 0"
    by (auto simp: list_all_iff)
  with penalty_cases [OF refl, of c]
  have p: "10 \<le> p_points (corruption_penalty c)"
    "p_structural (corruption_penalty c) \<or> p_data (corruption_penalty c)"
    and n: "listed_rule (rule_id c) \<or> severity c \<noteq> Benign"
    by auto
  have "10 \<le> total_penalty p_structural cs \<or> 10 \<le> total_penalty p_data cs"
    using total_penalty_member [OF c(1), of p_structural] total_penalty_member [OF c(1), of p_data] p
    by linarith
  then have "2 * (100 - total_penalty p_structural cs) + 2 * (100 - total_penalty p_data cs)
    + (100 - total_penalty p_metadata cs) + 2 \<le> 482" by linarith
  then have "overall (score cs) \<le> 482 div 5" unfolding overall_score by (rule div_le_mono)
  with c n show ?thesis by (auto simp: list_all_iff)
qed

end
