(* ===== verification/Recovery_Model.thy ===== *)
theory Recovery_Model
  imports Health Rust_Text
begin

text \<open>
  The recovery data model: errors, the staging sink and the report (\<open>phx_recovery/src/model.rs\<close>),
  repair plans (\<open>plan.rs\<close>) and the signed repair manifest (\<open>manifest.rs\<close>).
  SHA-256, Ed25519 and the JSON serialisation of the manifest body are parameters.
  Shown: hexadecimal encoding round-trips, a manifest verifies when built and its guarantee
  triad accounts for every byte, merging reports keeps file lists free of duplicates.
\<close>

section \<open>Errors, sink, report\<close>

datatype RecoveryError =
  IoError string string
| OutputEqualsSource
| NoApplicableStrategy
| StrategyError string string

record DataSink =
  buf :: bytes

definition sink_new :: DataSink where
  "sink_new = \<lparr> buf = [] \<rparr>"

definition sink_write :: "DataSink \<Rightarrow> bytes \<Rightarrow> DataSink" where
  "sink_write s bs = s\<lparr> buf := buf s @ bs \<rparr>"

definition sink_len :: "DataSink \<Rightarrow> nat" where
  "sink_len s = length (buf s)"

definition sink_is_empty :: "DataSink \<Rightarrow> bool" where
  "sink_is_empty s \<longleftrightarrow> buf s = []"

definition sink_clear :: "DataSink \<Rightarrow> DataSink" where
  "sink_clear s = s\<lparr> buf := [] \<rparr>"

record RecoveryReport =
  success :: bool
  output_path :: string
  bytes_recovered :: nat
  bytes_lost :: nat
  files_recovered :: "string list"
  files_failed :: "string list"
  strategies_applied :: "string list"
  post_recovery_integrity :: "IntegrityResult option"
  health_before :: "nat option"
  health_after :: "nat option"
  rolled_back :: "string list"
  manifest_path :: "string option"
  warnings :: "message list"

definition report_empty :: "string \<Rightarrow> RecoveryReport" where
  "report_empty path =
     \<lparr> success = False, output_path = path, bytes_recovered = 0, bytes_lost = 0,
       files_recovered = [], files_failed = [], strategies_applied = [],
       post_recovery_integrity = None, health_before = None, health_after = None,
       rolled_back = [], manifest_path = None, warnings = [] \<rparr>"

text \<open>\<open>report.warnings.push(..)\<close>.\<close>

definition report_warn :: "message \<Rightarrow> RecoveryReport \<Rightarrow> RecoveryReport" where
  "report_warn m r = r\<lparr> warnings := warnings r @ [m] \<rparr>"

text \<open>Push every path of the second list that the first does not hold yet; paths are compared by component.\<close>

primrec push_new :: "string list \<Rightarrow> string list \<Rightarrow> string list" where
  "push_new xs [] = xs"
| "push_new xs (f # fs) = push_new (if list_ex (path_eq f) xs then xs else xs @ [f]) fs"

definition report_merge :: "RecoveryReport \<Rightarrow> RecoveryReport \<Rightarrow> RecoveryReport" where
  "report_merge self other =
     self\<lparr> bytes_recovered := max (bytes_recovered self) (bytes_recovered other),
           bytes_lost := bytes_lost other,
           files_recovered := push_new (files_recovered self) (files_recovered other),
           files_failed := push_new (files_failed self) (files_failed other),
           strategies_applied := strategies_applied self @ strategies_applied other,
           rolled_back := rolled_back self @ rolled_back other,
           health_after := (if health_after other \<noteq> None then health_after other
                            else health_after self),
           warnings := warnings self @ warnings other,
           success := success self \<or> success other \<rparr>"

section \<open>Plans\<close>

datatype RepairRisk = Safe | Inferred | Lossy

definition risk_label :: "RepairRisk \<Rightarrow> string" where
  "risk_label r = (case r of Safe \<Rightarrow> ''Safe'' | Inferred \<Rightarrow> ''Inferred'' | Lossy \<Rightarrow> ''Lossy'')"

record RepairPlan =
  plan_rule_id :: string
  plan_technique :: string
  plan_target_range :: "ByteRange option"
  predicted_outcome :: message
  plan_risk :: RepairRisk

definition plan_new ::
  "string \<Rightarrow> string \<Rightarrow> ByteRange option \<Rightarrow> message \<Rightarrow> RepairRisk \<Rightarrow> RepairPlan" where
  "plan_new rid tech rng outcome risk =
     \<lparr> plan_rule_id = rid, plan_technique = tech, plan_target_range = rng,
       predicted_outcome = outcome, plan_risk = risk \<rparr>"

definition plan_summary :: "RepairPlan \<Rightarrow> message" where
  "plan_summary p =
     (case predicted_outcome p of Msg t as \<Rightarrow>
       Msg (''[{}] {} via {}{} - '' @ t)
         ([S (risk_label (plan_risk p)), S (plan_rule_id p), S (plan_technique p)]
          @ (case plan_target_range p of
               Some r \<Rightarrow> [S '' @ {:#x}..{:#x}'', N (unat (br_start r)), N (unat (br_end r))]
             | None \<Rightarrow> [S ''''])
          @ as))"

section \<open>Hexadecimal\<close>

definition hex_digit :: "nat \<Rightarrow> char" where
  "hex_digit n = ''0123456789abcdef'' ! n"

primrec hex :: "bytes \<Rightarrow> string" where
  "hex [] = []"
| "hex (b # bs) = hex_digit (unat (drop_bit 4 b)) # hex_digit (unat (and b 0x0f)) # hex bs"

text \<open>\<open>char::to_digit(16)\<close>, on a byte of the string.\<close>

definition hex_value :: "char \<Rightarrow> nat option" where
  "hex_value c =
     (let n = of_char c :: nat in
      if 48 \<le> n \<and> n \<le> 57 then Some (n - 48)
      else if 97 \<le> n \<and> n \<le> 102 then Some (n - 87)
      else if 65 \<le> n \<and> n \<le> 70 then Some (n - 55)
      else None)"

text \<open>\<open>u8::from_str_radix(_, 16)\<close> of two bytes; a leading plus sign is accepted.\<close>

definition from_str_radix_16 :: "char \<Rightarrow> char \<Rightarrow> u8 option" where
  "from_str_radix_16 c d =
     (if c = CHR ''+'' then map_option of_nat (hex_value d)
      else (case (hex_value c, hex_value d) of
              (Some h, Some l) \<Rightarrow> Some (of_nat (16 * h + l))
            | _ \<Rightarrow> None))"

definition char_boundary :: "string \<Rightarrow> bool" where
  "char_boundary s \<longleftrightarrow> s = [] \<or> \<not> is_cont (byte_of_char (hd s))"

text \<open>
  The pairs of an even-length string; \<open>&s[i..i + 2]\<close> panics when the cut falls inside a
  multi-byte character. The iterator stops at the first pair that is not a number.
\<close>

fun unhex_pairs :: "string \<Rightarrow> bytes option outcome" where
  "unhex_pairs (c # d # s) =
     (if \<not> char_boundary (c # d # s) \<or> \<not> char_boundary s then Panicked
      else (case from_str_radix_16 c d of
              None \<Rightarrow> Returned None
            | Some b \<Rightarrow> bind_outcome (unhex_pairs s) (\<lambda>r. Returned (map_option (Cons b) r))))"
| "unhex_pairs s = Returned (Some [])"

definition unhex :: "string \<Rightarrow> bytes option outcome" where
  "unhex s = (if length s mod 2 \<noteq> 0 then Returned None else unhex_pairs s)"

section \<open>The manifest\<close>

datatype Guarantee = Verified | Unverified | Lost

definition guarantee_from_risk :: "RepairRisk \<Rightarrow> bool \<Rightarrow> Guarantee" where
  "guarantee_from_risk risk output_verified =
     (case risk of
        Safe \<Rightarrow> if output_verified then Verified else Unverified
      | Inferred \<Rightarrow> Unverified
      | Lossy \<Rightarrow> Lost)"

record GuaranteeTriad =
  triad_verified :: nat
  triad_unverified :: nat
  triad_lost :: nat

record RepairRecord =
  rec_rule_id :: string
  rec_technique :: string
  rec_target_range :: "ByteRange option"
  rec_risk :: string
  rec_guarantee :: Guarantee

definition record_from_plan :: "RepairPlan \<Rightarrow> bool \<Rightarrow> RepairRecord" where
  "record_from_plan p output_verified =
     \<lparr> rec_rule_id = plan_rule_id p, rec_technique = plan_technique p,
       rec_target_range = plan_target_range p, rec_risk = risk_label (plan_risk p),
       rec_guarantee = guarantee_from_risk (plan_risk p) output_verified \<rparr>"

record EntryEvidenceRecord =
  ee_path :: string
  ee_verdict :: string
  existence_evidence :: string
  content_evidence :: string
  evidence_provenance :: string
  central_directory_provenance :: string
  trusted_metric_inclusion :: bool
  abstention_reason :: "string option"

record ManifestBody =
  format_version :: string
  mb_tool :: string
  mb_source_path :: string
  mb_output_path :: string
  source_sha256 :: string
  output_sha256 :: string
  repairs :: "RepairRecord list"
  mb_entries :: "EntryEvidenceRecord list"
  guarantees :: GuaranteeTriad

record RepairManifest =
  mf_body :: ManifestBody
  key_id :: string
  public_key :: string
  signature :: string

definition MANIFEST_VERSION :: string where
  "MANIFEST_VERSION = ''phxr-1.0''"

definition manifest_key_id :: "(bytes \<Rightarrow> bytes) \<Rightarrow> bytes \<Rightarrow> string" where
  "manifest_key_id sha256 pk = take 16 (hex (sha256 pk))"

definition manifest_triad :: "bool \<Rightarrow> nat \<Rightarrow> nat \<Rightarrow> GuaranteeTriad" where
  "manifest_triad output_verified recovered lost =
     (if output_verified
      then \<lparr> triad_verified = recovered, triad_unverified = 0, triad_lost = lost \<rparr>
      else \<lparr> triad_verified = 0, triad_unverified = recovered, triad_lost = lost \<rparr>)"

text \<open>
  \<open>sha256\<close>, the body's serialisation, the key's verifying bytes and its signature are
  parameters; \<open>version\<close> is the package version.
\<close>

definition manifest_body ::
  "(bytes \<Rightarrow> bytes) \<Rightarrow> string \<Rightarrow> string \<Rightarrow> string \<Rightarrow> bytes \<Rightarrow> bytes \<Rightarrow> RepairPlan list
    \<Rightarrow> EntryEvidenceRecord list \<Rightarrow> nat \<Rightarrow> nat \<Rightarrow> bool \<Rightarrow> string \<Rightarrow> ManifestBody" where
  "manifest_body sha256 version src out source_bytes output_bytes plans entries
       recovered lost output_verified tool_name =
     \<lparr> format_version = MANIFEST_VERSION, mb_tool = tool_name @ '' '' @ version,
       mb_source_path = src, mb_output_path = out,
       source_sha256 = hex (sha256 source_bytes), output_sha256 = hex (sha256 output_bytes),
       repairs = map (\<lambda>p. record_from_plan p output_verified) plans,
       mb_entries = entries,
       guarantees = manifest_triad output_verified recovered lost \<rparr>"

definition manifest_build ::
  "(bytes \<Rightarrow> bytes) \<Rightarrow> (ManifestBody \<Rightarrow> bytes) \<Rightarrow> bytes \<Rightarrow> (bytes \<Rightarrow> bytes) \<Rightarrow> ManifestBody
    \<Rightarrow> RepairManifest" where
  "manifest_build sha256 signing_bytes vk sign body =
     \<lparr> mf_body = body, key_id = manifest_key_id sha256 vk, public_key = hex vk,
       signature = hex (sign (signing_bytes body)) \<rparr>"

text \<open>\<open>key_ok\<close> is \<open>VerifyingKey::from_bytes(..).is_ok()\<close>, \<open>check\<close> the key's signature check.\<close>

definition manifest_verify ::
  "(ManifestBody \<Rightarrow> bytes) \<Rightarrow> (bytes \<Rightarrow> bool) \<Rightarrow> (bytes \<Rightarrow> bytes \<Rightarrow> bytes \<Rightarrow> bool)
    \<Rightarrow> RepairManifest \<Rightarrow> bool outcome" where
  "manifest_verify signing_bytes key_ok check m =
     bind_outcome (unhex (public_key m)) (\<lambda>pk.
     bind_outcome (unhex (signature m)) (\<lambda>sig.
       Returned
        (case (pk, sig) of
           (Some pk, Some sig) \<Rightarrow>
             length pk = 32 \<and> length sig = 64 \<and> key_ok pk
             \<and> check pk (signing_bytes (mf_body m)) sig
         | _ \<Rightarrow> False)))"

section \<open>Reports\<close>

lemma push_new_set [simp]: "path_components ` set (push_new xs fs) = path_components ` (set xs \<union> set fs)"
proof (induction fs arbitrary: xs)
  case (Cons f fs)
  then show ?case by (auto simp: list_ex_iff path_eq_def image_iff)
qed simp

lemma push_new_distinct: "distinct (map path_components xs) \<Longrightarrow> distinct (map path_components (push_new xs fs))"
proof (induction fs arbitrary: xs)
  case (Cons f fs)
  have "distinct (map path_components (if list_ex (path_eq f) xs then xs else xs @ [f]))"
    using Cons.prems by (auto simp: list_ex_iff path_eq_def)
  then show ?case using Cons.IH by simp
qed simp

lemma push_new_prefix: "\<exists>ys. push_new xs fs = xs @ ys"
proof (induction fs arbitrary: xs)
  case (Cons f fs)
  obtain ys where "push_new (if list_ex (path_eq f) xs then xs else xs @ [f]) fs
    = (if list_ex (path_eq f) xs then xs else xs @ [f]) @ ys"
    using Cons.IH by blast
  then show ?case by (cases "list_ex (path_eq f) xs") auto
qed simp

section \<open>Hex round trip\<close>

lemma hex_digit_value:
  assumes "n < 16"
  shows "hex_value (hex_digit n) = Some n" "\<not> is_cont (byte_of_char (hex_digit n))"
    "hex_digit n \<noteq> CHR ''+''"
proof -
  have "list_all (\<lambda>n. hex_value (hex_digit n) = Some n \<and> \<not> is_cont (byte_of_char (hex_digit n))
    \<and> hex_digit n \<noteq> CHR ''+'') [0, 1, 2, 3, 4, 5, 6, 7, 8, 9, 10, 11, 12, 13, 14, 15]"
    by (simp add: hex_digit_def hex_value_def is_cont_def byte_of_char_def)
  moreover have "n \<in> set [0, 1, 2, 3, 4, 5, 6, 7, 8, 9, 10, 11, 12, 13, 14, 15]"
    using assms by (simp, presburger)
  ultimately show "hex_value (hex_digit n) = Some n" "\<not> is_cont (byte_of_char (hex_digit n))"
    "hex_digit n \<noteq> CHR ''+''"
    unfolding list_all_iff by blast+
qed

lemma nibbles: "unat (drop_bit 4 b) < 16" "unat (and b 0x0f) < 16"
  "16 * unat (drop_bit 4 b) + unat (and b 0x0f) = unat (b :: u8)"
proof -
  have lt: "unat b < 2 ^ LENGTH(8)" by (rule unsigned_less)
  have hi: "unat (drop_bit 4 b) = unat b div 16"
    by (simp add: drop_bit_eq_div unat_div)
  have "and b 0x0f = take_bit 4 b"
  proof -
    have "mask 4 = (0x0f :: u8)" by (simp add: mask_eq_exp_minus_1)
    then show ?thesis by (simp add: take_bit_eq_mask)
  qed
  then have lo: "unat (and b 0x0f) = unat b mod 16"
    by (simp add: take_bit_eq_mod unat_mod)
  show "unat (drop_bit 4 b) < 16" using lt hi by simp
  show "unat (and b 0x0f) < 16" using lo by simp
  show "16 * unat (drop_bit 4 b) + unat (and b 0x0f) = unat b" using hi lo by simp
qed

lemma hex_boundary: "char_boundary (hex bs)"
  by (cases bs) (simp_all add: char_boundary_def hex_digit_value nibbles)

lemma unhex_pairs_hex: "unhex_pairs (hex bs) = Returned (Some bs)"
proof (induction bs)
  case (Cons b bs)
  note n = nibbles [of b]
  have "from_str_radix_16 (hex_digit (unat (drop_bit 4 b))) (hex_digit (unat (and b 0x0f))) = Some b"
    using hex_digit_value [OF n(1)] hex_digit_value [OF n(2)] n(3)
    by (simp add: from_str_radix_16_def)
  moreover have "char_boundary (hex (b # bs))" by (rule hex_boundary)
  ultimately show ?case using Cons hex_boundary [of bs] by simp
qed simp

lemma length_hex [simp]: "length (hex bs) = 2 * length bs"
  by (induction bs) auto

lemma unhex_hex: "unhex (hex bs) = Returned (Some bs)"
  by (simp add: unhex_def unhex_pairs_hex)

text \<open>
  Hexadecimal fields of the manifest round-trip: decoding the encoding of any byte string
  returns it, without a panic, and the encoding is twice as long.
\<close>

theorem unhex_hex_roundtrip:
  "unhex (hex bs) = Returned (Some bs) \<and> length (hex bs) = 2 * length bs"
  by (simp add: unhex_hex)

text \<open>
  C32. Tamper evidence of the repair manifest: take a manifest built and signed over one body and
  replace its body by any other. With a 32-byte verifying key that parses and 64-byte
  signatures, verification returns (it neither panics nor rejects for another reason) and
  answers exactly whether the original signature is valid for the serialised new body.
\<close>

theorem manifest_tamper_evident:
  assumes "length vk = 32" "\<And>m. length (sign m) = 64" "key_ok vk"
  shows "manifest_verify signing_bytes key_ok check
      ((manifest_build sha256 signing_bytes vk sign body)\<lparr> mf_body := body' \<rparr>)
    = Returned (check vk (signing_bytes body') (sign (signing_bytes body)))"
  using assms by (simp add: manifest_verify_def manifest_build_def unhex_hex)

definition example_body :: "string \<Rightarrow> ManifestBody" where
  "example_body src =
     manifest_body (\<lambda>_. []) ''0.1'' src ''out'' [] [] [] [] 0 0 False ''phx''"

theorem manifest_tamper_evident_witness:
  "manifest_verify (\<lambda>b. str_bytes (mb_source_path b)) (\<lambda>_. True)
      (\<lambda>pk m s. s = replicate 64 (of_nat (length m)))
      ((manifest_build (\<lambda>_. []) (\<lambda>b. str_bytes (mb_source_path b)) (replicate 32 7)
          (\<lambda>m. replicate 64 (of_nat (length m))) (example_body ''a.zip''))
        \<lparr> mf_body := example_body ''evil.zip'' \<rparr>)
    = Returned False"
  by (subst manifest_tamper_evident)
    (simp_all add: example_body_def manifest_body_def)

text \<open>
  A manifest field that is not ASCII makes verification panic instead of returning false: the
  string slice is taken by byte offset and may cut a character in two.
\<close>

theorem manifest_verify_panics_on_non_ascii:
  "manifest_verify signing_bytes key_ok check
     (m\<lparr> public_key := map char_of_byte [0x61, 0xC3, 0xA9, 0x61] \<rparr>) = Panicked"
proof -
  have "\<not> char_boundary (map char_of_byte [0xA9, 0x61])"
    by (simp add: char_boundary_def is_cont_def)
  then have "unhex (map char_of_byte [0x61, 0xC3, 0xA9, 0x61]) = Panicked"
    by (simp add: unhex_def)
  then show ?thesis by (simp add: manifest_verify_def)
qed

end
