(* ===== verification/Strategy_Base.thy ===== *)
theory Strategy_Base
  imports Recovery_Model
begin

text \<open>
  What every recovery strategy shares (\<open>phx_recovery/src/strategies/mod.rs\<close>): the data source,
  \<open>read_all\<close>, the result of \<open>apply\<close>, and the contract the engine relies on, stated as a locale:
  an unreadable source is an I/O error, any other error names the strategy, a strategy only appends to the staging
  sink, and its report names it and leaves the engine's fields alone. Two extensions of the
  contract: what is staged and reported does not depend on what the sink held, and the
  strategies that stage the source verbatim.
\<close>

section \<open>Sources and results\<close>

text \<open>
  A source: its path, the length its metadata declares, and the result of reading it to the
  end (\<open>Inl\<close> the I/O error).
\<close>

record DataSource =
  ds_path :: string
  ds_len :: nat
  ds_read :: "string + bytes"

definition read_all :: "DataSource \<Rightarrow> RecoveryError + bytes" where
  "read_all src = (case ds_read src of Inl e \<Rightarrow> Inl (IoError (ds_path src) e) | Inr bs \<Rightarrow> Inr bs)"

type_synonym apply_result = "(RecoveryError + RecoveryReport \<times> DataSink) outcome"

text \<open>\<open>let data = read_all(source)?; ..\<close>.\<close>

definition with_data :: "DataSource \<Rightarrow> (bytes \<Rightarrow> apply_result) \<Rightarrow> apply_result" where
  "with_data src f = (case read_all src of Inl e \<Rightarrow> Returned (Inl e) | Inr bs \<Rightarrow> f bs)"

text \<open>\<open>RecoveryReport::empty(Default::default())\<close> with the strategy's name pushed.\<close>

definition strategy_report :: "string \<Rightarrow> RecoveryReport" where
  "strategy_report name = (report_empty [])\<lparr> strategies_applied := [name] \<rparr>"

definition applied_ok :: "RecoveryReport \<Rightarrow> DataSink \<Rightarrow> apply_result" where
  "applied_ok rep sink = Returned (Inr (rep, sink))"

lemma with_data_simps [simp]:
  "ds_read src = Inl e \<Longrightarrow> with_data src f = Returned (Inl (IoError (ds_path src) e))"
  "ds_read src = Inr bs \<Longrightarrow> with_data src f = f bs"
  by (simp_all add: with_data_def read_all_def)

lemma strategy_report_simps [simp]:
  "strategies_applied (strategy_report n) = [n]" "rolled_back (strategy_report n) = []"
  "health_before (strategy_report n) = None" "health_after (strategy_report n) = None"
  "manifest_path (strategy_report n) = None" "post_recovery_integrity (strategy_report n) = None"
  "warnings (strategy_report n) = []" "bytes_recovered (strategy_report n) = 0"
  "bytes_lost (strategy_report n) = 0" "success (strategy_report n) = False"
  "files_recovered (strategy_report n) = []" "files_failed (strategy_report n) = []"
  by (simp_all add: strategy_report_def report_empty_def)

lemma sink_write_simps [simp]:
  "buf (sink_write s bs) = buf s @ bs" "buf sink_new = []"
  "sink_write (sink_write s bs) cs = sink_write s (bs @ cs)"
  by (simp_all add: sink_write_def sink_new_def)

section \<open>The contract\<close>

text \<open>The fields of a strategy's report that belong to the engine.\<close>

definition report_local :: "string \<Rightarrow> RecoveryReport \<Rightarrow> bool" where
  "report_local name rep \<longleftrightarrow> strategies_applied rep = [name] \<and> rolled_back rep = []
     \<and> health_before rep = None \<and> health_after rep = None \<and> manifest_path rep = None
     \<and> post_recovery_integrity rep = None"

text \<open>
  The result of a strategy, as a function of the source alone: the panic, or the report and
  the bytes it stages.
\<close>

definition staged :: "apply_result \<Rightarrow> (RecoveryError + RecoveryReport \<times> bytes) outcome" where
  "staged r = bind_outcome r (\<lambda>x. Returned (map_sum id (\<lambda>(rep, s). (rep, buf s)) x))"

definition restage ::
  "DataSink \<Rightarrow> (RecoveryError + RecoveryReport \<times> bytes) outcome \<Rightarrow> apply_result" where
  "restage sink r =
     bind_outcome r (\<lambda>x. Returned (map_sum id (\<lambda>(rep, bs). (rep, sink_write sink bs)) x))"

lemma staged_simps [simp]:
  "staged Panicked = Panicked" "staged (Returned (Inl e)) = Returned (Inl e)"
  "staged (Returned (Inr (rep, s))) = Returned (Inr (rep, buf s))"
  "staged (applied_ok rep s) = Returned (Inr (rep, buf s))"
  by (simp_all add: staged_def applied_ok_def)

lemma restage_simps [simp]:
  "restage s Panicked = Panicked" "restage s (Returned (Inl e)) = Returned (Inl e)"
  "restage s (Returned (Inr (rep, bs))) = Returned (Inr (rep, sink_write s bs))"
  by (simp_all add: restage_def)

lemma restage_Inr:
  "restage s r = Returned (Inr (rep, s')) \<longleftrightarrow>
    (\<exists>out. r = Returned (Inr (rep, out)) \<and> s' = sink_write s out)"
proof (cases r)
  case (Returned x)
  then show ?thesis by (cases x) (auto simp: restage_def)
qed simp

lemma applied_ok_iff [simp]: "applied_ok rep s = Returned (Inr (rep', s')) \<longleftrightarrow> rep = rep' \<and> s = s'"
  "applied_ok rep s \<noteq> Panicked" "applied_ok rep s \<noteq> Returned (Inl e)"
  by (simp_all add: applied_ok_def)

text \<open>What the engine relies on: it hands every strategy a fresh sink and reads the result.\<close>

locale staging_strategy =
  fixes name :: string and apply_fn :: "DataSource \<Rightarrow> DataSink \<Rightarrow> apply_result"
  assumes staging_io_error:
    "ds_read src = Inl e \<Longrightarrow> apply_fn src sink = Returned (Inl (IoError (ds_path src) e))"
  and staging_error_names:
    "ds_read src = Inr bs \<Longrightarrow> apply_fn src sink = Returned (Inl err) \<Longrightarrow> \<exists>reason. err = StrategyError name reason"
  and staging_extends:
    "apply_fn src sink = Returned (Inr (rep, sink')) \<Longrightarrow> \<exists>out. sink' = sink_write sink out"
  and staging_report: "apply_fn src sink = Returned (Inr (rep, sink')) \<Longrightarrow> report_local name rep"
begin

text \<open>Merging a strategy's report into an aggregate adds exactly its name.\<close>

lemma merge_adds_name:
  "apply_fn src sink = Returned (Inr (rep, sink')) \<Longrightarrow>
    strategies_applied (report_merge agg rep) = strategies_applied agg @ [name]
    \<and> rolled_back (report_merge agg rep) = rolled_back agg"
  using staging_report [of src sink rep sink'] by (simp add: report_local_def report_merge_def)

end

text \<open>In addition, neither the report nor the staged bytes depend on what the sink held.\<close>

locale recovery_strategy =
  fixes name :: string and apply_fn :: "DataSource \<Rightarrow> DataSink \<Rightarrow> apply_result"
  assumes apply_io_error:
    "ds_read src = Inl e \<Longrightarrow> apply_fn src sink = Returned (Inl (IoError (ds_path src) e))"
  and apply_error_names:
    "ds_read src = Inr bs \<Longrightarrow> apply_fn src sink = Returned (Inl err) \<Longrightarrow> \<exists>reason. err = StrategyError name reason"
  and apply_appends: "apply_fn src sink = restage sink (staged (apply_fn src sink_new))"
  and apply_report: "apply_fn src sink = Returned (Inr (rep, sink')) \<Longrightarrow> report_local name rep"
begin

lemma apply_extends:
  assumes "apply_fn src sink = Returned (Inr (rep, sink'))"
  shows "\<exists>out. buf sink' = buf sink @ out
    \<and> apply_fn src sink_new = Returned (Inr (rep, sink_write sink_new out))"
proof -
  have r: "restage sink (staged (apply_fn src sink_new)) = Returned (Inr (rep, sink'))"
    using assms apply_appends [of src sink] by simp
  then obtain out where o: "staged (apply_fn src sink_new) = Returned (Inr (rep, out))"
    and s: "sink' = sink_write sink out"
    by (auto simp: restage_Inr)
  have "apply_fn src sink_new = restage sink_new (staged (apply_fn src sink_new))"
    by (rule apply_appends)
  with o s show ?thesis by simp
qed

end

sublocale recovery_strategy \<subseteq> staging_strategy name apply_fn
proof unfold_locales
  fix src e sink bs err rep sink'
  show "ds_read src = Inl e \<Longrightarrow> apply_fn src sink = Returned (Inl (IoError (ds_path src) e))"
    by (rule apply_io_error)
  show "ds_read src = Inr bs \<Longrightarrow> apply_fn src sink = Returned (Inl err) \<Longrightarrow>
      \<exists>reason. err = StrategyError name reason"
    by (rule apply_error_names)
  show "apply_fn src sink = Returned (Inr (rep, sink')) \<Longrightarrow> report_local name rep"
    by (rule apply_report)
  assume "apply_fn src sink = Returned (Inr (rep, sink'))"
  then show "\<exists>out. sink' = sink_write sink out"
    using apply_appends [of src sink] by (auto simp: restage_Inr)
qed

text \<open>Strategies that stage the source unchanged.\<close>

locale verbatim_strategy = recovery_strategy +
  assumes apply_verbatim:
    "ds_read src = Inr bs \<Longrightarrow> \<exists>rep. apply_fn src sink_new = Returned (Inr (rep, sink_write sink_new bs))
      \<and> bytes_recovered rep = length bs"
begin

lemma verbatim_any_sink:
  assumes "ds_read src = Inr bs"
  shows "\<exists>rep. apply_fn src sink = Returned (Inr (rep, sink_write sink bs))
    \<and> bytes_recovered rep = length bs"
proof -
  obtain rep where "apply_fn src sink_new = Returned (Inr (rep, sink_write sink_new bs))"
    "bytes_recovered rep = length bs"
    using apply_verbatim [OF assms] by blast
  then show ?thesis using apply_appends [of src sink] by simp
qed

end

text \<open>
  Every strategy has the shape \<open>with_data src (body ..)\<close>; a body meets the contract when its
  results do.
\<close>

definition body_ok :: "string \<Rightarrow> (DataSource \<Rightarrow> DataSink \<Rightarrow> bytes \<Rightarrow> apply_result) \<Rightarrow> bool" where
  "body_ok name body \<longleftrightarrow>
     (\<forall>src sink bs.
        (body src sink bs = Panicked \<and> body src sink_new bs = Panicked)
      \<or> (\<exists>reason. body src sink bs = Returned (Inl (StrategyError name reason))
           \<and> body src sink_new bs = Returned (Inl (StrategyError name reason)))
      \<or> (\<exists>rep out. body src sink bs = Returned (Inr (rep, sink_write sink out))
           \<and> body src sink_new bs = Returned (Inr (rep, sink_write sink_new out))
           \<and> report_local name rep))"

lemma body_okI:
  assumes "\<And>src sink bs. (body src sink bs = Panicked \<and> body src sink_new bs = Panicked)
      \<or> (\<exists>reason. body src sink bs = Returned (Inl (StrategyError name reason))
           \<and> body src sink_new bs = Returned (Inl (StrategyError name reason)))
      \<or> (\<exists>rep out. body src sink bs = Returned (Inr (rep, sink_write sink out))
           \<and> body src sink_new bs = Returned (Inr (rep, sink_write sink_new out))
           \<and> report_local name rep)"
  shows "body_ok name body"
  using assms by (simp add: body_ok_def)

lemma strategy_of_body:
  assumes "body_ok name body" "\<And>src sink. apply_fn src sink = with_data src (body src sink)"
  shows "recovery_strategy name apply_fn"
proof
  fix src sink e err bs rep sink'
  show "ds_read src = Inl e \<Longrightarrow> apply_fn src sink = Returned (Inl (IoError (ds_path src) e))"
    by (simp add: assms(2))
  show "ds_read src = Inr bs \<Longrightarrow> apply_fn src sink = Returned (Inl err) \<Longrightarrow>
      \<exists>reason. err = StrategyError name reason"
    using assms(1) [unfolded body_ok_def, rule_format, of src sink bs] by (auto simp: assms(2))
  show "apply_fn src sink = restage sink (staged (apply_fn src sink_new))"
  proof (cases "ds_read src")
    case (Inl e)
    then show ?thesis by (simp add: assms(2))
  next
    case (Inr bs)
    with assms(1) [unfolded body_ok_def, rule_format, of src sink bs] show ?thesis
      by (auto simp: assms(2))
  qed
  assume r: "apply_fn src sink = Returned (Inr (rep, sink'))"
  show "report_local name rep"
  proof (cases "ds_read src")
    case (Inr bs)
    with r assms(1) [unfolded body_ok_def, rule_format, of src sink bs] show ?thesis
      by (auto simp: assms(2))
  qed (use r in \<open>simp add: assms(2)\<close>)
qed

lemma sink_write_Nil [simp]: "sink_write s [] = s"
  by (simp add: sink_write_def)

lemma report_warn_local [simp]: "report_local name (report_warn m rep) = report_local name rep"
  by (simp add: report_local_def report_warn_def)

lemma strategy_report_local [simp]: "report_local n (strategy_report n)"
  by (simp add: report_local_def)

lemma report_local_updates [simp]:
  "report_local n (rep\<lparr> success := b \<rparr>) = report_local n rep"
  "report_local n (rep\<lparr> bytes_recovered := x \<rparr>) = report_local n rep"
  "report_local n (rep\<lparr> bytes_lost := x \<rparr>) = report_local n rep"
  "report_local n (rep\<lparr> files_recovered := fs \<rparr>) = report_local n rep"
  by (simp_all add: report_local_def)

lemma report_warn_simps [simp]:
  "bytes_recovered (report_warn m r) = bytes_recovered r" "bytes_lost (report_warn m r) = bytes_lost r"
  "success (report_warn m r) = success r" "warnings (report_warn m r) = warnings r @ [m]"
  "files_recovered (report_warn m r) = files_recovered r"
  by (simp_all add: report_warn_def)

lemma sink_write_eq_iff [simp]:
  "sink_write s a = sink_write s b \<longleftrightarrow> a = b" "s = sink_write s b \<longleftrightarrow> b = []"
proof -
  have "sink_write s a = sink_write s b \<Longrightarrow> a = b"
  proof -
    assume "sink_write s a = sink_write s b"
    then have "buf (sink_write s a) = buf (sink_write s b)" by simp
    then show "a = b" by simp
  qed
  moreover have "s = sink_write s b \<Longrightarrow> b = []"
  proof -
    assume "s = sink_write s b"
    then have "buf s = buf (sink_write s b)" by simp
    then show "b = []" by simp
  qed
  ultimately show "sink_write s a = sink_write s b \<longleftrightarrow> a = b" "s = sink_write s b \<longleftrightarrow> b = []"
    by auto
qed

text \<open>A body that stages computed bytes under a computed report, or stages nothing.\<close>

lemma body_ok_stage:
  assumes "\<And>src sink bs. body src sink bs = applied_ok (rep src bs) (sink_write sink (out src bs))"
    "\<And>src bs. report_local name (rep src bs)"
  shows "body_ok name body"
  by (rule body_okI) (use assms in \<open>simp add: applied_ok_def\<close>)

section \<open>The strategy object\<close>

record RecoveryStrategy =
  s_name :: string
  s_technique :: string
  s_risk :: RepairRisk
  s_handles :: "Corruption \<Rightarrow> bool"
  s_predicted_outcome :: "Corruption \<Rightarrow> message"
  s_can_apply :: "AnalysisResult \<Rightarrow> bool"
  s_priority :: nat
  s_apply :: "DataSource \<Rightarrow> DataSink \<Rightarrow> apply_result"

text \<open>The trait's default \<open>predicted_outcome\<close>.\<close>

definition default_predicted_outcome :: "string \<Rightarrow> Corruption \<Rightarrow> message" where
  "default_predicted_outcome tech c = Msg ''apply {} to {}'' [S tech, S (rule_id c)]"

text \<open>The trait's \<open>plan\<close>.\<close>

definition strategy_plan :: "RecoveryStrategy \<Rightarrow> AnalysisResult \<Rightarrow> RepairPlan list" where
  "strategy_plan s result =
     map (\<lambda>c. plan_new (rule_id c) (s_technique s) (byte_range c) (s_predicted_outcome s c) (s_risk s))
       (filter (s_handles s) (corruptions result))"

text \<open>\<open>result.corruptions.iter().any(..)\<close>.\<close>

definition any_corruption :: "(Corruption \<Rightarrow> bool) \<Rightarrow> AnalysisResult \<Rightarrow> bool" where
  "any_corruption p result = list_ex p (corruptions result)"

end
