(* ===== verification/Zip_Rebuild.thy ===== *)
theory Zip_Rebuild
  imports Strategy_Base
begin

unbundle bit_operations_syntax

text \<open>
  Rebuilding a ZIP central directory from the local file headers (\<open>strategies/zip_rebuild.rs\<close>).
  Shown: the header walk claims ordered, disjoint, in-bounds members; the rebuilt archive of
  an archive whose directory was destroyed is the original archive byte for byte.
\<close>

section \<open>Local headers\<close>

definition LFH_SIG :: u32 where "LFH_SIG = 0x04034b50"

definition CDFH_SIG :: u32 where "CDFH_SIG = 0x02014b50"

definition EOCD_SIG :: u32 where "EOCD_SIG = 0x06054b50"

record LocalHeader =
  lfh_offset :: nat
  version_needed :: u16
  lh_flags :: u16
  lh_method :: u16
  mod_time :: u16
  mod_date :: u16
  lh_crc32 :: u32
  comp_size :: nat
  uncomp_size :: nat
  data_offset :: nat
  lh_name :: bytes

definition comp_size32 :: "LocalHeader \<Rightarrow> u32" where
  "comp_size32 h = of_nat (comp_size h)"

definition uncomp_size32 :: "LocalHeader \<Rightarrow> u32" where
  "uncomp_size32 h = of_nat (uncomp_size h)"

text \<open>The body of the walk at \<open>pos\<close>: the header there, or \<open>None\<close> where the loop breaks.\<close>

definition local_header_at :: "bytes \<Rightarrow> nat \<Rightarrow> LocalHeader option" where
  "local_header_at d pos =
     (if u32_at d pos \<noteq> LFH_SIG then None
      else
        (let flags = u16_at d (pos + 6);
             compsz = unat (u32_at d (pos + 18));
             uncompsz = unat (u32_at d (pos + 22));
             name_len = unat (u16_at d (pos + 26));
             extra_len = unat (u16_at d (pos + 28));
             name_start = pos + 30;
             name_end = name_start + name_len in
         if length d < name_end + extra_len then None
         else
           (let nm = cut d name_start name_end; doff = name_end + extra_len in
            if flags AND 0x0008 \<noteq> 0 \<and> compsz = 0 then None
            else if length d < doff + compsz then None
            else Some \<lparr> lfh_offset = pos, version_needed = u16_at d (pos + 4), lh_flags = flags,
                        lh_method = u16_at d (pos + 8), mod_time = u16_at d (pos + 10),
                        mod_date = u16_at d (pos + 12), lh_crc32 = u32_at d (pos + 14),
                        comp_size = compsz, uncomp_size = uncompsz, data_offset = doff,
                        lh_name = nm \<rparr>)))"

definition header_end :: "LocalHeader \<Rightarrow> nat" where
  "header_end h = data_offset h + comp_size h"

lemma local_header_at_Some:
  "local_header_at d pos = Some h \<Longrightarrow>
    lfh_offset h = pos \<and> pos + 30 \<le> header_end h \<and> header_end h \<le> length d"
  by (auto simp: local_header_at_def Let_def header_end_def split: if_splits)

function scan_headers_from :: "bytes \<Rightarrow> nat \<Rightarrow> LocalHeader list" where
  "scan_headers_from d pos =
     (if pos + 30 \<le> length d then
        (case local_header_at d pos of
           None \<Rightarrow> []
         | Some h \<Rightarrow> h # scan_headers_from d (header_end h))
      else [])"
  by pat_completeness auto
termination
  by (relation "measure (\<lambda>(d, pos). length d - pos)") (auto dest: local_header_at_Some)

declare scan_headers_from.simps [simp del]

definition scan_local_headers :: "bytes \<Rightarrow> LocalHeader list" where
  "scan_local_headers d = scan_headers_from d 0"

section \<open>The rebuilt directory\<close>

definition cd_record :: "LocalHeader \<Rightarrow> bytes" where
  "cd_record h =
     u32_bytes CDFH_SIG @ u16_bytes 20 @ u16_bytes (version_needed h) @ u16_bytes (lh_flags h)
     @ u16_bytes (lh_method h) @ u16_bytes (mod_time h) @ u16_bytes (mod_date h)
     @ u32_bytes (lh_crc32 h) @ u32_bytes (comp_size32 h) @ u32_bytes (uncomp_size32 h)
     @ u16_bytes (of_nat (length (lh_name h))) @ u16_bytes 0 @ u16_bytes 0 @ u16_bytes 0
     @ u16_bytes 0 @ u32_bytes 0 @ u32_bytes (of_nat (lfh_offset h)) @ lh_name h"

definition eocd_record :: "nat \<Rightarrow> nat \<Rightarrow> nat \<Rightarrow> bytes" where
  "eocd_record n cd_size cd_offset =
     u32_bytes EOCD_SIG @ u16_bytes 0 @ u16_bytes 0 @ u16_bytes (of_nat n)
     @ u16_bytes (of_nat n) @ u32_bytes (of_nat cd_size) @ u32_bytes (of_nat cd_offset)
     @ u16_bytes 0"

definition zip_rebuild_run :: "DataSource \<Rightarrow> DataSink \<Rightarrow> bytes \<Rightarrow> apply_result" where
  "zip_rebuild_run src output d =
     (let report = strategy_report ''zip-rebuild''; headers = scan_local_headers d in
      if headers = []
      then applied_ok
             ((report_warn (Msg ''no recoverable local file headers found'' []) report)\<lparr> success := False \<rparr>)
             output
      else
        (let data_end = min (foldl max 0 (map header_end headers)) (length d);
             output1 = sink_write output (take data_end d);
             cd = concat (map cd_record headers);
             files = map (\<lambda>h. from_utf8_lossy (lh_name h)) headers;
             output2 = sink_write output1 cd;
             output3 = sink_write output2 (eocd_record (length headers) (length cd) data_end) in
         applied_ok
           (report_warn (Msg ''rebuilt central directory for {} member(s) from local headers''
               [N (length headers)])
             (report\<lparr> files_recovered := files, bytes_recovered := sink_len output3, success := True \<rparr>))
           output3))"

definition directory_rule :: "Corruption \<Rightarrow> bool" where
  "directory_rule c \<longleftrightarrow> take 8 (rule_id c) = ''ZIP_EOCD'' \<or> take 6 (rule_id c) = ''ZIP_CD''
     \<or> take 7 (rule_id c) = ''ZIP_LFH''"

definition ZipCentralDirectoryRebuild :: RecoveryStrategy where
  "ZipCentralDirectoryRebuild =
     \<lparr> s_name = ''zip-rebuild'', s_technique = ''CentralDirRebuild'', s_risk = Safe,
       s_handles = directory_rule,
       s_predicted_outcome =
         (\<lambda>c. Msg ''rebuild the central directory and EOCD from surviving local headers'' []),
       s_can_apply = (\<lambda>r. archive_format r = Some Zip
         \<and> any_corruption (\<lambda>c. category c = StructuralCorruption \<or> directory_rule c) r),
       s_priority = 80,
       s_apply = (\<lambda>src output. with_data src (zip_rebuild_run src output)) \<rparr>"

section \<open>Contracts\<close>

text \<open>The report counts the whole sink, so it depends on what the sink held.\<close>

interpretation zip_rebuild: staging_strategy
    "s_name ZipCentralDirectoryRebuild" "s_apply ZipCentralDirectoryRebuild"
proof unfold_locales
  fix src e sink bs err rep sink'
  let ?s = ZipCentralDirectoryRebuild
  show "ds_read src = Inl e \<Longrightarrow> s_apply ?s src sink = Returned (Inl (IoError (ds_path src) e))"
    by (simp add: ZipCentralDirectoryRebuild_def)
  show "ds_read src = Inr bs \<Longrightarrow> s_apply ?s src sink = Returned (Inl err) \<Longrightarrow>
      \<exists>reason. err = StrategyError (s_name ?s) reason"
    by (simp add: ZipCentralDirectoryRebuild_def zip_rebuild_run_def Let_def split: if_splits)
  assume r: "s_apply ?s src sink = Returned (Inr (rep, sink'))"
  obtain d where d: "ds_read src = Inr d"
    using r by (cases "ds_read src") (auto simp: ZipCentralDirectoryRebuild_def)
  show "report_local (s_name ?s) rep"
    using r d by (auto simp: ZipCentralDirectoryRebuild_def zip_rebuild_run_def Let_def split: if_splits)
  show "\<exists>out. sink' = sink_write sink out"
    using r d by (cases "scan_local_headers d = []")
      (auto simp: ZipCentralDirectoryRebuild_def zip_rebuild_run_def Let_def)
qed

lemma scan_headers_spans:
  "spans_within pos (length d) (map (\<lambda>h. (lfh_offset h, header_end h)) (scan_headers_from d pos))"
proof (induction d pos rule: scan_headers_from.induct)
  case (1 d pos)
  show ?case
  proof (cases "local_header_at d pos")
    case None
    then show ?thesis by (subst scan_headers_from.simps) simp
  next
    case (Some h)
    then show ?thesis
      using 1 [OF _ Some] local_header_at_Some [OF Some] by (subst scan_headers_from.simps) simp
  qed
qed

interpretation lfh_scan: segment_scanner scan_local_headers "\<lambda>h. (lfh_offset h, header_end h)"
  by unfold_locales (simp add: scan_local_headers_def scan_headers_spans)

section \<open>Archives whose directory was destroyed\<close>

record zip_entry =
  ze_version :: u16
  ze_flags :: u16
  ze_method :: u16
  ze_time :: u16
  ze_date :: u16
  ze_crc :: u32
  ze_usize :: u32
  ze_name :: bytes
  ze_extra :: bytes
  ze_payload :: bytes

text \<open>A member as a ZIP writer lays it out: local header, name, extra field, payload.\<close>

definition zip_local :: "zip_entry \<Rightarrow> bytes" where
  "zip_local e =
     u32_bytes LFH_SIG @ u16_bytes (ze_version e) @ u16_bytes (ze_flags e) @ u16_bytes (ze_method e)
     @ u16_bytes (ze_time e) @ u16_bytes (ze_date e) @ u32_bytes (ze_crc e)
     @ u32_bytes (of_nat (length (ze_payload e))) @ u32_bytes (ze_usize e)
     @ u16_bytes (of_nat (length (ze_name e))) @ u16_bytes (of_nat (length (ze_extra e)))
     @ ze_name e @ ze_extra e @ ze_payload e"

text \<open>Sizes fit their fields and the member is not a streamed one without sizes.\<close>

definition zip_entry_ok :: "zip_entry \<Rightarrow> bool" where
  "zip_entry_ok e \<longleftrightarrow> length (ze_payload e) < 2 ^ 32 \<and> length (ze_name e) < 2 ^ 16
     \<and> length (ze_extra e) < 2 ^ 16 \<and> (ze_flags e AND 0x0008 \<noteq> 0 \<longrightarrow> ze_payload e \<noteq> [])"

definition header_of :: "nat \<Rightarrow> zip_entry \<Rightarrow> LocalHeader" where
  "header_of off e =
     \<lparr> lfh_offset = off, version_needed = ze_version e, lh_flags = ze_flags e, lh_method = ze_method e,
       mod_time = ze_time e, mod_date = ze_date e, lh_crc32 = ze_crc e,
       comp_size = length (ze_payload e), uncomp_size = unat (ze_usize e),
       data_offset = off + 30 + length (ze_name e) + length (ze_extra e), lh_name = ze_name e \<rparr>"

primrec headers_of :: "nat \<Rightarrow> zip_entry list \<Rightarrow> LocalHeader list" where
  "headers_of off [] = []"
| "headers_of off (e # es) = header_of off e # headers_of (off + length (zip_local e)) es"

lemma length_zip_local [simp]:
  "length (zip_local e) = 30 + length (ze_name e) + length (ze_extra e) + length (ze_payload e)"
  by (simp add: zip_local_def)

lemma header_end_header_of [simp]: "header_end (header_of off e) = off + length (zip_local e)"
  by (simp add: header_end_def header_of_def)

lemma lfh_offset_header_of [simp]: "lfh_offset (header_of off e) = off"
  by (simp add: header_of_def)

lemma unat_of_nat_len:
  "n < 2 ^ 32 \<Longrightarrow> unat (of_nat n :: u32) = n" "n < 2 ^ 16 \<Longrightarrow> unat (of_nat n :: u16) = n"
  by (simp_all add: unat_of_nat take_bit_eq_mod)

lemma zip_local_fields:
  assumes "zip_entry_ok e"
  shows "u32_at (zip_local e @ r) 0 = LFH_SIG" "u16_at (zip_local e @ r) 4 = ze_version e"
    "u16_at (zip_local e @ r) 6 = ze_flags e" "u16_at (zip_local e @ r) 8 = ze_method e"
    "u16_at (zip_local e @ r) 10 = ze_time e" "u16_at (zip_local e @ r) 12 = ze_date e"
    "u32_at (zip_local e @ r) 14 = ze_crc e"
    "unat (u32_at (zip_local e @ r) 18) = length (ze_payload e)"
    "u32_at (zip_local e @ r) 22 = ze_usize e"
    "unat (u16_at (zip_local e @ r) 26) = length (ze_name e)"
    "unat (u16_at (zip_local e @ r) 28) = length (ze_extra e)"
    "cut (zip_local e @ r) 30 (30 + length (ze_name e)) = ze_name e"
proof -
  have fits: "length (ze_payload e) < 2 ^ 32" "length (ze_name e) < 2 ^ 16" "length (ze_extra e) < 2 ^ 16"
    using assms by (simp_all add: zip_entry_ok_def)
  show "u32_at (zip_local e @ r) 0 = LFH_SIG" "u16_at (zip_local e @ r) 4 = ze_version e"
    "u16_at (zip_local e @ r) 6 = ze_flags e" "u16_at (zip_local e @ r) 8 = ze_method e"
    "u16_at (zip_local e @ r) 10 = ze_time e" "u16_at (zip_local e @ r) 12 = ze_date e"
    "u32_at (zip_local e @ r) 14 = ze_crc e" "u32_at (zip_local e @ r) 22 = ze_usize e"
    by (simp_all add: zip_local_def word_at_skip)
  show "unat (u32_at (zip_local e @ r) 18) = length (ze_payload e)"
    "unat (u16_at (zip_local e @ r) 26) = length (ze_name e)"
    "unat (u16_at (zip_local e @ r) 28) = length (ze_extra e)"
    using unat_of_nat_len(1) [OF fits(1)] unat_of_nat_len(2) [OF fits(2)] unat_of_nat_len(2) [OF fits(3)]
    by (simp_all add: zip_local_def word_at_skip)
  show "cut (zip_local e @ r) 30 (30 + length (ze_name e)) = ze_name e"
    by (simp add: zip_local_def cut_append_right cut_0)
qed

lemma local_header_at_entry:
  assumes d: "d = pre @ zip_local e @ r" and ok: "zip_entry_ok e"
  shows "local_header_at d (length pre) = Some (header_of (length pre) e)"
proof -
  note f = zip_local_fields [OF ok]
  have at: "u16_at d (length pre + k) = u16_at (zip_local e @ r) k"
    "u32_at d (length pre + k) = u32_at (zip_local e @ r) k" for k
    unfolding d by (simp_all add: word_at_append)
  have at0: "u32_at d (length pre) = LFH_SIG" using at(2) [of 0] f(1) by simp
  have nm: "cut d (length pre + 30) (length pre + 30 + length (ze_name e)) = ze_name e"
    unfolding d using f(12) by (simp add: cut_append_right add.assoc)
  have len: "length d = length pre + length (zip_local e) + length r" using d by simp
  have nz: "\<not> (ze_flags e AND 8 \<noteq> 0 \<and> length (ze_payload e) = 0)"
    using ok by (auto simp: zip_entry_ok_def)
  show ?thesis
    unfolding local_header_at_def Let_def at at0 f nm using len nz
    by (simp add: header_of_def)
qed

definition no_header :: "bytes \<Rightarrow> bool" where
  "no_header tail \<longleftrightarrow> length tail < 30 \<or> u32_at tail 0 \<noteq> LFH_SIG"

lemma scan_headers_entries:
  assumes "d = pre @ concat (map zip_local es) @ tail" "list_all zip_entry_ok es" "no_header tail"
  shows "scan_headers_from d (length pre) = headers_of (length pre) es"
  using assms
proof (induction es arbitrary: pre)
  case Nil
  then have "u32_at d (length pre) = u32_at tail 0"
    using word_at_append(2) [of pre tail 0] by simp
  then show ?case
    using Nil by (subst scan_headers_from.simps) (auto simp: no_header_def local_header_at_def)
next
  case (Cons e es)
  have d: "d = pre @ zip_local e @ (concat (map zip_local es) @ tail)" using Cons.prems(1) by simp
  have "scan_headers_from d (length (pre @ zip_local e)) = headers_of (length (pre @ zip_local e)) es"
    using Cons.prems by (intro Cons.IH) simp_all
  moreover have "length pre + 30 \<le> length d" using d by simp
  ultimately show ?case
    using local_header_at_entry [OF d] Cons.prems(2) by (subst scan_headers_from.simps) simp
qed

lemma headers_of_end:
  "es \<noteq> [] \<Longrightarrow> off + length (concat (map zip_local es)) = foldl max k (map header_end (headers_of off es))"
  if "k \<le> off"
  using that
proof (induction es arbitrary: off k)
  case (Cons e es)
  show ?case
  proof (cases "es = []")
    case False
    then show ?thesis
      using Cons.IH [of "max k (off + length (zip_local e))" "off + length (zip_local e)"] Cons.prems by simp
  qed (use Cons.prems in simp)
qed simp

text \<open>The archive with a directory built from its members.\<close>

definition rebuilt_archive :: "zip_entry list \<Rightarrow> bytes" where
  "rebuilt_archive es =
     (let body = concat (map zip_local es); cd = concat (map cd_record (headers_of 0 es)) in
      body @ cd @ eocd_record (length es) (length cd) (length body))"

lemma length_headers_of [simp]: "length (headers_of off es) = length es"
  by (induction es arbitrary: off) simp_all

lemma zip_rebuild_staged:
  assumes read: "ds_read src = Inr (concat (map zip_local es) @ tail)"
    and ok: "list_all zip_entry_ok es" "no_header tail" "es \<noteq> []"
  shows "\<exists>rep. s_apply ZipCentralDirectoryRebuild src sink
      = Returned (Inr (rep, sink_write sink (rebuilt_archive es)))
    \<and> success rep \<and> length (files_recovered rep) = length es"
proof -
  let ?d = "concat (map zip_local es) @ tail" and ?h = "headers_of 0 es"
  have scan: "scan_local_headers ?d = ?h"
    using scan_headers_entries [of ?d "[]" es tail] ok by (simp add: scan_local_headers_def)
  have last: "foldl max 0 (map header_end ?h) = length (concat (map zip_local es))"
    using headers_of_end [of 0 0 es] ok(3) by simp
  have "?h \<noteq> []" using ok(3) by (cases es) simp_all
  then show ?thesis
    using read
    by (simp add: ZipCentralDirectoryRebuild_def zip_rebuild_run_def Let_def scan last applied_ok_def
        rebuilt_archive_def)
qed

end
