(* ===== verification/Resync_Gzip.thy ===== *)
theory Resync_Gzip
  imports Resync Rust_Text
begin

unbundle bit_operations_syntax

text \<open>
  GZIP multi-member salvage (\<open>phx_recovery/src/resync/gzip.rs\<close>). The DEFLATE decoder and the
  CRC of the third-party inflate library are parameters.
  Shown: a segment is counted as verified only when the stored CRC-32 and length match the
  inflated bytes; the kept members are in file order, apart, and leave no provable member out; a
  concatenation of intact members with any headers is recovered completely; and a truncated
  member whose optional fields contain another member magic makes the salvager panic.
\<close>

section \<open>The decoder\<close>

text \<open>
  A decoder over a byte stream: the blocks successive reads return before the stream ends,
  the error that ends it (if any), and the compressed bytes consumed by then.
\<close>

record inflater =
  inf_chunks :: "bytes \<Rightarrow> bytes list"
  inf_error :: "bytes \<Rightarrow> string option"
  inf_total_in :: "bytes \<Rightarrow> nat"

record InflateOutcome =
  io_plain :: bytes
  io_consumed :: nat
  io_ok :: bool

definition MAX_MEMBER_BYTES :: nat where
  "MAX_MEMBER_BYTES = 1024 * 1024 * 1024"

primrec inflate_chunks :: "bytes list \<Rightarrow> bool \<Rightarrow> bytes \<Rightarrow> bytes \<times> bool" where
  "inflate_chunks [] fine plain = (plain, fine)"
| "inflate_chunks (c # cs) fine plain =
     (let plain1 = plain @ c in
      if MAX_MEMBER_BYTES < length plain1 then (plain1, False) else inflate_chunks cs fine plain1)"

definition inflate_member :: "inflater \<Rightarrow> bytes \<Rightarrow> InflateOutcome" where
  "inflate_member dec body =
     (case inflate_chunks (inf_chunks dec body) (inf_error dec body = None) [] of
        (plain, ok) \<Rightarrow> \<lparr> io_plain = plain, io_consumed = inf_total_in dec body, io_ok = ok \<rparr>)"

section \<open>Headers and trailers\<close>

definition magic_at :: "bytes \<Rightarrow> nat \<Rightarrow> bool" where
  "magic_at d i \<longleftrightarrow> d ! i = 0x1F \<and> d ! (i + 1) = 0x8B \<and> d ! (i + 2) = 0x08"

definition member_starts :: "bytes \<Rightarrow> nat list" where
  "member_starts d = (if length d < 3 then [] else filter (magic_at d) [0..<length d - 2])"

function skip_zstring :: "bytes \<Rightarrow> nat \<Rightarrow> nat option" where
  "skip_zstring d pos =
     (if pos < length d then (if d ! pos = 0 then Some (pos + 1) else skip_zstring d (pos + 1))
      else None)"
  by pat_completeness auto
termination by (relation "measure (\<lambda>(d, pos). length d - pos)") auto

declare skip_zstring.simps [simp del]

definition gz_header_len :: "bytes \<Rightarrow> nat \<Rightarrow> nat option" where
  "gz_header_len d off =
     Option.bind (get_range d off (off + 10)) (\<lambda>h.
       if h ! 0 \<noteq> 0x1F \<or> h ! 1 \<noteq> 0x8B \<or> h ! 2 \<noteq> 0x08 then None
       else
         (let flags = h ! 3; pos = off + 10 in
          Option.bind
            (if flags AND 0x04 \<noteq> 0
             then Option.bind (get_at d pos) (\<lambda>lo.
                  Option.bind (get_at d (pos + 1)) (\<lambda>hi.
                    Some (pos + 2 + (unat lo + 256 * unat hi))))
             else Some pos) (\<lambda>pos.
          Option.bind (if flags AND 0x08 \<noteq> 0 then skip_zstring d pos else Some pos) (\<lambda>pos.
          Option.bind (if flags AND 0x10 \<noteq> 0 then skip_zstring d pos else Some pos) (\<lambda>pos.
            (let pos = (if flags AND 0x02 \<noteq> 0 then pos + 2 else pos) in
             if length d < pos then None else Some (pos - off)))))))"

definition read_trailer :: "bytes \<Rightarrow> nat \<Rightarrow> (u32 \<times> u32) option" where
  "read_trailer d at_pos =
     (if at_pos + 8 \<le> length d then Some (u32_at d at_pos, u32_at d (at_pos + 4)) else None)"

section \<open>Salvage\<close>

definition salvage_unverified ::
  "SalvageResult \<Rightarrow> nat \<Rightarrow> nat \<Rightarrow> bytes \<Rightarrow> bytes \<Rightarrow> SalvageResult" where
  "salvage_unverified res start body_start partial body =
     (let res1 =
        (if partial \<noteq> [] then
           salvage_push res
             \<lparr> seg_kind = PartialInflate, seg_name = None, source_offset = start, source_end = start,
               seg_bytes = partial,
               seg_note = Msg ''partial inflate before corruption ({n} B, UNVERIFIED)''
                 [N (length partial)] \<rparr>
         else res)
      in foldl (\<lambda>res b.
           salvage_push res
             \<lparr> seg_kind = StoredBlockSalvage, seg_name = None,
               source_offset = body_start + header_offset b,
               source_end = body_start + header_offset b,
               seg_bytes = sb_payload b,
               seg_note = Msg ''DEFLATE stored block ({} B, UNVERIFIED)'' [N (sb_len b)] \<rparr>)
         res1 (scan_stored_blocks body))"

definition gz_label :: "nat \<Rightarrow> string" where
  "gz_label n = ''member#'' @ fmt_nat n"

text \<open>
  One iteration for the member magic at \<open>start\<close>, bounded by \<open>next_start\<close>: the new cursor and
  the new result. The slice \<open>&data[body_start..next_start]\<close> panics when the header reaches
  past the next magic.
\<close>

definition gz_member_step ::
  "inflater \<Rightarrow> (bytes \<Rightarrow> u32) \<Rightarrow> bytes \<Rightarrow> nat \<Rightarrow> nat \<Rightarrow> SalvageResult
    \<Rightarrow> (nat \<times> SalvageResult) outcome" where
  "gz_member_step dec crc d start next_start res0 =
     (let res = res0\<lparr> members_total := members_total res0 + 1 \<rparr>;
          label = gz_label (members_total res) in
      case gz_header_len d start of
        None \<Rightarrow> Returned (next_start,
          salvage_warn res (Msg ''{label} at {start}: malformed header - skipped'' [S label, N start]))
      | Some hlen \<Rightarrow>
          (let body_start = start + hlen;
               res_inf = inflate_member dec (drop body_start d);
               unverified = (\<lambda>res. bind_outcome (index_range d body_start next_start) (\<lambda>body.
                 Returned (next_start,
                   salvage_unverified res start body_start (io_plain res_inf) body))) in
           if io_ok res_inf then
             (let trailer_at = body_start + io_consumed res_inf in
              case read_trailer d trailer_at of
                Some (c, isize) \<Rightarrow>
                  if crc (io_plain res_inf) = c \<and> of_nat (length (io_plain res_inf)) = isize
                  then Returned (trailer_at + 8,
                    salvage_push res
                      \<lparr> seg_kind = VerifiedGzipMember, seg_name = Some label, source_offset = start,
                        source_end = min (trailer_at + 8) (length d),
                        seg_bytes = io_plain res_inf,
                        seg_note = Msg ''CRC32+ISIZE verified ({n} B)''
                          [N (length (io_plain res_inf))] \<rparr>)
                  else unverified (salvage_warn res
                    (Msg ''{label}: inflated but trailer mismatch - best-effort only'' [S label]))
              | None \<Rightarrow> unverified (salvage_warn res
                    (Msg ''{label}: inflated but trailer truncated'' [S label])))
           else unverified (salvage_warn res
                  (Msg ''{label}: DEFLATE decode failed - resync salvage'' [S label]))))"

fun gz_loop ::
  "inflater \<Rightarrow> (bytes \<Rightarrow> u32) \<Rightarrow> bytes \<Rightarrow> nat list \<Rightarrow> nat \<Rightarrow> SalvageResult \<Rightarrow> SalvageResult outcome" where
  "gz_loop dec crc d [] cursor res = Returned res"
| "gz_loop dec crc d (start # rest) cursor res =
     (if start < cursor then gz_loop dec crc d rest cursor res
      else bind_outcome
             (gz_member_step dec crc d start (case rest of [] \<Rightarrow> length d | s # _ \<Rightarrow> s) res)
             (\<lambda>(cursor1, res1). gz_loop dec crc d rest cursor1 res1))"

definition salvage_gzip :: "inflater \<Rightarrow> (bytes \<Rightarrow> u32) \<Rightarrow> bytes \<Rightarrow> SalvageResult outcome" where
  "salvage_gzip dec crc d =
     (let res = salvage_new ''gzip''; starts = member_starts d in
      if starts = []
      then Returned (salvage_warn res (Msg ''no GZIP member magic (1F 8B 08) found'' []))
      else bind_outcome (gz_loop dec crc d starts 0 res) (\<lambda>res.
        Returned (if members_verified res = 0
                  then salvage_warn res
                    (Msg ''no member could be CRC-verified; nothing returned as exact'' [])
                  else res)))"

section \<open>Verified means proven\<close>

text \<open>The member behind a segment inflates to its bytes, and its trailer says so.\<close>

definition gz_proven :: "inflater \<Rightarrow> (bytes \<Rightarrow> u32) \<Rightarrow> bytes \<Rightarrow> Segment \<Rightarrow> bool" where
  "gz_proven dec crc d s \<longleftrightarrow> seg_kind s = VerifiedGzipMember
     \<and> (\<exists>hlen t. gz_header_len d (source_offset s) = Some hlen
          \<and> io_ok (inflate_member dec (drop (source_offset s + hlen) d))
          \<and> seg_bytes s = io_plain (inflate_member dec (drop (source_offset s + hlen) d))
          \<and> t = source_offset s + hlen + io_consumed (inflate_member dec (drop (source_offset s + hlen) d))
          \<and> t + 8 \<le> length d \<and> source_end s = t + 8
          \<and> u32_at d t = crc (seg_bytes s) \<and> u32_at d (t + 4) = of_nat (length (seg_bytes s)))"

definition gz_result_ok :: "inflater \<Rightarrow> (bytes \<Rightarrow> u32) \<Rightarrow> bytes \<Rightarrow> SalvageResult \<Rightarrow> bool" where
  "gz_result_ok dec crc d res \<longleftrightarrow> tallies_ok res
     \<and> list_all (\<lambda>s. seg_verified s \<longrightarrow> gz_proven dec crc d s) (segments res)"

lemma gz_result_ok_simps [simp]:
  "gz_result_ok dec crc d (salvage_new f)"
  "gz_result_ok dec crc d (salvage_warn res m) = gz_result_ok dec crc d res"
  "gz_result_ok dec crc d (res\<lparr> members_total := n \<rparr>) = gz_result_ok dec crc d res"
  by (simp_all add: gz_result_ok_def)

lemma gz_result_ok_push:
  "gz_result_ok dec crc d res \<Longrightarrow> (seg_verified s \<Longrightarrow> gz_proven dec crc d s) \<Longrightarrow>
    gz_result_ok dec crc d (salvage_push res s)"
  by (simp add: gz_result_ok_def)

lemma fold_push_ok:
  assumes unver: "\<And>b. \<not> seg_verified (f b)" and "gz_result_ok dec crc d res"
  shows "gz_result_ok dec crc d (foldl (\<lambda>res b. salvage_push res (f b)) res bs)"
  using assms(2)
proof (induction bs arbitrary: res)
  case (Cons b bs)
  have "gz_result_ok dec crc d (salvage_push res (f b))"
    by (rule gz_result_ok_push [OF Cons.prems]) (simp add: unver)
  from Cons.IH [OF this] show ?case by simp
qed simp

lemma salvage_unverified_ok:
  assumes "gz_result_ok dec crc d res"
  shows "gz_result_ok dec crc d (salvage_unverified res start bst partial body)"
proof -
  define res1 where "res1 = (if partial \<noteq> [] then
    salvage_push res \<lparr> seg_kind = PartialInflate, seg_name = None, source_offset = start, source_end = start,
      seg_bytes = partial, seg_note = Msg ''partial inflate before corruption ({n} B, UNVERIFIED)''
        [N (length partial)] \<rparr> else res)"
  have "gz_result_ok dec crc d res1"
    using assms by (auto simp: res1_def seg_verified_def is_verified_def intro!: gz_result_ok_push)
  then show ?thesis
    unfolding salvage_unverified_def Let_def res1_def [symmetric]
    by (intro fold_push_ok) (simp add: seg_verified_def is_verified_def)
qed

lemma gz_member_step_ok:
  assumes step: "gz_member_step dec crc d start nxt res = Returned (c, res')"
    and ok: "gz_result_ok dec crc d res"
  shows "gz_result_ok dec crc d res'"
proof (cases "gz_header_len d start")
  case None
  with assms show ?thesis by (auto simp: gz_member_step_def Let_def)
next
  case (Some hlen)
  let ?o = "inflate_member dec (drop (start + hlen) d)"
  let ?t = "start + hlen + io_consumed ?o"
  consider "\<not> io_ok ?o" | "io_ok ?o" "\<not> ?t + 8 \<le> length d"
    | "io_ok ?o" "?t + 8 \<le> length d" "\<not> (crc (io_plain ?o) = u32_at d ?t
        \<and> of_nat (length (io_plain ?o)) = u32_at d (?t + 4))"
    | "io_ok ?o" "?t + 8 \<le> length d" "crc (io_plain ?o) = u32_at d ?t"
        "of_nat (length (io_plain ?o)) = u32_at d (?t + 4)" by blast
  then show ?thesis
  proof cases
    case 1
    then show ?thesis using step Some ok by (auto simp: gz_member_step_def Let_def salvage_unverified_ok)
  next
    case 2
    then show ?thesis using step Some ok
      by (auto simp: gz_member_step_def Let_def read_trailer_def salvage_unverified_ok)
  next
    case 3
    then show ?thesis using step Some ok
      by (auto simp: gz_member_step_def Let_def read_trailer_def salvage_unverified_ok)
  next
    case 4
    then show ?thesis using step Some ok
      by (auto simp: gz_member_step_def Let_def read_trailer_def gz_proven_def intro!: gz_result_ok_push)
  qed
qed

lemma gz_loop_ok:
  "gz_loop dec crc d starts cursor res = Returned res' \<Longrightarrow> gz_result_ok dec crc d res \<Longrightarrow>
    gz_result_ok dec crc d res'"
proof (induction starts arbitrary: cursor res)
  case (Cons s rest)
  then show ?case by (auto split: if_splits dest: gz_member_step_ok)
qed simp

lemma salvage_gzip_ok:
  assumes "salvage_gzip dec crc d = Returned res"
  shows "gz_result_ok dec crc d res"
  using assms gz_loop_ok [of dec crc d "member_starts d" 0 "salvage_new ''gzip''"]
  by (auto simp: salvage_gzip_def Let_def split: if_splits)

text \<open>
  GZIP salvage never vouches for unproven bytes: whatever the decoder returns, every segment
  the salvager marks verified is the output of a member whose stored CRC-32 and length
  match it, the reported source span ends right behind that trailer, and the verified and
  unverified byte counts are exactly those of the verified and unverified segments.
\<close>

theorem salvage_gzip_sound:
  assumes "salvage_gzip dec crc d = Returned res"
  shows "list_all (\<lambda>s. seg_verified s \<longrightarrow> gz_proven dec crc d s) (segments res) \<and> tallies_ok res"
  using salvage_gzip_ok [OF assms] by (simp add: gz_result_ok_def)

text \<open>A decoder for length-prefixed bodies, to exercise the salvager.\<close>

definition prefix_inflater :: inflater where
  "prefix_inflater =
     \<lparr> inf_chunks = (\<lambda>b. case b of [] \<Rightarrow> [] | n # rest \<Rightarrow> [take (unat n) rest]),
       inf_error = (\<lambda>b. case b of [] \<Rightarrow> Some ''EOF''
          | n # rest \<Rightarrow> if unat n \<le> length rest then None else Some ''EOF''),
       inf_total_in = (\<lambda>b. case b of [] \<Rightarrow> 0 | n # rest \<Rightarrow> 1 + min (unat n) (length rest)) \<rparr>"

section \<open>Intact members are recovered\<close>

text \<open>
  A member's header as RFC 1952 lays it out: the fixed fields and the optional ones, each with its flag
  (extra field, file name, comment, header checksum).
\<close>

record gz_head =
  gh_time :: u32
  gh_xfl :: u8
  gh_os :: u8
  gh_text :: bool
  gh_extra :: "bytes option"
  gh_name :: "bytes option"
  gh_comment :: "bytes option"
  gh_crc :: "u16 option"

definition gz_flags :: "bool \<Rightarrow> bool \<Rightarrow> bool \<Rightarrow> bool \<Rightarrow> bool \<Rightarrow> u8" where
  "gz_flags text hcrc extra name comment =
     of_bool text OR (2 * of_bool hcrc) OR (4 * of_bool extra) OR (8 * of_bool name) OR (16 * of_bool comment)"

definition zfield :: "bytes option \<Rightarrow> bytes" where
  "zfield z = (case z of None \<Rightarrow> [] | Some x \<Rightarrow> x @ [0])"

definition gz_fixed :: "gz_head \<Rightarrow> bytes" where
  "gz_fixed h = [0x1F, 0x8B, 0x08,
     gz_flags (gh_text h) (gh_crc h \<noteq> None) (gh_extra h \<noteq> None) (gh_name h \<noteq> None) (gh_comment h \<noteq> None)]
     @ u32_bytes (gh_time h) @ [gh_xfl h, gh_os h]"

definition gz_extra_field :: "bytes option \<Rightarrow> bytes" where
  "gz_extra_field x = (case x of None \<Rightarrow> [] | Some e \<Rightarrow> u16_bytes (of_nat (length e)) @ e)"

definition gz_crc_field :: "u16 option \<Rightarrow> bytes" where
  "gz_crc_field x = (case x of None \<Rightarrow> [] | Some c \<Rightarrow> u16_bytes c)"

definition gz_head_bytes :: "gz_head \<Rightarrow> bytes" where
  "gz_head_bytes h = gz_fixed h @ gz_extra_field (gh_extra h) @ zfield (gh_name h) @ zfield (gh_comment h)
     @ gz_crc_field (gh_crc h)"

text \<open>The extra field's length is a 16-bit number; name and comment hold no terminator.\<close>

definition gz_head_ok :: "gz_head \<Rightarrow> bool" where
  "gz_head_ok h \<longleftrightarrow> (case gh_extra h of None \<Rightarrow> True | Some e \<Rightarrow> length e < 2 ^ 16)
     \<and> (case gh_name h of None \<Rightarrow> True | Some z \<Rightarrow> 0 \<notin> set z)
     \<and> (case gh_comment h of None \<Rightarrow> True | Some z \<Rightarrow> 0 \<notin> set z)"

definition plain_head :: gz_head where
  "plain_head = \<lparr> gh_time = 0, gh_xfl = 0, gh_os = 0xFF, gh_text = False, gh_extra = None, gh_name = None,
     gh_comment = None, gh_crc = None \<rparr>"

text \<open>What \<open>gzip\<close> writes for a file: its time and its name.\<close>

definition named_head :: "u32 \<Rightarrow> bytes \<Rightarrow> gz_head" where
  "named_head t nm = plain_head\<lparr> gh_time := t, gh_os := 3, gh_name := Some nm \<rparr>"

lemma gz_flags_bits:
  "gz_flags t c e n m AND 0x04 \<noteq> 0 \<longleftrightarrow> e" "gz_flags t c e n m AND 0x08 \<noteq> 0 \<longleftrightarrow> n"
  "gz_flags t c e n m AND 0x10 \<noteq> 0 \<longleftrightarrow> m" "gz_flags t c e n m AND 0x02 \<noteq> 0 \<longleftrightarrow> c"
  by (cases t; cases c; cases e; cases n; cases m; simp add: gz_flags_def)+

lemma length_gz_fixed [simp]: "length (gz_fixed h) = 10"
  by (simp add: gz_fixed_def)

lemma skip_zstring_found:
  "0 \<notin> set z \<Longrightarrow> skip_zstring (pre @ z @ 0 # rest) (length pre) = Some (length pre + length z + 1)"
proof (induction z arbitrary: pre)
  case Nil
  then show ?case by (subst skip_zstring.simps) simp
next
  case (Cons c z)
  have "skip_zstring ((pre @ [c]) @ z @ 0 # rest) (length (pre @ [c])) = Some (length (pre @ [c]) + length z + 1)"
    using Cons by (intro Cons.IH) simp
  then show ?case using Cons.prems by (subst skip_zstring.simps) simp
qed

lemma skip_zfield:
  assumes "case z of None \<Rightarrow> True | Some x \<Rightarrow> 0 \<notin> set x" "p = length pre"
  shows "(if z \<noteq> None then skip_zstring (pre @ zfield z @ rest) p else Some p) = Some (p + length (zfield z))"
  using assms skip_zstring_found [of "the z" pre rest] by (cases z) (simp_all add: zfield_def)

lemma extra_length:
  assumes "case x of None \<Rightarrow> True | Some e \<Rightarrow> length e < 2 ^ 16" "p = length pre"
  shows "(if x \<noteq> None
     then Option.bind (get_at (pre @ gz_extra_field x @ rest) p) (\<lambda>lo.
       Option.bind (get_at (pre @ gz_extra_field x @ rest) (p + 1)) (\<lambda>hi. Some (p + 2 + (unat lo + 256 * unat hi))))
     else Some p) = Some (p + length (gz_extra_field x))"
proof (cases x)
  case (Some e)
  let ?n = "length e"
  have n: "?n < 65536" using assms(1) Some by simp
  have "unat (of_nat ?n :: u16) = ?n" using n by (simp add: unat_of_nat take_bit_eq_mod)
  then have "u16_bytes (of_nat ?n) = [of_nat (?n mod 256), of_nat (?n div 256 mod 256)]"
    by (simp add: u16_bytes_def to_le_2)
  moreover have "unat (of_nat (?n mod 256) :: u8) + 256 * unat (of_nat (?n div 256 mod 256) :: u8) = ?n"
    unfolding unat_of_nat_byte using n by (simp add: less_mult_imp_div_less)
  ultimately obtain lo hi where "u16_bytes (of_nat ?n) = [lo, hi]" "unat lo + 256 * unat hi = ?n" by blast
  then show ?thesis using Some assms(2) by (simp add: gz_extra_field_def get_at_def nth_append)
qed (simp add: gz_extra_field_def)

lemma gz_header_len_head:
  assumes "gz_head_ok h"
  shows "gz_header_len (pre @ gz_head_bytes h @ rest) (length pre) = Some (length (gz_head_bytes h))"
proof -
  let ?d = "pre @ gz_head_bytes h @ rest"
  let ?x = "gz_extra_field (gh_extra h)" and ?n = "zfield (gh_name h)" and ?c = "zfield (gh_comment h)"
    and ?k = "gz_crc_field (gh_crc h)"
  define p where "p = length pre + 10"
  have ok: "case gh_extra h of None \<Rightarrow> True | Some e \<Rightarrow> length e < 2 ^ 16"
    "case gh_name h of None \<Rightarrow> True | Some z \<Rightarrow> 0 \<notin> set z" "case gh_comment h of None \<Rightarrow> True | Some z \<Rightarrow> 0 \<notin> set z"
    using assms unfolding gz_head_ok_def by blast+
  have parts: "?d = (pre @ gz_fixed h) @ ?x @ (?n @ ?c @ ?k @ rest)"
    "?d = (pre @ gz_fixed h @ ?x) @ ?n @ (?c @ ?k @ rest)" "?d = (pre @ gz_fixed h @ ?x @ ?n) @ ?c @ (?k @ rest)"
    by (simp_all add: gz_head_bytes_def)
  have "get_range ?d (length pre) (length pre + 10) = Some (gz_fixed h)"
    by (simp add: get_range_def gz_head_bytes_def cut_append_right cut_append_left cut_0)
  moreover have "gz_fixed h ! 0 = 0x1F" "gz_fixed h ! 1 = 0x8B" "gz_fixed h ! 2 = 0x08"
    and flags: "gz_fixed h ! 3 = gz_flags (gh_text h) (gh_crc h \<noteq> None) (gh_extra h \<noteq> None) (gh_name h \<noteq> None)
      (gh_comment h \<noteq> None)" by (simp_all add: gz_fixed_def)
  moreover have "(if gh_extra h \<noteq> None then Option.bind (get_at ?d p) (\<lambda>lo.
      Option.bind (get_at ?d (p + 1)) (\<lambda>hi. Some (p + 2 + (unat lo + 256 * unat hi)))) else Some p)
      = Some (p + length ?x)"
    unfolding parts(1) by (rule extra_length [OF ok(1)]) (simp add: p_def)
  moreover have "(if gh_name h \<noteq> None then skip_zstring ?d (p + length ?x) else Some (p + length ?x))
      = Some (p + length ?x + length ?n)"
    unfolding parts(2) by (rule skip_zfield [OF ok(2)]) (simp add: p_def)
  moreover have "(if gh_comment h \<noteq> None then skip_zstring ?d (p + length ?x + length ?n)
        else Some (p + length ?x + length ?n))
      = Some (p + length ?x + length ?n + length ?c)"
    unfolding parts(3) by (rule skip_zfield [OF ok(3)]) (simp add: p_def)
  moreover have "(if gh_crc h \<noteq> None then q + 2 else q) = q + length ?k" for q
    by (cases "gh_crc h") (simp_all add: gz_crc_field_def)
  moreover have "\<not> length ?d < p + length ?x + length ?n + length ?c + length ?k" by (simp add: p_def gz_head_bytes_def)
  ultimately show ?thesis
    unfolding gz_header_len_def by (simp add: Let_def gz_flags_bits flip: p_def) (simp add: p_def gz_head_bytes_def)
qed

text \<open>A member: header, compressed body, CRC-32 and length of the plaintext.\<close>

definition gz_member :: "(bytes \<Rightarrow> u32) \<Rightarrow> gz_head \<times> bytes \<times> bytes \<Rightarrow> bytes" where
  "gz_member crc m = (case m of (h, packed, plain) \<Rightarrow>
     gz_head_bytes h @ packed @ u32_bytes (crc plain) @ u32_bytes (of_nat (length plain)))"

definition gz_plain_header :: bytes where
  "gz_plain_header = [0x1F, 0x8B, 0x08, 0, 0, 0, 0, 0, 0, 0xFF]"

text \<open>
  The decoder reads the body of a member to its plaintext whatever follows it: DEFLATE streams are
  self-delimiting.
\<close>

definition decodes :: "inflater \<Rightarrow> bytes \<times> bytes \<Rightarrow> bool" where
  "decodes dec m \<longleftrightarrow> (\<forall>rest. inflate_member dec (fst m @ rest)
     = \<lparr> io_plain = snd m, io_consumed = length (fst m), io_ok = True \<rparr>)"

lemma length_gz_plain_header [simp]: "length gz_plain_header = 10"
  by (simp add: gz_plain_header_def)

lemma gz_loop_skip:
  "i \<le> cursor \<Longrightarrow> cursor \<le> n \<Longrightarrow>
    gz_loop dec crc d (filter P [i..<n]) cursor res = gz_loop dec crc d (filter P [cursor..<n]) cursor res"
proof (induction "cursor - i" arbitrary: i)
  case (Suc k)
  then have lt: "i < cursor" and "i < n" by simp_all
  then have "[i..<n] = i # [Suc i..<n]" by (simp add: upt_conv_Cons)
  then show ?case using Suc(1) [of "Suc i"] Suc(2,3,4) lt by auto
qed simp

lemma gz_loop_past: "cursor \<ge> n \<Longrightarrow> gz_loop dec crc d (filter P [i..<n]) cursor res = Returned res"
proof -
  assume a: "cursor \<ge> n"
  have "list_all (\<lambda>s. s < cursor) ss \<Longrightarrow> gz_loop dec crc d ss cursor res = Returned res" for ss
    by (induction ss) auto
  then show ?thesis using a by (auto simp: list_all_iff)
qed

lemma gz_head_magic: "gz_head_bytes h ! 0 = 0x1F" "gz_head_bytes h ! 1 = 0x8B" "gz_head_bytes h ! 2 = 0x08"
  "10 \<le> length (gz_head_bytes h)" "gz_head_bytes h \<noteq> []"
  by (simp_all add: gz_head_bytes_def gz_fixed_def)

lemma gz_member_header:
  assumes d: "d = pre @ gz_member crc (h, packed, plain) @ rest" and ok: "gz_head_ok h"
  shows "gz_header_len d (length pre) = Some (length (gz_head_bytes h))" "magic_at d (length pre)"
    "drop (length pre + length (gz_head_bytes h)) d
      = packed @ u32_bytes (crc plain) @ u32_bytes (of_nat (length plain)) @ rest"
    "read_trailer d (length pre + length (gz_head_bytes h) + length packed) = Some (crc plain, of_nat (length plain))"
proof -
  let ?tr = "u32_bytes (crc plain) @ u32_bytes (of_nat (length plain))"
  have d': "d = pre @ gz_head_bytes h @ packed @ ?tr @ rest" using d by (simp add: gz_member_def)
  show "gz_header_len d (length pre) = Some (length (gz_head_bytes h))"
    using gz_header_len_head [OF ok, of pre "packed @ ?tr @ rest"] d' by simp
  show "magic_at d (length pre)"
    using d' gz_head_magic [of h] by (simp add: magic_at_def nth_append)
  show "drop (length pre + length (gz_head_bytes h)) d
      = packed @ u32_bytes (crc plain) @ u32_bytes (of_nat (length plain)) @ rest" using d' by simp
  have "u32_at d (length (pre @ gz_head_bytes h @ packed) + k) = u32_at (?tr @ rest) k" for k
    using word_at_append(2) [of "pre @ gz_head_bytes h @ packed" "?tr @ rest" k] d' by simp
  moreover have "u32_at (?tr @ rest) 0 = crc plain" "u32_at (?tr @ rest) 4 = of_nat (length plain)"
    by (simp_all add: u32_at_def cut_append_right cut_append_left cut_0 u32_of_bytes)
  moreover have "length (pre @ gz_head_bytes h @ packed) + 8 \<le> length d" using d' by simp
  ultimately show "read_trailer d (length pre + length (gz_head_bytes h) + length packed)
      = Some (crc plain, of_nat (length plain))"
    unfolding read_trailer_def by (metis (no_types, lifting) add.assoc add.right_neutral length_append)
qed

lemma length_gz_member: "length (gz_member crc (h, packed, plain)) = length (gz_head_bytes h) + length packed + 8"
  by (simp add: gz_member_def)

lemma gz_member_18: "18 \<le> length (gz_member crc m)"
  using gz_head_magic(4) [of "fst m"] by (cases m) (simp add: length_gz_member)

text \<open>The segment an intact member becomes.\<close>

definition gz_segment :: "(bytes \<Rightarrow> u32) \<Rightarrow> SalvageResult \<Rightarrow> nat \<Rightarrow> gz_head \<times> bytes \<times> bytes \<Rightarrow> Segment" where
  "gz_segment crc res start m =
     \<lparr> seg_kind = VerifiedGzipMember, seg_name = Some (gz_label (members_total res + 1)),
       source_offset = start, source_end = start + length (gz_member crc m), seg_bytes = snd (snd m),
       seg_note = Msg ''CRC32+ISIZE verified ({n} B)'' [N (length (snd (snd m)))] \<rparr>"

lemma gz_segment_simps [simp]:
  "seg_verified (gz_segment crc res start m)" "seg_bytes (gz_segment crc res start m) = snd (snd m)"
  "sr_warnings (salvage_push res seg) = sr_warnings res"
  by (simp_all add: gz_segment_def seg_verified_def is_verified_def salvage_push_def)

text \<open>A member with a well-formed header and a body the decoder reads.\<close>

definition gz_intact :: "inflater \<Rightarrow> gz_head \<times> bytes \<times> bytes \<Rightarrow> bool" where
  "gz_intact dec m \<longleftrightarrow> gz_head_ok (fst m) \<and> decodes dec (snd m)"

lemma gz_member_step_intact:
  assumes d: "d = pre @ gz_member crc m @ rest" and dec: "gz_intact dec m"
  shows "gz_member_step dec crc d (length pre) nxt res
    = Returned (length pre + length (gz_member crc m),
        salvage_push (res\<lparr> members_total := members_total res + 1 \<rparr>) (gz_segment crc res (length pre) m))"
proof -
  obtain h packed plain where m: "m = (h, packed, plain)" by (cases m)
  have ok: "gz_head_ok h" "decodes dec (packed, plain)" using dec m by (simp_all add: gz_intact_def)
  note hd = gz_member_header [OF d [unfolded m] ok(1)]
  have "inflate_member dec (drop (length pre + length (gz_head_bytes h)) d)
      = \<lparr> io_plain = plain, io_consumed = length packed, io_ok = True \<rparr>"
    using ok(2) unfolding hd(3) decodes_def by simp
  moreover have "length pre + length (gz_head_bytes h) + length packed + 8 \<le> length d"
    using d m by (simp add: length_gz_member)
  ultimately show ?thesis
    using hd(1,4) m
    by (simp add: gz_member_step_def Let_def gz_segment_def length_gz_member min_def add.assoc add.left_commute)
qed

lemma no_magic_inside:
  assumes "member_starts j = []" "k + 2 < length j"
  shows "\<not> magic_at (pre @ j @ s) (length pre + k)"
proof -
  have "\<not> magic_at j k" using assms by (auto simp: member_starts_def filter_empty_conv split: if_splits)
  then show ?thesis using assms(2) by (simp add: magic_at_def nth_append add.assoc)
qed

lemma no_magic_before_member:
  assumes "member_starts j = []" "k < length j"
  shows "\<not> magic_at (pre @ j @ gz_member crc m @ s) (length pre + k)"
proof (cases "k + 2 < length j")
  case True
  then show ?thesis using no_magic_inside assms by blast
next
  case False
  have at: "(pre @ j @ gz_member crc m @ s) ! (length pre + length j) = 0x1F"
    using gz_head_magic [of "fst m"] by (cases m) (simp add: gz_member_def nth_append)
  have "k + 2 = length j \<or> k + 1 = length j" using False assms(2) by linarith
  then show ?thesis
  proof
    assume "k + 2 = length j"
    then have "length pre + length j = length pre + k + 2" by simp
    with at show ?thesis by (simp add: magic_at_def)
  next
    assume "k + 1 = length j"
    then have "length pre + length j = length pre + k + 1" by simp
    with at show ?thesis by (simp add: magic_at_def)
  qed
qed

lemma filter_upt_skip:
  assumes "a \<le> b" "b \<le> n" "\<And>k. a \<le> k \<Longrightarrow> k < b \<Longrightarrow> \<not> P k"
  shows "filter P [a..<n] = filter P [b..<n]"
proof -
  have "[a..<n] = [a..<b] @ [b..<n]" using assms(1,2) by (metis le_Suc_ex upt_add_eq_append)
  then show ?thesis using assms(3) by (simp add: filter_empty_conv)
qed

text \<open>Members, each with the unreadable bytes in front of it.\<close>

definition gz_stream :: "(bytes \<Rightarrow> u32) \<Rightarrow> (bytes \<times> gz_head \<times> bytes \<times> bytes) list \<Rightarrow> bytes \<Rightarrow> bytes" where
  "gz_stream crc ps tail = concat (map (\<lambda>p. fst p @ gz_member crc (snd p)) ps) @ tail"

lemma gz_stream_simps [simp]:
  "gz_stream crc [] tail = tail"
  "gz_stream crc ((j, m) # ps) tail = j @ gz_member crc m @ gz_stream crc ps tail"
  by (simp_all add: gz_stream_def)

lemma gz_loop_stream:
  assumes "d = pre @ gz_stream crc ps tail" "i \<le> length pre" "member_starts tail = []"
    "\<And>j m. (j, m) \<in> set ps \<Longrightarrow> member_starts j = [] \<and> gz_intact dec m"
  shows "\<exists>res'. gz_loop dec crc d (filter (magic_at d) [i..<length d - 2]) (length pre) res = Returned res'
    \<and> map seg_bytes (segments res') = map seg_bytes (segments res) @ map (snd \<circ> snd \<circ> snd) ps
    \<and> (list_all seg_verified (segments res) \<longrightarrow> list_all seg_verified (segments res'))
    \<and> members_total res' = members_total res + length ps \<and> sr_warnings res' = sr_warnings res"
  using assms
proof (induction ps arbitrary: pre i res)
  case Nil
  have "gz_loop dec crc d (filter (magic_at d) [i..<length d - 2]) (length pre) res = Returned res"
  proof (cases "length pre \<le> length d - 2")
    case True
    have "\<not> magic_at d k" if "length pre \<le> k" "k < length d - 2" for k
      using no_magic_inside [OF Nil(3), of "k - length pre" pre "[]"] that Nil(1) by simp
    then have "filter (magic_at d) [length pre..<length d - 2] = []"
      by (simp add: filter_empty_conv)
    then show ?thesis using gz_loop_skip [OF Nil(2) True] by simp
  qed (simp add: gz_loop_past)
  then show ?case by simp
next
  case (Cons p ps)
  obtain j m where p: "p = (j, m)" by (cases p)
  have j: "member_starts j = []" and m: "gz_intact dec m" using Cons.prems(4) [of j m] p by simp_all
  define q where "q = length pre + length j"
  have d: "d = pre @ j @ gz_member crc m @ gz_stream crc ps tail" using Cons.prems(1) p by simp
  have d': "d = (pre @ j) @ gz_member crc m @ gz_stream crc ps tail" using d by simp
  have q: "q < length d - 2" using d gz_member_18 [of crc m] by (simp add: q_def)
  have gap: "\<not> magic_at d k" if "length pre \<le> k" "k < q" for k
    using no_magic_before_member [OF j, of "k - length pre" pre crc m "gz_stream crc ps tail"] that d
    by (simp add: q_def)
  have "filter (magic_at d) [length pre..<length d - 2] = filter (magic_at d) [q..<length d - 2]"
    using q gap by (intro filter_upt_skip) (simp_all add: q_def)
  also have "[q..<length d - 2] = q # [Suc q..<length d - 2]" using q by (rule upt_conv_Cons)
  finally have starts: "filter (magic_at d) [length pre..<length d - 2]
      = q # filter (magic_at d) [Suc q..<length d - 2]"
    using gz_member_header(2) [of d "pre @ j" crc "fst m" "fst (snd m)" "snd (snd m)"] d' m
    by (simp add: q_def gz_intact_def)
  let ?res = "salvage_push (res\<lparr> members_total := members_total res + 1 \<rparr>) (gz_segment crc res q m)"
  let ?pre = "pre @ j @ gz_member crc m"
  have "gz_loop dec crc d (filter (magic_at d) [i..<length d - 2]) (length pre) res
      = gz_loop dec crc d (filter (magic_at d) [length pre..<length d - 2]) (length pre) res"
    using q Cons.prems(2) by (intro gz_loop_skip) (simp_all add: q_def)
  also have "\<dots> = gz_loop dec crc d (filter (magic_at d) [Suc q..<length d - 2]) (length ?pre) ?res"
    using gz_member_step_intact [OF d' m] by (simp add: starts q_def add.assoc)
  finally have step: "gz_loop dec crc d (filter (magic_at d) [i..<length d - 2]) (length pre) res
      = gz_loop dec crc d (filter (magic_at d) [Suc q..<length d - 2]) (length ?pre) ?res" .
  have "\<exists>res'. gz_loop dec crc d (filter (magic_at d) [Suc q..<length d - 2]) (length ?pre) ?res = Returned res'
    \<and> map seg_bytes (segments res') = map seg_bytes (segments ?res) @ map (snd \<circ> snd \<circ> snd) ps
    \<and> (list_all seg_verified (segments ?res) \<longrightarrow> list_all seg_verified (segments res'))
    \<and> members_total res' = members_total ?res + length ps \<and> sr_warnings res' = sr_warnings ?res"
    using Cons.prems d gz_member_18 [of crc m] by (intro Cons.IH) (auto simp: q_def)
  then show ?case
    unfolding step by (auto simp: p)
qed

text \<open>A single member at the start of the file.\<close>

lemma salvage_gzip_single:
  assumes "gz_intact dec m"
  shows "\<exists>res. salvage_gzip dec crc (gz_member crc m) = Returned res
    \<and> verified_payload res = snd (snd m) \<and> members_verified res = 1 \<and> map seg_bytes (segments res) = [snd (snd m)]"
proof -
  define d where "d = gz_member crc m"
  have "member_starts ([] :: bytes) = []" by (simp add: member_starts_def)
  then obtain r where r: "gz_loop dec crc d (filter (magic_at d) [0..<length d - 2]) 0
        (salvage_new ''gzip'') = Returned r" "map seg_bytes (segments r) = [snd (snd m)]"
      "list_all seg_verified (segments r)" "members_total r = 1"
    using gz_loop_stream [of d "[]" crc "[([], m)]" "[]" 0 dec "salvage_new ''gzip''"] assms
    by (auto simp: d_def [symmetric])
  have starts: "member_starts d = filter (magic_at d) [0..<length d - 2]"
    unfolding member_starts_def by (rule if_not_P) (use gz_member_18 [of crc m] in \<open>simp add: d_def\<close>)
  have "member_starts d \<noteq> []" using r(1,4) unfolding starts by auto
  moreover have "filter seg_verified (segments r) = segments r"
    using r(3) by (simp add: list_all_iff filter_id_conv)
  moreover have "tallies_ok r" using gz_loop_ok [OF r(1)] by (simp add: gz_result_ok_def)
  moreover have "length (segments r) = 1" using arg_cong [OF r(2), of length] by simp
  ultimately have "members_verified r = 1" "verified_payload r = snd (snd m)"
    "salvage_gzip dec crc d = Returned r"
    using r(1,2) starts
    by (simp_all add: tallies_ok_def verified_payload_def salvage_gzip_def Let_def)
  with r(2) show ?thesis by (simp add: d_def)
qed

lemma prefix_intact: "gz_intact prefix_inflater (plain_head, [1, 9], [9])"
  by (simp add: gz_intact_def gz_head_ok_def plain_head_def decodes_def prefix_inflater_def inflate_member_def
      MAX_MEMBER_BYTES_def)

theorem salvage_gzip_sound_witness:
  "\<exists>res. salvage_gzip prefix_inflater (\<lambda>_. 7) (gz_member (\<lambda>_. 7) (plain_head, [1, 9], [9])) = Returned res
    \<and> map seg_bytes (segments res) = [[9]]
    \<and> list_all (\<lambda>s. seg_verified s \<longrightarrow>
        gz_proven prefix_inflater (\<lambda>_. 7) (gz_member (\<lambda>_. 7) (plain_head, [1, 9], [9])) s) (segments res)"
proof -
  have "gz_intact prefix_inflater (plain_head, [1, 9], [9])" by (rule prefix_intact)
  then obtain res where res:
      "salvage_gzip prefix_inflater (\<lambda>_. 7) (gz_member (\<lambda>_. 7) (plain_head, [1, 9], [9])) = Returned res"
      "map seg_bytes (segments res) = [[9]]"
    using salvage_gzip_single [of prefix_inflater "(plain_head, [1, 9], [9])" "\<lambda>_. 7"] by auto
  show ?thesis
    by (intro exI [of _ res] conjI res conjunct1 [OF salvage_gzip_sound [OF res(1)]])
qed

text \<open>
  C26. Multi-member recovery: in a stream of members separated (and preceded, and followed) by
  arbitrary bytes that contain no member magic, every member is recovered with its exact
  plaintext, in order, whatever damage lies between them. A member has any header RFC 1952
  allows (time, flags, system, extra field, file name, comment, header checksum, a member
  magic among them or not) and a body the decoder reads. The verified payload is the
  concatenation of the members' plaintexts, every member is counted and verified, nothing
  is reported as best-effort, and there is no warning.
\<close>

theorem salvage_gzip_recovers:
  assumes members: "\<forall>p \<in> set ps. member_starts (fst p) = [] \<and> gz_intact dec (snd p)"
    and tail: "member_starts tail = []" and some: "ps \<noteq> []"
  shows "\<exists>res. salvage_gzip dec crc (gz_stream crc ps tail) = Returned res
    \<and> verified_payload res = concat (map (snd \<circ> snd \<circ> snd) ps)
    \<and> members_total res = length ps \<and> members_verified res = length ps
    \<and> unverified_bytes res = 0 \<and> sr_warnings res = []"
proof -
  let ?d = "gz_stream crc ps tail"
  obtain res where loop: "gz_loop dec crc ?d (filter (magic_at ?d) [0..<length ?d - 2]) 0 (salvage_new ''gzip'')
      = Returned res"
    and seg: "map seg_bytes (segments res) = map (snd \<circ> snd \<circ> snd) ps" "list_all seg_verified (segments res)"
      "members_total res = length ps" "sr_warnings res = []"
    using gz_loop_stream [of ?d "[]" crc ps tail 0 dec "salvage_new ''gzip''"] members tail
    by (fastforce simp: salvage_new_def)
  have len: "18 \<le> length ?d"
  proof (cases ps)
    case (Cons p qs)
    then show ?thesis using gz_member_18 [of crc "snd p"] by (cases p) simp
  qed (use some in simp)
  then have starts: "member_starts ?d = filter (magic_at ?d) [0..<length ?d - 2]"
    by (simp add: member_starts_def)
  have nonempty: "member_starts ?d \<noteq> []"
  proof
    assume "member_starts ?d = []"
    with loop starts have "res = salvage_new ''gzip''" by simp
    with seg(3) some show False by simp
  qed
  have all: "filter seg_verified (segments res) = segments res"
    "filter (\<lambda>s. \<not> seg_verified s) (segments res) = []"
    using seg(2) by (simp_all add: list_all_iff filter_id_conv filter_empty_conv)
  have "gz_result_ok dec crc ?d res"
    using gz_loop_ok [OF loop] by simp
  then have "tallies_ok res" by (simp add: gz_result_ok_def)
  then have counts: "members_verified res = length ps" "unverified_bytes res = 0"
    using all arg_cong [OF seg(1), of length] by (simp_all add: tallies_ok_def)
  have "salvage_gzip dec crc ?d = Returned res"
    using nonempty loop starts counts some by (simp add: salvage_gzip_def Let_def)
  then show ?thesis using counts seg all by (simp add: verified_payload_def)
qed

text \<open>A named member whose name holds a member magic, behind junk; then one with every optional field.\<close>

definition full_head :: gz_head where
  "full_head = \<lparr> gh_time = 1, gh_xfl = 2, gh_os = 3, gh_text = True, gh_extra = Some [0x41, 0, 0, 0],
     gh_name = Some [0x62], gh_comment = Some [], gh_crc = Some 0x1234 \<rparr>"

theorem salvage_gzip_recovers_witness:
  "\<exists>res. salvage_gzip prefix_inflater (\<lambda>_. 7)
      (gz_stream (\<lambda>_. 7) [([0xAA], named_head 1700000000 [0x1F, 0x8B, 0x08], [2, 5, 6], [5, 6]),
         ([0x1F, 0x8B], full_head, [1, 9], [9])] [1]) = Returned res
    \<and> verified_payload res = [5, 6, 9]"
proof -
  have "decodes prefix_inflater ([2, 5, 6], [5, 6])" "decodes prefix_inflater ([1, 9], [9])"
    by (simp_all add: decodes_def prefix_inflater_def inflate_member_def MAX_MEMBER_BYTES_def)
  then have "gz_intact prefix_inflater (named_head 1700000000 [0x1F, 0x8B, 0x08], [2, 5, 6], [5, 6])"
    "gz_intact prefix_inflater (full_head, [1, 9], [9])"
    by (simp_all add: gz_intact_def gz_head_ok_def named_head_def plain_head_def full_head_def)
  moreover have "member_starts [0xAA] = []" "member_starts [0x1F, 0x8B] = []" "member_starts [1] = []"
    by (simp_all add: member_starts_def)
  ultimately show ?thesis
    using salvage_gzip_recovers [of "[([0xAA], named_head 1700000000 [0x1F, 0x8B, 0x08], [2, 5, 6], [5, 6]),
          ([0x1F, 0x8B], full_head, [1, 9], [9])]" prefix_inflater "[1]" "\<lambda>_. 7"] by auto
qed

section \<open>Kept members\<close>

text \<open>A position where a member can be proven: a header, a body that inflates, a trailer that matches.\<close>

definition provable_at :: "inflater \<Rightarrow> (bytes \<Rightarrow> u32) \<Rightarrow> bytes \<Rightarrow> nat \<Rightarrow> bool" where
  "provable_at dec crc d p \<longleftrightarrow>
     (case gz_header_len d p of
        None \<Rightarrow> False
      | Some hlen \<Rightarrow>
          (let r = inflate_member dec (drop (p + hlen) d) in
           io_ok r \<and> read_trailer d (p + hlen + io_consumed r) = Some (crc (io_plain r), of_nat (length (io_plain r)))))"

abbreviation kept_members :: "SalvageResult \<Rightarrow> Segment list" where
  "kept_members res \<equiv> filter seg_verified (segments res)"

definition spans :: "Segment \<Rightarrow> nat \<Rightarrow> bool" where
  "spans m p \<longleftrightarrow> source_offset m \<le> p \<and> p < source_end m"

lemma kept_push [simp]:
  "kept_members (salvage_push res s) = kept_members res @ (if seg_verified s then [s] else [])"
  "kept_members (salvage_warn res w) = kept_members res"
  "kept_members (res\<lparr> members_total := n \<rparr>) = kept_members res"
  by (simp_all add: salvage_push_def salvage_warn_def)

lemma kept_unverified [simp]: "kept_members (salvage_unverified res start bst partial body) = kept_members res"
proof -
  have "(\<And>b. \<not> seg_verified (f b)) \<Longrightarrow>
      kept_members (foldl (\<lambda>res b. salvage_push res (f b)) r bs) = kept_members r" for f :: "StoredBlock \<Rightarrow> Segment" and r bs
    by (induction bs arbitrary: r) simp_all
  then show ?thesis by (simp add: salvage_unverified_def Let_def seg_verified_def is_verified_def)
qed

lemma gz_member_step_kept:
  assumes "gz_member_step dec crc d start nxt res = Returned (c, res')"
  shows "if provable_at dec crc d start
    then \<exists>m. kept_members res' = kept_members res @ [m] \<and> source_offset m = start \<and> source_end m = c \<and> start < c
    else c = nxt \<and> kept_members res' = kept_members res"
proof (cases "gz_header_len d start")
  case None
  then show ?thesis using assms by (auto simp: gz_member_step_def provable_at_def Let_def)
next
  case (Some hlen)
  let ?r = "inflate_member dec (drop (start + hlen) d)"
  let ?t = "read_trailer d (start + hlen + io_consumed ?r)"
  consider "\<not> io_ok ?r" | "io_ok ?r" "?t = None"
    | c i where "io_ok ?r" "?t = Some (c, i)" "\<not> (crc (io_plain ?r) = c \<and> of_nat (length (io_plain ?r)) = i)"
    | "io_ok ?r" "?t = Some (crc (io_plain ?r), of_nat (length (io_plain ?r)))"
    by (cases ?t) auto
  then show ?thesis
  proof cases
    case 4
    then have "start + hlen + io_consumed ?r + 8 \<le> length d" by (auto simp: read_trailer_def split: if_splits)
    then show ?thesis using assms Some 4
      by (auto simp: gz_member_step_def provable_at_def Let_def seg_verified_def is_verified_def min_def)
  qed (use assms Some in \<open>auto simp: gz_member_step_def provable_at_def Let_def\<close>)
qed

lemma gz_loop_kept:
  assumes "gz_loop dec crc d starts cursor res = Returned res'" "sorted_wrt (<) starts"
  shows "\<exists>ms. kept_members res' = kept_members res @ ms
    \<and> sorted_wrt (\<lambda>a b. source_end a \<le> source_offset b) ms
    \<and> (\<forall>m \<in> set ms. source_offset m \<in> set starts \<and> cursor \<le> source_offset m)
    \<and> (\<forall>p \<in> set starts. cursor \<le> p \<and> provable_at dec crc d p \<longrightarrow> (\<exists>m \<in> set ms. spans m p))"
  using assms
proof (induction starts arbitrary: cursor res)
  case (Cons start rest)
  have later: "start < p" if "p \<in> set rest" for p using Cons.prems(2) that by simp
  show ?case
  proof (cases "start < cursor")
    case True
    then have "gz_loop dec crc d rest cursor res = Returned res'" using Cons.prems(1) by simp
    from Cons.IH [OF this] Cons.prems(2) True show ?thesis by auto
  next
    case False
    let ?nxt = "case rest of [] \<Rightarrow> length d | s # _ \<Rightarrow> s"
    obtain c res1 where step: "gz_member_step dec crc d start ?nxt res = Returned (c, res1)"
      and go: "gz_loop dec crc d rest c res1 = Returned res'"
      using Cons.prems(1) False by auto
    note kept = gz_member_step_kept [OF step]
    from Cons.IH [OF go] Cons.prems(2) obtain ms where ms: "kept_members res' = kept_members res1 @ ms"
      "sorted_wrt (\<lambda>a b. source_end a \<le> source_offset b) ms"
      "\<forall>m \<in> set ms. source_offset m \<in> set rest \<and> c \<le> source_offset m"
      "\<forall>p \<in> set rest. c \<le> p \<and> provable_at dec crc d p \<longrightarrow> (\<exists>m \<in> set ms. spans m p)"
      by auto
    show ?thesis
    proof (cases "provable_at dec crc d start")
      case True
      then obtain m where m: "kept_members res1 = kept_members res @ [m]" "source_offset m = start"
        "source_end m = c" "start < c" using kept by auto
      have "\<exists>x \<in> set (m # ms). spans x p"
        if "p \<in> set (start # rest)" "provable_at dec crc d p" for p
      proof (cases "p < c")
        case True
        have "start \<le> p" using that(1) later [of p] by auto
        then show ?thesis using True m by (simp add: spans_def)
      next
        case False
        then have "p \<in> set rest" "c \<le> p" using that(1) m(4) by auto
        then show ?thesis using ms(4) that(2) by auto
      qed
      then show ?thesis using ms m False later
        by (intro exI [of _ "m # ms"]) auto
    next
      case unproven: False
      then have k: "c = ?nxt" "kept_members res1 = kept_members res" using kept by auto
      have "c \<le> p" if "p \<in> set rest" for p using Cons.prems(2) that k(1) by (cases rest) auto
      moreover have "cursor \<le> source_offset m" if "m \<in> set ms" for m
        using ms(3) that later False by fastforce
      ultimately show ?thesis using ms k unproven by (intro exI [of _ ms]) auto
    qed
  qed
qed simp

lemma member_starts_sorted: "sorted_wrt (<) (member_starts d)"
  by (simp add: member_starts_def sorted_wrt_filter)

text \<open>The kept members are the provable ones that no earlier kept member spans, each once, in file order.\<close>

lemma salvage_gzip_kept:
  assumes "salvage_gzip dec crc d = Returned res"
  shows "sorted_wrt (\<lambda>a b. source_end a \<le> source_offset b) (kept_members res)"
    "list_all (\<lambda>m. source_offset m \<in> set (member_starts d)) (kept_members res)"
    "list_all (\<lambda>p. provable_at dec crc d p \<longrightarrow> list_ex (\<lambda>m. spans m p) (kept_members res)) (member_starts d)"
proof -
  have "sorted_wrt (\<lambda>a b. source_end a \<le> source_offset b) (kept_members res)
    \<and> (\<forall>m \<in> set (kept_members res). source_offset m \<in> set (member_starts d))
    \<and> (\<forall>p \<in> set (member_starts d). provable_at dec crc d p \<longrightarrow> (\<exists>m \<in> set (kept_members res). spans m p))"
  proof (cases "member_starts d = []")
    case True
    then show ?thesis using assms by (auto simp: salvage_gzip_def salvage_new_def salvage_warn_def)
  next
    case False
    then obtain r where loop: "gz_loop dec crc d (member_starts d) 0 (salvage_new ''gzip'') = Returned r"
      and same: "kept_members res = kept_members r"
      using assms by (auto simp: salvage_gzip_def Let_def split: if_splits)
    have "kept_members (salvage_new ''gzip'') = []" by (simp add: salvage_new_def)
    then show ?thesis using gz_loop_kept [OF loop member_starts_sorted] unfolding same by auto
  qed
  then show "sorted_wrt (\<lambda>a b. source_end a \<le> source_offset b) (kept_members res)"
    "list_all (\<lambda>m. source_offset m \<in> set (member_starts d)) (kept_members res)"
    "list_all (\<lambda>p. provable_at dec crc d p \<longrightarrow> list_ex (\<lambda>m. spans m p) (kept_members res)) (member_starts d)"
    by (auto simp: list_all_iff list_ex_iff)
qed

section \<open>A magic inside a header\<close>

text \<open>
  A member whose optional header fields (here the file name) contain another member magic
  makes the salvager panic, whatever the decoder does: the header reaches past the next
  magic, so the slice from the end of the header to that magic has its bounds reversed.
\<close>

theorem salvage_gzip_panics:
  "salvage_gzip dec crc [0x1F, 0x8B, 0x08, 0x08, 0, 0, 0, 0, 0, 0, 0x1F, 0x8B, 0x08, 0] = Panicked"
    (is "salvage_gzip dec crc ?d = Panicked")
proof -
  have starts: "member_starts ?d = [0, 10]"
    by code_simp
  have header: "gz_header_len ?d 0 = Some 14"
    by code_simp
  have slice: "index_range ?d 14 10 = Panicked" by (simp add: index_range_def)
  have trailer: "read_trailer ?d (14 + n) = None" for n by (simp add: read_trailer_def)
  have "gz_member_step dec crc ?d 0 10 res = Panicked" for res
    unfolding gz_member_step_def Let_def header option.case add_0 trailer slice
    by simp
  then have "gz_loop dec crc ?d [0, 10] 0 res = Panicked" for res by (simp del: One_nat_def)
  then show ?thesis unfolding salvage_gzip_def Let_def starts by simp
qed

end
