(* ===== verification/Gz_Strategies.thy ===== *)
theory Gz_Strategies
  imports Strategy_Base Resync_Gzip
begin

unbundle bit_operations_syntax

text \<open>
  The GZIP strategies (\<open>strategies/gz_restore.rs\<close>, \<open>strategies/gz_member_salvage.rs\<close>). The DEFLATE
  decoder, the GZIP encoder and the CRC of the third-party library are parameters.
  Shown: the trailer strategy gives back a file whose trailer was damaged, byte for byte, and
  refuses a stream that does not reach its end; the member salvage re-emits exactly the
  plaintext of the members that can be proven, in order and none left out; all four meet the strategies' contract.
\<close>

section \<open>Magic bytes\<close>

definition gz_magic_restore_run :: "DataSource \<Rightarrow> DataSink \<Rightarrow> bytes \<Rightarrow> apply_result" where
  "gz_magic_restore_run src output d =
     (let report = strategy_report ''gz-magic-restore'' in
      if length d < 2
      then applied_ok (report_warn (Msg ''file too short to contain GZIP magic'' [])
             (report\<lparr> success := False \<rparr>)) output
      else
        (let d1 = (d[0 := 0x1F])[1 := 0x8B]; total = length d1 in
         applied_ok (report_warn (Msg ''restored GZIP magic bytes 1F 8B at offset 0'' [])
           (report\<lparr> bytes_recovered := total, success := True \<rparr>)) (sink_write output d1)))"

definition GzMagicRestore :: RecoveryStrategy where
  "GzMagicRestore =
     \<lparr> s_name = ''gz-magic-restore'', s_technique = ''GzMagicRestore'', s_risk = Safe,
       s_handles = (\<lambda>c. rule_id c = ''GZ_MAGIC_001''),
       s_predicted_outcome = (\<lambda>c. Msg ''overwrite bytes 0-1 with the GZIP magic 1F 8B'' []),
       s_can_apply = (\<lambda>r. archive_format r = Some Gzip
         \<and> any_corruption (\<lambda>c. rule_id c = ''GZ_MAGIC_001'') r),
       s_priority = 85,
       s_apply = (\<lambda>src output. with_data src (gz_magic_restore_run src output)) \<rparr>"

section \<open>The body of a stream\<close>

text \<open>\<open>while pos < data.len() && data[pos] != 0 { pos += 1; } pos += 1;\<close>.\<close>

function skip_field :: "bytes \<Rightarrow> nat \<Rightarrow> nat" where
  "skip_field d pos = (if pos < length d \<and> d ! pos \<noteq> 0 then skip_field d (pos + 1) else pos + 1)"
  by pat_completeness auto
termination by (relation "measure (\<lambda>(d, pos). length d - pos)") auto

declare skip_field.simps [simp del]

definition gz_body_start :: "bytes \<Rightarrow> nat" where
  "gz_body_start d =
     (if length d < 10 then length d
      else
        (let flags = d ! 3; pos = 10 in
         if flags AND 0x04 \<noteq> 0 \<and> length d < pos + 2 then length d
         else
           (let pos = (if flags AND 0x04 \<noteq> 0 then pos + 2 + unat (u16_at d pos) else pos);
                pos = (if flags AND 0x08 \<noteq> 0 then skip_field d pos else pos);
                pos = (if flags AND 0x10 \<noteq> 0 then skip_field d pos else pos);
                pos = (if flags AND 0x02 \<noteq> 0 then pos + 2 else pos)
            in min pos (length d))))"

definition deflate_body :: "bytes \<Rightarrow> bytes" where
  "deflate_body d =
     (let start = gz_body_start d in
      if length d \<le> start then []
      else (let body_end = (if start + 8 < length d then length d - 8 else length d) in
            cut d start body_end))"

text \<open>\<open>decoder.read_to_end(&mut out)\<close>: the bytes delivered and the error, if any.\<close>

definition read_to_end :: "inflater \<Rightarrow> bytes \<Rightarrow> bytes \<times> string option" where
  "read_to_end dec body = (concat (inf_chunks dec body), inf_error dec body)"

section \<open>Trailer\<close>

definition gz_trailer_recompute_run ::
  "inflater \<Rightarrow> (bytes \<Rightarrow> u32) \<Rightarrow> DataSource \<Rightarrow> DataSink \<Rightarrow> bytes \<Rightarrow> apply_result" where
  "gz_trailer_recompute_run dec crc src output d =
     (let report = strategy_report ''gz-trailer-recompute'' in
      if length d < 18
      then applied_ok (report_warn (Msg ''file too short for GZIP'' []) (report\<lparr> success := False \<rparr>)) output
      else
        (let body_start = gz_body_start d; trailer_start = length d - 8 in
         if trailer_start \<le> body_start
         then applied_ok (report_warn (Msg ''GZIP body is empty or missing'' [])
                (report\<lparr> success := False \<rparr>)) output
         else
           (case read_to_end dec (cut d body_start trailer_start) of (decompressed, res) \<Rightarrow>
             (case res of
                Some e \<Rightarrow>
                  applied_ok (report_warn
                    (Msg ''stream does not reach end-of-stream ({} B decoded): {e}; refusing to rewrite the trailer of an incomplete stream''
                      [N (length decompressed), S e]) (report\<lparr> success := False \<rparr>)) output
              | None \<Rightarrow>
                  (let crc32 = crc decompressed; isize_val = of_nat (length decompressed) :: u32 in
                   applied_ok (report_warn
                     (Msg ''recomputed GZIP trailer: CRC32=0x{crc32:08X} ISIZE={isize_val}''
                       [N (unat crc32), N (unat isize_val)])
                     (report\<lparr> bytes_recovered := length d, success := True \<rparr>))
                     (sink_write (sink_write (sink_write output (take trailer_start d))
                       (u32_bytes crc32)) (u32_bytes isize_val)))))))"

definition trailer_rule :: "Corruption \<Rightarrow> bool" where
  "trailer_rule c \<longleftrightarrow> rule_id c = ''GZ_ICRC_001'' \<or> rule_id c = ''GZ_ISIZE_001''"

definition GzTrailerRecompute :: "inflater \<Rightarrow> (bytes \<Rightarrow> u32) \<Rightarrow> RecoveryStrategy" where
  "GzTrailerRecompute dec crc =
     \<lparr> s_name = ''gz-trailer-recompute'', s_technique = ''GzTrailerRecompute'', s_risk = Inferred,
       s_handles = trailer_rule,
       s_predicted_outcome =
         (\<lambda>c. Msg ''decompress the stream, recompute CRC32 and ISIZE, rewrite the 8-byte trailer'' []),
       s_can_apply = (\<lambda>r. archive_format r = Some Gzip \<and> any_corruption trailer_rule r),
       s_priority = 82,
       s_apply = (\<lambda>src output. with_data src (gz_trailer_recompute_run dec crc src output)) \<rparr>"

section \<open>Partial inflate\<close>

definition gz_partial_inflate_run ::
  "inflater \<Rightarrow> (bytes \<Rightarrow> string + bytes) \<Rightarrow> DataSource \<Rightarrow> DataSink \<Rightarrow> bytes \<Rightarrow> apply_result" where
  "gz_partial_inflate_run dec enc src output d =
     (let total = length d; report = strategy_report ''gz-partial-inflate'' in
      case read_to_end dec (deflate_body d) of (decompressed, decomp_result) \<Rightarrow>
        (let recovered_content = length decompressed in
         if recovered_content = 0
         then applied_ok (report_warn
                (Msg ''no bytes could be decompressed; stream may be fully corrupted'' [])
                (report\<lparr> success := False \<rparr>)) output
         else
           (case enc decompressed of
              Inl e \<Rightarrow> Returned (Inl (StrategyError ''gz-partial-inflate'' e))
            | Inr gz_out \<Rightarrow>
                applied_ok (report_warn
                  (if decomp_result \<noteq> None
                   then Msg ''partial inflate; {recovered_content} bytes recovered, tail lost at corruption boundary''
                     [N recovered_content]
                   else Msg ''partial inflate; {recovered_content} bytes recovered'' [N recovered_content])
                  (report\<lparr> bytes_recovered := recovered_content,
                           bytes_lost := total - recovered_content, success := True \<rparr>))
                  (sink_write output gz_out))))"

definition truncation_rule :: "Corruption \<Rightarrow> bool" where
  "truncation_rule c \<longleftrightarrow> rule_id c = ''GZ_TRUNC_001'' \<or> rule_id c = ''GZ_TRUNC_002''"

definition GzPartialInflate :: "inflater \<Rightarrow> (bytes \<Rightarrow> string + bytes) \<Rightarrow> RecoveryStrategy" where
  "GzPartialInflate dec enc =
     \<lparr> s_name = ''gz-partial-inflate'', s_technique = ''GzPartialInflate'', s_risk = Lossy,
       s_handles = truncation_rule,
       s_predicted_outcome =
         (\<lambda>c. Msg ''decompress readable bytes and wrap in a fresh GZIP stream; tail past corruption is lost'' []),
       s_can_apply = (\<lambda>r. archive_format r = Some Gzip
         \<and> any_corruption (\<lambda>c. category c = Truncation \<or> truncation_rule c) r),
       s_priority = 40,
       s_apply = (\<lambda>src output. with_data src (gz_partial_inflate_run dec enc src output)) \<rparr>"

section \<open>Member salvage\<close>

definition gz_member_salvage_run ::
  "inflater \<Rightarrow> (bytes \<Rightarrow> u32) \<Rightarrow> (bytes \<Rightarrow> string + bytes)
    \<Rightarrow> DataSource \<Rightarrow> DataSink \<Rightarrow> bytes \<Rightarrow> apply_result" where
  "gz_member_salvage_run dec crc enc src output d =
     (let report = strategy_report ''gz-member-salvage'' in
      bind_outcome (salvage_gzip dec crc d) (\<lambda>salvage.
        if members_verified salvage = 0
        then applied_ok (report_warn
               (Msg ''no GZIP member could be CRC-verified; nothing salvaged (falling through)'' [])
               (report\<lparr> success := False \<rparr>)) output
        else
          (let content = verified_payload salvage in
           if content = [] then applied_ok (report\<lparr> success := False \<rparr>) output
           else
             (case enc content of
                Inl e \<Rightarrow> applied_ok (report_warn (Msg ''re-encoding salvaged GZIP content failed'' [])
                          (report\<lparr> success := False \<rparr>)) output
              | Inr out \<Rightarrow>
                  applied_ok (report_warn
                    (Msg ''salvaged {} CRC-verified GZIP member(s) ({} B exact content); dropped the corrupt member, re-wrapped as one clean member''
                      [N (members_verified salvage), N (length content)])
                    (report\<lparr> bytes_recovered := length content, bytes_lost := unverified_bytes salvage,
                             success := True \<rparr>))
                    (sink_write output out)))))"

definition GzMemberSalvage ::
  "inflater \<Rightarrow> (bytes \<Rightarrow> u32) \<Rightarrow> (bytes \<Rightarrow> string + bytes) \<Rightarrow> RecoveryStrategy" where
  "GzMemberSalvage dec crc enc =
     \<lparr> s_name = ''gz-member-salvage'', s_technique = ''GzMemberSalvage'', s_risk = Lossy,
       s_handles = (\<lambda>c. truncation_rule c \<or> trailer_rule c),
       s_predicted_outcome =
         (\<lambda>c. Msg ''recover every CRC32+ISIZE-verified GZIP member and re-emit them as a valid .gz; drop the corrupt member'' []),
       s_can_apply = (\<lambda>r. archive_format r = Some Gzip \<and> corruptions r \<noteq> []),
       s_priority = 84,
       s_apply = (\<lambda>src output. with_data src (gz_member_salvage_run dec crc enc src output)) \<rparr>"

section \<open>The contract\<close>

lemma gz_magic_body: "body_ok ''gz-magic-restore'' gz_magic_restore_run"
  by (rule body_okI) (auto simp: gz_magic_restore_run_def Let_def)

lemma gz_trailer_body: "body_ok ''gz-trailer-recompute'' (gz_trailer_recompute_run dec crc)"
  by (rule body_okI) (auto simp: gz_trailer_recompute_run_def Let_def split: option.split prod.split)

lemma gz_partial_body: "body_ok ''gz-partial-inflate'' (gz_partial_inflate_run dec enc)"
  by (rule body_okI) (auto simp: gz_partial_inflate_run_def Let_def split: sum.split prod.split)

lemma gz_salvage_body: "body_ok ''gz-member-salvage'' (gz_member_salvage_run dec crc enc)"
proof (rule body_okI, goal_cases)
  case (1 src sink bs)
  show ?case
    by (cases "salvage_gzip dec crc bs") (auto simp: gz_member_salvage_run_def Let_def split: sum.split)
qed

interpretation gz_magic: recovery_strategy "s_name GzMagicRestore" "s_apply GzMagicRestore"
  by (rule strategy_of_body [of _ gz_magic_restore_run]) (simp_all add: GzMagicRestore_def gz_magic_body)

interpretation gz_trailer: recovery_strategy
    "s_name (GzTrailerRecompute dec crc)" "s_apply (GzTrailerRecompute dec crc)" for dec crc
  by (rule strategy_of_body [of _ "gz_trailer_recompute_run dec crc"])
    (simp_all add: GzTrailerRecompute_def gz_trailer_body)

interpretation gz_partial: recovery_strategy
    "s_name (GzPartialInflate dec enc)" "s_apply (GzPartialInflate dec enc)" for dec enc
  by (rule strategy_of_body [of _ "gz_partial_inflate_run dec enc"])
    (simp_all add: GzPartialInflate_def gz_partial_body)

interpretation gz_salvage: recovery_strategy
    "s_name (GzMemberSalvage dec crc enc)" "s_apply (GzMemberSalvage dec crc enc)" for dec crc enc
  by (rule strategy_of_body [of _ "gz_member_salvage_run dec crc enc"])
    (simp_all add: GzMemberSalvage_def gz_salvage_body)

section \<open>Trailer repair\<close>

lemma gz_body_start_ge: "10 \<le> length d \<Longrightarrow> 10 \<le> gz_body_start d"
proof -
  have "pos \<le> skip_field d pos" for pos
    by (induction d pos rule: skip_field.induct) (subst skip_field.simps, auto)
  then have "k \<le> pos \<Longrightarrow> k \<le> skip_field d pos" for k pos using le_trans by blast
  then show "10 \<le> length d \<Longrightarrow> 10 \<le> gz_body_start d"
    by (simp add: gz_body_start_def Let_def)
qed

text \<open>
  Trailer repair is exact: a GZIP file whose eight trailer bytes were damaged in any way, and
  whose body still decodes to the original content, is staged with its original CRC-32 and
  length back in place and every other byte unchanged; a stream the decoder cannot read to
  its end is refused, with nothing staged and no success reported.
\<close>

theorem gz_trailer_recompute_exact:
  assumes d: "d = pre @ body @ junk" and junk: "length junk = 8" and body: "body \<noteq> []"
    and start: "gz_body_start d = length pre" and read: "ds_read src = Inr d"
  shows "(read_to_end dec body = (plain, None) \<longrightarrow>
      (\<exists>rep. s_apply (GzTrailerRecompute dec crc) src sink
          = Returned (Inr (rep, sink_write sink
              (pre @ body @ u32_bytes (crc plain) @ u32_bytes (of_nat (length plain)))))
        \<and> success rep \<and> bytes_recovered rep = length d))
    \<and> (read_to_end dec body = (plain, Some e) \<longrightarrow>
      (\<exists>rep. s_apply (GzTrailerRecompute dec crc) src sink = Returned (Inr (rep, sink)) \<and> \<not> success rep))"
proof -
  have "\<not> length d < 10"
    using start d body by (auto simp: gz_body_start_def)
  then have "10 \<le> length pre" using gz_body_start_ge [of d] start by simp
  moreover have "0 < length body" using body by simp
  ultimately have len: "\<not> length d < 18" "\<not> length d - 8 \<le> length pre"
    using d junk by auto
  have end_pos: "length d - 8 = length pre + length body" using d junk by simp
  have mid: "cut d (length pre) (length d - 8) = body"
    using d end_pos by (simp add: cut_def)
  have front: "take (length d - 8) d = pre @ body"
    using d end_pos by simp
  show ?thesis
    using read len mid front start
    by (auto simp: GzTrailerRecompute_def gz_trailer_recompute_run_def Let_def applied_ok_def)
qed

theorem gz_trailer_recompute_exact_witness:
  "\<exists>rep. s_apply (GzTrailerRecompute prefix_inflater (\<lambda>_. 7))
        \<lparr> ds_path = ''a.gz'', ds_len = 20,
          ds_read = Inr (gz_plain_header @ [1, 9] @ [0, 0, 0, 0, 0, 0, 0, 0]) \<rparr> sink_new
      = Returned (Inr (rep, sink_write sink_new (gz_plain_header @ [1, 9] @ [7, 0, 0, 0] @ [1, 0, 0, 0])))
    \<and> success rep"
proof -
  define d where "d = gz_plain_header @ [1, 9] @ [0, 0, 0, 0, 0, 0, 0, 0]"
  have start: "gz_body_start d = length gz_plain_header"
    by (simp add: d_def gz_body_start_def Let_def gz_plain_header_def)
  have plain: "read_to_end prefix_inflater [1, 9] = ([9], None)"
    by (simp add: read_to_end_def prefix_inflater_def)
  have trailer: "u32_bytes 7 = [7, 0, 0, 0]" "u32_bytes (of_nat (length [9 :: u8])) = [1, 0, 0, 0]"
    by code_simp+
  let ?src = "\<lparr> ds_path = ''a.gz'', ds_len = 20, ds_read = Inr d \<rparr>"
  have side: "length [0, 0, 0, 0, 0, 0, 0, 0 :: u8] = 8" "[1, 9 :: u8] \<noteq> []" "ds_read ?src = Inr d"
    by simp_all
  from mp [OF conjunct1 [OF gz_trailer_recompute_exact
      [where crc = "\<lambda>_. 7" and sink = sink_new, OF d_def side(1,2) start side(3)]] plain]
  show ?thesis unfolding trailer d_def by blast
qed

section \<open>Member salvage\<close>

text \<open>
  C27. Member salvage keeps exactly the provable members: on every input, damaged in any way, there is a list
  of members, each proven by the CRC-32 and length stored behind it, in file order and apart, each
  at a member magic, that spans every magic position where a member can be proven, so none is
  left out, repeated or moved. When their plaintexts, put together, are not empty and can be
  re-encoded, the strategy succeeds and stages exactly the re-encoding and reports that many
  bytes; otherwise it does not succeed and stages nothing.
\<close>

theorem gz_member_salvage_exact:
  assumes "ds_read src = Inr d"
    and "s_apply (GzMemberSalvage dec crc enc) src sink = Returned (Inr (rep, sink'))"
  shows "\<exists>members. list_all (gz_proven dec crc d) members
    \<and> sorted_wrt (\<lambda>a b. source_end a \<le> source_offset b) members
    \<and> list_all (\<lambda>m. source_offset m \<in> set (member_starts d)) members
    \<and> list_all (\<lambda>p. provable_at dec crc d p \<longrightarrow> list_ex (\<lambda>m. spans m p) members) (member_starts d)
    \<and> (let content = concat (map seg_bytes members) in
       case enc content of
         Inr out \<Rightarrow>
           if content \<noteq> [] then success rep \<and> sink' = sink_write sink out \<and> bytes_recovered rep = length content
           else \<not> success rep \<and> sink' = sink
       | Inl e \<Rightarrow> \<not> success rep \<and> sink' = sink)"
proof -
  have run: "gz_member_salvage_run dec crc enc src sink d = Returned (Inr (rep, sink'))"
    using assms by (simp add: GzMemberSalvage_def)
  then obtain s where s: "salvage_gzip dec crc d = Returned s"
    by (cases "salvage_gzip dec crc d") (auto simp: gz_member_salvage_run_def Let_def)
  let ?ms = "kept_members s"
  have ok: "list_all (gz_proven dec crc d) ?ms" "members_verified s = length ?ms"
    using salvage_gzip_ok [OF s] by (auto simp: gz_result_ok_def tallies_ok_def list_all_iff)
  have payload: "verified_payload s = concat (map seg_bytes ?ms)" by (simp add: verified_payload_def)
  have none: "members_verified s = 0 \<Longrightarrow> verified_payload s = []" using ok(2) payload by simp
  have "case enc (verified_payload s) of
         Inr out \<Rightarrow>
           if verified_payload s \<noteq> []
           then success rep \<and> sink' = sink_write sink out \<and> bytes_recovered rep = length (verified_payload s)
           else \<not> success rep \<and> sink' = sink
       | Inl e \<Rightarrow> \<not> success rep \<and> sink' = sink"
    using run s none by (auto simp: gz_member_salvage_run_def Let_def split: if_splits sum.splits)
  then show ?thesis
    unfolding Let_def payload using ok(1) salvage_gzip_kept [OF s] by (intro exI [of _ ?ms] conjI)
qed

theorem gz_member_salvage_exact_witness:
  "\<exists>rep sink' members. s_apply (GzMemberSalvage prefix_inflater (\<lambda>_. 7) Inr)
        \<lparr> ds_path = ''a.gz'', ds_len = 20, ds_read = Inr (gz_member (\<lambda>_. 7) (plain_head, [1, 9], [9])) \<rparr> sink_new
      = Returned (Inr (rep, sink'))
    \<and> list_all (gz_proven prefix_inflater (\<lambda>_. 7) (gz_member (\<lambda>_. 7) (plain_head, [1, 9], [9]))) members
    \<and> sorted_wrt (\<lambda>a b. source_end a \<le> source_offset b) members
    \<and> success rep \<and> concat (map seg_bytes members) = [9] \<and> buf sink' = [9]"
proof -
  define d where "d = gz_member (\<lambda>_. 7) (plain_head, [1, 9], [9])"
  let ?src = "\<lparr> ds_path = ''a.gz'', ds_len = 20, ds_read = Inr d \<rparr>"
  obtain res where res: "salvage_gzip prefix_inflater (\<lambda>_. 7) d = Returned res"
      "verified_payload res = [9]" "members_verified res = 1"
    using salvage_gzip_single [OF prefix_intact, of "\<lambda>_. 7"] by (auto simp: d_def)
  have read: "ds_read ?src = Inr d" by simp
  have "\<exists>rep. s_apply (GzMemberSalvage prefix_inflater (\<lambda>_. 7) Inr) ?src sink_new
      = Returned (Inr (rep, sink_write sink_new [9])) \<and> success rep"
    using res by (simp add: GzMemberSalvage_def gz_member_salvage_run_def Let_def applied_ok_def)
  then obtain rep where rep: "s_apply (GzMemberSalvage prefix_inflater (\<lambda>_. 7) Inr) ?src sink_new
      = Returned (Inr (rep, sink_write sink_new [9]))" "success rep" by blast
  obtain members where m: "list_all (gz_proven prefix_inflater (\<lambda>_. 7) d) members"
    "sorted_wrt (\<lambda>a b. source_end a \<le> source_offset b) members"
    "concat (map seg_bytes members) \<noteq> []" "sink_write sink_new [9] = sink_write sink_new (concat (map seg_bytes members))"
    using gz_member_salvage_exact [OF read rep(1)] rep(2) by (auto simp: Let_def split: if_splits)
  have "concat (map seg_bytes members) = [9]" "buf (sink_write sink_new [9]) = [9]"
    using m(4) by (simp_all add: sink_write_def sink_new_def)
  then show ?thesis using rep m(1,2) unfolding d_def [symmetric] by blast
qed

end
