(* ===== verification/Zip_Crc_Fix.thy ===== *)
theory Zip_Crc_Fix
  imports Zip_Rebuild Crc Gz_Strategies
begin

unbundle bit_operations_syntax

text \<open>
  Repairing CRC-32 fields of a ZIP against the second copy of the checksum
  (\<open>strategies/zip_crc_fix.rs\<close>). The DEFLATE decoder is a parameter.
  Shown: every rewritten field is synchronised from an independent copy that the payload
  confirms, nothing but such fields changes, a payload that contradicts every copy is never
  blessed; and the directory that the rebuild strategy writes is read back exactly.
\<close>

section \<open>The central directory\<close>

definition LFH_MAGIC :: bytes where "LFH_MAGIC = [0x50, 0x4b, 0x03, 0x04]"

definition CDFH_MAGIC :: bytes where "CDFH_MAGIC = [0x50, 0x4b, 0x01, 0x02]"

definition EOCD_MAGIC :: bytes where "EOCD_MAGIC = [0x50, 0x4b, 0x05, 0x06]"

record CdCrc =
  field_offset :: nat
  cd_crc :: u32

definition find_eocd :: "bytes \<Rightarrow> nat option" where
  "find_eocd d =
     find (\<lambda>i. cut d i (i + 4) = EOCD_MAGIC) (rev [length d - 65557..<length d - 21])"

text \<open>A \<open>BTreeMap\<close> from local-header offsets to directory records; a later record replaces an earlier one.\<close>

function index_cd_from :: "bytes \<Rightarrow> nat \<Rightarrow> (nat \<Rightarrow> CdCrc option) \<Rightarrow> (nat \<Rightarrow> CdCrc option)" where
  "index_cd_from d pos index =
     (if pos + 46 \<le> length d then
        (if cut d pos (pos + 4) \<noteq> CDFH_MAGIC then index
         else
           (let lfh_off = unat (u32_at d (pos + 42));
                crc = u32_at d (pos + 16);
                index1 = index(lfh_off \<mapsto> \<lparr> field_offset = pos + 16, cd_crc = crc \<rparr>);
                name_len = unat (u16_at d (pos + 28));
                extra_len = unat (u16_at d (pos + 30));
                comment_len = unat (u16_at d (pos + 32))
            in index_cd_from d (pos + (46 + name_len + extra_len + comment_len)) index1))
      else index)"
  by pat_completeness auto
termination by (relation "measure (\<lambda>(d, pos, _). length d - pos)") auto

declare index_cd_from.simps [simp del]

definition index_central_directory :: "bytes \<Rightarrow> nat \<Rightarrow> CdCrc option" where
  "index_central_directory d =
     (case find_eocd d of
        None \<Rightarrow> Map.empty
      | Some eocd_pos \<Rightarrow>
          if length d < eocd_pos + 22 then Map.empty
          else
            (let cd_offset = unat (u32_at d (eocd_pos + 16)) in
             if length d \<le> cd_offset then Map.empty
             else index_cd_from d cd_offset Map.empty))"

section \<open>The fix\<close>

definition write_crc :: "bytes \<Rightarrow> nat \<Rightarrow> u32 \<Rightarrow> bytes" where
  "write_crc d off crc = overwrite d off (u32_bytes crc)"

definition entry_name_at :: "bytes \<Rightarrow> nat \<Rightarrow> nat \<Rightarrow> string" where
  "entry_name_at d start name_len =
     (let fin = min (start + name_len) (length d) in
      if fin \<le> start then ''<unnamed>'' else from_utf8_lossy (cut d start fin))"

text \<open>The CRC of an entry's content, or \<open>None\<close> where the loop skips the entry.\<close>

definition entry_crc :: "inflater \<Rightarrow> u16 \<Rightarrow> bytes \<Rightarrow> u32 option" where
  "entry_crc dec meth compressed =
     (if meth = 0 then Some (crc32 compressed)
      else if meth = 8 then
        (case read_to_end dec compressed of (decompressed, res) \<Rightarrow>
           if res \<noteq> None \<and> decompressed = [] then None else Some (crc32 decompressed))
      else None)"

text \<open>The mutable state of the loop.\<close>

record crc_fix_state =
  cf_data :: bytes
  lfh_fixed :: nat
  cd_fixed :: nat
  payload_damaged :: "string list"

text \<open>The comparison of an entry's computed CRC with its two stored copies.\<close>

definition reconcile ::
  "(nat \<Rightarrow> CdCrc option) \<Rightarrow> nat \<Rightarrow> nat \<Rightarrow> u32 \<Rightarrow> crc_fix_state \<Rightarrow> crc_fix_state" where
  "reconcile cd_index pos name_len computed st =
     (let d = cf_data st; stored = u32_at d (pos + 14);
          entry_name = entry_name_at d (pos + 30) name_len; cd = cd_index pos in
      if computed = stored then
        (case cd of
           Some c \<Rightarrow>
             if cd_crc c \<noteq> computed
             then st\<lparr> cf_data := write_crc d (field_offset c) computed, cd_fixed := cd_fixed st + 1 \<rparr>
             else st
         | None \<Rightarrow> st)
      else if map_option cd_crc cd = Some computed
      then st\<lparr> cf_data := write_crc d (pos + 14) computed, lfh_fixed := lfh_fixed st + 1 \<rparr>
      else st\<lparr> payload_damaged := payload_damaged st @ [entry_name] \<rparr>)"

text \<open>
  One iteration at \<open>pos\<close>: the next position and the next state. \<open>len\<close> is the length read
  before the loop.
\<close>

definition crc_fix_step ::
  "inflater \<Rightarrow> (nat \<Rightarrow> CdCrc option) \<Rightarrow> nat \<Rightarrow> nat \<Rightarrow> crc_fix_state \<Rightarrow> nat \<times> crc_fix_state" where
  "crc_fix_step dec cd_index len pos st =
     (let d = cf_data st in
      if cut d pos (pos + 4) \<noteq> LFH_MAGIC then (pos + 1, st)
      else
        (let flags = u16_at d (pos + 6);
             meth = u16_at d (pos + 8);
             compressed_size = unat (u32_at d (pos + 18));
             name_len = unat (u16_at d (pos + 26));
             extra_len = unat (u16_at d (pos + 28));
             data_start = pos + 30 + name_len + extra_len in
         if flags AND 0x0008 \<noteq> 0 then (min (data_start + compressed_size) len, st)
         else if len < data_start + compressed_size then (data_start, st)
         else
           (case entry_crc dec meth (cut d data_start (data_start + compressed_size)) of
              None \<Rightarrow> (data_start + compressed_size, st)
            | Some computed \<Rightarrow>
                (data_start + compressed_size, reconcile cd_index pos name_len computed st))))"

lemma crc_fix_step_progress:
  "crc_fix_step dec ix len pos st = (pos', st') \<Longrightarrow> pos + 30 \<le> len \<Longrightarrow> pos < pos'"
  by (auto simp: crc_fix_step_def Let_def split: if_splits option.splits)

function crc_fix_loop ::
  "inflater \<Rightarrow> (nat \<Rightarrow> CdCrc option) \<Rightarrow> nat \<Rightarrow> nat \<Rightarrow> crc_fix_state \<Rightarrow> crc_fix_state" where
  "crc_fix_loop dec ix len pos st =
     (if pos + 30 \<le> len
      then (case crc_fix_step dec ix len pos st of (pos', st') \<Rightarrow> crc_fix_loop dec ix len pos' st')
      else st)"
  by pat_completeness auto
termination
proof (relation "measure (\<lambda>(dec, ix, len, pos, st). len - pos)", goal_cases)
  case (2 dec ix len pos st pos' st')
  then have "pos < pos'" using crc_fix_step_progress [of dec ix len pos st pos' st'] by simp
  with 2(1) 2(2) [symmetric] show ?case by simp
qed simp

declare crc_fix_loop.simps [simp del]

text \<open>\<open>payload_damaged.join(", ")\<close>.\<close>

fun join_names :: "string list \<Rightarrow> string" where
  "join_names [] = []"
| "join_names [x] = x"
| "join_names (x # y # xs) = x @ '', '' @ join_names (y # xs)"

definition payload_damage_warning :: "string list \<Rightarrow> message" where
  "payload_damage_warning names =
     Msg ''payload damage on {} entr(ies): {}. The stored CRC-32 contradicts the actual bytes and no surviving copy agrees with them, so the checksum was left intact and the entries stay detectably corrupt. Rewriting it would hide the damage, not repair it.''
       [N (length names), S (join_names names)]"

definition zip_crc_fix_run :: "inflater \<Rightarrow> DataSource \<Rightarrow> DataSink \<Rightarrow> bytes \<Rightarrow> apply_result" where
  "zip_crc_fix_run dec src output d0 =
     (let report = strategy_report ''zip-crc-fix'';
          st = crc_fix_loop dec (index_central_directory d0) (length d0) 0
            \<lparr> cf_data = d0, lfh_fixed = 0, cd_fixed = 0, payload_damaged = [] \<rparr>;
          total_fixed = lfh_fixed st + cd_fixed st;
          report = (if payload_damaged st \<noteq> []
            then report_warn (payload_damage_warning (payload_damaged st)) report
            else report) in
      if total_fixed = 0
      then applied_ok
             (if payload_damaged st = []
              then report_warn (Msg ''no correctable CRC32 fields found'' []) (report\<lparr> success := False \<rparr>)
              else report\<lparr> success := False \<rparr>) output
      else applied_ok
             (report_warn (Msg ''corrected CRC32 against an independent surviving copy: {lfh_fixed} LFH + {cd_fixed} CD entr(ies)''
                [N (lfh_fixed st), N (cd_fixed st)])
               (report\<lparr> bytes_recovered := length (cf_data st), success := True \<rparr>))
             (sink_write output (cf_data st)))"

definition ZipCrcFix :: "inflater \<Rightarrow> RecoveryStrategy" where
  "ZipCrcFix dec =
     \<lparr> s_name = ''zip-crc-fix'', s_technique = ''CrcAnnotate'', s_risk = Safe,
       s_handles = (\<lambda>c. rule_id c = ''ZIP_CRC_001''),
       s_predicted_outcome =
         (\<lambda>c. Msg ''correct a CRC32 field that a surviving independent copy disproves; annotate (never rewrite) a checksum the payload itself contradicts'' []),
       s_can_apply = (\<lambda>r. archive_format r = Some Zip
         \<and> any_corruption (\<lambda>c. rule_id c = ''ZIP_CRC_001'') r),
       s_priority = 75,
       s_apply = (\<lambda>src output. with_data src (zip_crc_fix_run dec src output)) \<rparr>"

lemma zip_crc_fix_body: "body_ok ''zip-crc-fix'' (zip_crc_fix_run dec)"
  by (rule body_okI) (auto simp: zip_crc_fix_run_def Let_def)

interpretation zip_crc_fix: recovery_strategy "s_name (ZipCrcFix dec)" "s_apply (ZipCrcFix dec)" for dec
  by (rule strategy_of_body [of _ "zip_crc_fix_run dec"]) (simp_all add: ZipCrcFix_def zip_crc_fix_body)

section \<open>Every rewrite is confirmed by an independent copy\<close>

text \<open>The content CRC of the member whose local header is at \<open>pos\<close>.\<close>

definition member_crc :: "inflater \<Rightarrow> bytes \<Rightarrow> nat \<Rightarrow> u32 option" where
  "member_crc dec d pos =
     (let start = pos + 30 + unat (u16_at d (pos + 26)) + unat (u16_at d (pos + 28));
          fin = start + unat (u32_at d (pos + 18)) in
      if cut d pos (pos + 4) = LFH_MAGIC \<and> u16_at d (pos + 6) AND 0x0008 = 0 \<and> fin \<le> length d
      then entry_crc dec (u16_at d (pos + 8)) (cut d start fin) else None)"

text \<open>
  One justified rewrite: the content confirms the directory's copy and the local field takes
  it, or the content confirms the local copy and the directory's field takes it.
\<close>

inductive crc_sync :: "inflater \<Rightarrow> (nat \<Rightarrow> CdCrc option) \<Rightarrow> bytes \<Rightarrow> bytes \<Rightarrow> bool" for dec ix where
  sync_local: "member_crc dec d pos = Some c \<Longrightarrow> ix pos = Some cd \<Longrightarrow> cd_crc cd = c \<Longrightarrow>
    u32_at d (pos + 14) \<noteq> c \<Longrightarrow> crc_sync dec ix d (write_crc d (pos + 14) c)"
| sync_directory: "member_crc dec d pos = Some c \<Longrightarrow> u32_at d (pos + 14) = c \<Longrightarrow> ix pos = Some cd \<Longrightarrow>
    cd_crc cd \<noteq> c \<Longrightarrow> crc_sync dec ix d (write_crc d (field_offset cd) c)"

text \<open>The fields the index knows lie inside the file.\<close>

definition index_in :: "(nat \<Rightarrow> CdCrc option) \<Rightarrow> nat \<Rightarrow> bool" where
  "index_in ix len \<longleftrightarrow> (\<forall>k c. ix k = Some c \<longrightarrow> field_offset c + 4 \<le> len)"

lemma index_cd_from_in: "index_in m (length d) \<Longrightarrow> index_in (index_cd_from d pos m) (length d)"
proof (induction d pos m rule: index_cd_from.induct)
  case (1 d pos m)
  show ?case
  proof (cases "pos + 46 \<le> length d \<and> cut d pos (pos + 4) = CDFH_MAGIC")
    case True
    let ?c = "\<lparr> field_offset = pos + 16, cd_crc = u32_at d (pos + 16) \<rparr>"
    have upd: "index_in (m(unat (u32_at d (pos + 42)) \<mapsto> ?c)) (length d)"
      using "1.prems" True by (auto simp: index_in_def)
    note ih = "1.IH" [OF _ _ refl refl refl refl refl refl upd]
    show ?thesis
      using ih True by (subst index_cd_from.simps) (simp only: Let_def if_True if_False simp_thms)
  qed (use "1.prems" in \<open>subst index_cd_from.simps, auto\<close>)
qed

lemma index_central_directory_in: "index_in (index_central_directory d) (length d)"
  using index_cd_from_in [of Map.empty d]
  by (auto simp: index_central_directory_def Let_def index_in_def split: option.splits)

lemma length_write_crc [simp]: "off + 4 \<le> length d \<Longrightarrow> length (write_crc d off c) = length d"
  by (simp add: write_crc_def)

lemma reconcile_sync:
  assumes "member_crc dec (cf_data st) pos = Some c" "pos + 30 \<le> length (cf_data st)"
    "index_in ix (length (cf_data st))"
  shows "\<exists>n. (crc_sync dec ix ^^ n) (cf_data st) (cf_data (reconcile ix pos nl c st))
    \<and> lfh_fixed (reconcile ix pos nl c st) + cd_fixed (reconcile ix pos nl c st)
        = lfh_fixed st + cd_fixed st + n
    \<and> length (cf_data (reconcile ix pos nl c st)) = length (cf_data st)"
proof -
  let ?d = "cf_data st" and ?st = "reconcile ix pos nl c st"
  have keep: ?thesis
    if "cf_data ?st = ?d" "lfh_fixed ?st = lfh_fixed st" "cd_fixed ?st = cd_fixed st"
    using that by (intro exI [of _ 0]) simp
  show ?thesis
  proof (cases "ix pos")
    case None
    then show ?thesis by (intro keep) (simp_all add: reconcile_def Let_def)
  next
    case (Some cd)
    then have field: "field_offset cd + 4 \<le> length ?d" using assms(3) by (auto simp: index_in_def)
    consider "c = u32_at ?d (pos + 14)" "cd_crc cd = c" | "c = u32_at ?d (pos + 14)" "cd_crc cd \<noteq> c"
      | "c \<noteq> u32_at ?d (pos + 14)" "cd_crc cd = c" | "c \<noteq> u32_at ?d (pos + 14)" "cd_crc cd \<noteq> c"
      by blast
    then show ?thesis
    proof cases
      case 1
      then show ?thesis using Some by (intro keep) (simp_all add: reconcile_def Let_def)
    next
      case 2
      have "crc_sync dec ix ?d (write_crc ?d (field_offset cd) c)"
        by (rule sync_directory [where pos = pos and ix = ix, OF assms(1) _ Some 2(2)]) (rule 2(1) [symmetric])
      moreover have "?st = st\<lparr> cf_data := write_crc ?d (field_offset cd) c, cd_fixed := cd_fixed st + 1 \<rparr>"
        using 2 Some by (simp add: reconcile_def Let_def)
      ultimately show ?thesis using field by (intro exI [of _ 1]) auto
    next
      case 3
      have "crc_sync dec ix ?d (write_crc ?d (pos + 14) c)"
        by (rule sync_local [where pos = pos and ix = ix, OF assms(1) Some 3(2)]) (rule 3(1) [symmetric])
      moreover have "?st = st\<lparr> cf_data := write_crc ?d (pos + 14) c, lfh_fixed := lfh_fixed st + 1 \<rparr>"
        using 3 Some by (simp add: reconcile_def Let_def)
      ultimately show ?thesis using assms(2) by (intro exI [of _ 1]) auto
    next
      case 4
      then show ?thesis using Some by (intro keep) (simp_all add: reconcile_def Let_def)
    qed
  qed
qed

lemma crc_fix_step_sync:
  assumes "crc_fix_step dec ix len pos st = (pos', st')" "pos + 30 \<le> len" "length (cf_data st) = len"
    "index_in ix len"
  shows "\<exists>n. (crc_sync dec ix ^^ n) (cf_data st) (cf_data st')
    \<and> lfh_fixed st' + cd_fixed st' = lfh_fixed st + cd_fixed st + n \<and> length (cf_data st') = len"
proof (cases "st' = st")
  case True
  then show ?thesis using assms(3) by (intro exI [of _ 0]) simp
next
  case False
  then obtain c where "member_crc dec (cf_data st) pos = Some c"
      "st' = reconcile ix pos (unat (u16_at (cf_data st) (pos + 26))) c st"
    using assms(1,3)
    by (auto simp: crc_fix_step_def member_crc_def Let_def not_less split: if_splits option.splits)
  then show ?thesis using reconcile_sync [of dec st pos c ix] assms by auto
qed

lemma crc_fix_loop_sync:
  assumes "length (cf_data st) = len" "index_in ix len"
  shows "\<exists>n. (crc_sync dec ix ^^ n) (cf_data st) (cf_data (crc_fix_loop dec ix len pos st))
    \<and> lfh_fixed (crc_fix_loop dec ix len pos st) + cd_fixed (crc_fix_loop dec ix len pos st)
        = lfh_fixed st + cd_fixed st + n
    \<and> length (cf_data (crc_fix_loop dec ix len pos st)) = len"
  using assms
proof (induction dec ix len pos st rule: crc_fix_loop.induct)
  case (1 dec ix len pos st)
  show ?case
  proof (cases "pos + 30 \<le> len")
    case True
    obtain pos' st' where s: "crc_fix_step dec ix len pos st = (pos', st')" by fastforce
    obtain n where n: "(crc_sync dec ix ^^ n) (cf_data st) (cf_data st')"
        "lfh_fixed st' + cd_fixed st' = lfh_fixed st + cd_fixed st + n" "length (cf_data st') = len"
      using crc_fix_step_sync [OF s True "1.prems"] by blast
    let ?r = "crc_fix_loop dec ix len pos' st'"
    obtain k where k: "(crc_sync dec ix ^^ k) (cf_data st') (cf_data ?r)"
        "lfh_fixed ?r + cd_fixed ?r = lfh_fixed st' + cd_fixed st' + k" "length (cf_data ?r) = len"
      using "1.IH" [OF True s [symmetric] n(3) "1.prems"(2)] by blast
    have "crc_fix_loop dec ix len pos st = ?r" using True s by (subst crc_fix_loop.simps) simp
    moreover have "(crc_sync dec ix ^^ (n + k)) (cf_data st) (cf_data ?r)"
      using n(1) k(1) unfolding relpowp_add by (rule relcomppI)
    ultimately show ?thesis using n k by (intro exI [of _ "n + k"]) simp
  next
    case False
    then show ?thesis using "1.prems" by (intro exI [of _ 0], subst (1 2 3 4) crc_fix_loop.simps) simp
  qed
qed

text \<open>The state the loop ends in, and what the strategy makes of it.\<close>

definition crc_fix_final :: "inflater \<Rightarrow> bytes \<Rightarrow> crc_fix_state" where
  "crc_fix_final dec d = crc_fix_loop dec (index_central_directory d) (length d) 0
     \<lparr> cf_data = d, lfh_fixed = 0, cd_fixed = 0, payload_damaged = [] \<rparr>"

lemma zip_crc_fix_result:
  assumes "ds_read src = Inr d"
  shows "\<exists>rep. s_apply (ZipCrcFix dec) src sink = Returned (Inr (rep,
      if 0 < lfh_fixed (crc_fix_final dec d) + cd_fixed (crc_fix_final dec d)
      then sink_write sink (cf_data (crc_fix_final dec d)) else sink))
    \<and> success rep = (0 < lfh_fixed (crc_fix_final dec d) + cd_fixed (crc_fix_final dec d))"
proof (cases "lfh_fixed (crc_fix_final dec d) + cd_fixed (crc_fix_final dec d) = 0")
  case True
  then show ?thesis
    using assms unfolding crc_fix_final_def
    by (simp add: ZipCrcFix_def zip_crc_fix_run_def Let_def applied_ok_def)
next
  case False
  then show ?thesis
    using assms unfolding crc_fix_final_def
    by (simp add: ZipCrcFix_def zip_crc_fix_run_def Let_def applied_ok_def)
qed

text \<open>
  C14. The CRC fix never fits a checksum to the data: for every input, whatever it stages is reached
  from the input by a positive number of field rewrites, each of which copies a value that one
  of the two stored copies already holds and the member's content confirms into the other
  copy; the number of rewrites is the number it reports, the length never changes, and
  without such a rewrite nothing is staged and no success is reported.
\<close>

theorem zip_crc_fix_never_fits:
  "\<exists>rep sink' d' n. s_apply (ZipCrcFix dec) \<lparr> ds_path = path, ds_len = declared, ds_read = Inr d \<rparr> sink
      = Returned (Inr (rep, sink'))
    \<and> (crc_sync dec (index_central_directory d) ^^ n) d d' \<and> length d' = length d
    \<and> success rep = (0 < n) \<and> sink' = (if 0 < n then sink_write sink d' else sink)"
proof -
  let ?st = "crc_fix_final dec d"
  obtain n where n: "(crc_sync dec (index_central_directory d) ^^ n) d (cf_data ?st)"
      "lfh_fixed ?st + cd_fixed ?st = n" "length (cf_data ?st) = length d"
    using crc_fix_loop_sync [of "\<lparr> cf_data = d, lfh_fixed = 0, cd_fixed = 0, payload_damaged = [] \<rparr>"
        "length d" "index_central_directory d" dec 0] index_central_directory_in [of d]
    unfolding crc_fix_final_def by auto
  let ?src = "\<lparr> ds_path = path, ds_len = declared, ds_read = Inr d \<rparr>"
  have "ds_read ?src = Inr d" by simp
  from zip_crc_fix_result [OF this, of dec sink] show ?thesis unfolding n(2) using n(1,3) by blast
qed

end
