(* ===== verification/Zip_Repair.thy ===== *)
theory Zip_Repair
  imports Zip_Crc_Fix
begin

unbundle bit_operations_syntax

text \<open>
  Rebuild and checksum repair together: the directory the rebuild strategy writes is the one
  the checksum strategy reads; damaged local checksum fields are restored from it exactly;
  a damaged payload is reported and left alone.
\<close>

section \<open>Reading a rebuilt directory\<close>

lemma magic_bytes: "u32_bytes LFH_SIG = LFH_MAGIC" "u32_bytes CDFH_SIG = CDFH_MAGIC" "u32_bytes EOCD_SIG = EOCD_MAGIC"
  by (simp_all add: u32_bytes_def to_le_4 LFH_SIG_def CDFH_SIG_def EOCD_SIG_def
      LFH_MAGIC_def CDFH_MAGIC_def EOCD_MAGIC_def)

lemma length_magics [simp]: "length LFH_MAGIC = 4" "length CDFH_MAGIC = 4" "length EOCD_MAGIC = 4"
  by (simp_all add: LFH_MAGIC_def CDFH_MAGIC_def EOCD_MAGIC_def)

lemma length_cd_record [simp]: "length (cd_record h) = 46 + length (lh_name h)"
  by (simp add: cd_record_def)

lemma length_eocd_record [simp]: "length (eocd_record n a b) = 22"
  by (simp add: eocd_record_def)

lemma cut_magic_append: "k = length m \<Longrightarrow> cut (m @ r) 0 k = m"
  by (simp add: cut_0)

lemma cut_at_append: "cut (pre @ d) (length pre) (length pre + k) = cut d 0 k"
  by (simp add: cut_append_right)

lemma find_eocd_last: "find_eocd (x @ eocd_record n a b) = Some (length x)"
proof -
  let ?d = "x @ eocd_record n a b"
  have "[length ?d - 65557..<length ?d - 21] = [length ?d - 65557..<length x] @ [length x]"
    by simp
  moreover have "cut ?d (length x) (length x + 4) = EOCD_MAGIC"
    by (simp add: cut_at_append eocd_record_def magic_bytes cut_0)
  ultimately show ?thesis unfolding find_eocd_def by simp
qed

lemma cd_record_fields:
  assumes "length (lh_name h) < 2 ^ 16" "lfh_offset h < 2 ^ 32"
  shows "cut (cd_record h @ r) 0 4 = CDFH_MAGIC" "u32_at (cd_record h @ r) 16 = lh_crc32 h"
    "unat (u32_at (cd_record h @ r) 42) = lfh_offset h"
    "unat (u16_at (cd_record h @ r) 28) = length (lh_name h)"
    "unat (u16_at (cd_record h @ r) 30) = 0" "unat (u16_at (cd_record h @ r) 32) = 0"
  using unat_of_nat_len(2) [OF assms(1)] unat_of_nat_len(1) [OF assms(2)]
  by (simp_all add: cd_record_def word_at_skip cut_0 magic_bytes)

lemma index_cd_records:
  assumes "d = pre @ concat (map cd_record hs) @ eocd_record n a b"
    "list_all (\<lambda>h. length (lh_name h) < 2 ^ 16 \<and> lfh_offset h < 2 ^ 32) hs"
  shows "map_option cd_crc \<circ> index_cd_from d (length pre) m
    = (map_option cd_crc \<circ> m) ++ map_of (rev (map (\<lambda>h. (lfh_offset h, lh_crc32 h)) hs))"
  using assms
proof (induction hs arbitrary: pre m)
  case Nil
  have "cut d (length pre) (length pre + 4) = EOCD_MAGIC"
    unfolding Nil(1) by (simp add: cut_at_append eocd_record_def magic_bytes cut_0)
  then have "cut d (length pre) (length pre + 4) \<noteq> CDFH_MAGIC"
    by (simp add: EOCD_MAGIC_def CDFH_MAGIC_def)
  then show ?case by (subst index_cd_from.simps) simp
next
  case (Cons h hs)
  let ?r = "concat (map cd_record hs) @ eocd_record n a b"
  let ?c = "\<lparr> field_offset = length pre + 16, cd_crc = lh_crc32 h \<rparr>"
  have d: "d = pre @ cd_record h @ ?r" using Cons.prems(1) by simp
  have fits: "length (lh_name h) < 2 ^ 16" "lfh_offset h < 2 ^ 32" using Cons.prems(2) by simp_all
  have at: "u16_at d (length pre + k) = u16_at (cd_record h @ ?r) k"
    "u32_at d (length pre + k) = u32_at (cd_record h @ ?r) k"
    "cut d (length pre) (length pre + k) = cut (cd_record h @ ?r) 0 k" for k
    unfolding d by (simp_all add: word_at_append cut_at_append)
  have long: "length pre + 46 \<le> length d" using d by simp
  have step: "index_cd_from d (length pre) m
      = index_cd_from d (length (pre @ cd_record h)) (m(lfh_offset h \<mapsto> ?c))"
    by (subst index_cd_from.simps) (simp add: long Let_def at cd_record_fields [OF fits])
  have "map_option cd_crc \<circ> index_cd_from d (length (pre @ cd_record h)) (m(lfh_offset h \<mapsto> ?c))
      = (map_option cd_crc \<circ> m(lfh_offset h \<mapsto> ?c)) ++ map_of (rev (map (\<lambda>h. (lfh_offset h, lh_crc32 h)) hs))"
    using Cons.prems d by (intro Cons.IH) simp_all
  also have "\<dots> = (map_option cd_crc \<circ> m) ++ map_of (rev (map (\<lambda>h. (lfh_offset h, lh_crc32 h)) (h # hs)))"
    by (rule ext) (simp add: map_add_def split: option.split)
  finally show ?case unfolding step .
qed

lemma headers_of_offsets:
  "h \<in> set (headers_of off es) \<Longrightarrow> off \<le> lfh_offset h \<and> lfh_offset h < off + length (concat (map zip_local es))
    \<and> (\<exists>e \<in> set es. lh_name h = ze_name e)"
proof (induction es arbitrary: off)
  case (Cons e es)
  then show ?case by (fastforce simp: header_of_def)
qed simp

lemma distinct_headers_of: "distinct (map lfh_offset (headers_of off es))"
proof (induction es arbitrary: off)
  case (Cons e es)
  have "lfh_offset h \<noteq> off" if "h \<in> set (headers_of (off + length (zip_local e)) es)" for h
    using headers_of_offsets [OF that] by simp
  then show ?case using Cons by auto
qed simp

text \<open>The members with their offsets, as the directory lists them.\<close>

definition directory_of :: "zip_entry list \<Rightarrow> nat \<Rightarrow> u32 option" where
  "directory_of es = map_of (map (\<lambda>h. (lfh_offset h, lh_crc32 h)) (headers_of 0 es))"

text \<open>An archive of given local bytes with the directory of \<open>es\<close> behind it.\<close>

definition with_directory :: "bytes \<Rightarrow> zip_entry list \<Rightarrow> bytes" where
  "with_directory body es =
     (let cd = concat (map cd_record (headers_of 0 es)) in
      body @ cd @ eocd_record (length es) (length cd) (length body))"

lemma rebuilt_with_directory: "rebuilt_archive es = with_directory (concat (map zip_local es)) es"
  by (simp add: rebuilt_archive_def with_directory_def Let_def)

lemma index_with_directory:
  assumes "length body < 2 ^ 32" "length body = length (concat (map zip_local es))" "list_all zip_entry_ok es"
  shows "map_option cd_crc \<circ> index_central_directory (with_directory body es) = directory_of es"
proof -
  let ?cd = "concat (map cd_record (headers_of 0 es))"
  let ?e = "eocd_record (length es) (length ?cd) (length body)"
  define d where "d = with_directory body es"
  have d: "d = (body @ ?cd) @ ?e" "d = body @ ?cd @ ?e" by (simp_all add: d_def with_directory_def Let_def)
  have find: "find_eocd d = Some (length (body @ ?cd))"
    unfolding d(1) by (rule find_eocd_last)
  have "u32_at d (length (body @ ?cd) + 16) = u32_at ?e 16"
    unfolding d(1) by (rule word_at_append)
  also have "\<dots> = of_nat (length body)" by (simp add: eocd_record_def word_at_skip)
  finally have off: "unat (u32_at d (length (body @ ?cd) + 16)) = length body"
    using unat_of_nat_len(1) [OF assms(1)] by simp
  have fits: "list_all (\<lambda>h. length (lh_name h) < 2 ^ 16 \<and> lfh_offset h < 2 ^ 32) (headers_of 0 es)"
    unfolding list_all_iff
  proof
    fix h assume "h \<in> set (headers_of 0 es)"
    from headers_of_offsets [OF this] show "length (lh_name h) < 2 ^ 16 \<and> lfh_offset h < 2 ^ 32"
      using assms by (auto simp: list_all_iff zip_entry_ok_def)
  qed
  have "length d = length (body @ ?cd) + 22" using d(1) by simp
  then have "index_central_directory d = index_cd_from d (length body) Map.empty"
    using find off by (simp add: index_central_directory_def Let_def)
  moreover have "map_option cd_crc \<circ> index_cd_from d (length body) Map.empty
      = map_of (rev (map (\<lambda>h. (lfh_offset h, lh_crc32 h)) (headers_of 0 es)))"
    using index_cd_records [OF d(2) fits, of Map.empty] by (simp add: o_def) 
  moreover have "distinct (map fst (map (\<lambda>h. (lfh_offset h, lh_crc32 h)) (headers_of 0 es)))"
    using distinct_headers_of [of 0 es] by (simp add: o_def)
  ultimately show ?thesis
    unfolding d_def [symmetric] directory_of_def by (simp add: map_of_rev_distinct)
qed

section \<open>Walking the members\<close>

text \<open>A member whose local checksum field holds \<open>w\<close>.\<close>

definition local_with :: "zip_entry \<times> u32 \<Rightarrow> bytes" where
  "local_with p = zip_local ((fst p)\<lparr> ze_crc := snd p \<rparr>)"

definition plain_member :: "zip_entry \<Rightarrow> bool" where
  "plain_member e \<longleftrightarrow> zip_entry_ok e \<and> ze_flags e AND 0x0008 = 0"

definition content_crc :: "inflater \<Rightarrow> zip_entry \<Rightarrow> u32 option" where
  "content_crc dec e = entry_crc dec (ze_method e) (ze_payload e)"

definition member_label :: "zip_entry \<Rightarrow> string" where
  "member_label e = (if ze_name e = [] then ''<unnamed>'' else from_utf8_lossy (ze_name e))"

lemma length_local_with [simp]: "length (local_with p) = length (zip_local (fst p))"
  by (simp add: local_with_def)

lemma local_with_self [simp]: "local_with (e, ze_crc e) = zip_local e"
  by (simp add: local_with_def)

lemma write_local_crc:
  "write_crc (pre @ local_with (e, w) @ r) (length pre + 14) c = pre @ local_with (e, c) @ r"
  by (simp add: write_crc_def overwrite_def local_with_def zip_local_def)

lemma crc_fix_step_member:
  assumes d: "cf_data st = pre @ local_with (e, w) @ r" and len: "len = length (cf_data st)"
    and e: "plain_member e" and k: "content_crc dec e = Some k"
  shows "crc_fix_step dec ix len (length pre) st
    = (length pre + length (zip_local e), reconcile ix (length pre) (length (ze_name e)) k st)"
proof -
  let ?e = "e\<lparr> ze_crc := w \<rparr>"
  have ok: "zip_entry_ok ?e" using e by (simp add: plain_member_def zip_entry_ok_def)
  note f = zip_local_fields [OF ok]
  have at: "u16_at (cf_data st) (length pre + i) = u16_at (zip_local ?e @ r) i"
    "u32_at (cf_data st) (length pre + i) = u32_at (zip_local ?e @ r) i"
    "cut (cf_data st) (length pre) (length pre + i) = cut (zip_local ?e @ r) 0 i" for i
    unfolding d by (simp_all add: word_at_append cut_at_append local_with_def)
  have magic: "cut (cf_data st) (length pre) (length pre + 4) = LFH_MAGIC"
    unfolding at by (simp add: zip_local_def magic_bytes cut_0)
  let ?s = "length pre + 30 + length (ze_name e) + length (ze_extra e)"
  have payload: "cut (cf_data st) ?s (?s + length (ze_payload e)) = ze_payload e"
    unfolding d by (simp add: local_with_def zip_local_def cut_append_right cut_0)
  have bound: "\<not> len < ?s + length (ze_payload e)" using d len by simp
  have "ze_flags e AND 8 = 0" using e by (simp add: plain_member_def)
  then show ?thesis
    using k bound payload
    by (simp add: crc_fix_step_def Let_def magic at(1,2) f content_crc_def)
qed

lemma reconcile_member:
  assumes d: "cf_data st = pre @ local_with (e, w) @ r" and ok: "plain_member e"
    and ix: "map_option cd_crc (ix (length pre)) = Some c" and agree: "k = w \<Longrightarrow> c = k"
  shows "reconcile ix (length pre) (length (ze_name e)) k st =
    (if k = w then st
     else if k = c then st\<lparr> cf_data := pre @ local_with (e, c) @ r, lfh_fixed := lfh_fixed st + 1 \<rparr>
     else st\<lparr> payload_damaged := payload_damaged st @ [member_label e] \<rparr>)"
proof -
  have ok': "zip_entry_ok (e\<lparr> ze_crc := w \<rparr>)" using ok by (simp add: plain_member_def zip_entry_ok_def)
  have stored: "u32_at (cf_data st) (length pre + 14) = w"
    unfolding d using zip_local_fields(7) [OF ok'] by (simp add: word_at_append local_with_def)
  have "cut (cf_data st) (length pre + 30) (length pre + 30 + length (ze_name e)) = ze_name e"
    unfolding d local_with_def using zip_local_fields(12) [OF ok']
    by (simp add: cut_append_right add.assoc)
  moreover have "min (length pre + 30 + length (ze_name e)) (length (cf_data st))
      = length pre + 30 + length (ze_name e)" using d by simp
  ultimately have name: "entry_name_at (cf_data st) (length pre + 30) (length (ze_name e)) = member_label e"
    by (simp add: entry_name_at_def member_label_def Let_def)
  obtain cd where cd: "ix (length pre) = Some cd" "cd_crc cd = c" using ix by auto
  show ?thesis
    unfolding reconcile_def Let_def stored name using cd agree
    by (auto simp: d write_local_crc)
qed

text \<open>The local field after the walk: synchronised when the content confirms the directory.\<close>

definition heal :: "inflater \<Rightarrow> zip_entry \<times> u32 \<Rightarrow> zip_entry \<times> u32" where
  "heal dec p = (if content_crc dec (fst p) = Some (ze_crc (fst p)) then (fst p, ze_crc (fst p)) else p)"

lemma fst_heal [simp]: "fst (heal dec p) = fst p"
  by (simp add: heal_def)

definition contradicted :: "inflater \<Rightarrow> zip_entry \<times> u32 \<Rightarrow> bool" where
  "contradicted dec p \<longleftrightarrow> content_crc dec (fst p) \<noteq> Some (snd p) \<and> content_crc dec (fst p) \<noteq> Some (ze_crc (fst p))"

definition walkable :: "inflater \<Rightarrow> zip_entry \<times> u32 \<Rightarrow> bool" where
  "walkable dec p \<longleftrightarrow> plain_member (fst p)
     \<and> (\<exists>k. content_crc dec (fst p) = Some k \<and> (k = snd p \<longrightarrow> ze_crc (fst p) = k))"

definition index_agrees :: "(nat \<Rightarrow> CdCrc option) \<Rightarrow> nat \<Rightarrow> zip_entry list \<Rightarrow> bool" where
  "index_agrees ix off es \<longleftrightarrow>
     list_all (\<lambda>h. map_option cd_crc (ix (lfh_offset h)) = Some (lh_crc32 h)) (headers_of off es)"

lemma crc_fix_loop_members:
  assumes "cf_data st = pre @ concat (map local_with ps) @ tail" "len = length (cf_data st)"
    "list_all (walkable dec) ps" "index_agrees ix (length pre) (map fst ps)"
  shows "crc_fix_loop dec ix len (length pre) st
    = crc_fix_loop dec ix len (length pre + length (concat (map local_with ps)))
        (st\<lparr> cf_data := pre @ concat (map local_with (map (heal dec) ps)) @ tail,
             lfh_fixed := lfh_fixed st + length (filter (\<lambda>p. heal dec p \<noteq> p) ps),
             payload_damaged := payload_damaged st
               @ map (\<lambda>p. member_label (fst p)) (filter (contradicted dec) ps) \<rparr>)"
  using assms
proof (induction ps arbitrary: pre st)
  case Nil
  have "st\<lparr> cf_data := pre @ tail \<rparr> = st" using Nil(1) by (cases st) simp
  then show ?case by simp
next
  case (Cons p ps)
  obtain e w where p: "p = (e, w)" by (cases p)
  let ?r = "concat (map local_with ps) @ tail"
  have d: "cf_data st = pre @ local_with (e, w) @ ?r" using Cons.prems(1) p by simp
  obtain k where k: "content_crc dec e = Some k" and agree: "k = w \<Longrightarrow> ze_crc e = k"
    and plain: "plain_member e"
    using Cons.prems(3) p by (auto simp: walkable_def)
  have ix: "map_option cd_crc (ix (length pre)) = Some (ze_crc e)"
    and rest: "index_agrees ix (length pre + length (zip_local e)) (map fst ps)"
    using Cons.prems(4) p by (simp_all add: index_agrees_def header_of_def)
  let ?st = "reconcile ix (length pre) (length (ze_name e)) k st"
  have st: "?st = st\<lparr> cf_data := pre @ local_with (heal dec p) @ ?r,
      lfh_fixed := lfh_fixed st + (if heal dec p \<noteq> p then 1 else 0),
      payload_damaged := payload_damaged st @ (if contradicted dec p then [member_label e] else []) \<rparr>"
  proof -
    have "?st = (if k = w then st
        else if k = ze_crc e
        then st\<lparr> cf_data := pre @ local_with (e, ze_crc e) @ ?r, lfh_fixed := lfh_fixed st + 1 \<rparr>
        else st\<lparr> payload_damaged := payload_damaged st @ [member_label e] \<rparr>)"
      by (rule reconcile_member [where ix = ix, OF d plain ix]) (rule agree)
    moreover have "heal dec p = (if k = ze_crc e then (e, ze_crc e) else (e, w))"
      "contradicted dec p = (k \<noteq> w \<and> k \<noteq> ze_crc e)"
      using k by (simp_all add: p heal_def contradicted_def)
    ultimately show ?thesis using d agree by (cases st) (simp add: p)
  qed
  let ?pre = "pre @ local_with (heal dec p)"
  have "length pre + 30 \<le> len" using Cons.prems(2) d by simp
  then have "crc_fix_loop dec ix len (length pre) st
      = crc_fix_loop dec ix len (length ?pre) ?st"
    using crc_fix_step_member [OF d Cons.prems(2) plain k]
    by (subst crc_fix_loop.simps) (simp add: p)
  also have "\<dots> = crc_fix_loop dec ix len (length ?pre + length (concat (map local_with ps)))
        (?st\<lparr> cf_data := ?pre @ concat (map local_with (map (heal dec) ps)) @ tail,
             lfh_fixed := lfh_fixed ?st + length (filter (\<lambda>p. heal dec p \<noteq> p) ps),
             payload_damaged := payload_damaged ?st
               @ map (\<lambda>p. member_label (fst p)) (filter (contradicted dec) ps) \<rparr>)"
    using Cons.prems(2,3) rest by (intro Cons.IH) (simp_all add: st d p)
  finally show ?case by (simp add: st p add.assoc)
qed

definition no_local_magic :: "bytes \<Rightarrow> bool" where
  "no_local_magic tail \<longleftrightarrow> list_all (\<lambda>k. cut tail k (k + 4) \<noteq> LFH_MAGIC) [0..<length tail]"

lemma crc_fix_loop_tail:
  assumes "cf_data st = pre @ tail" "len = length (cf_data st)" "no_local_magic tail"
  shows "length pre \<le> pos \<Longrightarrow> crc_fix_loop dec ix len pos st = st"
proof (induction "len - pos" arbitrary: pos rule: less_induct)
  case less
  show ?case
  proof (cases "pos + 30 \<le> len")
    case True
    obtain k where k: "pos = length pre + k" using less.prems le_Suc_ex by blast
    have "k < length tail" using True assms(1,2) k by simp
    then have "cut (cf_data st) pos (pos + 4) \<noteq> LFH_MAGIC"
      using assms(1,3) k by (simp add: no_local_magic_def list_all_iff cut_append_right)
    then have "crc_fix_step dec ix len pos st = (pos + 1, st)" by (simp add: crc_fix_step_def)
    then show ?thesis using less True by (subst crc_fix_loop.simps) simp
  qed (subst crc_fix_loop.simps, simp)
qed

section \<open>Whole archives\<close>

text \<open>The directory records and end record of the archive of \<open>es\<close>.\<close>

definition directory_bytes :: "zip_entry list \<Rightarrow> bytes" where
  "directory_bytes es = drop (length (concat (map zip_local es))) (rebuilt_archive es)"

definition archive_ok :: "zip_entry list \<Rightarrow> bool" where
  "archive_ok es \<longleftrightarrow> list_all plain_member es \<and> length (concat (map zip_local es)) < 2 ^ 32
     \<and> no_local_magic (directory_bytes es)"

lemma rebuilt_split: "rebuilt_archive es = concat (map zip_local es) @ directory_bytes es"
  by (simp add: directory_bytes_def rebuilt_archive_def Let_def)

lemma with_directory_split:
  "length body = length (concat (map zip_local es)) \<Longrightarrow> with_directory body es = body @ directory_bytes es"
  by (simp add: directory_bytes_def rebuilt_with_directory) (simp add: with_directory_def Let_def)

lemma length_locals: "length (concat (map local_with ps)) = length (concat (map zip_local (map fst ps)))"
  by (induction ps) simp_all

lemma index_agrees_directory:
  assumes "map_option cd_crc \<circ> ix = directory_of es"
  shows "index_agrees ix 0 es"
  unfolding index_agrees_def list_all_iff
proof
  fix h assume "h \<in> set (headers_of 0 es)"
  then have "(lfh_offset h, lh_crc32 h) \<in> set (map (\<lambda>h. (lfh_offset h, lh_crc32 h)) (headers_of 0 es))"
    by force
  moreover have "distinct (map fst (map (\<lambda>h. (lfh_offset h, lh_crc32 h)) (headers_of 0 es)))"
    using distinct_headers_of [of 0 es] by (simp add: o_def)
  ultimately have "directory_of es (lfh_offset h) = Some (lh_crc32 h)"
    unfolding directory_of_def by (rule map_of_is_SomeI [rotated])
  then show "map_option cd_crc (ix (lfh_offset h)) = Some (lh_crc32 h)"
    using fun_cong [OF assms, of "lfh_offset h"] by simp
qed

lemma crc_fix_archive:
  assumes ok: "archive_ok (map fst ps)" and walk: "list_all (walkable dec) ps"
  shows "crc_fix_final dec (concat (map local_with ps) @ directory_bytes (map fst ps))
    = \<lparr> cf_data = concat (map local_with (map (heal dec) ps)) @ directory_bytes (map fst ps),
        lfh_fixed = length (filter (\<lambda>p. heal dec p \<noteq> p) ps), cd_fixed = 0,
        payload_damaged = map (\<lambda>p. member_label (fst p)) (filter (contradicted dec) ps) \<rparr>"
    (is "crc_fix_final dec ?d = ?final")
proof -
  let ?es = "map fst ps" and ?body = "concat (map local_with ps)"
  let ?st = "\<lparr> cf_data = ?d, lfh_fixed = 0, cd_fixed = 0, payload_damaged = [] \<rparr>"
  have d: "?d = with_directory ?body ?es"
    using with_directory_split [OF length_locals [of ps]] by simp
  have entries: "list_all zip_entry_ok ?es"
    using ok by (simp add: archive_ok_def list_all_iff plain_member_def)
  have "index_agrees (index_central_directory ?d) 0 ?es"
    unfolding d using ok entries length_locals [of ps]
    by (intro index_agrees_directory index_with_directory) (simp_all add: archive_ok_def)
  then have "crc_fix_final dec ?d = crc_fix_loop dec (index_central_directory ?d) (length ?d)
      (length ?body) ?final"
    unfolding crc_fix_final_def
    using crc_fix_loop_members [of ?st "[]" ps "directory_bytes ?es" "length ?d" dec "index_central_directory ?d"] walk
    by simp
  also have "\<dots> = ?final"
  proof (rule crc_fix_loop_tail [where pre = "concat (map local_with (map (heal dec) ps))"])
    have "map fst (map (heal dec) ps) = ?es" by (simp add: heal_def)
    then have "length (concat (map local_with (map (heal dec) ps))) = length ?body"
      using length_locals [of "map (heal dec) ps"] length_locals [of ps] by (simp only:)
    then show "length (concat (map local_with (map (heal dec) ps))) \<le> length ?body"
      "length ?d = length (cf_data ?final)" by simp_all
    show "no_local_magic (directory_bytes ?es)" using ok unfolding archive_ok_def by blast
  qed simp
  finally show ?thesis .
qed

text \<open>
  C13. Damaged checksum fields are repaired exactly: take an archive whose members' contents match
  their checksums and overwrite the local checksum fields of any number of members with
  arbitrary values; the CRC fix stages the original archive, byte for byte, and reports
  success (provided at least one field differs; otherwise it stages nothing).
\<close>

theorem zip_crc_fix_restores:
  assumes ok: "archive_ok es" and intact: "list_all (\<lambda>e. content_crc dec e = Some (ze_crc e)) es"
    and ws: "length ws = length es" and damaged: "ws \<noteq> map ze_crc es"
    and read: "ds_read src = Inr (concat (map local_with (zip es ws)) @ directory_bytes es)"
  shows "\<exists>rep. s_apply (ZipCrcFix dec) src sink = Returned (Inr (rep, sink_write sink (rebuilt_archive es)))
    \<and> success rep"
proof -
  let ?ps = "zip es ws"
  have es: "map fst ?ps = es" using ws by simp
  have mem: "p \<in> set ?ps \<Longrightarrow> fst p \<in> set es" for p by (cases p) (auto dest: set_zip_leftD)
  have walk: "list_all (walkable dec) ?ps"
    using ok intact mem by (auto simp: walkable_def archive_ok_def list_all_iff)
  have heal: "map (heal dec) ?ps = map (\<lambda>e. (e, ze_crc e)) es"
  proof -
    have "map (heal dec) ?ps = map (\<lambda>p. (fst p, ze_crc (fst p))) ?ps"
      using intact mem by (simp add: heal_def list_all_iff)
    also have "\<dots> = map (\<lambda>e. (e, ze_crc e)) (map fst ?ps)" by (simp only: map_map o_def)
    finally show ?thesis unfolding es .
  qed
  have "filter (\<lambda>p. heal dec p \<noteq> p) ?ps \<noteq> []"
  proof
    assume "filter (\<lambda>p. heal dec p \<noteq> p) ?ps = []"
    then have "map (heal dec) ?ps = ?ps" by (simp add: filter_empty_conv map_idI)
    then have "map snd (map (\<lambda>e. (e, ze_crc e)) es) = map snd ?ps" using heal by simp
    then show False using damaged ws by (simp add: o_def)
  qed
  moreover have final: "crc_fix_final dec (concat (map local_with ?ps) @ directory_bytes es)
      = \<lparr> cf_data = rebuilt_archive es, lfh_fixed = length (filter (\<lambda>p. heal dec p \<noteq> p) ?ps), cd_fixed = 0,
          payload_damaged = map (\<lambda>p. member_label (fst p)) (filter (contradicted dec) ?ps) \<rparr>"
    using crc_fix_archive [of ?ps dec] ok walk unfolding es heal by (simp add: rebuilt_split o_def)
  ultimately show ?thesis using zip_crc_fix_result [OF read, of dec sink] by (simp add: final)
qed

text \<open>
  A damaged payload is never blessed: when both stored checksums of every member agree, the CRC
  fix stages nothing, and its report names exactly the members whose content contradicts
  their checksum (or says that there is nothing to correct).
\<close>

theorem zip_crc_fix_reports_damage:
  assumes ok: "archive_ok es" and readable: "list_all (\<lambda>e. content_crc dec e \<noteq> None) es"
    and read: "ds_read src = Inr (rebuilt_archive es)"
  shows "\<exists>rep. s_apply (ZipCrcFix dec) src sink = Returned (Inr (rep, sink)) \<and> \<not> success rep
    \<and> warnings rep = (let bad = filter (\<lambda>e. content_crc dec e \<noteq> Some (ze_crc e)) es in
        [if bad = [] then Msg ''no correctable CRC32 fields found'' []
         else payload_damage_warning (map member_label bad)])"
proof -
  let ?ps = "map (\<lambda>e. (e, ze_crc e)) es"
  have es: "map fst ?ps = es" by (simp add: o_def)
  have body: "concat (map local_with ?ps) = concat (map zip_local es)" by (simp add: o_def)
  have walk: "list_all (walkable dec) ?ps"
    using ok readable by (auto simp: walkable_def archive_ok_def list_all_iff)
  have id: "heal dec (e, ze_crc e) = (e, ze_crc e)" for e by (simp add: heal_def)
  have bad: "map (\<lambda>p. member_label (fst p)) (filter (contradicted dec) ?ps)
      = map member_label (filter (\<lambda>e. content_crc dec e \<noteq> Some (ze_crc e)) es)"
    by (simp add: filter_map o_def contradicted_def)
  have final: "crc_fix_final dec (rebuilt_archive es)
      = \<lparr> cf_data = rebuilt_archive es, lfh_fixed = 0, cd_fixed = 0,
          payload_damaged = map member_label (filter (\<lambda>e. content_crc dec e \<noteq> Some (ze_crc e)) es) \<rparr>"
    using crc_fix_archive [of ?ps dec] ok walk bad unfolding es body
    by (simp add: rebuilt_split o_def id)
  show ?thesis
    using read final unfolding crc_fix_final_def
    by (simp add: ZipCrcFix_def zip_crc_fix_run_def Let_def applied_ok_def)
qed

text \<open>
  Rebuild and read back: whatever bytes follow the members of an archive in place of its
  directory, the rebuild strategy stages the members verbatim followed by a directory in which
  the checksum strategy finds exactly one record per member, at the member's offset, with
  the member's CRC-32; and the report lists one file per member.
\<close>

theorem zip_rebuild_readable:
  assumes read: "ds_read src = Inr (concat (map zip_local es) @ tail)"
    and entries: "list_all zip_entry_ok es" "es \<noteq> []" "length (concat (map zip_local es)) < 2 ^ 32"
    and tail: "no_header tail"
  shows "\<exists>rep out. s_apply ZipCentralDirectoryRebuild src sink = Returned (Inr (rep, sink_write sink out))
    \<and> success rep \<and> length (files_recovered rep) = length es
    \<and> take (length (concat (map zip_local es))) out = concat (map zip_local es)
    \<and> map_option cd_crc \<circ> index_central_directory out
        = map_of (map (\<lambda>h. (lfh_offset h, lh_crc32 h)) (headers_of 0 es))"
proof -
  have "map_option cd_crc \<circ> index_central_directory (rebuilt_archive es) = directory_of es"
    unfolding rebuilt_with_directory using entries by (intro index_with_directory) simp_all
  moreover have "take (length (concat (map zip_local es))) (rebuilt_archive es) = concat (map zip_local es)"
    by (simp add: rebuilt_split)
  ultimately show ?thesis
    using zip_rebuild_staged [OF read entries(1) tail entries(2), of sink]
    unfolding directory_of_def by blast
qed

section \<open>A small archive\<close>

text \<open>One stored, empty member named \<open>a\<close> whose checksum fields hold \<open>c\<close>.\<close>

definition small_entry :: "u32 \<Rightarrow> zip_entry" where
  "small_entry c =
     \<lparr> ze_version = 20, ze_flags = 0, ze_method = 0, ze_time = 0, ze_date = 0, ze_crc = c, ze_usize = 0,
       ze_name = [97], ze_extra = [], ze_payload = [] \<rparr>"

lemma crc32_empty: "crc32 [] = 0"
  by (simp add: crc32_def crc32_finalize_def crc32_update_def crc32_new_def)

lemma directory_small:
  "directory_bytes [small_entry c] = [0x50, 0x4b, 1, 2, 20, 0, 20, 0, 0, 0, 0, 0, 0, 0, 0, 0] @ u32_bytes c
    @ [0, 0, 0, 0, 0, 0, 0, 0, 1, 0, 0, 0, 0, 0, 0, 0, 0, 0, 0, 0, 0, 0, 0, 0, 0, 0, 97]
    @ [0x50, 0x4b, 5, 6, 0, 0, 0, 0, 1, 0, 1, 0, 47, 0, 0, 0, 31, 0, 0, 0, 0, 0]"
proof -
  have "u16_bytes 20 = [20, 0]" "u16_bytes 0 = [0, 0]" "u16_bytes 1 = [1, 0]" "u32_bytes 0 = [0, 0, 0, 0]"
    "u32_bytes 47 = [47, 0, 0, 0]" "u32_bytes 31 = [31, 0, 0, 0]"
    by (simp_all add: u16_bytes_def u32_bytes_def to_le_2 to_le_4)
  then show ?thesis
    by (simp add: directory_bytes_def rebuilt_archive_def Let_def header_of_def small_entry_def
        cd_record_def eocd_record_def magic_bytes CDFH_MAGIC_def EOCD_MAGIC_def comp_size32_def uncomp_size32_def)
qed

lemma archive_small: "archive_ok [small_entry 0]" "archive_ok [small_entry 1]"
proof -
  have b: "u32_bytes 0 = [0, 0, 0, 0]" "u32_bytes 1 = [1, 0, 0, 0]"
    by (simp_all add: u32_bytes_def to_le_4)
  have "no_local_magic (directory_bytes [small_entry 0])" "no_local_magic (directory_bytes [small_entry 1])"
    unfolding directory_small b by code_simp+
  then show "archive_ok [small_entry 0]" "archive_ok [small_entry 1]"
    by (simp_all add: archive_ok_def plain_member_def zip_entry_ok_def small_entry_def)
qed

lemma content_small: "content_crc dec (small_entry c) = Some 0"
  by (simp add: content_crc_def entry_crc_def small_entry_def crc32_empty)

theorem zip_crc_fix_restores_witness:
  "\<exists>rep. s_apply (ZipCrcFix prefix_inflater)
      \<lparr> ds_path = ''a.zip'', ds_len = 0,
        ds_read = Inr (concat (map local_with (zip [small_entry 0] [7])) @ directory_bytes [small_entry 0]) \<rparr> sink_new
    = Returned (Inr (rep, sink_write sink_new (rebuilt_archive [small_entry 0]))) \<and> success rep"
proof (rule zip_crc_fix_restores [of "[small_entry 0]" prefix_inflater "[7]"])
  show "archive_ok [small_entry 0]" by (rule archive_small)
qed (simp_all add: content_small, simp_all add: small_entry_def)

theorem zip_crc_fix_reports_damage_witness:
  "\<exists>rep. s_apply (ZipCrcFix prefix_inflater)
      \<lparr> ds_path = ''a.zip'', ds_len = 0, ds_read = Inr (rebuilt_archive [small_entry 1]) \<rparr> sink_new
    = Returned (Inr (rep, sink_new)) \<and> \<not> success rep
    \<and> warnings rep = [payload_damage_warning [''a'']]"
proof -
  let ?src = "\<lparr> ds_path = ''a.zip'', ds_len = 0, ds_read = Inr (rebuilt_archive [small_entry 1]) \<rparr>"
  have "member_label (small_entry 1) = ''a''"
    unfolding member_label_def small_entry_def by code_simp
  moreover have "filter (\<lambda>e. content_crc prefix_inflater e \<noteq> Some (ze_crc e)) [small_entry 1] = [small_entry 1]"
    by (simp add: content_small) (simp add: small_entry_def)
  moreover have "ds_read ?src = Inr (rebuilt_archive [small_entry 1])" by simp
  moreover have "list_all (\<lambda>e. content_crc prefix_inflater e \<noteq> None) [small_entry 1]"
    by (simp add: content_small)
  ultimately show ?thesis
    using zip_crc_fix_reports_damage [OF archive_small(2), of prefix_inflater ?src sink_new]
    by (simp add: Let_def)
qed

theorem zip_rebuild_readable_witness:
  "\<exists>rep out. s_apply ZipCentralDirectoryRebuild
      \<lparr> ds_path = ''a.zip'', ds_len = 0, ds_read = Inr (concat (map zip_local [small_entry 0]) @ [1, 2, 3]) \<rparr> sink_new
      = Returned (Inr (rep, sink_write sink_new out))
    \<and> success rep \<and> take (length (concat (map zip_local [small_entry 0]))) out = concat (map zip_local [small_entry 0])"
proof -
  let ?src = "\<lparr> ds_path = ''a.zip'', ds_len = 0,
    ds_read = Inr (concat (map zip_local [small_entry 0]) @ [1, 2, 3]) \<rparr>"
  have "ds_read ?src = Inr (concat (map zip_local [small_entry 0]) @ [1, 2, 3])" by simp
  moreover have "list_all zip_entry_ok [small_entry 0]" "length (concat (map zip_local [small_entry 0])) < 2 ^ 32"
    by (simp_all add: zip_entry_ok_def small_entry_def)
  moreover have "no_header [1, 2, 3]" by (simp add: no_header_def)
  ultimately show ?thesis using zip_rebuild_readable [of ?src "[small_entry 0]" "[1, 2, 3]" sink_new] by blast
qed

end
