(* ===== verification/Tar_Strategies.thy ===== *)
theory Tar_Strategies
  imports Strategy_Base Resync_Tar
begin

text \<open>
  The TAR strategies: checksum fix and terminator append (\<open>strategies/tar_repair.rs\<close>), size
  boundary resync (\<open>tar_size_resync.rs\<close>), block reorder (\<open>tar_reorder.rs\<close>) and continuation
  salvage (\<open>tar_continuation_salvage.rs\<close>).
  Shown: the checksum fix touches only checksum fields, leaves every header it visits
  acceptable to the salvager and is idempotent; continuation salvage re-emits an archive
  that salvages to the same members; each strategy meets the strategy contract.
\<close>

section \<open>Checksum fix\<close>

text \<open>The first piece between NULs and spaces, which may be empty.\<close>

definition octal_field :: "bytes \<Rightarrow> nat option" where
  "octal_field field =
     (let s = takeWhile (\<lambda>b. \<not> is_octal_sep b) field in
      if s = [] then None else from_str_radix_8 s)"

definition ustar_checksum_compute :: "bytes \<Rightarrow> u32" where
  "ustar_checksum_compute block =
     (\<Sum>(i, b)\<leftarrow>enumerate 0 block. if 148 \<le> i \<and> i < 156 then 0x20 else ucast b)"

definition ustar_checksum_read :: "bytes \<Rightarrow> u32" where
  "ustar_checksum_read block =
     (case octal_field (cut block 148 156) of Some v \<Rightarrow> of_nat v | None \<Rightarrow> 0xFFFFFFFF)"

definition field_size :: "bytes \<Rightarrow> nat" where
  "field_size block = (case octal_field (cut block 124 136) of Some n \<Rightarrow> n | None \<Rightarrow> 0)"

function tar_fix_loop :: "nat \<Rightarrow> nat \<Rightarrow> bytes \<Rightarrow> nat \<Rightarrow> bytes \<times> nat" where
  "tar_fix_loop nblocks pos data fixed =
     (if pos < nblocks then
        (let off = pos * 512; block = cut data off (off + 512) in
         if list_all (\<lambda>b. b = 0) block then (data, fixed)
         else if cut block 257 262 \<noteq> ustar_magic then tar_fix_loop nblocks (pos + 1) data fixed
         else
           (let stored = ustar_checksum_read block;
                computed = ustar_checksum_compute block;
                (data1, fixed1) =
                  (if stored \<noteq> computed
                   then (overwrite data (off + 148)
                           (take 8 (format_octal 6 (unat computed) @ [0x20, 0])), fixed + 1)
                   else (data, fixed));
                size = field_size (cut data1 off (off + 512))
            in tar_fix_loop nblocks (pos + 1 + div_ceil size 512) data1 fixed1))
      else (data, fixed))"
  by pat_completeness auto
termination
  by (relation "measure (\<lambda>(nblocks, pos, _). nblocks - pos)") auto

declare tar_fix_loop.simps [simp del]

definition tar_checksum_fix_run :: "DataSource \<Rightarrow> DataSink \<Rightarrow> bytes \<Rightarrow> apply_result" where
  "tar_checksum_fix_run src output data0 =
     (let report = strategy_report ''tar-checksum-fix'';
          (data, fixed) = tar_fix_loop (length data0 div 512) 0 data0 0 in
      if fixed = 0 \<and> list_all (\<lambda>b. b = 0) data
      then applied_ok (report_warn (Msg ''no valid UStar headers found'' [])
             (report\<lparr> success := False \<rparr>)) output
      else applied_ok (report_warn (Msg ''fixed checksum in {fixed} TAR header block(s)'' [N fixed])
             (report\<lparr> bytes_recovered := length data, success := True \<rparr>))
             (sink_write output data))"

definition TarChecksumFix :: RecoveryStrategy where
  "TarChecksumFix =
     \<lparr> s_name = ''tar-checksum-fix'', s_technique = ''UstarChecksumFix'', s_risk = Safe,
       s_handles = (\<lambda>c. rule_id c = ''TAR_UST_001''),
       s_predicted_outcome = (\<lambda>c. Msg ''recompute and overwrite the UStar header checksum field'' []),
       s_can_apply = (\<lambda>r. archive_format r = Some Tar
         \<and> any_corruption (\<lambda>c. rule_id c = ''TAR_UST_001'') r),
       s_priority = 85,
       s_apply = (\<lambda>src output. with_data src (tar_checksum_fix_run src output)) \<rparr>"

section \<open>Terminator append\<close>

definition tar_terminator_append_run :: "DataSource \<Rightarrow> DataSink \<Rightarrow> bytes \<Rightarrow> apply_result" where
  "tar_terminator_append_run src output data =
     (let report = strategy_report ''tar-terminator-append'';
          already_terminated = (1024 \<le> length data
            \<and> list_all (\<lambda>b. b = 0) (drop (length data - 1024) data));
          output1 = sink_write output data in
      if already_terminated
      then applied_ok (report_warn (Msg ''archive already has a terminator; copied verbatim'' [])
             (report\<lparr> bytes_recovered := length data, success := True \<rparr>)) output1
      else applied_ok (report_warn (Msg ''appended 2x512 end-of-archive terminator blocks'' [])
             (report\<lparr> bytes_recovered := length data + 1024, success := True \<rparr>))
             (sink_write output1 (replicate 1024 0)))"

definition TarTerminatorAppend :: RecoveryStrategy where
  "TarTerminatorAppend =
     \<lparr> s_name = ''tar-terminator-append'', s_technique = ''TerminatorAppend'', s_risk = Safe,
       s_handles = (\<lambda>c. rule_id c = ''TAR_TERM_001''),
       s_predicted_outcome =
         (\<lambda>c. Msg ''append two 512-byte zero blocks (end-of-archive terminator)'' []),
       s_can_apply = (\<lambda>r. archive_format r = Some Tar
         \<and> any_corruption (\<lambda>c. rule_id c = ''TAR_TERM_001'' \<or> category c = Truncation) r),
       s_priority = 88,
       s_apply = (\<lambda>src output. with_data src (tar_terminator_append_run src output)) \<rparr>"

section \<open>Block reorder\<close>

definition tar_reorder_run :: "DataSource \<Rightarrow> DataSink \<Rightarrow> bytes \<Rightarrow> apply_result" where
  "tar_reorder_run src output bs =
     applied_ok (report_warn (Msg ''block reordering requires authoritative ordering metadata; staged readable blocks unchanged'' [])
       ((strategy_report ''tar-reorder'')\<lparr> bytes_recovered := length bs, success := False \<rparr>))
       (sink_write output bs)"

definition TarBlockReorder :: RecoveryStrategy where
  "TarBlockReorder =
     \<lparr> s_name = ''tar-reorder'', s_technique = ''BlockResequence'', s_risk = Safe,
       s_handles = (\<lambda>c. take 9 (rule_id c) = ''TAR_BLOCK''),
       s_predicted_outcome =
         (\<lambda>c. Msg ''stage individually-readable TAR blocks (reorder needs ordering metadata)'' []),
       s_can_apply = (\<lambda>r. archive_format r = Some Tar
         \<and> any_corruption (\<lambda>c. category c = BlockReorder) r),
       s_priority = 80,
       s_apply = (\<lambda>src output. with_data src (tar_reorder_run src output)) \<rparr>"

section \<open>Continuation salvage\<close>

definition tar_continuation_run :: "DataSource \<Rightarrow> DataSink \<Rightarrow> bytes \<Rightarrow> apply_result" where
  "tar_continuation_run src output data =
     (let report = strategy_report ''tar-continuation-salvage'';
          salvage = salvage_tar data in
      if members_verified salvage = 0
      then applied_ok (report_warn (Msg ''no TAR member could be checksum-verified; nothing salvaged (falling through)'' [])
             (report\<lparr> success := False \<rparr>)) output
      else
        (let out = concat (map (\<lambda>seg. case get_range data (source_offset seg) (source_end seg) of
                                        Some slc \<Rightarrow> slc | None \<Rightarrow> [])
                     (filter (\<lambda>s. seg_kind s = VerifiedTarMember) (segments salvage))) in
         if out = [] then applied_ok (report\<lparr> success := False \<rparr>) output
         else
           (let out1 = (if length out mod BLOCK \<noteq> 0
                        then out @ replicate (div_ceil (length out) BLOCK * BLOCK - length out) 0
                        else out);
                out2 = out1 @ replicate (2 * BLOCK) 0;
                kept = length out2
            in applied_ok (report_warn (Msg ''salvaged {} checksum-verified TAR member(s); re-emitted with a fresh terminator''
                   [N (members_verified salvage)])
                 (report\<lparr> bytes_recovered := kept, bytes_lost := length data - kept,
                          success := True \<rparr>))
               (sink_write output out2))))"

definition TarContinuationSalvage :: RecoveryStrategy where
  "TarContinuationSalvage =
     \<lparr> s_name = ''tar-continuation-salvage'', s_technique = ''TarContinuationSalvage'', s_risk = Lossy,
       s_handles = (\<lambda>c. rule_id c = ''TAR_UST_001'' \<or> rule_id c = ''TAR_TERM_001''),
       s_predicted_outcome =
         (\<lambda>c. Msg ''recover every ustar-checksum-verified TAR member (ignore-zeros + header resync) and re-emit them as a valid archive; drop unreadable members'' []),
       s_can_apply = (\<lambda>r. archive_format r = Some Tar \<and> corruptions r \<noteq> []),
       s_priority = 45,
       s_apply = (\<lambda>src output. with_data src (tar_continuation_run src output)) \<rparr>"

section \<open>Size boundary resync\<close>

definition is_ustar_header :: "bytes \<Rightarrow> bool" where
  "is_ustar_header block \<longleftrightarrow> \<not> length block < 265 \<and> \<not> list_all (\<lambda>b. b = 0) block
     \<and> cut block 257 262 = ustar_magic"

definition zero_block_at :: "bytes \<Rightarrow> nat \<Rightarrow> bool" where
  "zero_block_at data a = list_all (\<lambda>x. x = 0) (cut data a (a + BLOCK))"

definition find_end_of_archive :: "bytes \<Rightarrow> nat \<Rightarrow> nat" where
  "find_end_of_archive data nblocks =
     (case find (\<lambda>i. zero_block_at data (i * BLOCK) \<and> zero_block_at data ((i + 1) * BLOCK))
             [0..<nblocks - 1] of
        Some i \<Rightarrow> i * BLOCK
      | None \<Rightarrow> nblocks * BLOCK)"

definition ustar_checksum :: "bytes \<Rightarrow> u32" where
  "ustar_checksum block =
     (\<Sum>(i, b)\<leftarrow>enumerate 0 block. if 148 \<le> i \<and> i < 156 then 0x20 else ucast b)"

text \<open>
  The body of the emission loop for the header at \<open>hdr_off\<close> bounded by \<open>next_boundary\<close>:
  the header rewritten, its data blocks, and whether the size was corrected.
  \<open>hdr[124..136].copy_from_slice(..)\<close> panics when the size needs more than eleven digits.
\<close>

definition resync_entry :: "bytes \<Rightarrow> nat \<Rightarrow> nat \<Rightarrow> (bytes \<times> bool) outcome" where
  "resync_entry data hdr_off next_boundary =
     (let block = cut data hdr_off (hdr_off + BLOCK);
          stored_size = field_size block;
          max_data = next_boundary - (hdr_off + BLOCK);
          declared_data_blocks = div_ceil stored_size BLOCK;
          (true_size, true_data_blocks, corrected) =
            (if declared_data_blocks * BLOCK \<le> max_data
             then (stored_size, declared_data_blocks, False)
             else (max_data div BLOCK * BLOCK, max_data div BLOCK, True));
          size_str = format_octal 11 true_size @ [0] in
      if length size_str \<noteq> 12 then Panicked
      else
        (let hdr = overwrite block 124 size_str;
             hdr = overwrite hdr 148 (take 8 (format_octal 6 (unat (ustar_checksum hdr)) @ [0x20, 0]));
             data_start = hdr_off + BLOCK;
             data_end = min (data_start + true_data_blocks * BLOCK) (length data);
             pad = true_data_blocks * BLOCK - (data_end - data_start)
         in Returned (hdr @ cut data data_start data_end @ replicate pad 0, corrected)))"

fun resync_entries :: "bytes \<Rightarrow> nat \<Rightarrow> nat list \<Rightarrow> (bytes \<times> nat) outcome" where
  "resync_entries data eoa [] = Returned ([], 0)"
| "resync_entries data eoa (h # hs) =
     bind_outcome (resync_entry data h (case hs of [] \<Rightarrow> eoa | h' # _ \<Rightarrow> h')) (\<lambda>(bs, c).
     bind_outcome (resync_entries data eoa hs) (\<lambda>(out, corrected).
       Returned (bs @ out, (if c then 1 else 0) + corrected)))"

definition tar_size_resync_run :: "DataSource \<Rightarrow> DataSink \<Rightarrow> bytes \<Rightarrow> apply_result" where
  "tar_size_resync_run src output data =
     (let report = strategy_report ''tar-size-resync'';
          nblocks = length data div BLOCK;
          header_positions =
            filter (\<lambda>off. is_ustar_header (cut data off (off + BLOCK)))
              (map (\<lambda>i. i * BLOCK) [0..<nblocks]) in
      if header_positions = []
      then applied_ok (report_warn (Msg ''no UStar headers found; cannot resync'' [])
             (report\<lparr> success := False \<rparr>)) output
      else
        bind_outcome (resync_entries data (find_end_of_archive data nblocks) header_positions)
          (\<lambda>(entries, corrected).
             (let out = entries @ replicate 1024 0 in
              applied_ok (report_warn (Msg ''resynced {}/{} entries; corrected size field in {corrected}''
                   [N (length header_positions), N nblocks, N corrected])
                 (report\<lparr> bytes_recovered := length out, success := True \<rparr>))
               (sink_write output out))))"

definition TarSizeBoundaryResync :: RecoveryStrategy where
  "TarSizeBoundaryResync =
     \<lparr> s_name = ''tar-size-resync'', s_technique = ''SizeBoundaryResync'', s_risk = Inferred,
       s_handles = (\<lambda>c. rule_id c = ''TAR_SIZE_001'' \<or> category c = StructuralCorruption),
       s_predicted_outcome =
         (\<lambda>c. Msg ''scan 512-byte blocks for UStar magic, infer true sizes from header positions, rebuild archive with corrected size fields and checksums'' []),
       s_can_apply = (\<lambda>r. archive_format r = Some Tar
         \<and> any_corruption (\<lambda>c. rule_id c = ''TAR_SIZE_001'' \<or> rule_id c = ''TAR_UST_001''
              \<or> category c = StructuralCorruption) r),
       s_priority = 78,
       s_apply = (\<lambda>src output. with_data src (tar_size_resync_run src output)) \<rparr>"

section \<open>The contract\<close>

lemma tar_checksum_fix_body: "body_ok ''tar-checksum-fix'' tar_checksum_fix_run"
  by (rule body_okI) (auto simp: tar_checksum_fix_run_def Let_def split: prod.split)

lemma tar_terminator_append_body: "body_ok ''tar-terminator-append'' tar_terminator_append_run"
  by (rule body_okI) (auto simp: tar_terminator_append_run_def Let_def)

lemma tar_reorder_body: "body_ok ''tar-reorder'' tar_reorder_run"
  by (rule body_okI) (auto simp: tar_reorder_run_def)

lemma tar_continuation_body: "body_ok ''tar-continuation-salvage'' tar_continuation_run"
  by (rule body_okI) (auto simp: tar_continuation_run_def Let_def)

lemma tar_size_resync_body: "body_ok ''tar-size-resync'' tar_size_resync_run"
proof (rule body_okI, goal_cases)
  case (1 src sink bs)
  let ?hs = "filter (\<lambda>off. is_ustar_header (cut bs off (off + BLOCK)))
    (map (\<lambda>i. i * BLOCK) [0..<length bs div BLOCK])"
  show ?case
    by (cases "resync_entries bs (find_end_of_archive bs (length bs div BLOCK)) ?hs")
      (auto simp: tar_size_resync_run_def Let_def split: prod.split)
qed

interpretation tar_checksum_fix: recovery_strategy "s_name TarChecksumFix" "s_apply TarChecksumFix"
  by (rule strategy_of_body [of _ tar_checksum_fix_run]) (simp_all add: TarChecksumFix_def tar_checksum_fix_body)

interpretation tar_terminator: recovery_strategy "s_name TarTerminatorAppend" "s_apply TarTerminatorAppend"
  by (rule strategy_of_body [of _ tar_terminator_append_run])
    (simp_all add: TarTerminatorAppend_def tar_terminator_append_body)

interpretation tar_size_resync: recovery_strategy "s_name TarSizeBoundaryResync" "s_apply TarSizeBoundaryResync"
  by (rule strategy_of_body [of _ tar_size_resync_run])
    (simp_all add: TarSizeBoundaryResync_def tar_size_resync_body)

interpretation tar_continuation: recovery_strategy "s_name TarContinuationSalvage" "s_apply TarContinuationSalvage"
  by (rule strategy_of_body [of _ tar_continuation_run])
    (simp_all add: TarContinuationSalvage_def tar_continuation_body)

interpretation tar_reorder: verbatim_strategy "s_name TarBlockReorder" "s_apply TarBlockReorder"
proof (rule verbatim_strategy.intro)
  show "recovery_strategy (s_name TarBlockReorder) (s_apply TarBlockReorder)"
    by (rule strategy_of_body [of _ tar_reorder_run]) (simp_all add: TarBlockReorder_def tar_reorder_body)
  show "verbatim_strategy_axioms (s_apply TarBlockReorder)"
    by unfold_locales (simp add: TarBlockReorder_def tar_reorder_run_def applied_ok_def)
qed

section \<open>What the checksum fix does\<close>

text \<open>The header blocks the fix visits.\<close>

function tar_visited :: "nat \<Rightarrow> nat \<Rightarrow> bytes \<Rightarrow> nat list" where
  "tar_visited nblocks pos d =
     (if pos < nblocks then
        (let block = cut d (pos * 512) (pos * 512 + 512) in
         if list_all (\<lambda>b. b = 0) block then []
         else if cut block 257 262 \<noteq> ustar_magic then tar_visited nblocks (pos + 1) d
         else pos # tar_visited nblocks (pos + 1 + div_ceil (field_size block) 512) d)
      else [])"
  by pat_completeness auto
termination
  by (relation "measure (\<lambda>(nblocks, pos, _). nblocks - pos)") auto

declare tar_visited.simps [simp del]

lemma tar_visited_cong:
  "drop (pos * 512) d = drop (pos * 512) d' \<Longrightarrow> tar_visited nblocks pos d = tar_visited nblocks pos d'"
proof (induction nblocks pos d rule: tar_visited.induct)
  case (1 nblocks pos d)
  have b: "cut d (pos * 512) (pos * 512 + 512) = cut d' (pos * 512) (pos * 512 + 512)"
    by (rule cut_eq_drop [OF 1(3)]) simp
  have dr: "pos \<le> q \<Longrightarrow> drop (q * 512) d = drop (q * 512) d'" for q
    using 1(3) by (metis drop_drop le_add_diff_inverse2 mult_le_mono1)
  note 1(1) [OF _ refl _ _ dr] 1(2) [OF _ refl _ _ dr]
  with b show ?case
    by (simp add: tar_visited.simps [of nblocks pos d] tar_visited.simps [of nblocks pos d'] Let_def)
qed

lemma tar_visited_ge: "p \<in> set (tar_visited nblocks pos d) \<Longrightarrow> pos \<le> p \<and> p < nblocks"
proof (induction nblocks pos d rule: tar_visited.induct)
  case (1 nblocks pos d)
  then show ?case
    by (fastforce simp: tar_visited.simps [of nblocks pos d] Let_def split: if_splits)
qed

lemma tar_visited_header:
  "p \<in> set (tar_visited nblocks pos d) \<Longrightarrow> nblocks * 512 \<le> length d \<Longrightarrow>
    length (cut d (p * 512) (p * 512 + 512)) = 512
    \<and> cut (cut d (p * 512) (p * 512 + 512)) 257 262 = ustar_magic"
proof (induction nblocks pos d rule: tar_visited.induct)
  case (1 nblocks pos d)
  have "p < nblocks" using tar_visited_ge [OF 1(3)] by simp
  then have "(p + 1) * 512 \<le> nblocks * 512" by (intro mult_le_mono1) simp
  then have "p * 512 + 512 \<le> length d" using 1(4) by simp
  then have "length (cut d (p * 512) (p * 512 + 512)) = 512" by simp
  moreover have "cut (cut d (p * 512) (p * 512 + 512)) 257 262 = ustar_magic"
    using 1(1) [OF _ refl] 1(2) [OF _ refl] 1(3,4)
    by (auto simp: tar_visited.simps [of nblocks pos d] Let_def split: if_splits)
  ultimately show ?case by simp
qed

lemma ustar_checksum_eqs:
  "ustar_checksum_compute block = compute_checksum block" "ustar_checksum block = compute_checksum block"
  by (simp_all add: ustar_checksum_compute_def ustar_checksum_def compute_checksum_def)

lemma octal_of_octal_field: "octal_field f = Some v \<Longrightarrow> octal f = Some v"
proof -
  assume a: "octal_field f = Some v"
  then have "takeWhile (\<lambda>b. \<not> is_octal_sep b) f \<noteq> []"
    by (auto simp: octal_field_def Let_def)
  then have "dropWhile is_octal_sep f = f" by (cases f) (auto split: if_splits)
  with a show ?thesis by (simp add: octal_def octal_field_def Let_def split: if_splits)
qed

lemma octal_field_format:
  "n < 2 ^ 64 \<Longrightarrow> is_octal_sep t \<Longrightarrow> octal_field (format_octal w n @ t # rest) = Some n"
  using takeWhile_format_octal [of t w n rest]
  by (simp add: octal_field_def Let_def from_str_radix_format)

text \<open>A block whose stored checksum the fix reads back as the computed one.\<close>

definition checksum_agrees :: "bytes \<Rightarrow> bool" where
  "checksum_agrees block \<longleftrightarrow> ustar_checksum_read block = ustar_checksum_compute block"

definition tar_fix_block :: "bytes \<Rightarrow> bytes" where
  "tar_fix_block block = (if checksum_agrees block then block else seal 0x20 0 block)"

lemma checksum_agrees_seal:
  assumes "length block = 512"
  shows "checksum_agrees (seal 0x20 0 block)"
proof -
  have "unat (compute_checksum block) < 2 ^ 64" using checksum_bound [OF assms] by simp
  then have "octal_field (cut (seal 0x20 0 block) 148 156) = Some (unat (compute_checksum block))"
    using octal_field_format [of "unat (compute_checksum block)" "0x20" 6 "[0]"]
    by (simp add: seal_field [OF assms] is_octal_sep_def)
  then show ?thesis
    by (simp add: checksum_agrees_def ustar_checksum_read_def ustar_checksum_eqs seal_field [OF assms])
qed

lemma checksum_agrees_valid:
  assumes "length block = 512" "cut block 257 262 = ustar_magic" "checksum_agrees block"
  shows "valid_header block"
proof -
  have c: "unat (compute_checksum block) < 8 ^ 6" by (rule checksum_bound [OF assms(1)])
  have "unat (0xFFFFFFFF :: u32) = 4294967295" by simp
  with c have "compute_checksum block \<noteq> 0xFFFFFFFF" by auto
  with assms(3) obtain v where v: "octal_field (cut block 148 156) = Some v"
    "of_nat v = compute_checksum block"
    by (auto simp: checksum_agrees_def ustar_checksum_read_def ustar_checksum_eqs split: option.splits)
  have "block ! 257 = 0x75"
    using assms(1,2) nth_cut [of 0 262 257 block] by (simp add: ustar_magic_def)
  then have "\<not> list_all (\<lambda>b. b = 0) block"
    using assms(1) by (auto simp: list_all_length intro: exI [of _ 257])
  with assms(1,2) octal_of_octal_field [OF v(1)] v(2) show ?thesis
    by (simp add: valid_header_def get_range_def read_checksum_def)
qed

lemma tar_fix_block_props:
  assumes "length block = 512"
  shows "length (tar_fix_block block) = 512" "checksum_agrees (tar_fix_block block)"
    "cut (tar_fix_block block) 257 262 = cut block 257 262"
    "field_size (tar_fix_block block) = field_size block"
  using assms checksum_agrees_seal [OF assms] seal_field [OF assms]
  by (auto simp: tar_fix_block_def field_size_def)

lemma tar_fix_loop_header:
  assumes "pos < nblocks" "nblocks * 512 \<le> length d"
    "block = cut d (pos * 512) (pos * 512 + 512)" "\<not> list_all (\<lambda>b. b = 0) block"
    "cut block 257 262 = ustar_magic"
  shows "tar_fix_loop nblocks pos d k =
    tar_fix_loop nblocks (pos + 1 + div_ceil (field_size block) 512)
      (overwrite d (pos * 512) (tar_fix_block block)) (k + (if checksum_agrees block then 0 else 1))"
proof -
  have "(pos + 1) * 512 \<le> nblocks * 512" using assms(1) by (intro mult_le_mono1) simp
  then have fits: "pos * 512 + 512 \<le> length d" using assms(2) by simp
  have len: "length block = 512" using fits assms(3) by simp
  show ?thesis
  proof (cases "checksum_agrees block")
    case True
    moreover have "overwrite d (pos * 512) block = d"
      using overwrite_self [OF fits] assms(3) by simp
    ultimately show ?thesis
      using assms by (subst tar_fix_loop.simps)
        (simp add: Let_def tar_fix_block_def checksum_agrees_def)
  next
    case False
    let ?c = "take 8 (format_octal 6 (unat (compute_checksum block)) @ [0x20, 0])"
    have c8: "length ?c = 8"
      using checksum_bound [OF len] by (simp add: length_format_octal)
    then have "overwrite d (pos * 512 + 148) ?c = overwrite d (pos * 512) (tar_fix_block block)"
      using overwrite_inner [of 148 ?c 512 "pos * 512" d] fits False assms(3)
      by (simp add: tar_fix_block_def seal_def)
    moreover have "cut (overwrite d (pos * 512) (tar_fix_block block)) (pos * 512) (pos * 512 + 512)
        = tar_fix_block block"
      using fits tar_fix_block_props(1) [OF len] by (simp add: cut_overwrite_same)
    ultimately show ?thesis
      using assms False tar_fix_block_props(4) [OF len]
      by (subst tar_fix_loop.simps)
        (simp add: Let_def checksum_agrees_def ustar_checksum_eqs)
  qed
qed

text \<open>What the loop from \<open>pos\<close> on has established.\<close>

definition tar_fixed :: "nat \<Rightarrow> nat \<Rightarrow> bytes \<Rightarrow> bytes \<Rightarrow> bool" where
  "tar_fixed nblocks pos d d' \<longleftrightarrow>
     length d' = length d \<and> take (pos * 512) d' = take (pos * 512) d
   \<and> tar_visited nblocks pos d' = tar_visited nblocks pos d
   \<and> (\<forall>p\<in>set (tar_visited nblocks pos d).
        cut d' (p * 512) (p * 512 + 512) = tar_fix_block (cut d (p * 512) (p * 512 + 512)))
   \<and> (\<forall>i<length d. d' ! i \<noteq> d ! i \<longrightarrow>
        (\<exists>p\<in>set (tar_visited nblocks pos d). p * 512 + 148 \<le> i \<and> i < p * 512 + 156))"

lemma tar_fixed_refl: "tar_visited nblocks pos d = [] \<Longrightarrow> tar_fixed nblocks pos d d"
  by (simp add: tar_fixed_def)

lemma tar_fix_block_frame:
  assumes "length block = 512" "i < 512" "tar_fix_block block ! i \<noteq> block ! i"
  shows "148 \<le> i \<and> i < 156"
proof (rule ccontr)
  have "length (format_octal 6 (unat (compute_checksum block))) = 6"
    using checksum_bound [OF assms(1)] by (simp add: length_format_octal)
  moreover assume "\<not> (148 \<le> i \<and> i < 156)"
  ultimately have "seal 0x20 0 block ! i = block ! i"
    using assms(1,2) by (auto simp: seal_def nth_overwrite)
  with assms(3) show False by (simp add: tar_fix_block_def split: if_splits)
qed

lemma tar_fixed_header:
  assumes b: "block = cut d (pos * 512) (pos * 512 + 512)" and pos: "pos < nblocks"
    and fits: "pos * 512 + 512 \<le> length d" and nz: "\<not> list_all (\<lambda>b. b = 0) block"
    and mg: "cut block 257 262 = ustar_magic"
    and q: "q = pos + 1 + div_ceil (field_size block) 512"
    and rest: "tar_fixed nblocks q (overwrite d (pos * 512) (tar_fix_block block)) d'"
  shows "tar_fixed nblocks pos d d'"
proof -
  let ?f = "tar_fix_block block" and ?d1 = "overwrite d (pos * 512) (tar_fix_block block)"
  have len: "length block = 512" using fits b by simp
  note fb = tar_fix_block_props [OF len]
  have l1: "length ?d1 = length d" using fits fb(1) by simp
  have q512: "pos * 512 + 512 \<le> q * 512" using q by simp
  have drop1: "drop (q * 512) ?d1 = drop (q * 512) d"
    using fits fb(1) q512 by (simp add: drop_overwrite)
  then have vis1: "tar_visited nblocks q ?d1 = tar_visited nblocks q d" by (rule tar_visited_cong)
  have tk: "take (q * 512) d' = take (q * 512) ?d1" and ln: "length d' = length d"
    using rest l1 by (simp_all add: tar_fixed_def)
  have "cut d' (pos * 512) (pos * 512 + 512) = cut ?d1 (pos * 512) (pos * 512 + 512)"
    by (rule cut_eq_take [OF tk q512])
  then have blk: "cut d' (pos * 512) (pos * 512 + 512) = ?f"
    using fits fb(1) by (simp add: cut_overwrite_same)
  have f0: "\<not> list_all (\<lambda>b. b = 0) ?f"
    using checksum_agrees_valid [OF fb(1) _ fb(2)] fb(3) mg by (simp add: valid_header_def)
  have vis: "tar_visited nblocks pos d = pos # tar_visited nblocks q d"
    using pos nz mg b q by (simp add: tar_visited.simps [of nblocks pos d] Let_def)
  have vis': "tar_visited nblocks pos d' = pos # tar_visited nblocks q d'"
    using pos f0 fb(3,4) mg blk q by (simp add: tar_visited.simps [of nblocks pos d'] Let_def)
  have "take (pos * 512) d' = take (pos * 512) ?d1"
    by (rule take_eq_mono [OF tk]) (use q512 in simp)
  then have pre: "take (pos * 512) d' = take (pos * 512) d"
    using fits by (simp add: take_overwrite)
  have blocks: "cut d' (p * 512) (p * 512 + 512) = tar_fix_block (cut d (p * 512) (p * 512 + 512))"
    if "p \<in> set (tar_visited nblocks q d)" for p
  proof -
    have "q \<le> p" using tar_visited_ge [OF that] by simp
    then have "cut ?d1 (p * 512) (p * 512 + 512) = cut d (p * 512) (p * 512 + 512)"
      by (intro cut_eq_drop [OF drop1]) simp
    then show ?thesis using rest that vis1 by (simp add: tar_fixed_def)
  qed
  have frame: "\<exists>p\<in>set (tar_visited nblocks pos d). p * 512 + 148 \<le> i \<and> i < p * 512 + 156"
    if i: "i < length d" "d' ! i \<noteq> d ! i" for i
  proof (cases "d' ! i = ?d1 ! i")
    case False
    then show ?thesis using rest i(1) l1 vis vis1 by (auto simp: tar_fixed_def)
  next
    case True
    then have ne: "?d1 ! i \<noteq> d ! i" using i(2) by simp
    then have r: "pos * 512 \<le> i" "i < pos * 512 + 512" "?f ! (i - pos * 512) \<noteq> d ! i"
      using fits fb(1) by (auto simp: nth_overwrite split: if_splits)
    then have "?f ! (i - pos * 512) \<noteq> block ! (i - pos * 512)"
      using b fits by (simp add: nth_cut)
    then have "148 \<le> i - pos * 512 \<and> i - pos * 512 < 156"
      using tar_fix_block_frame [OF len, of "i - pos * 512"] r by simp
    then show ?thesis using vis r by auto
  qed
  show ?thesis
    unfolding tar_fixed_def
    using ln pre vis vis' rest vis1 blk b blocks frame by (auto simp: tar_fixed_def)
qed

lemma tar_fixed_skip:
  assumes rest: "tar_fixed nblocks (pos + 1) d d'" and pos: "pos < nblocks"
    and other: "\<not> list_all (\<lambda>b. b = 0) (cut d (pos * 512) (pos * 512 + 512))"
      "cut (cut d (pos * 512) (pos * 512 + 512)) 257 262 \<noteq> ustar_magic"
    and fits: "pos * 512 + 512 \<le> length d"
  shows "tar_fixed nblocks pos d d'"
proof -
  have tk: "take ((pos + 1) * 512) d' = take ((pos + 1) * 512) d" using rest by (simp add: tar_fixed_def)
  then have blk: "cut d' (pos * 512) (pos * 512 + 512) = cut d (pos * 512) (pos * 512 + 512)"
    by (rule cut_eq_take) simp
  have "take (pos * 512) d' = take (pos * 512) d"
    by (rule take_eq_mono [OF tk]) simp
  moreover have "tar_visited nblocks pos d = tar_visited nblocks (pos + 1) d"
    "tar_visited nblocks pos d' = tar_visited nblocks (pos + 1) d'"
    using other pos blk
    by (simp_all add: tar_visited.simps [of nblocks pos d] tar_visited.simps [of nblocks pos d'] Let_def)
  ultimately show ?thesis using rest by (simp add: tar_fixed_def)
qed

lemma tar_fix_loop_fixed:
  "nblocks * 512 \<le> length d \<Longrightarrow> tar_fixed nblocks pos d (fst (tar_fix_loop nblocks pos d k))"
proof (induction "nblocks - pos" arbitrary: pos d k rule: less_induct)
  case less
  let ?b = "cut d (pos * 512) (pos * 512 + 512)"
  show ?case
  proof (cases "pos < nblocks")
    case False
    then show ?thesis
      by (simp add: tar_fix_loop.simps [of nblocks pos] tar_fixed_refl tar_visited.simps [of nblocks pos d])
  next
    case pos: True
    then have "(pos + 1) * 512 \<le> nblocks * 512" by (intro mult_le_mono1) simp
    then have fits: "pos * 512 + 512 \<le> length d" using less.prems by simp
    consider (zero) "list_all (\<lambda>b. b = 0) ?b"
      | (other) "\<not> list_all (\<lambda>b. b = 0) ?b" "cut ?b 257 262 \<noteq> ustar_magic"
      | (hdr) "\<not> list_all (\<lambda>b. b = 0) ?b" "cut ?b 257 262 = ustar_magic"
      by blast
    then show ?thesis
    proof cases
      case zero
      with pos show ?thesis
        by (simp add: tar_fix_loop.simps [of nblocks pos] tar_fixed_refl tar_visited.simps [of nblocks pos d] Let_def)
    next
      case other
      have rest: "tar_fixed nblocks (pos + 1) d (fst (tar_fix_loop nblocks (pos + 1) d k))"
        using less.hyps [of "pos + 1" d k] pos less.prems by simp
      have step: "tar_fix_loop nblocks pos d k = tar_fix_loop nblocks (pos + 1) d k"
        "tar_visited nblocks pos d = tar_visited nblocks (pos + 1) d"
        using other pos
        by (simp_all add: tar_fix_loop.simps [of nblocks pos] tar_visited.simps [of nblocks pos d] Let_def)
      show ?thesis using tar_fixed_skip [OF rest pos other fits] step by simp
    next
      case hdr
      have "length (tar_fix_block ?b) = 512" using fits tar_fix_block_props(1) [of ?b] by simp
      then have "tar_fixed nblocks (pos + 1 + div_ceil (field_size ?b) 512)
          (overwrite d (pos * 512) (tar_fix_block ?b))
          (fst (tar_fix_loop nblocks pos d k))"
        using less.hyps [of "pos + 1 + div_ceil (field_size ?b) 512"
            "overwrite d (pos * 512) (tar_fix_block ?b)"] pos less.prems fits
          tar_fix_loop_header [OF pos less.prems refl hdr]
        by simp
      then show ?thesis by (rule tar_fixed_header [OF refl pos fits hdr refl])
    qed
  qed
qed

text \<open>The loop counts its rewrites: a count that has not moved means untouched data.\<close>

lemma tar_fix_loop_count:
  "nblocks * 512 \<le> length d \<Longrightarrow> k \<le> snd (tar_fix_loop nblocks pos d k)
    \<and> (snd (tar_fix_loop nblocks pos d k) = k \<longrightarrow> fst (tar_fix_loop nblocks pos d k) = d)"
proof (induction "nblocks - pos" arbitrary: pos d k rule: less_induct)
  case less
  let ?b = "cut d (pos * 512) (pos * 512 + 512)"
  show ?case
  proof (cases "pos < nblocks \<and> \<not> list_all (\<lambda>b. b = 0) ?b")
    case False
    then show ?thesis by (auto simp: tar_fix_loop.simps [of nblocks pos] Let_def)
  next
    case True
    then have "(pos + 1) * 512 \<le> nblocks * 512" by (intro mult_le_mono1) simp
    then have fits: "pos * 512 + 512 \<le> length d" using less.prems by simp
    show ?thesis
    proof (cases "cut ?b 257 262 = ustar_magic")
      case False
      have "nblocks - (pos + 1) < nblocks - pos" using True by linarith
      with False True less.hyps [of "pos + 1" d k] less.prems show ?thesis
        by (simp add: tar_fix_loop.simps [of nblocks pos] Let_def)
    next
      case mg: True
      let ?d1 = "overwrite d (pos * 512) (tar_fix_block ?b)"
      have "length (tar_fix_block ?b) = 512" using fits tar_fix_block_props(1) [of ?b] by simp
      then have "length ?d1 = length d" using fits by simp
      moreover have "?d1 = d" if "checksum_agrees ?b"
        using that overwrite_self [OF fits] by (simp add: tar_fix_block_def)
      moreover have "nblocks - (pos + 1 + div_ceil (field_size ?b) 512) < nblocks - pos"
        using True by linarith
      moreover note tar_fix_loop_header [of pos nblocks d ?b k]
      ultimately show ?thesis
        using True mg less.prems less.hyps [of "pos + 1 + div_ceil (field_size ?b) 512" ?d1
            "k + (if checksum_agrees ?b then 0 else 1)"]
        by (auto split: if_splits)
    qed
  qed
qed

lemma tar_fix_loop_agreeing:
  "nblocks * 512 \<le> length d \<Longrightarrow>
    list_all (\<lambda>p. checksum_agrees (cut d (p * 512) (p * 512 + 512))) (tar_visited nblocks pos d)
    \<Longrightarrow> tar_fix_loop nblocks pos d k = (d, k)"
proof (induction nblocks pos d rule: tar_visited.induct)
  case (1 nblocks pos d)
  let ?b = "cut d (pos * 512) (pos * 512 + 512)"
  show ?case
  proof (cases "pos < nblocks \<and> \<not> list_all (\<lambda>b. b = 0) ?b")
    case False
    then show ?thesis by (auto simp: tar_fix_loop.simps [of nblocks pos] Let_def)
  next
    case True
    then have "(pos + 1) * 512 \<le> nblocks * 512" by (intro mult_le_mono1) simp
    then have fits: "pos * 512 + 512 \<le> length d" using 1(3) by simp
    show ?thesis
    proof (cases "cut ?b 257 262 = ustar_magic")
      case False
      with True 1(1) [OF _ refl _ False] 1(3,4) show ?thesis
        by (simp add: tar_fix_loop.simps [of nblocks pos] tar_visited.simps [of nblocks pos d] Let_def)
    next
      case mg: True
      have ag: "checksum_agrees ?b" and
        rest: "list_all (\<lambda>p. checksum_agrees (cut d (p * 512) (p * 512 + 512)))
          (tar_visited nblocks (pos + 1 + div_ceil (field_size ?b) 512) d)"
        using True mg 1(4) by (simp_all add: tar_visited.simps [of nblocks pos d] Let_def)
      have "overwrite d (pos * 512) (tar_fix_block ?b) = d"
        using ag overwrite_self [OF fits] by (simp add: tar_fix_block_def)
      then show ?thesis
        using tar_fix_loop_header [of pos nblocks d ?b k] True mg 1(2) [OF _ refl _ _ 1(3) rest] 1(3) ag
        by simp
    qed
  qed
qed

lemma tar_checksum_fix_staged:
  assumes "ds_read src = Inr d" "\<not> list_all (\<lambda>b. b = 0) d"
    "d' = fst (tar_fix_loop (length d div 512) 0 d 0)"
  shows "\<exists>rep. s_apply TarChecksumFix src sink_new = Returned (Inr (rep, sink_write sink_new d'))
    \<and> success rep"
proof -
  obtain k where l: "tar_fix_loop (length d div 512) 0 d 0 = (d', k)"
    using assms(3) by (metis prod.collapse)
  have "k = 0 \<Longrightarrow> d' = d"
    using tar_fix_loop_count [of "length d div 512" d 0 0] l by simp
  then have "\<not> (k = 0 \<and> list_all (\<lambda>b. b = 0) d')" using assms(2) by auto
  with assms(1) l show ?thesis
    by (auto simp: TarChecksumFix_def tar_checksum_fix_run_def applied_ok_def Let_def)
qed

text \<open>
  C24. The TAR checksum fix, on any input that is not all zero, stages an output of the same
  length that differs from the input only inside checksum fields (bytes 148 to 155 of a
  512-byte block); every header it visits is one the salvager accepts; and running the fix
  again on its output changes nothing.
\<close>

theorem tar_checksum_fix_correct:
  assumes "ds_read src = Inr d" "\<not> list_all (\<lambda>b. b = 0) d"
  shows "\<exists>rep d'. s_apply TarChecksumFix src sink_new = Returned (Inr (rep, sink_write sink_new d'))
    \<and> success rep \<and> length d' = length d
    \<and> (\<forall>i<length d. d' ! i \<noteq> d ! i \<longrightarrow> 148 \<le> i mod 512 \<and> i mod 512 < 156)
    \<and> list_all (\<lambda>p. valid_header (cut d' (p * 512) (p * 512 + 512)))
        (tar_visited (length d div 512) 0 d)
    \<and> tar_fix_loop (length d' div 512) 0 d' 0 = (d', 0)"
proof -
  let ?nb = "length d div 512"
  define d' where "d' = fst (tar_fix_loop ?nb 0 d 0)"
  have nb: "?nb * 512 \<le> length d" by simp
  have fx: "tar_fixed ?nb 0 d d'" unfolding d'_def by (rule tar_fix_loop_fixed [OF nb])
  have len: "length (cut d (p * 512) (p * 512 + 512)) = 512"
    and mg: "cut (cut d (p * 512) (p * 512 + 512)) 257 262 = ustar_magic"
    if "p \<in> set (tar_visited ?nb 0 d)" for p
    using tar_visited_header [OF that nb] by auto
  have ok: "checksum_agrees (cut d' (p * 512) (p * 512 + 512))
      \<and> valid_header (cut d' (p * 512) (p * 512 + 512))"
    if "p \<in> set (tar_visited ?nb 0 d)" for p
    using fx that checksum_agrees_valid tar_fix_block_props [OF len [OF that]] mg [OF that]
    by (simp add: tar_fixed_def)
  have frame: "148 \<le> i mod 512 \<and> i mod 512 < 156" if "i < length d" "d' ! i \<noteq> d ! i" for i
  proof -
    have "\<exists>p. p * 512 + 148 \<le> i \<and> i < p * 512 + 156"
      using fx that unfolding tar_fixed_def by blast
    then obtain p where p: "p * 512 + 148 \<le> i" "i < p * 512 + 156" by blast
    then have "i = (i - p * 512) + p * 512" "i - p * 512 < 512" by simp_all
    then have "i mod 512 = i - p * 512" by (metis mod_less mod_mult_self1)
    with p show ?thesis by linarith
  qed
  have "tar_fix_loop (length d' div 512) 0 d' 0 = (d', 0)"
    using fx ok tar_fix_loop_agreeing [of ?nb d' 0 0] by (simp add: tar_fixed_def list_all_iff)
  with tar_checksum_fix_staged [OF assms d'_def] fx ok frame show ?thesis
    by (auto simp: tar_fixed_def list_all_iff)
qed

theorem tar_checksum_fix_correct_witness:
  "\<exists>rep d'. s_apply TarChecksumFix \<lparr> ds_path = ''a.tar'', ds_len = 600, ds_read = Inr (1 # replicate 599 0) \<rparr> sink_new
      = Returned (Inr (rep, sink_write sink_new d')) \<and> length d' = 600"
  using tar_checksum_fix_correct
    [of "\<lparr> ds_path = ''a.tar'', ds_len = 600, ds_read = Inr (1 # replicate 599 0) \<rparr>" "1 # replicate 599 0"]
  by auto

section \<open>Continuation salvage re-emits the same members\<close>

text \<open>The item a reported segment stands for in the re-emitted stream.\<close>

definition segment_item :: "bytes \<Rightarrow> Segment \<Rightarrow> tar_item" where
  "segment_item d s =
     (let off = source_offset s; h = cut d off (off + BLOCK); n = tar_size h in
      Member h (seg_bytes s)
        (cut d (off + BLOCK + n) (source_end s)
         @ replicate (off + BLOCK + div_ceil n BLOCK * BLOCK - source_end s) 0))"

lemma segment_item_ok:
  assumes "tar_segment_ok d s"
  shows "item_ok (segment_item d s)" "item_members (segment_item d s) = [segment_member s]"
    "item_bytes (segment_item d s) = cut d (source_offset s) (source_end s)
      @ replicate (source_offset s + BLOCK + div_ceil (tar_size (cut d (source_offset s) (source_offset s + BLOCK))) BLOCK * BLOCK - source_end s) 0"
proof -
  let ?o = "source_offset s"
  let ?h = "cut d ?o (?o + BLOCK)"
  let ?n = "tar_size ?h" and ?e = "source_end s"
  have a: "?o + BLOCK + ?n \<le> length d" "valid_header ?h" "seg_name s = Some (read_name ?h)"
    "seg_bytes s = cut d (?o + BLOCK) (?o + BLOCK + ?n)"
    "?e = min (?o + BLOCK + div_ceil ?n BLOCK * BLOCK) (length d)"
    using assms by (simp_all add: tar_segment_ok_def Let_def)
  have ge: "?n \<le> div_ceil ?n BLOCK * BLOCK" by (rule div_ceil_mult_ge) (simp add: BLOCK_def)
  have le: "?o + BLOCK + ?n \<le> ?e" "?e \<le> length d" using a(1,5) ge by auto
  have up: "?e \<le> ?o + BLOCK + div_ceil ?n BLOCK * BLOCK" using a(5) by simp
  have lens: "length ?h = BLOCK" "length (seg_bytes s) = ?n"
    "length (cut d (?o + BLOCK + ?n) ?e) = ?e - (?o + BLOCK + ?n)"
    using a(1,4) le by simp_all
  have "?n + (?e - (?o + BLOCK + ?n) + (?o + BLOCK + div_ceil ?n BLOCK * BLOCK - ?e))
      = div_ceil ?n BLOCK * BLOCK"
    using le(1) up by linarith
  then show "item_ok (segment_item d s)"
    using a(2) lens by (simp add: segment_item_def Let_def del: length_cut)
  show "item_members (segment_item d s) = [segment_member s]"
    using a by (simp add: segment_item_def Let_def segment_member_def)
  have "cut d ?o ?e = ?h @ seg_bytes s @ cut d (?o + BLOCK + ?n) ?e"
    using le a(4) by (simp add: cut_concat)
  then show "item_bytes (segment_item d s) = cut d ?o ?e
      @ replicate (?o + BLOCK + div_ceil ?n BLOCK * BLOCK - ?e) 0"
    by (simp add: segment_item_def Let_def)
qed

definition segment_slice :: "bytes \<Rightarrow> Segment \<Rightarrow> bytes" where
  "segment_slice d s = cut d (source_offset s) (source_end s)"

lemma segment_bounds:
  assumes "tar_segment_ok d s"
  shows "source_offset s + BLOCK \<le> source_end s" "source_end s \<le> length d"
proof -
  let ?n = "tar_size (cut d (source_offset s) (source_offset s + BLOCK))"
  have a: "source_offset s + BLOCK + ?n \<le> length d"
    "source_end s = min (source_offset s + BLOCK + div_ceil ?n BLOCK * BLOCK) (length d)"
    using assms by (simp_all add: tar_segment_ok_def Let_def)
  then show "source_offset s + BLOCK \<le> source_end s" "source_end s \<le> length d" by simp_all
qed

lemma segment_slice_padded:
  assumes "tar_segment_ok d s"
  shows "\<exists>k<BLOCK. segment_slice d s @ replicate k 0 = item_bytes (segment_item d s)
    \<and> (source_end s < length d \<longrightarrow> k = 0)"
proof -
  let ?n = "tar_size (cut d (source_offset s) (source_offset s + BLOCK))"
  let ?f = "source_offset s + BLOCK + div_ceil ?n BLOCK * BLOCK"
  have a: "source_offset s + BLOCK + ?n \<le> length d" "source_end s = min ?f (length d)"
    using assms by (simp_all add: tar_segment_ok_def Let_def)
  have "div_ceil ?n BLOCK * BLOCK < ?n + BLOCK" by (rule div_ceil_mult_less) (simp add: BLOCK_def)
  then have "?f - source_end s < BLOCK" using a by (auto simp: min_def BLOCK_def)
  moreover have "source_end s < length d \<longrightarrow> ?f - source_end s = 0" using a by (auto simp: min_def)
  ultimately show ?thesis using segment_item_ok(3) [OF assms] by (auto simp: segment_slice_def)
qed

lemma segment_slices_padded:
  "list_all (tar_segment_ok d) ss \<Longrightarrow> spans_within lo (length d) (map tar_span ss) \<Longrightarrow>
    \<exists>k<BLOCK. concat (map (segment_slice d) ss) @ replicate k 0
      = concat (map (\<lambda>s. item_bytes (segment_item d s)) ss)"
proof (induction ss arbitrary: lo)
  case Nil
  then show ?case by (auto simp: BLOCK_def)
next
  case (Cons s ss)
  then have ok: "tar_segment_ok d s" by simp
  obtain k where k: "k < BLOCK" "segment_slice d s @ replicate k 0 = item_bytes (segment_item d s)"
    "source_end s < length d \<longrightarrow> k = 0"
    using segment_slice_padded [OF ok] by blast
  show ?case
  proof (cases ss)
    case Nil
    with k show ?thesis by auto
  next
    case (Cons t ts)
    then have "source_end s \<le> source_offset t" "tar_segment_ok d t"
      using Cons.prems by (simp_all add: tar_span_def)
    then have "source_end s < length d"
      using segment_bounds [of d t] by (simp add: BLOCK_def)
    then have "segment_slice d s = item_bytes (segment_item d s)" using k by simp
    moreover obtain k' where "k' < BLOCK" "concat (map (segment_slice d) ss) @ replicate k' 0
      = concat (map (\<lambda>s. item_bytes (segment_item d s)) ss)"
      using Cons.IH [of "source_end s"] Cons.prems by (auto simp: tar_span_def [of s])
    ultimately show ?thesis by (intro exI [of _ k']) simp
  qed
qed

lemma item_bytes_aligned: "item_ok it \<Longrightarrow> BLOCK dvd length (item_bytes it)"
  by (cases it) (auto simp: BLOCK_def)

lemma items_aligned: "list_all item_ok items \<Longrightarrow> BLOCK dvd length (concat (map item_bytes items))"
proof (induction items)
  case (Cons it items)
  then show ?case using item_bytes_aligned [of it] by simp
qed simp

text \<open>Padding to the block boundary supplies exactly the missing tail.\<close>

lemma pad_to_block:
  assumes "k < BLOCK" "BLOCK dvd length (xs @ replicate k (0 :: u8))"
  shows "(if length xs mod BLOCK \<noteq> 0
    then xs @ replicate (div_ceil (length xs) BLOCK * BLOCK - length xs) 0 else xs)
    = xs @ replicate k 0"
proof -
  obtain m where m: "length xs + k = m * BLOCK" using assms(2) by (metis dvdE length_append length_replicate mult.commute)
  show ?thesis
  proof (cases "k = 0")
    case True
    then show ?thesis using m by simp
  next
    case False
    have "0 < m" using m False by (cases m) auto
    then obtain j where j: "m = Suc j" by (cases m) auto
    then have len: "length xs = j * BLOCK + (BLOCK - k)" using m assms(1) by simp
    have "length xs mod BLOCK = (BLOCK - k) mod BLOCK" unfolding len by (rule mod_mult_self3)
    then have "length xs mod BLOCK = BLOCK - k" using False assms(1) by simp
    moreover have "div_ceil (length xs) BLOCK = m"
    proof -
      have "length xs + BLOCK - 1 = m * BLOCK + (BLOCK - 1 - k)"
        using m assms(1) by (simp add: BLOCK_def)
      moreover have "(m * BLOCK + (BLOCK - 1 - k)) div BLOCK = m"
        using div_mult_self3 [of BLOCK m "BLOCK - 1 - k"] assms(1) by (simp add: BLOCK_def)
      ultimately show ?thesis by (simp add: div_ceil_def)
    qed
    ultimately show ?thesis using m False assms(1) by simp
  qed
qed

lemma continuation_slices:
  assumes "list_all (tar_segment_ok d) ss"
  shows "concat (map (\<lambda>seg. case get_range d (source_offset seg) (source_end seg) of
      Some slc \<Rightarrow> slc | None \<Rightarrow> []) (filter (\<lambda>s. seg_kind s = VerifiedTarMember) ss))
    = concat (map (segment_slice d) ss)"
  using assms
proof (induction ss)
  case (Cons s ss)
  then have "seg_kind s = VerifiedTarMember" "get_range d (source_offset s) (source_end s) = Some (segment_slice d s)"
    using segment_bounds [of d s]
    by (auto simp: tar_segment_ok_def Let_def get_range_def segment_slice_def)
  with Cons show ?case by simp
qed simp

lemma reemitted_members:
  assumes "list_all (tar_segment_ok d) ss"
  shows "map segment_member (segments (salvage_tar
      (concat (map item_bytes (map (segment_item d) ss)) @ replicate (2 * BLOCK) 0)))
    = map segment_member ss"
proof -
  let ?z = "replicate BLOCK 0 :: bytes" and ?items = "map (segment_item d) ss"
  have "list_all item_ok (?items @ [Junk ?z, Junk ?z])"
    using assms segment_item_ok(1) by (auto simp: list_all_iff valid_header_def)
  moreover have "concat (map item_bytes ?items) @ replicate (2 * BLOCK) 0
      = concat (map item_bytes (?items @ [Junk ?z, Junk ?z])) @ []"
    by (simp add: mult_2 replicate_add)
  ultimately have "map segment_member (segments (salvage_tar
      (concat (map item_bytes ?items) @ replicate (2 * BLOCK) 0)))
    = concat (map item_members (?items @ [Junk ?z, Junk ?z]))"
    using salvage_tar_items [of "?items @ [Junk ?z, Junk ?z]" "[]"] by (simp add: BLOCK_def)
  also have "\<dots> = map segment_member ss"
    using assms segment_item_ok(2) [of d] by (induction ss) auto
  finally show ?thesis .
qed

lemma continuation_members:
  assumes "segments (salvage_tar d) \<noteq> []" "ds_read src = Inr d"
  shows "\<exists>out rep. s_apply TarContinuationSalvage src sink_new
      = Returned (Inr (rep, sink_write sink_new out)) \<and> success rep
    \<and> map segment_member (segments (salvage_tar out)) = map segment_member (segments (salvage_tar d))"
proof -
  let ?ss = "segments (salvage_tar d)"
  let ?items = "map (segment_item d) ?ss" and ?sl = "concat (map (segment_slice d) ?ss)"
  have ok: "list_all (tar_segment_ok d) ?ss" by (rule salvage_tar_all_ok)
  have sp: "spans_within 0 (length d) (map tar_span ?ss)"
    by (simp add: salvage_tar_segments tar_segments_spans)
  obtain k where k: "k < BLOCK" "?sl @ replicate k 0 = concat (map item_bytes ?items)"
    using segment_slices_padded [OF ok sp] by (auto simp: o_def)
  have al: "BLOCK dvd length (?sl @ replicate k (0 :: u8))"
    unfolding k(2) using ok segment_item_ok(1) by (intro items_aligned) (simp add: list_all_iff)
  obtain s ts where s: "?ss = s # ts" using assms(1) by (cases ?ss) auto
  then have "segment_slice d s \<noteq> []"
    using ok segment_bounds [of d s] by (auto simp: segment_slice_def cut_def BLOCK_def)
  with s have ne: "?sl \<noteq> []" by simp
  have mv: "members_verified (salvage_tar d) \<noteq> 0"
    using assms by (simp add: members_verified_salvage_tar)
  have "\<exists>rep. s_apply TarContinuationSalvage src sink_new
      = Returned (Inr (rep, sink_write sink_new (concat (map item_bytes ?items) @ replicate (2 * BLOCK) 0)))
      \<and> success rep"
    using assms(2) mv ne continuation_slices [OF ok] pad_to_block [OF k(1) al] k(2)
    by (auto simp: TarContinuationSalvage_def tar_continuation_run_def applied_ok_def Let_def)
  with reemitted_members [OF ok] show ?thesis by blast
qed

text \<open>
  TAR continuation salvage re-emits what it found: when the salvager finds at least one
  member, the strategy succeeds and the archive it stages, salvaged again, yields exactly
  the same member names and contents; when it finds none, it stages nothing and reports
  failure, so the engine falls through.
\<close>

theorem tar_continuation_preserves_members:
  assumes "ds_read src = Inr d"
  shows "if segments (salvage_tar d) = []
    then \<exists>rep. s_apply TarContinuationSalvage src sink_new = Returned (Inr (rep, sink_new)) \<and> \<not> success rep
    else \<exists>out rep. s_apply TarContinuationSalvage src sink_new
        = Returned (Inr (rep, sink_write sink_new out)) \<and> success rep
      \<and> map segment_member (segments (salvage_tar out)) = map segment_member (segments (salvage_tar d))"
proof (cases "segments (salvage_tar d) = []")
  case True
  with assms show ?thesis
    by (simp add: members_verified_salvage_tar TarContinuationSalvage_def tar_continuation_run_def
        applied_ok_def Let_def)
next
  case False
  with continuation_members [OF False assms] show ?thesis by simp
qed

theorem tar_continuation_preserves_members_witness:
  "if segments (salvage_tar (tar_archive [(''a'', [1])])) = []
    then \<exists>rep. s_apply TarContinuationSalvage
        \<lparr> ds_path = ''x'', ds_len = 0, ds_read = Inr (tar_archive [(''a'', [1])]) \<rparr> sink_new
        = Returned (Inr (rep, sink_new)) \<and> \<not> success rep
    else \<exists>out rep. s_apply TarContinuationSalvage
        \<lparr> ds_path = ''x'', ds_len = 0, ds_read = Inr (tar_archive [(''a'', [1])]) \<rparr> sink_new
        = Returned (Inr (rep, sink_write sink_new out)) \<and> success rep
      \<and> map segment_member (segments (salvage_tar out))
        = map segment_member (segments (salvage_tar (tar_archive [(''a'', [1])])))"
  by (rule tar_continuation_preserves_members) simp

section \<open>Size boundary resync\<close>

text \<open>The rebuilt entry is a member the salvager accepts.\<close>

lemma rebuilt_header:
  assumes "length block = 512" "cut block 257 262 = ustar_magic" "n < 8 ^ 11"
    "hdr = overwrite block 124 (format_octal 11 n @ [0])"
  shows "length (seal 0x20 0 hdr) = BLOCK" "valid_header (seal 0x20 0 hdr)"
    "tar_size (seal 0x20 0 hdr) = n"
proof -
  have f: "length (format_octal 11 n @ [0]) = 12"
    using assms(3) by (simp add: length_format_octal)
  have len: "length hdr = 512" using assms(1,4) f by simp
  have mg: "cut hdr 257 262 = ustar_magic" using assms(1,2,4) f by (simp add: cut_overwrite_after)
  have sz: "cut hdr 124 136 = format_octal 11 n @ [0]" using assms(1,4) f by (simp add: cut_overwrite_same)
  note sf = seal_field [OF len, of "0x20" 0]
  show "length (seal 0x20 0 hdr) = BLOCK" using sf(1) by (simp add: BLOCK_def)
  show "valid_header (seal 0x20 0 hdr)"
    by (rule valid_header_seal [OF len _ mg]) (simp add: is_octal_sep_def)
  have "octal (format_octal 11 n @ [0]) = Some n" using octal_format [of n 11 "[]"] assms(3) by simp
  then show "tar_size (seal 0x20 0 hdr) = n" using seal_field(3) [OF len] sz by (simp add: tar_size_def)
qed

lemma resync_entry_item:
  assumes "is_ustar_header (cut d h (h + BLOCK))" "h + BLOCK \<le> length d" "length d < 8 ^ 11"
    "b \<le> length d"
  shows "\<exists>it c. resync_entry d h b = Returned (item_bytes it, c) \<and> item_ok it
    \<and> (\<exists>m. item_members it = [m])"
proof -
  let ?block = "cut d h (h + BLOCK)" and ?max = "b - (h + BLOCK)"
  let ?st = "field_size ?block"
  define n where "n = (if div_ceil ?st BLOCK * BLOCK \<le> ?max then ?st else ?max div BLOCK * BLOCK)"
  define t where "t = (if div_ceil ?st BLOCK * BLOCK \<le> ?max then div_ceil ?st BLOCK else ?max div BLOCK)"
  define c where "c \<longleftrightarrow> \<not> div_ceil ?st BLOCK * BLOCK \<le> ?max"
  have tup: "(if div_ceil ?st BLOCK * BLOCK \<le> ?max then (?st, div_ceil ?st BLOCK, False)
      else (?max div BLOCK * BLOCK, ?max div BLOCK, True)) = (n, t, c)"
    by (simp add: n_def t_def c_def)
  have "?st \<le> div_ceil ?st BLOCK * BLOCK" by (rule div_ceil_mult_ge) (simp add: BLOCK_def)
  then have nt: "n \<le> t * BLOCK" "t * BLOCK \<le> ?max" by (auto simp: n_def t_def)
  have tn: "t = div_ceil n BLOCK" by (simp add: n_def t_def div_ceil_exact BLOCK_def)
  have n11: "n < 8 ^ 11" using nt assms(3,4) by linarith
  have fin: "h + BLOCK + t * BLOCK \<le> length d" using nt(2) assms(2,4) by linarith
  let ?hdr = "overwrite ?block 124 (format_octal 11 n @ [0])"
  let ?rest = "cut d (h + BLOCK) (h + BLOCK + t * BLOCK)"
  have blk: "length ?block = 512" "cut ?block 257 262 = ustar_magic"
    using assms(1,2) by (simp_all add: is_ustar_header_def BLOCK_def)
  note rh = rebuilt_header [OF blk n11 refl]
  have eq: "resync_entry d h b = Returned (seal 0x20 0 ?hdr @ ?rest, c)"
    using tup fin length_format_octal [of 11 n] n11
    by (simp add: resync_entry_def Let_def seal_def ustar_checksum_eqs)
  have "item_ok (Member (seal 0x20 0 ?hdr) (take n ?rest) (drop n ?rest))"
  proof -
    have "length ?rest = t * BLOCK" using fin by simp
    then show ?thesis using rh nt tn by (simp del: length_cut)
  qed
  then show ?thesis
    using eq by (intro exI [of _ "Member (seal 0x20 0 ?hdr) (take n ?rest) (drop n ?rest)"] exI [of _ c]) simp
qed

lemma resync_entries_items:
  assumes "length d < 8 ^ 11" "eoa \<le> length d"
  shows "list_all (\<lambda>h. is_ustar_header (cut d h (h + BLOCK)) \<and> h + BLOCK \<le> length d) hs \<Longrightarrow>
    \<exists>items k. resync_entries d eoa hs = Returned (concat (map item_bytes items), k)
      \<and> list_all item_ok items \<and> length (concat (map item_members items)) = length hs"
proof (induction hs)
  case Nil
  then show ?case by (auto intro!: exI [of _ "[]"])
next
  case (Cons h hs)
  then obtain items k where IH: "resync_entries d eoa hs = Returned (concat (map item_bytes items), k)"
    "list_all item_ok items" "length (concat (map item_members items)) = length hs"
    by auto
  let ?b = "case hs of [] \<Rightarrow> eoa | h' # _ \<Rightarrow> h'"
  have "?b \<le> length d" using Cons.prems assms(2) by (cases hs) auto
  then obtain it c m where "resync_entry d h ?b = Returned (item_bytes it, c)" "item_ok it"
    "item_members it = [m]"
    using resync_entry_item [of d h ?b] Cons.prems assms(1) by auto
  with IH show ?case by (intro exI [of _ "it # items"]) simp
qed

lemma find_end_of_archive_le: "find_end_of_archive d (length d div BLOCK) \<le> length d"
proof (cases "find (\<lambda>i. zero_block_at d (i * BLOCK) \<and> zero_block_at d ((i + 1) * BLOCK))
    [0..<length d div BLOCK - 1]")
  case None
  then show ?thesis by (simp add: find_end_of_archive_def)
next
  case (Some i)
  then have "i < length d div BLOCK - 1" using find_SomeD [OF Some] by simp
  then have "i * BLOCK \<le> length d div BLOCK * BLOCK" by (intro mult_le_mono1) simp
  also have "\<dots> \<le> length d" by simp
  finally show ?thesis using Some by (simp add: find_end_of_archive_def)
qed

definition ustar_positions :: "bytes \<Rightarrow> nat list" where
  "ustar_positions d = filter (\<lambda>off. is_ustar_header (cut d off (off + BLOCK)))
     (map (\<lambda>i. i * BLOCK) [0..<length d div BLOCK])"

lemma ustar_positions_ok:
  "list_all (\<lambda>h. is_ustar_header (cut d h (h + BLOCK)) \<and> h + BLOCK \<le> length d) (ustar_positions d)"
proof -
  have "i * BLOCK + BLOCK \<le> length d" if "i < length d div BLOCK" for i
  proof -
    have "(i + 1) * BLOCK \<le> length d div BLOCK * BLOCK" using that by (intro mult_le_mono1) simp
    also have "\<dots> \<le> length d" by simp
    finally show ?thesis by simp
  qed
  then show ?thesis by (auto simp: ustar_positions_def list_all_iff)
qed

text \<open>
  Size-boundary resync, on any archive below eight GiB, never panics, and the archive it
  stages is consistent: salvaging it yields exactly one checksum-valid, complete member for
  every header block found in the input, however wrong the stored sizes were.
\<close>

theorem tar_size_resync_consistent:
  assumes "ds_read src = Inr d" "length d < 8 ^ 11" "ustar_positions d \<noteq> []"
  shows "\<exists>rep out. s_apply TarSizeBoundaryResync src sink_new = Returned (Inr (rep, sink_write sink_new out))
    \<and> success rep \<and> length (segments (salvage_tar out)) = length (ustar_positions d)"
proof -
  obtain items k where e: "resync_entries d (find_end_of_archive d (length d div BLOCK)) (ustar_positions d)
      = Returned (concat (map item_bytes items), k)"
    "list_all item_ok items" "length (concat (map item_members items)) = length (ustar_positions d)"
    using resync_entries_items [OF assms(2) find_end_of_archive_le ustar_positions_ok] by blast
  let ?z = "replicate BLOCK 0 :: bytes"
  let ?out = "concat (map item_bytes items) @ replicate 1024 0"
  have "list_all item_ok (items @ [Junk ?z, Junk ?z])"
    using e(2) by (simp add: valid_header_def list_all_iff)
  moreover have "?out = concat (map item_bytes (items @ [Junk ?z, Junk ?z])) @ []"
    by (simp add: BLOCK_def flip: replicate_add)
  ultimately have "map segment_member (segments (salvage_tar ?out)) = concat (map item_members items)"
    using salvage_tar_items [of "items @ [Junk ?z, Junk ?z]" "[]"] by (simp add: BLOCK_def)
  then have "length (segments (salvage_tar ?out)) = length (ustar_positions d)"
    using e(3) by (metis length_map)
  moreover have "\<exists>rep. s_apply TarSizeBoundaryResync src sink_new = Returned (Inr (rep, sink_write sink_new ?out))
      \<and> success rep"
    using assms e(1) unfolding ustar_positions_def
    by (simp add: TarSizeBoundaryResync_def tar_size_resync_run_def applied_ok_def Let_def)
  ultimately show ?thesis by blast
qed

definition damaged_example :: bytes where
  "damaged_example = overwrite (replicate 512 0) 257 ustar_magic"

theorem tar_size_resync_consistent_witness:
  "\<exists>rep out. s_apply TarSizeBoundaryResync
      \<lparr> ds_path = ''x'', ds_len = 512, ds_read = Inr damaged_example \<rparr> sink_new
      = Returned (Inr (rep, sink_write sink_new out))
    \<and> success rep \<and> length (segments (salvage_tar out)) = 1"
proof -
  have len: "length damaged_example = 512" by (simp add: damaged_example_def)
  have mg: "cut damaged_example 257 262 = ustar_magic"
    by (simp add: damaged_example_def cut_overwrite_same)
  have "damaged_example ! 257 = 0x75"
    by (simp add: damaged_example_def nth_overwrite ustar_magic_def)
  then have "\<not> list_all (\<lambda>b. b = 0) damaged_example"
    using len by (auto simp: list_all_length intro: exI [of _ 257])
  moreover have "cut damaged_example 0 512 = damaged_example" using len by (simp add: cut_0)
  ultimately have "ustar_positions damaged_example = [0]"
    using len mg by (simp add: ustar_positions_def is_ustar_header_def BLOCK_def)
  then show ?thesis
    using tar_size_resync_consistent
      [of "\<lparr> ds_path = ''x'', ds_len = 512, ds_read = Inr damaged_example \<rparr>" damaged_example] len
    by simp
qed

text \<open>
  The size resync aborts instead of repairing when the gap behind a header needs more than
  eleven octal digits: the twelve-byte size field cannot take the thirteen-byte text, and
  the copy panics. (A header followed by eight GiB or more before the next one.)
\<close>

theorem tar_size_resync_panics:
  assumes "b \<le> length d" "8 ^ 11 \<le> (b - (h + BLOCK)) div BLOCK * BLOCK"
    "\<not> div_ceil (field_size (cut d h (h + BLOCK))) BLOCK * BLOCK \<le> b - (h + BLOCK)"
  shows "resync_entry d h b = Panicked"
proof -
  let ?n = "(b - (h + BLOCK)) div BLOCK * BLOCK"
  have "12 \<le> length (format_octal 11 ?n)"
    using format_octal_overflow [OF assms(2)] by simp
  then show ?thesis using assms(3) by (simp add: resync_entry_def Let_def)
qed

theorem tar_size_resync_panics_witness:
  "resync_entry (overwrite (replicate 512 0) 124 [0x37, 0x37, 0x37, 0x37, 0x37, 0x37, 0x37, 0x37, 0x37, 0x37, 0x37, 0x37] @ replicate 8589934592 1) 0 8589935104
    = Panicked"
proof -
  let ?h = "overwrite (replicate 512 0) 124 [0x37, 0x37, 0x37, 0x37, 0x37, 0x37, 0x37, 0x37, 0x37, 0x37, 0x37, 0x37] :: bytes"
  let ?d = "?h @ replicate 8589934592 (1 :: u8)"
  have len: "length ?h = 512" by simp
  have "octal_field [0x37, 0x37, 0x37, 0x37, 0x37, 0x37, 0x37, 0x37, 0x37, 0x37, 0x37, 0x37] = Some 68719476735"
    by (simp add: octal_field_def is_octal_sep_def from_str_radix_8_def octal_digit_def)
  then have "field_size (cut ?d 0 (0 + BLOCK)) = 68719476735"
    using len by (simp add: field_size_def BLOCK_def cut_append_left cut_0 cut_overwrite_same)
  then have "\<not> div_ceil (field_size (cut ?d 0 (0 + BLOCK))) BLOCK * BLOCK \<le> 8589935104 - (0 + BLOCK)"
    by (simp add: BLOCK_def div_ceil_def)
  moreover have "8589935104 \<le> length ?d" using len by simp
  moreover have "(8 :: nat) ^ 11 \<le> (8589935104 - (0 + BLOCK)) div BLOCK * BLOCK" by (simp add: BLOCK_def)
  ultimately show ?thesis by (intro tar_size_resync_panics)
qed

end
