(* ===== verification/Sevenz.thy ===== *)
theory Sevenz
  imports Strategy_Base Crc
begin

text \<open>
  7-Zip signature recovery (\<open>phx_recovery/src/sevenz/mod.rs\<close>) and its strategy
  (\<open>strategies/sevenz_restore.rs\<close>).
  Shown: a repair changes signature bytes only, fires only behind a valid start-header CRC,
  undoes any damage to the signature, and the start-header CRC is untouched by it.
\<close>

section \<open>The signature header\<close>

definition SIGNATURE :: bytes where
  "SIGNATURE = [0x37, 0x7A, 0xBC, 0xAF, 0x27, 0x1C]"

definition SIGNATURE_HEADER_LEN :: nat where
  "SIGNATURE_HEADER_LEN = 32"

record Inspect =
  in_signature_ok :: bool
  in_start_header_crc_ok :: bool
  next_header_offset :: u64
  next_header_size :: u64
  end_header_in_bounds :: bool
  end_header_crc_ok :: bool

definition signature_ok :: "bytes \<Rightarrow> bool" where
  "signature_ok d \<longleftrightarrow> 6 \<le> length d \<and> take 6 d = SIGNATURE"

definition start_header_crc_ok :: "bytes \<Rightarrow> bool" where
  "start_header_crc_ok d \<longleftrightarrow>
     \<not> length d < SIGNATURE_HEADER_LEN \<and> u32_at d 8 = crc32_iso (cut d 12 32)"

definition inspect :: "bytes \<Rightarrow> Inspect" where
  "inspect d =
     (if length d < SIGNATURE_HEADER_LEN
      then \<lparr> in_signature_ok = signature_ok d, in_start_header_crc_ok = False,
             next_header_offset = 0, next_header_size = 0,
             end_header_in_bounds = False, end_header_crc_ok = False \<rparr>
      else
        (let next_off = u64_at d 12; next_size = u64_at d 20; next_crc = u32_at d 28;
             fin = SIGNATURE_HEADER_LEN + unat next_off + unat next_size;
             in_bounds = (fin < 2 ^ 64 \<and> fin \<le> length d);
             end_crc_ok = (in_bounds \<and> 0 < next_size
               \<and> crc32_iso (cut d (SIGNATURE_HEADER_LEN + unat next_off) fin) = next_crc)
         in \<lparr> in_signature_ok = signature_ok d, in_start_header_crc_ok = start_header_crc_ok d,
              next_header_offset = next_off, next_header_size = next_size,
              end_header_in_bounds = in_bounds, end_header_crc_ok = end_crc_ok \<rparr>))"

record SignatureRepair =
  sr_data :: bytes
  bytes_written :: nat
  verified_by_label :: string

text \<open>The loop over the six signature bytes: write the ones that differ and count them.\<close>

definition restore_signature_byte :: "bytes \<times> nat \<Rightarrow> nat \<times> u8 \<Rightarrow> bytes \<times> nat" where
  "restore_signature_byte st ib =
     (case st of (out, written) \<Rightarrow> case ib of (i, b) \<Rightarrow>
       (if out ! i \<noteq> b then (out[i := b], written + 1) else (out, written)))"

definition repair_signature :: "bytes \<Rightarrow> SignatureRepair option" where
  "repair_signature d =
     (if length d < SIGNATURE_HEADER_LEN then None
      else if signature_ok d then None
      else if \<not> start_header_crc_ok d then None
      else (case foldl restore_signature_byte (d, 0) (enumerate 0 SIGNATURE) of
              (out, written) \<Rightarrow>
                Some \<lparr> sr_data = out, bytes_written = written,
                       verified_by_label = ''7z Start-Header CRC-32 over [12,32)'' \<rparr>))"

section \<open>The strategy\<close>

definition sevenz_restore_run :: "DataSource \<Rightarrow> DataSink \<Rightarrow> bytes \<Rightarrow> apply_result" where
  "sevenz_restore_run src output d =
     (let report = strategy_report ''sevenz-signature-restore'' in
      case repair_signature d of
        Some rep \<Rightarrow>
          applied_ok (report_warn (Msg ''restored 7z signature ({} byte(s) at offset 0); verified by {}''
              [N (bytes_written rep), S (verified_by_label rep)])
            (report\<lparr> bytes_recovered := length (sr_data rep), success := True \<rparr>))
            (sink_write output (sr_data rep))
      | None \<Rightarrow>
          applied_ok (report_warn (Msg ''7z Start-Header CRC does not validate - abstaining (structure not provably intact)'' [])
            (report\<lparr> success := False \<rparr>)) output)"

definition SevenZSignatureRestore :: RecoveryStrategy where
  "SevenZSignatureRestore =
     \<lparr> s_name = ''sevenz-signature-restore'', s_technique = ''SevenZSignatureRestore'', s_risk = Safe,
       s_handles = (\<lambda>c. rule_id c = ''7Z_MAGIC_001''),
       s_predicted_outcome =
         (\<lambda>c. Msg ''restore the 7z signature 37 7A BC AF 27 1C (gated by the Start-Header CRC)'' []),
       s_can_apply = (\<lambda>r. archive_format r = Some SevenZ
         \<and> any_corruption (\<lambda>c. rule_id c = ''7Z_MAGIC_001'') r),
       s_priority = 85,
       s_apply = (\<lambda>src output. with_data src (sevenz_restore_run src output)) \<rparr>"

lemma sevenz_restore_body: "body_ok ''sevenz-signature-restore'' sevenz_restore_run"
  by (rule body_okI) (auto simp: sevenz_restore_run_def Let_def split: option.split)

interpretation sevenz_restore: recovery_strategy "s_name SevenZSignatureRestore" "s_apply SevenZSignatureRestore"
  by (rule strategy_of_body [of _ sevenz_restore_run])
    (simp_all add: SevenZSignatureRestore_def sevenz_restore_body)

section \<open>Lemmas\<close>

lemma restore_fold:
  assumes "6 \<le> length d"
  shows "fst (foldl restore_signature_byte (d, n) (enumerate 0 SIGNATURE)) = SIGNATURE @ drop 6 d"
proof -
  obtain b0 b1 b2 b3 b4 b5 r where d: "d = b0 # b1 # b2 # b3 # b4 # b5 # r"
    using assms by (auto simp: numeral_eq_Suc Suc_le_length_iff)
  show ?thesis
    unfolding d by (auto simp: SIGNATURE_def restore_signature_byte_def)
qed

lemma length_SIGNATURE [simp]: "length SIGNATURE = 6"
  by (simp add: SIGNATURE_def)

lemma repair_signature_Some:
  "repair_signature d = Some rep \<Longrightarrow>
    32 \<le> length d \<and> \<not> signature_ok d \<and> start_header_crc_ok d \<and> sr_data rep = SIGNATURE @ drop 6 d"
  using restore_fold [of d 0]
  by (auto simp: repair_signature_def SIGNATURE_HEADER_LEN_def split: if_splits prod.splits)

lemma start_header_crc_signature:
  assumes "length s = 6" "32 \<le> length d"
  shows "start_header_crc_ok (s @ drop 6 d) = start_header_crc_ok d"
proof -
  have c: "cut (s @ drop 6 d) a b = cut d a b" if "6 \<le> a" for a b
    using that assms(1) by (simp add: cut_append_right) (simp add: cut_def)
  have "length (s @ drop 6 d) = length d" using assms by simp
  then show ?thesis by (simp add: start_header_crc_ok_def u32_at_def c)
qed

text \<open>
  7z signature repair is exact and gated: whatever bytes have overwritten the signature of a
  file whose start header is CRC-valid, the repair gives back the file byte for byte; and
  whenever a repair fires, the start-header CRC was valid, the result carries the
  signature, keeps that CRC valid, and agrees with the input from byte 6 on.
\<close>

theorem sevenz_repair_exact:
  "(signature_ok d \<and> start_header_crc_ok d \<and> length s = 6 \<and> s \<noteq> SIGNATURE \<longrightarrow>
      (\<exists>rep. repair_signature (s @ drop 6 d) = Some rep \<and> sr_data rep = d))
   \<and> (\<forall>rep. repair_signature d = Some rep \<longrightarrow>
        start_header_crc_ok d \<and> start_header_crc_ok (sr_data rep) \<and> signature_ok (sr_data rep)
      \<and> length (sr_data rep) = length d \<and> drop 6 (sr_data rep) = drop 6 d)"
proof (intro conjI impI allI)
  assume a: "signature_ok d \<and> start_header_crc_ok d \<and> length s = 6 \<and> s \<noteq> SIGNATURE"
  then have len: "32 \<le> length d" by (simp add: start_header_crc_ok_def SIGNATURE_HEADER_LEN_def)
  have d: "d = SIGNATURE @ drop 6 d"
    using a by (metis append_take_drop_id signature_ok_def)
  let ?b = "s @ drop 6 d"
  have "\<not> signature_ok ?b" using a by (simp add: signature_ok_def)
  moreover have "start_header_crc_ok ?b" using a len start_header_crc_signature by blast
  moreover have "fst (foldl restore_signature_byte (?b, 0) (enumerate 0 SIGNATURE)) = d"
    using restore_fold [of ?b 0] a len d by simp
  ultimately show "\<exists>rep. repair_signature ?b = Some rep \<and> sr_data rep = d"
    using a len by (auto simp: repair_signature_def SIGNATURE_HEADER_LEN_def split: prod.split)
next
  fix rep assume "repair_signature d = Some rep"
  then have r: "32 \<le> length d" "start_header_crc_ok d" "sr_data rep = SIGNATURE @ drop 6 d"
    by (auto dest: repair_signature_Some)
  then show "start_header_crc_ok d" "start_header_crc_ok (sr_data rep)" "signature_ok (sr_data rep)"
    "length (sr_data rep) = length d" "drop 6 (sr_data rep) = drop 6 d"
    using start_header_crc_signature [of SIGNATURE d] by (simp_all add: signature_ok_def)
qed

theorem sevenz_repair_exact_witness:
  "\<exists>rep. repair_signature ([0, 0, 0, 0, 0, 0] @ [0, 4] @ u32_bytes (crc32_iso (replicate 20 0)) @ replicate 20 0)
      = Some rep
    \<and> sr_data rep = SIGNATURE @ [0, 4] @ u32_bytes (crc32_iso (replicate 20 0)) @ replicate 20 0"
proof -
  let ?c = "u32_bytes (crc32_iso (replicate 20 0))"
  let ?d = "SIGNATURE @ [0, 4] @ ?c @ replicate 20 0"
  have "u32_at ?d 8 = crc32_iso (replicate 20 0)"
    by (simp add: u32_at_def cut_append_right cut_append_left cut_0 u32_of_bytes cut_def)
  moreover have "cut ?d 12 32 = replicate 20 0"
    by (simp add: cut_append_right cut_def)
  ultimately have "start_header_crc_ok ?d" "signature_ok ?d"
    by (simp_all add: start_header_crc_ok_def signature_ok_def SIGNATURE_HEADER_LEN_def)
  then show ?thesis
    using sevenz_repair_exact [of ?d "[0, 0, 0, 0, 0, 0]"] by (simp add: SIGNATURE_def)
qed

end
