(* ===== verification/Salvage_Strategies.thy ===== *)
theory Salvage_Strategies
  imports Strategy_Base
begin

text \<open>
  The strategies that stage source bytes without repairing them: bit-flip verification
  (\<open>strategies/bitflip.rs\<close>), ISO sectors (\<open>iso_sector.rs\<close>), partial extraction
  (\<open>partial_extract.rs\<close>) and forensic carving (\<open>forensic_carve.rs\<close>).
  Shown: the first three stage the source verbatim; carving stages exactly the bytes from the
  first signature to the end of the source, one region per signature.
\<close>

section \<open>Verbatim strategies\<close>

definition bitflip_run :: "DataSource \<Rightarrow> DataSink \<Rightarrow> bytes \<Rightarrow> apply_result" where
  "bitflip_run src output bs =
     applied_ok
       ((report_warn
          (Msg ''bitflip correction requires a per-block reference or ECC; staged source verbatim for verification'' [])
          ((strategy_report ''bitflip'')\<lparr> bytes_recovered := length bs \<rparr>))\<lparr> success := False \<rparr>)
       (sink_write output bs)"

definition BitFlipCorrection :: RecoveryStrategy where
  "BitFlipCorrection =
     \<lparr> s_name = ''bitflip'', s_technique = ''ReferenceVerify'', s_risk = Inferred,
       s_handles = (\<lambda>c. category c = BitFlip),
       s_predicted_outcome =
         (\<lambda>c. Msg ''verify the flipped region against the manifest (no ECC => confirm, not correct)'' []),
       s_can_apply = (\<lambda>r. manifest_present (integrity_result r)
         \<and> any_corruption (\<lambda>c. category c = BitFlip) r),
       s_priority = 90,
       s_apply = (\<lambda>src output. with_data src (bitflip_run src output)) \<rparr>"

definition iso_sector_run :: "DataSource \<Rightarrow> DataSink \<Rightarrow> bytes \<Rightarrow> apply_result" where
  "iso_sector_run src output bs =
     applied_ok
       ((report_warn (Msg ''no ECC sectors present; staged readable sectors without reconstruction'' [])
          ((strategy_report ''iso-sector'')\<lparr> bytes_recovered := length bs \<rparr>))\<lparr> success := False \<rparr>)
       (sink_write output bs)"

definition IsoSectorReconstruction :: RecoveryStrategy where
  "IsoSectorReconstruction =
     \<lparr> s_name = ''iso-sector'', s_technique = ''SectorExtract'', s_risk = Lossy,
       s_handles = (\<lambda>c. take 10 (rule_id c) = ''ISO_SECTOR''),
       s_predicted_outcome =
         (\<lambda>c. Msg ''extract readable sectors; missing sectors need ECC to reconstruct'' []),
       s_can_apply = (\<lambda>r. archive_format r = Some Iso9660
         \<and> any_corruption (\<lambda>c. category c = MissingData) r),
       s_priority = 70,
       s_apply = (\<lambda>src output. with_data src (iso_sector_run src output)) \<rparr>"

definition partial_extract_run :: "DataSource \<Rightarrow> DataSink \<Rightarrow> bytes \<Rightarrow> apply_result" where
  "partial_extract_run src output bs =
     (let total = ds_len src; recovered = length bs; lost = total - recovered;
          report = (strategy_report ''partial-extract'')
            \<lparr> bytes_recovered := recovered, bytes_lost := lost, success := (0 < recovered) \<rparr> in
      applied_ok
        (if 0 < lost
         then report_warn (Msg ''{} of {} bytes were unreadable and omitted'' [N lost, N total]) report
         else report)
        (sink_write output bs))"

definition PartialExtraction :: RecoveryStrategy where
  "PartialExtraction =
     \<lparr> s_name = ''partial-extract'', s_technique = ''TruncationSalvage'', s_risk = Lossy,
       s_handles = (\<lambda>c. category c = Truncation),
       s_predicted_outcome =
         (\<lambda>c. Msg ''salvage every readable byte up to the truncation; lost tail is reported'' []),
       s_can_apply = any_corruption (\<lambda>c. category c = Truncation),
       s_priority = 30,
       s_apply = (\<lambda>src output. with_data src (partial_extract_run src output)) \<rparr>"

section \<open>Carving\<close>

record Signature =
  sig_label :: string
  sig_magic :: bytes

definition SIGNATURES :: "Signature list" where
  "SIGNATURES =
     [\<lparr> sig_label = ''zip'', sig_magic = [0x50, 0x4B, 0x03, 0x04] \<rparr>,
      \<lparr> sig_label = ''png'', sig_magic = [0x89, 0x50, 0x4E, 0x47, 0x0D, 0x0A, 0x1A, 0x0A] \<rparr>,
      \<lparr> sig_label = ''jpg'', sig_magic = [0xFF, 0xD8, 0xFF] \<rparr>,
      \<lparr> sig_label = ''pdf'', sig_magic = [0x25, 0x50, 0x44, 0x46, 0x2D] \<rparr>,
      \<lparr> sig_label = ''gzip'', sig_magic = [0x1F, 0x8B] \<rparr>,
      \<lparr> sig_label = ''elf'', sig_magic = [0x7F, 0x45, 0x4C, 0x46] \<rparr>]"

definition starts_with :: "bytes \<Rightarrow> bytes \<Rightarrow> bool" where
  "starts_with d magic \<longleftrightarrow> take (length magic) d = magic"

definition scan_signatures :: "bytes \<Rightarrow> (nat \<times> string) list" where
  "scan_signatures d =
     sort_key fst
       (concat (map (\<lambda>i. map (\<lambda>sig. (i, sig_label sig))
          (filter (\<lambda>sig. starts_with (drop i d) (sig_magic sig)) SIGNATURES)) [0..<length d]))"

text \<open>
  The carving loop over the hits from the \<open>i\<close>-th on: the sink, the number of bytes carved and
  the names of the regions.
\<close>

fun carve_regions ::
  "bytes \<Rightarrow> nat \<Rightarrow> (nat \<times> string) list \<Rightarrow> DataSink \<Rightarrow> nat \<Rightarrow> string list \<Rightarrow> DataSink \<times> nat \<times> string list" where
  "carve_regions d i [] output carved files = (output, carved, files)"
| "carve_regions d i ((off, label) # rest) output carved files =
     (let fin = (case rest of [] \<Rightarrow> length d | (next_off, _) # _ \<Rightarrow> next_off) in
      carve_regions d (i + 1) rest (sink_write output (cut d off fin)) (carved + (fin - off))
        (files @ [''carved-'' @ fmt_nat_pad 4 i @ ''.'' @ label]))"

definition forensic_carve_run :: "DataSource \<Rightarrow> DataSink \<Rightarrow> bytes \<Rightarrow> apply_result" where
  "forensic_carve_run src output d =
     (let report = strategy_report ''forensic-carve''; hits = scan_signatures d in
      if hits = []
      then applied_ok
             ((report_warn (Msg ''no known file signatures found to carve'' []) report)\<lparr> success := False \<rparr>)
             output
      else
        (case carve_regions d 0 hits output 0 [] of (output1, carved, files) \<Rightarrow>
           applied_ok
             (report_warn (Msg ''carved {} region(s) by signature'' [N (length hits)])
               (report\<lparr> files_recovered := files, bytes_recovered := carved,
                        bytes_lost := ds_len src - carved, success := (0 < carved) \<rparr>))
             output1))"

definition ForensicCarving :: RecoveryStrategy where
  "ForensicCarving =
     \<lparr> s_name = ''forensic-carve'', s_technique = ''ForensicCarve'', s_risk = Lossy,
       s_handles = (\<lambda>c. False),
       s_predicted_outcome = default_predicted_outcome ''ForensicCarve'',
       s_can_apply = (\<lambda>r.
         (let raw_or_unknown = (archive_format r = Some Raw \<or> archive_format r = None);
              catastrophic = any_corruption (\<lambda>c. severity c = Catastrophic) r in
          raw_or_unknown \<and> (catastrophic \<or> corruptions r = []))),
       s_priority = 10,
       s_apply = (\<lambda>src output. with_data src (forensic_carve_run src output)) \<rparr>"

section \<open>The contract\<close>

lemma verbatim_of_body:
  assumes "body_ok name body" "\<And>src sink. apply_fn src sink = with_data src (body src sink)"
    "\<And>src sink bs. \<exists>rep. body src sink bs = applied_ok rep (sink_write sink bs) \<and> bytes_recovered rep = length bs"
  shows "verbatim_strategy name apply_fn"
proof (rule verbatim_strategy.intro)
  show "recovery_strategy name apply_fn" using strategy_of_body assms(1,2) by blast
  show "verbatim_strategy_axioms apply_fn"
    by unfold_locales (use assms(2,3) in \<open>simp add: applied_ok_def\<close>)
qed

lemma bitflip_body: "body_ok ''bitflip'' bitflip_run"
  by (rule body_okI) (auto simp: bitflip_run_def)

lemma iso_sector_body: "body_ok ''iso-sector'' iso_sector_run"
  by (rule body_okI) (auto simp: iso_sector_run_def)

lemma partial_extract_body: "body_ok ''partial-extract'' partial_extract_run"
  by (rule body_okI) (auto simp: partial_extract_run_def Let_def)

interpretation bitflip: verbatim_strategy "s_name BitFlipCorrection" "s_apply BitFlipCorrection"
  by (rule verbatim_of_body [of _ bitflip_run])
    (simp_all add: BitFlipCorrection_def bitflip_body, simp_all add: bitflip_run_def applied_ok_def)

interpretation iso_sector: verbatim_strategy "s_name IsoSectorReconstruction" "s_apply IsoSectorReconstruction"
  by (rule verbatim_of_body [of _ iso_sector_run])
    (simp_all add: IsoSectorReconstruction_def iso_sector_body, simp_all add: iso_sector_run_def applied_ok_def)

interpretation partial_extract: verbatim_strategy "s_name PartialExtraction" "s_apply PartialExtraction"
  by (rule verbatim_of_body [of _ partial_extract_run])
    (simp_all add: PartialExtraction_def partial_extract_body, simp_all add: partial_extract_run_def Let_def applied_ok_def)

section \<open>Carving stages the source from the first signature on\<close>

lemma scan_signatures_props:
  "sorted (map fst (scan_signatures d))"
  "(off, label) \<in> set (scan_signatures d) \<longleftrightarrow> off < length d
    \<and> (\<exists>sig \<in> set SIGNATURES. label = sig_label sig \<and> starts_with (drop off d) (sig_magic sig))"
  by (auto simp: scan_signatures_def)

lemma scan_signatures_hit:
  "off < length d \<Longrightarrow> sig \<in> set SIGNATURES \<Longrightarrow> starts_with (drop off d) (sig_magic sig) \<Longrightarrow>
    (off, sig_label sig) \<in> set (scan_signatures d)"
  unfolding scan_signatures_props(2) by blast

lemma carve_regions_result:
  assumes "sorted (map fst hits)" "list_all (\<lambda>h. fst h < length d) hits" "hits \<noteq> []"
  shows "carve_regions d i hits out carved files =
    (sink_write out (drop (fst (hd hits)) d), carved + (length d - fst (hd hits)),
     files @ map (\<lambda>(k, h). ''carved-'' @ fmt_nat_pad 4 k @ ''.'' @ snd h) (enumerate i hits))"
  using assms
proof (induction d i hits out carved files rule: carve_regions.induct)
  case (2 d i off label rest out carved files)
  show ?case
  proof (cases rest)
    case Nil
    then show ?thesis by (simp add: Let_def cut_full)
  next
    case (Cons h hs)
    obtain off' l where h: "h = (off', l)" by (cases h)
    have o: "off \<le> off'" "off' < length d" using "2.prems" Cons h by auto
    then have "drop off d = cut d off off' @ drop off' d"
      by (simp add: cut_def) (metis append_take_drop_id drop_drop le_add_diff_inverse2)
    then show ?thesis
      using "2.IH" [of off'] "2.prems" Cons h o by (simp add: Let_def)
  qed
qed simp

lemma forensic_carve_staged:
  assumes "scan_signatures d \<noteq> []"
  shows "forensic_carve_run src sink d = applied_ok
    (report_warn (Msg ''carved {} region(s) by signature'' [N (length (scan_signatures d))])
      ((strategy_report ''forensic-carve'')
        \<lparr> files_recovered := map (\<lambda>(k, h). ''carved-'' @ fmt_nat_pad 4 k @ ''.'' @ snd h)
            (enumerate 0 (scan_signatures d)),
          bytes_recovered := length d - fst (hd (scan_signatures d)),
          bytes_lost := ds_len src - (length d - fst (hd (scan_signatures d))),
          success := (0 < length d - fst (hd (scan_signatures d))) \<rparr>))
    (sink_write sink (drop (fst (hd (scan_signatures d))) d))"
proof -
  have "list_all (\<lambda>h. fst h < length d) (scan_signatures d)"
    using scan_signatures_props(2) [of _ _ d] by (auto simp: list_all_iff)
  then show ?thesis
    using assms carve_regions_result [OF scan_signatures_props(1) _ assms]
    by (simp add: forensic_carve_run_def Let_def)
qed

lemma forensic_carve_body: "body_ok ''forensic-carve'' forensic_carve_run"
proof (rule body_okI, goal_cases)
  case (1 src sink bs)
  show ?case
  proof (cases "scan_signatures bs = []")
    case True
    then show ?thesis by (simp add: forensic_carve_run_def Let_def applied_ok_def)
  next
    case False
    then show ?thesis by (simp add: forensic_carve_staged applied_ok_def)
  qed
qed

interpretation forensic_carve: recovery_strategy "s_name ForensicCarving" "s_apply ForensicCarving"
  by (rule strategy_of_body [of _ forensic_carve_run]) (simp_all add: ForensicCarving_def forensic_carve_body)

text \<open>
  Carving loses nothing behind the first signature and invents nothing: the sink grows by
  exactly the bytes of the source from the offset of the first known signature to its end
  (nothing when no signature occurs), that offset is the smallest at which a signature
  occurs, there is one recovered region per signature occurrence, and the byte count reported
  is the number of bytes staged.
\<close>

theorem forensic_carve_exact:
  assumes read: "ds_read src = Inr d"
  shows "if (\<exists>off < length d. \<exists>sig \<in> set SIGNATURES. starts_with (drop off d) (sig_magic sig))
    then \<exists>rep off. s_apply ForensicCarving src sink = Returned (Inr (rep, sink_write sink (drop off d)))
        \<and> off < length d \<and> (\<exists>sig \<in> set SIGNATURES. starts_with (drop off d) (sig_magic sig))
        \<and> (\<forall>k < off. \<not> (\<exists>sig \<in> set SIGNATURES. starts_with (drop k d) (sig_magic sig)))
        \<and> length (files_recovered rep) = length (scan_signatures d)
        \<and> bytes_recovered rep = length (drop off d) \<and> success rep
    else \<exists>rep. s_apply ForensicCarving src sink = Returned (Inr (rep, sink)) \<and> \<not> success rep"
proof -
  let ?hits = "scan_signatures d"
  have run: "s_apply ForensicCarving src sink = forensic_carve_run src sink d"
    using read by (simp add: ForensicCarving_def)
  have empty: "?hits \<noteq> [] \<longleftrightarrow> (\<exists>off < length d. \<exists>sig \<in> set SIGNATURES. starts_with (drop off d) (sig_magic sig))"
  proof
    assume "?hits \<noteq> []"
    then obtain off label where "(off, label) \<in> set ?hits" by (metis hd_in_set prod.collapse)
    then show "\<exists>off < length d. \<exists>sig \<in> set SIGNATURES. starts_with (drop off d) (sig_magic sig)"
      unfolding scan_signatures_props(2) by blast
  next
    assume "\<exists>off < length d. \<exists>sig \<in> set SIGNATURES. starts_with (drop off d) (sig_magic sig)"
    then obtain off sig where "off < length d" "sig \<in> set SIGNATURES" "starts_with (drop off d) (sig_magic sig)"
      by auto
    from scan_signatures_hit [OF this] show "?hits \<noteq> []" by auto
  qed
  show ?thesis
  proof (cases "?hits = []")
    case True
    then show ?thesis
      using empty by (simp add: run forensic_carve_run_def Let_def applied_ok_def)
  next
    case False
    define off where "off = fst (hd ?hits)"
    have "hd ?hits \<in> set ?hits" using False by simp
    then have mem: "(off, snd (hd ?hits)) \<in> set ?hits" by (simp add: off_def)
    have least: "off \<le> fst h" if "h \<in> set ?hits" for h
      using scan_signatures_props(1) [of d] that False
      by (cases ?hits) (auto simp: off_def)
    have "\<not> (\<exists>sig \<in> set SIGNATURES. starts_with (drop k d) (sig_magic sig))" if "k < off" for k
    proof
      assume "\<exists>sig \<in> set SIGNATURES. starts_with (drop k d) (sig_magic sig)"
      then obtain sig where sig: "sig \<in> set SIGNATURES" "starts_with (drop k d) (sig_magic sig)"
        by auto
      have "k < length d" using mem that unfolding scan_signatures_props(2) by simp
      from least [OF scan_signatures_hit [OF this sig]] that show False by simp
    qed
    moreover have at_off: "off < length d" "\<exists>sig \<in> set SIGNATURES. starts_with (drop off d) (sig_magic sig)"
      using mem unfolding scan_signatures_props(2) by auto
    moreover have "\<exists>rep. s_apply ForensicCarving src sink = Returned (Inr (rep, sink_write sink (drop off d)))
        \<and> length (files_recovered rep) = length ?hits
        \<and> bytes_recovered rep = length (drop off d) \<and> success rep"
      using at_off(1) forensic_carve_staged [OF False]
      by (simp add: run applied_ok_def off_def [symmetric])
    ultimately show ?thesis using False unfolding empty by (simp only: if_True simp_thms) blast
  qed
qed

theorem forensic_carve_exact_witness:
  "\<exists>rep. s_apply ForensicCarving
      \<lparr> ds_path = ''raw'', ds_len = 4, ds_read = Inr [0, 0x1F, 0x8B, 7] \<rparr> sink_new
    = Returned (Inr (rep, sink_write sink_new [0x1F, 0x8B, 7])) \<and> success rep"
proof -
  let ?d = "[0, 0x1F, 0x8B, 7] :: bytes"
  let ?src = "\<lparr> ds_path = ''raw'', ds_len = 4, ds_read = Inr ?d \<rparr>"
  have sig: "\<exists>sig \<in> set SIGNATURES. starts_with (drop 1 ?d) (sig_magic sig)"
    "\<not> (\<exists>sig \<in> set SIGNATURES. starts_with (drop 0 ?d) (sig_magic sig))"
    by (simp_all add: SIGNATURES_def starts_with_def)
  then have some: "\<exists>off < length ?d. \<exists>sig \<in> set SIGNATURES. starts_with (drop off ?d) (sig_magic sig)"
    by (intro exI [of _ 1]) simp
  have read: "ds_read ?src = Inr ?d" by simp
  from forensic_carve_exact [OF read, of sink_new, unfolded if_P [OF some]]
  obtain rep off where r:
      "s_apply ForensicCarving ?src sink_new = Returned (Inr (rep, sink_write sink_new (drop off ?d)))"
      "\<forall>k < off. \<not> (\<exists>sig \<in> set SIGNATURES. starts_with (drop k ?d) (sig_magic sig))"
      "\<exists>sig \<in> set SIGNATURES. starts_with (drop off ?d) (sig_magic sig)" "success rep"
    by blast
  have "off = 1"
  proof (rule ccontr)
    assume "off \<noteq> 1"
    then consider "off = 0" | "1 < off" by linarith
    then show False using r(2,3) sig by cases auto
  qed
  with r(1,4) show ?thesis by auto
qed

end
