(* ===== verification/Zip_Policy.thy ===== *)
theory Zip_Policy
  imports Prelude Rust_Text
begin

text \<open>
  What the modules of \<open>phx_zip_core\<close> share: the bounds of a recovery walk
  (\<open>zip_policy.rs\<close>), the verdicts and directory provenances (\<open>verdict.rs\<close>), the
  option-valued readers, and the 64-bit arithmetic that the code checks: offsets are natural
  numbers below \<open>2 ^ 64\<close>, and a checked addition fails from there on.
  Shown: exactly the two trusted verdicts are presentable, and a directory rebuilt by the
  tool never attests an entry.
\<close>

section \<open>Checked 64-bit arithmetic\<close>

definition u64_max :: nat where
  "u64_max = 2 ^ 64 - 1"

definition checked_add :: "nat \<Rightarrow> nat \<Rightarrow> nat option" where
  "checked_add a b = (if a + b < 2 ^ 64 then Some (a + b) else None)"

text \<open>\<open>n as i64\<close>, \<open>checked_add\<close> and wrapping subtraction on \<open>i64\<close>.\<close>

definition as_i64 :: "nat \<Rightarrow> int" where
  "as_i64 n = (if n < 2 ^ 63 then int n else int n - 2 ^ 64)"

definition checked_add_i64 :: "int \<Rightarrow> int \<Rightarrow> int option" where
  "checked_add_i64 a b = (if - (2 ^ 63) \<le> a + b \<and> a + b < 2 ^ 63 then Some (a + b) else None)"

definition sub_i64 :: "int \<Rightarrow> int \<Rightarrow> int" where
  "sub_i64 a b = (a - b + 2 ^ 63) mod 2 ^ 64 - 2 ^ 63"

lemma as_i64_small [simp]: "n < 2 ^ 63 \<Longrightarrow> as_i64 n = int n"
  by (simp add: as_i64_def)

lemma sub_i64_small: "a < 2 ^ 63 \<Longrightarrow> b < 2 ^ 63 \<Longrightarrow> sub_i64 (int a) (int b) = int a - int b"
  by (simp add: sub_i64_def)

section \<open>Readers\<close>

definition u16le :: "bytes \<Rightarrow> nat \<Rightarrow> u16 option" where
  "u16le d p = (if p + 2 \<le> length d then Some (u16_at d p) else None)"

definition u32le :: "bytes \<Rightarrow> nat \<Rightarrow> u32 option" where
  "u32le d p = (if p + 4 \<le> length d then Some (u32_at d p) else None)"

definition LFH_SIG :: u32 where "LFH_SIG = 0x04034b50"

definition CDFH_SIG :: u32 where "CDFH_SIG = 0x02014b50"

definition EOCD_SIG :: u32 where "EOCD_SIG = 0x06054b50"

lemma u32le_Some: "u32le d p = Some v \<longleftrightarrow> p + 4 \<le> length d \<and> v = u32_at d p"
  by (auto simp: u32le_def)

lemma u16le_Some: "u16le d p = Some v \<longleftrightarrow> p + 2 \<le> length d \<and> v = u16_at d p"
  by (auto simp: u16le_def)

section \<open>Lists with keys\<close>

text \<open>\<open>dedup_by_key\<close>: of consecutive elements with equal keys the first stays.\<close>

fun dedup_by_key :: "('a \<Rightarrow> 'b) \<Rightarrow> 'a list \<Rightarrow> 'a list" where
  "dedup_by_key f [] = []"
| "dedup_by_key f [x] = [x]"
| "dedup_by_key f (x # y # xs) =
     (if f x = f y then dedup_by_key f (x # xs) else x # dedup_by_key f (y # xs))"

lemma set_dedup_by_key: "set (dedup_by_key f xs) \<subseteq> set xs"
  by (induction f xs rule: dedup_by_key.induct) auto

lemma keys_dedup_by_key: "f ` set (dedup_by_key f xs) = f ` set xs"
  by (induction f xs rule: dedup_by_key.induct) auto

lemma hd_dedup_by_key: "xs \<noteq> [] \<Longrightarrow> dedup_by_key f xs \<noteq> [] \<and> hd (dedup_by_key f xs) = hd xs"
  by (induction f xs rule: dedup_by_key.induct) auto

lemma sorted_dedup_by_key:
  fixes f :: "'a \<Rightarrow> nat"
  shows "sorted (map f xs) \<Longrightarrow> sorted_wrt (\<lambda>a b. f a < f b) (dedup_by_key f xs)"
proof (induction f xs rule: dedup_by_key.induct)
  case (3 f x y xs)
  then show ?case
  proof (cases "f x = f y")
    case False
    then have "sorted_wrt (\<lambda>a b. f a < f b) (dedup_by_key f (y # xs))" using 3 by auto
    moreover have "\<forall>z\<in>set (y # xs). f x < f z" using 3(3) False by force
    ultimately show ?thesis using False set_dedup_by_key [of f "y # xs"] by auto
  qed auto
qed auto

section \<open>Bounds of a walk\<close>

datatype LimitHit = CentralRecords | CentralBytes | CandidateRecords | ScanBytes | MetadataBytes | MalformedStreak

definition limit_code :: "LimitHit \<Rightarrow> string" where
  "limit_code l =
     (case l of
        CentralRecords \<Rightarrow> ''CENTRAL_DIRECTORY_WALK_LIMIT_REACHED''
      | CentralBytes \<Rightarrow> ''CENTRAL_DIRECTORY_BYTE_LIMIT_REACHED''
      | CandidateRecords \<Rightarrow> ''LOCAL_HEADER_SCAN_LIMIT_REACHED''
      | ScanBytes \<Rightarrow> ''LOCAL_HEADER_SCAN_BYTE_LIMIT_REACHED''
      | MetadataBytes \<Rightarrow> ''METADATA_ALLOCATION_LIMIT_REACHED''
      | MalformedStreak \<Rightarrow> ''MALFORMED_RECORD_STREAK_LIMIT_REACHED'')"

record ZipRecoveryPolicy =
  max_central_records :: nat
  max_central_bytes :: nat
  max_candidate_records :: nat
  max_scan_bytes :: nat
  max_metadata_bytes :: nat
  max_malformed_streak :: nat
  max_name_bytes :: nat
  max_extra_bytes :: nat
  max_comment_bytes :: nat
  max_offset_segments :: nat

definition policy_default :: ZipRecoveryPolicy where
  "policy_default =
     \<lparr> max_central_records = 262144, max_central_bytes = 128 * 1024 * 1024,
       max_candidate_records = 262144, max_scan_bytes = 2 * 1024 * 1024 * 1024,
       max_metadata_bytes = 64 * 1024 * 1024, max_malformed_streak = 4096,
       max_name_bytes = 65535, max_extra_bytes = 65535, max_comment_bytes = 65535,
       max_offset_segments = 4 \<rparr>"

definition policy_tiny :: ZipRecoveryPolicy where
  "policy_tiny =
     \<lparr> max_central_records = 4, max_central_bytes = 4096, max_candidate_records = 4,
       max_scan_bytes = 4096, max_metadata_bytes = 4096, max_malformed_streak = 16,
       max_name_bytes = 256, max_extra_bytes = 256, max_comment_bytes = 256,
       max_offset_segments = 2 \<rparr>"

definition policy_validate :: "ZipRecoveryPolicy \<Rightarrow> string + unit" where
  "policy_validate p =
     (if max_central_records p = 0 then Inl ''max_central_records must be > 0''
      else if max_candidate_records p = 0 then Inl ''max_candidate_records must be > 0''
      else if max_central_bytes p = 0 \<or> max_scan_bytes p = 0 then Inl ''byte limits must be > 0''
      else if max_metadata_bytes p = 0 then Inl ''max_metadata_bytes must be > 0''
      else if max_malformed_streak p = 0 then Inl ''max_malformed_streak must be > 0''
      else if max_name_bytes p = 0 then Inl ''max_name_bytes must be > 0''
      else Inr ())"

lemma policies_validate: "policy_validate policy_default = Inr ()" "policy_validate policy_tiny = Inr ()"
  by (simp_all add: policy_validate_def policy_default_def policy_tiny_def)

lemma limit_code_inj: "limit_code a = limit_code b \<Longrightarrow> a = b"
  by (cases a; cases b) (simp_all add: limit_code_def)

section \<open>Provenance and verdicts\<close>

datatype CdProvenance = OriginalSurviving | Reconstructed | ExternalAttested | UnknownProvenance

definition attests_existence :: "CdProvenance \<Rightarrow> bool" where
  "attests_existence p \<longleftrightarrow> p = OriginalSurviving \<or> p = ExternalAttested"

definition entry_is_attested :: "CdProvenance \<Rightarrow> bool \<Rightarrow> bool" where
  "entry_is_attested p from_central_dir \<longleftrightarrow> from_central_dir \<and> attests_existence p"

definition provenance_str :: "CdProvenance \<Rightarrow> string" where
  "provenance_str p =
     (case p of
        OriginalSurviving \<Rightarrow> ''ORIGINAL_SURVIVING''
      | Reconstructed \<Rightarrow> ''RECONSTRUCTED''
      | ExternalAttested \<Rightarrow> ''EXTERNAL_ATTESTED''
      | UnknownProvenance \<Rightarrow> ''UNKNOWN'')"

datatype RecoveryVerdict = ExactRecoverable | RecoverableWithMetadataLoss | SalvagedUnverified | Unrecoverable

definition is_trusted :: "RecoveryVerdict \<Rightarrow> bool" where
  "is_trusted v \<longleftrightarrow> v = ExactRecoverable \<or> v = RecoverableWithMetadataLoss"

definition counts_as_exact :: "RecoveryVerdict \<Rightarrow> bool" where
  "counts_as_exact v \<longleftrightarrow> v = ExactRecoverable"

definition verdict_str :: "RecoveryVerdict \<Rightarrow> string" where
  "verdict_str v =
     (case v of
        ExactRecoverable \<Rightarrow> ''EXACT_RECOVERABLE''
      | RecoverableWithMetadataLoss \<Rightarrow> ''RECOVERABLE_WITH_METADATA_LOSS''
      | SalvagedUnverified \<Rightarrow> ''SALVAGED_UNVERIFIED''
      | Unrecoverable \<Rightarrow> ''UNRECOVERABLE'')"

text \<open>The verdict order of the code: the derived order of the constructors, best first.\<close>

definition verdict_rank :: "RecoveryVerdict \<Rightarrow> nat" where
  "verdict_rank v = (case v of ExactRecoverable \<Rightarrow> 0 | RecoverableWithMetadataLoss \<Rightarrow> 1
     | SalvagedUnverified \<Rightarrow> 2 | Unrecoverable \<Rightarrow> 3)"

instantiation RecoveryVerdict :: linorder
begin

definition less_eq_RecoveryVerdict :: "RecoveryVerdict \<Rightarrow> RecoveryVerdict \<Rightarrow> bool" where
  "a \<le> b \<longleftrightarrow> verdict_rank a \<le> verdict_rank b"

definition less_RecoveryVerdict :: "RecoveryVerdict \<Rightarrow> RecoveryVerdict \<Rightarrow> bool" where
  "a < b \<longleftrightarrow> verdict_rank a < verdict_rank b"

instance
  by standard
    (auto simp: less_eq_RecoveryVerdict_def less_RecoveryVerdict_def verdict_rank_def
       split: RecoveryVerdict.splits)

end

lemma trusted_iff_rank: "is_trusted v \<longleftrightarrow> v < SalvagedUnverified"
  by (cases v) (simp_all add: is_trusted_def less_RecoveryVerdict_def verdict_rank_def)

end
