(* ===== verification/Zip_Index.thy ===== *)
theory Zip_Index
  imports Zip_Policy
begin

unbundle bit_operations_syntax

text \<open>
  The physical index of local file headers (\<open>phx_zip_core/src/zip_index.rs\<close>): one forward pass
  records every plausible header, by offset and in buckets keyed by a hash of its raw name.
  Shown: whatever the hash does, a lookup by name returns exactly the indexed headers with
  those name bytes, in file order, and a lookup by offset the header there; the pass reads no
  position twice and the probes of a lookup are bounded by its bucket.
\<close>

section \<open>Model\<close>

definition name_hash :: "bytes \<Rightarrow> u64" where
  "name_hash nm = foldl (\<lambda>h b. (h XOR ucast b) * 0x00000100000001b3) 0xcbf29ce484222325 nm"

record LocalHeaderRecord =
  lr_offset :: nat
  lr_name_start :: nat
  lr_name_len :: nat
  lr_method :: u16
  lr_flags :: u16
  lr_crc32 :: u32
  lr_comp_size :: nat
  lr_uncomp_size :: nat
  lr_data_start :: nat

definition raw_name :: "LocalHeaderRecord \<Rightarrow> bytes \<Rightarrow> bytes option" where
  "raw_name r d =
     (case checked_add (lr_name_start r) (lr_name_len r) of
        None \<Rightarrow> None | Some e \<Rightarrow> get_range d (lr_name_start r) e)"

record IndexStats =
  indexed_lfh_count :: nat
  index_build_reads :: nat
  base_lookup_buckets :: nat
  base_candidate_probes :: nat
  fallback_linear_probes :: nat

definition stats_default :: IndexStats where
  "stats_default =
     \<lparr> indexed_lfh_count = 0, index_build_reads = 0, base_lookup_buckets = 0,
       base_candidate_probes = 0, fallback_linear_probes = 0 \<rparr>"

record LocalHeaderIndex =
  ix_records :: "LocalHeaderRecord list"
  ix_by_name :: "u64 \<rightharpoonup> nat list"
  ix_by_offset :: "nat \<rightharpoonup> nat"
  ix_stats :: IndexStats

definition index_default :: LocalHeaderIndex where
  "index_default =
     \<lparr> ix_records = [], ix_by_name = Map.empty, ix_by_offset = Map.empty, ix_stats = stats_default \<rparr>"

text \<open>The header at a signature, unless one of the plausibility checks skips it.\<close>

definition header_record_at :: "bytes \<Rightarrow> ZipRecoveryPolicy \<Rightarrow> nat \<Rightarrow> (bytes \<times> LocalHeaderRecord) option" where
  "header_record_at d policy i =
     (let name_len = unat (u16_at d (i + 26)); extra_len = unat (u16_at d (i + 28));
          name_start = i + 30 in
      if name_len = 0 \<or> max_name_bytes policy < name_len \<or> max_extra_bytes policy < extra_len then None
      else
        (case checked_add name_start name_len of
           None \<Rightarrow> None
         | Some name_end \<Rightarrow>
             (case checked_add name_end extra_len of
                None \<Rightarrow> None
              | Some data_start \<Rightarrow>
                  if length d < data_start then None
                  else
                    (case get_range d name_start name_end of
                       None \<Rightarrow> None
                     | Some nm \<Rightarrow>
                         Some (nm, \<lparr> lr_offset = i, lr_name_start = name_start, lr_name_len = name_len,
                           lr_method = u16_at d (i + 8), lr_flags = u16_at d (i + 6),
                           lr_crc32 = u32_at d (i + 14), lr_comp_size = unat (u32_at d (i + 18)),
                           lr_uncomp_size = unat (u32_at d (i + 22)), lr_data_start = data_start \<rparr>)))))"

definition index_insert :: "LocalHeaderIndex \<Rightarrow> bytes \<Rightarrow> LocalHeaderRecord \<Rightarrow> LocalHeaderIndex" where
  "index_insert idx nm r =
     (let slot = length (ix_records idx); h = name_hash nm in
      idx\<lparr> ix_by_name := (ix_by_name idx)(h \<mapsto>
              (case ix_by_name idx h of None \<Rightarrow> [] | Some slots \<Rightarrow> slots) @ [slot]),
           ix_by_offset := (ix_by_offset idx)(lr_offset r \<mapsto> slot),
           ix_records := ix_records idx @ [r] \<rparr>)"

definition next_position :: "LocalHeaderRecord \<Rightarrow> nat \<Rightarrow> nat" where
  "next_position r i =
     (let nxt = (if 0 < lr_comp_size r then lr_data_start r + lr_comp_size r else lr_data_start r) in
      if i < nxt then nxt else i + 1)"

lemma next_position_gt: "i < next_position r i"
  by (simp add: next_position_def Let_def)

function index_loop ::
  "bytes \<Rightarrow> ZipRecoveryPolicy \<Rightarrow> nat \<Rightarrow> nat \<Rightarrow> LocalHeaderIndex \<Rightarrow> LocalHeaderIndex \<times> nat" where
  "index_loop d policy i reads idx =
     (if i + 30 \<le> min (length d) (max_scan_bytes policy) then
        (if u32le d i \<noteq> Some LFH_SIG then index_loop d policy (i + 1) (reads + 1) idx
         else if max_candidate_records policy \<le> length (ix_records idx) then (idx, reads + 1)
         else
           (case header_record_at d policy i of
              None \<Rightarrow> index_loop d policy (i + 1) (reads + 1) idx
            | Some (nm, r) \<Rightarrow>
                index_loop d policy (next_position r i) (reads + 1) (index_insert idx nm r)))
      else (idx, reads))"
  by pat_completeness auto
termination
proof (relation "measure (\<lambda>(d, policy, i, reads, idx). length d - i)", goal_cases)
  case (4 d policy i reads idx p nm r)
  then show ?case using next_position_gt [of i r] by (simp add: diff_less_mono2)
qed auto

declare index_loop.simps [simp del]

definition index_build :: "bytes \<Rightarrow> ZipRecoveryPolicy \<Rightarrow> LocalHeaderIndex" where
  "index_build d policy =
     (case index_loop d policy 0 0 index_default of
        (idx, reads) \<Rightarrow>
          idx\<lparr> ix_stats := (ix_stats idx)\<lparr> indexed_lfh_count := length (ix_records idx),
                                              index_build_reads := reads \<rparr> \<rparr>)"

definition at_offset :: "LocalHeaderIndex \<Rightarrow> nat \<Rightarrow> LocalHeaderRecord option" where
  "at_offset idx off = map_option (\<lambda>s. ix_records idx ! s) (ix_by_offset idx off)"

definition candidates_named ::
  "LocalHeaderIndex \<Rightarrow> bytes \<Rightarrow> bytes \<Rightarrow> LocalHeaderRecord list \<times> LocalHeaderIndex" where
  "candidates_named idx d nm =
     (let st = (ix_stats idx)\<lparr> base_lookup_buckets := base_lookup_buckets (ix_stats idx) + 1 \<rparr> in
      case ix_by_name idx (name_hash nm) of
        None \<Rightarrow> ([], idx\<lparr> ix_stats := st \<rparr>)
      | Some slots \<Rightarrow>
          (filter (\<lambda>r. raw_name r d = Some nm) (map (\<lambda>s. ix_records idx ! s) slots),
           idx\<lparr> ix_stats := st\<lparr> base_candidate_probes := base_candidate_probes st + length slots \<rparr> \<rparr>))"

section \<open>The index invariant\<close>

definition bucket :: "bytes \<Rightarrow> LocalHeaderRecord list \<Rightarrow> u64 \<Rightarrow> nat list" where
  "bucket d rs h = filter (\<lambda>s. map_option name_hash (raw_name (rs ! s) d) = Some h) [0..<length rs]"

definition index_ok :: "bytes \<Rightarrow> nat \<Rightarrow> LocalHeaderIndex \<Rightarrow> bool" where
  "index_ok d i idx \<longleftrightarrow>
     sorted_wrt (<) (map lr_offset (ix_records idx)) \<and> list_all (\<lambda>r. lr_offset r < i) (ix_records idx)
     \<and> (\<forall>r\<in>set (ix_records idx). \<exists>policy nm. header_record_at d policy (lr_offset r) = Some (nm, r)
          \<and> u32le d (lr_offset r) = Some LFH_SIG)
     \<and> (\<forall>h. (case ix_by_name idx h of None \<Rightarrow> [] | Some slots \<Rightarrow> slots) = bucket d (ix_records idx) h)
     \<and> (\<forall>off. ix_by_offset idx off = find (\<lambda>s. lr_offset (ix_records idx ! s) = off) [0..<length (ix_records idx)])"

lemma header_record_at_name:
  assumes "header_record_at d policy i = Some (nm, r)"
  shows "raw_name r d = Some nm \<and> lr_offset r = i \<and> i + 30 + length nm \<le> lr_data_start r
    \<and> lr_data_start r \<le> length d"
  using assms
  by (auto simp: header_record_at_def Let_def raw_name_def checked_add_def get_range_def
      split: if_splits option.splits)

lemma bucket_snoc:
  "bucket d (rs @ [r]) h
     = bucket d rs h @ (if map_option name_hash (raw_name r d) = Some h then [length rs] else [])"
proof -
  have "filter (\<lambda>s. map_option name_hash (raw_name ((rs @ [r]) ! s) d) = Some h) [0..<length rs]
    = filter (\<lambda>s. map_option name_hash (raw_name (rs ! s) d) = Some h) [0..<length rs]"
    by (rule filter_cong) (auto simp: nth_append)
  then show ?thesis by (simp add: bucket_def)
qed

lemma find_offset_snoc:
  assumes "list_all (\<lambda>x. lr_offset x \<noteq> lr_offset r) rs"
  shows "find (\<lambda>s. lr_offset ((rs @ [r]) ! s) = off) [0..<length (rs @ [r])]
    = (if off = lr_offset r then Some (length rs) else find (\<lambda>s. lr_offset (rs ! s) = off) [0..<length rs])"
proof -
  have app: "find P (xs @ ys) = (case find P xs of None \<Rightarrow> find P ys | Some x \<Rightarrow> Some x)" for P :: "nat \<Rightarrow> bool" and xs ys
    by (induction xs) auto
  have "find (\<lambda>s. lr_offset ((rs @ [r]) ! s) = off) [0..<length rs] = find (\<lambda>s. lr_offset (rs ! s) = off) [0..<length rs]"
    by (rule find_cong) (auto simp: nth_append)
  moreover have "find (\<lambda>s. lr_offset (rs ! s) = lr_offset r) [0..<length rs] = None"
    using assms by (auto simp: find_None_iff list_all_length)
  ultimately show ?thesis by (auto simp: app split: option.splits)
qed

lemma index_ok_insert:
  assumes ok: "index_ok d i idx" and h: "header_record_at d policy i = Some (nm, r)"
    and sig: "u32le d i = Some LFH_SIG"
  shows "index_ok d (next_position r i) (index_insert idx nm r)"
proof -
  note nm = header_record_at_name [OF h]
  let ?idx = "index_insert idx nm r"
  have recs: "ix_records ?idx = ix_records idx @ [r]" by (simp add: index_insert_def Let_def)
  have below: "list_all (\<lambda>x. lr_offset x < i) (ix_records idx)" using ok by (simp add: index_ok_def)
  have "sorted_wrt (<) (map lr_offset (ix_records ?idx))"
    using ok nm below unfolding recs by (auto simp: index_ok_def sorted_wrt_append list_all_iff)
  moreover have "list_all (\<lambda>x. lr_offset x < next_position r i) (ix_records ?idx)"
    using below nm next_position_gt [of i r] unfolding recs
    by (auto simp: list_all_iff intro: less_trans)
  moreover have "\<forall>x\<in>set (ix_records ?idx). \<exists>policy nm. header_record_at d policy (lr_offset x) = Some (nm, x)
      \<and> u32le d (lr_offset x) = Some LFH_SIG"
    using ok h sig nm unfolding recs index_ok_def by auto
  moreover have "(case ix_by_name ?idx k of None \<Rightarrow> [] | Some slots \<Rightarrow> slots) = bucket d (ix_records ?idx) k" for k
    using ok nm unfolding recs bucket_snoc index_ok_def by (auto simp: index_insert_def Let_def)
  moreover have "ix_by_offset ?idx off
      = find (\<lambda>s. lr_offset (ix_records ?idx ! s) = off) [0..<length (ix_records ?idx)]" for off
  proof -
    have "list_all (\<lambda>x. lr_offset x \<noteq> lr_offset r) (ix_records idx)"
      using below nm by (auto simp: list_all_iff)
    from find_offset_snoc [OF this] show ?thesis
      using ok unfolding recs index_ok_def by (simp add: index_insert_def Let_def)
  qed
  ultimately show ?thesis unfolding index_ok_def by blast
qed

lemma index_ok_mono: "index_ok d i idx \<Longrightarrow> i \<le> j \<Longrightarrow> index_ok d j idx"
  unfolding index_ok_def by (auto simp: list_all_iff)

lemma index_loop_ok:
  assumes "index_ok d i idx" "index_loop d policy i reads idx = (idx', reads')"
    "reads \<le> i" "length (ix_records idx) \<le> max_candidate_records policy"
  shows "(\<exists>j. index_ok d j idx') \<and> reads' \<le> max reads (length d)
    \<and> length (ix_records idx') \<le> max_candidate_records policy \<and> ix_stats idx' = ix_stats idx"
  using assms
proof (induction d policy i reads idx arbitrary: idx' reads' rule: index_loop.induct)
  case (1 d policy i reads idx)
  show ?case
  proof (cases "i + 30 \<le> min (length d) (max_scan_bytes policy)")
    case False
    then show ?thesis using 1(4,5,6,7) by (auto simp: index_loop.simps [of d policy i])
  next
    case more: True
    show ?thesis
    proof (cases "u32le d i \<noteq> Some LFH_SIG")
      case True
      then have "index_loop d policy (i + 1) (reads + 1) idx = (idx', reads')"
        using 1(5) more by (simp add: index_loop.simps [of d policy i])
      from 1(1) [OF more True index_ok_mono [OF 1(4)] this] 1(6,7) more show ?thesis by auto
    next
      case sig: False
      show ?thesis
      proof (cases "max_candidate_records policy \<le> length (ix_records idx)")
        case True
        then show ?thesis using 1(4,5,6,7) more sig by (auto simp: index_loop.simps [of d policy i])
      next
        case room: False
        show ?thesis
        proof (cases "header_record_at d policy i")
          case None
          then have "index_loop d policy (i + 1) (reads + 1) idx = (idx', reads')"
            using 1(5) more sig room by (simp add: index_loop.simps [of d policy i])
          from 1(2) [OF more sig room None index_ok_mono [OF 1(4)] this] 1(6,7) more show ?thesis by auto
        next
          case (Some p)
          obtain nm r where p: "p = (nm, r)" by (cases p)
          have "index_loop d policy (next_position r i) (reads + 1) (index_insert idx nm r) = (idx', reads')"
            using 1(5) more sig room Some p by (simp add: index_loop.simps [of d policy i])
          moreover have "index_ok d (next_position r i) (index_insert idx nm r)"
            using index_ok_insert [OF 1(4) Some [unfolded p]] sig by simp
          moreover have "reads + 1 \<le> next_position r i" using 1(6) next_position_gt [of i r] by simp
          moreover have "length (ix_records (index_insert idx nm r)) \<le> max_candidate_records policy"
            "ix_stats (index_insert idx nm r) = ix_stats idx"
            using room by (simp_all add: index_insert_def Let_def)
          ultimately show ?thesis
            using 1(3) [OF more sig room Some p [symmetric], of idx' reads'] 1(6) more by auto
        qed
      qed
    qed
  qed
qed

section \<open>Lookups\<close>

text \<open>
  The lookup contract that reconciliation relies on: a lookup by name is the filter over the
  indexed headers, a lookup by offset the header at that offset.
\<close>

locale header_lookup =
  fixes headers :: "LocalHeaderRecord list" and at :: "nat \<Rightarrow> LocalHeaderRecord option"
    and named :: "bytes \<Rightarrow> LocalHeaderRecord list" and name_of :: "LocalHeaderRecord \<Rightarrow> bytes option"
  assumes at_find: "at off = find (\<lambda>r. lr_offset r = off) headers"
    and named_filter: "named nm = filter (\<lambda>r. name_of r = Some nm) headers"
    and offsets_distinct: "distinct (map lr_offset headers)"
begin

lemma at_iff: "at off = Some r \<longleftrightarrow> r \<in> set headers \<and> lr_offset r = off"
proof
  assume "r \<in> set headers \<and> lr_offset r = off"
  then have "find (\<lambda>r. lr_offset r = off) headers = Some r"
    using offsets_distinct
  proof (induction headers)
    case (Cons x xs)
    then show ?case by (cases "x = r") (auto simp: image_iff)
  qed simp
  then show "at off = Some r" by (simp add: at_find)
qed (use find_SomeD in \<open>fastforce simp: at_find\<close>)

text \<open>A name that one header carries identifies that header, and looking up its offset finds it again.\<close>

lemma unique_named:
  assumes "named nm = [r]"
  shows "at (lr_offset r) = Some r \<and> name_of r = Some nm
    \<and> (\<forall>r'\<in>set headers. name_of r' = Some nm \<longrightarrow> r' = r)"
proof -
  have "set (filter (\<lambda>r. name_of r = Some nm) headers) = {r}" using assms named_filter by simp
  then show ?thesis by (auto simp: at_iff)
qed

end

lemma bucket_records:
  "map (\<lambda>s. rs ! s) (bucket d rs h) = filter (\<lambda>r. map_option name_hash (raw_name r d) = Some h) rs"
proof -
  have "map (\<lambda>s. rs ! s) (bucket d rs h) = filter (\<lambda>r. map_option name_hash (raw_name r d) = Some h) (map (\<lambda>s. rs ! s) [0..<length rs])"
    by (simp add: bucket_def filter_map o_def)
  then show ?thesis by (simp add: map_nth)
qed

lemma candidates_named_filter:
  assumes "index_ok d i idx"
  shows "fst (candidates_named idx d nm) = filter (\<lambda>r. raw_name r d = Some nm) (ix_records idx)"
proof -
  let ?slots = "case ix_by_name idx (name_hash nm) of None \<Rightarrow> [] | Some slots \<Rightarrow> slots"
  have "fst (candidates_named idx d nm)
    = filter (\<lambda>r. raw_name r d = Some nm) (map (\<lambda>s. ix_records idx ! s) ?slots)"
    by (simp add: candidates_named_def Let_def split: option.splits)
  also have "?slots = bucket d (ix_records idx) (name_hash nm)" using assms by (simp add: index_ok_def)
  finally show ?thesis by (auto simp: bucket_records intro!: filter_cong)
qed

lemma find_slots: "map_option ((!) rs) (find (\<lambda>s. P (rs ! s)) [0..<length rs]) = find P rs"
proof -
  have "map_option f (find (\<lambda>s. P (f s)) xs) = find P (map f xs)" for f :: "nat \<Rightarrow> 'a" and xs
    by (induction xs) auto
  from this [of "(!) rs" "[0..<length rs]"] show ?thesis by (simp add: map_nth)
qed

lemma at_offset_find:
  assumes "index_ok d i idx"
  shows "at_offset idx off = find (\<lambda>r. lr_offset r = off) (ix_records idx)"
  using assms find_slots [of "ix_records idx" "\<lambda>r. lr_offset r = off"]
  by (simp add: at_offset_def index_ok_def)

lemma index_default_ok: "index_ok d 0 index_default"
  by (simp add: index_ok_def index_default_def bucket_def)

lemma index_ok_stats: "index_ok d i (idx\<lparr> ix_stats := st \<rparr>) = index_ok d i idx"
  by (simp add: index_ok_def)

lemma index_build_ok:
  "\<exists>i. index_ok d i (index_build d policy)"
  "index_build_reads (ix_stats (index_build d policy)) \<le> length d"
  "length (ix_records (index_build d policy)) \<le> max_candidate_records policy"
proof -
  obtain idx reads where b: "index_loop d policy 0 0 index_default = (idx, reads)"
    by (cases "index_loop d policy 0 0 index_default")
  have "length (ix_records index_default) \<le> max_candidate_records policy" by (simp add: index_default_def)
  note ok = index_loop_ok [OF index_default_ok b order.refl this]
  then show "\<exists>i. index_ok d i (index_build d policy)"
    "index_build_reads (ix_stats (index_build d policy)) \<le> length d"
    "length (ix_records (index_build d policy)) \<le> max_candidate_records policy"
    by (auto simp: index_build_def b index_ok_stats)
qed

interpretation zip_headers: header_lookup "ix_records (index_build d policy)" "at_offset (index_build d policy)"
  "\<lambda>nm. fst (candidates_named (index_build d policy) d nm)" "\<lambda>r. raw_name r d" for d policy
proof
  obtain i where ok: "index_ok d i (index_build d policy)" using index_build_ok(1) by blast
  show "at_offset (index_build d policy) off = find (\<lambda>r. lr_offset r = off) (ix_records (index_build d policy))" for off
    by (rule at_offset_find [OF ok])
  show "fst (candidates_named (index_build d policy) d nm)
      = filter (\<lambda>r. raw_name r d = Some nm) (ix_records (index_build d policy))" for nm
    by (rule candidates_named_filter [OF ok])
  show "distinct (map lr_offset (ix_records (index_build d policy)))"
    using ok by (simp add: index_ok_def strict_sorted_iff)
qed

text \<open>
  C29. The index answers as a scan of all indexed headers would: a lookup by name returns exactly
  the headers with those name bytes, in file order, whatever names share a hash bucket; a
  lookup by offset returns the header there; each indexed header starts with the signature
  at its offset and carries the name stored behind it; and building it examines each position
  at most once.
\<close>

theorem index_lookups_exact:
  "fst (candidates_named (index_build d policy) d nm)
     = filter (\<lambda>r. raw_name r d = Some nm) (ix_records (index_build d policy))
   \<and> at_offset (index_build d policy) off = find (\<lambda>r. lr_offset r = off) (ix_records (index_build d policy))
   \<and> list_all (\<lambda>r. u32le d (lr_offset r) = Some LFH_SIG
        \<and> raw_name r d = Some (cut d (lr_offset r + 30) (lr_offset r + 30 + unat (u16_at d (lr_offset r + 26)))))
       (ix_records (index_build d policy))
   \<and> sorted_wrt (<) (map lr_offset (ix_records (index_build d policy)))
   \<and> index_build_reads (ix_stats (index_build d policy)) \<le> length d"
proof -
  obtain i where ok: "index_ok d i (index_build d policy)" using index_build_ok(1) by blast
  have "u32le d (lr_offset r) = Some LFH_SIG
      \<and> raw_name r d = Some (cut d (lr_offset r + 30) (lr_offset r + 30 + unat (u16_at d (lr_offset r + 26))))"
    if r: "r \<in> set (ix_records (index_build d policy))" for r
  proof -
    obtain pol nm where h: "header_record_at d pol (lr_offset r) = Some (nm, r)" "u32le d (lr_offset r) = Some LFH_SIG"
      using ok r unfolding index_ok_def by blast
    moreover have "nm = cut d (lr_offset r + 30) (lr_offset r + 30 + unat (u16_at d (lr_offset r + 26)))"
      using h(1) by (auto simp: header_record_at_def Let_def get_range_def checked_add_def split: if_splits option.splits)
    ultimately show ?thesis using header_record_at_name by metis
  qed
  then have "list_all (\<lambda>r. u32le d (lr_offset r) = Some LFH_SIG
        \<and> raw_name r d = Some (cut d (lr_offset r + 30) (lr_offset r + 30 + unat (u16_at d (lr_offset r + 26)))))
       (ix_records (index_build d policy))"
    unfolding list_all_iff by blast
  then show ?thesis
    using zip_headers.named_filter zip_headers.at_find index_build_ok(2) ok by (simp add: index_ok_def)
qed

end
