(* ===== verification/Zip_Entries.thy ===== *)
theory Zip_Entries
  imports Zip_Policy Zip_Index Resync_Gzip
begin

unbundle bit_operations_syntax

text \<open>
  Entries of the recovery-oriented ZIP reader (\<open>phx_zip_core/src/opc_zip.rs\<close>): their records in
  the central directory and in a scan of local headers, the bytes they occupy, and their
  extraction with the CRC check. The DEFLATE decoder and the CRC of the third-party library
  are parameters.
  Shown: an extraction is verified only when the bytes at the entry's place decode to data
  with the expected CRC; the directory walk reads back what a writer wrote.
\<close>

section \<open>Data\<close>

definition MAX_INFLATE_BYTES :: nat where "MAX_INFLATE_BYTES = 512 * 1024 * 1024"

record ZipEntry =
  en_name :: string
  name_valid_utf8 :: bool
  en_method :: u16
  en_crc32 :: u32
  en_comp_size :: nat
  en_uncomp_size :: nat
  local_header_offset :: nat
  en_flags :: u16
  en_zip64 :: bool
  from_central_dir :: bool

definition is_encrypted :: "ZipEntry \<Rightarrow> bool" where
  "is_encrypted e \<longleftrightarrow> en_flags e AND 0x0001 \<noteq> 0 \<or> en_flags e AND 0x0040 \<noteq> 0"

definition has_data_descriptor :: "ZipEntry \<Rightarrow> bool" where
  "has_data_descriptor e \<longleftrightarrow> en_flags e AND 0x0008 \<noteq> 0"

definition ZIP64_SENTINEL_U32 :: u32 where "ZIP64_SENTINEL_U32 = 0xFFFFFFFF"

datatype ExtractStatus = VerifiedCrc | CrcMismatch | DecodeFailed | BadLocalHeader | Truncated
  | Unsupported u16 | Encrypted | Zip64Unsupported | StreamedUnsized

record ExtractedPart =
  ep_name :: string
  ep_bytes :: bytes
  ep_status :: ExtractStatus
  crc_expected :: u32
  crc_actual :: u32

section \<open>Helpers\<close>

primrec bounded_chunks :: "nat \<Rightarrow> bytes list \<Rightarrow> bytes \<Rightarrow> bytes option" where
  "bounded_chunks mx [] out = Some out"
| "bounded_chunks mx (c # cs) out =
     (if mx < length (out @ c) then None else bounded_chunks mx cs (out @ c))"

definition inflate_bounded :: "inflater \<Rightarrow> bytes \<Rightarrow> nat \<Rightarrow> bytes option" where
  "inflate_bounded dec d mx =
     (case bounded_chunks mx (inf_chunks dec d) [] of
        None \<Rightarrow> None
      | Some out \<Rightarrow> if inf_error dec d = None then Some out else None)"

definition local_header_present :: "bytes \<Rightarrow> nat \<Rightarrow> bool" where
  "local_header_present d off \<longleftrightarrow>
     (case checked_add off 30 of None \<Rightarrow> False | Some e \<Rightarrow> e \<le> length d) \<and> u32le d off = Some LFH_SIG"

definition entry_header_at :: "bytes \<Rightarrow> nat \<Rightarrow> bytes \<Rightarrow> bool" where
  "entry_header_at d off nm \<longleftrightarrow>
     local_header_present d off
     \<and> (case u16le d (off + 26) of
          None \<Rightarrow> False
        | Some nl \<Rightarrow> unat nl = length nm \<and> get_range d (off + 30) (off + 30 + length nm) = Some nm)"

definition opc_find_eocd :: "bytes \<Rightarrow> nat option" where
  "opc_find_eocd d =
     (if length d < 22 then None
      else find (\<lambda>i. u32le d i = Some EOCD_SIG) (rev [length d - (22 + 65535)..<length d - 22 + 1]))"

definition is_zip64 :: "u32 \<Rightarrow> u32 \<Rightarrow> u32 \<Rightarrow> bool" where
  "is_zip64 packed plain offs \<longleftrightarrow>
     packed = ZIP64_SENTINEL_U32 \<or> plain = ZIP64_SENTINEL_U32 \<or> offs = ZIP64_SENTINEL_U32"

function zip64_field_from :: "bytes \<Rightarrow> nat \<Rightarrow> bool" where
  "zip64_field_from extra pos =
     (if pos + 4 \<le> length extra
      then u16_at extra pos = 0x0001 \<or> zip64_field_from extra (pos + 4 + unat (u16_at extra (pos + 2)))
      else False)"
  by pat_completeness auto
termination by (relation "measure (\<lambda>(extra, pos). length extra - pos)") auto

declare zip64_field_from.simps [simp del]

definition extra_has_zip64 :: "bytes option \<Rightarrow> bool" where
  "extra_has_zip64 extra = (case extra of None \<Rightarrow> False | Some x \<Rightarrow> zip64_field_from x 0)"

text \<open>The name of an entry and whether its raw bytes are valid text.\<close>

definition entry_name :: "bytes option \<Rightarrow> string" where
  "entry_name raw = (case raw of None \<Rightarrow> [] | Some b \<Rightarrow> from_utf8_lossy b)"

definition entry_name_valid :: "bytes option \<Rightarrow> bool" where
  "entry_name_valid raw = (case raw of None \<Rightarrow> False | Some b \<Rightarrow> utf8_valid b)"

section \<open>The central directory\<close>

text \<open>A record at a signature: its entry, its end and the length of its variable fields.\<close>

definition central_entry_at :: "bytes \<Rightarrow> ZipRecoveryPolicy \<Rightarrow> nat \<Rightarrow> (ZipEntry \<times> nat \<times> nat) option" where
  "central_entry_at cd policy pos =
     (let comp_raw = u32_at cd (pos + 20); uncomp_raw = u32_at cd (pos + 24);
          name_len = unat (u16_at cd (pos + 28)); extra_len = unat (u16_at cd (pos + 30));
          comment_len = unat (u16_at cd (pos + 32)); lho_raw = u32_at cd (pos + 42) in
      if max_name_bytes policy < name_len \<or> max_extra_bytes policy < extra_len
         \<or> max_comment_bytes policy < comment_len
      then None
      else
        (let name_start = pos + 46; name_end = name_start + name_len;
             record_end = name_end + extra_len + comment_len in
         if length cd < record_end then None
         else
           (let raw = get_range cd name_start name_end in
            Some (\<lparr> en_name = entry_name raw, name_valid_utf8 = entry_name_valid raw,
                    en_method = u16_at cd (pos + 10), en_crc32 = u32_at cd (pos + 16),
                    en_comp_size = unat comp_raw, en_uncomp_size = unat uncomp_raw,
                    local_header_offset = unat lho_raw, en_flags = u16_at cd (pos + 8),
                    en_zip64 = (is_zip64 comp_raw uncomp_raw lho_raw
                      \<or> extra_has_zip64 (get_range cd name_end (name_end + extra_len))),
                    from_central_dir = True \<rparr>,
                  record_end, name_len + extra_len + comment_len))))"

lemma central_entry_at_advances: "central_entry_at cd policy pos = Some (e, record_end, n) \<Longrightarrow> pos + 46 \<le> record_end"
  by (auto simp: central_entry_at_def Let_def split: if_splits)

function central_from ::
  "bytes \<Rightarrow> ZipRecoveryPolicy \<Rightarrow> nat \<Rightarrow> nat \<Rightarrow> ZipEntry list \<Rightarrow> ZipEntry list \<times> LimitHit option" where
  "central_from cd policy pos metadata entries =
     (if pos + 46 \<le> min (length cd) (max_central_bytes policy) then
        (if max_central_records policy \<le> length entries then (entries, Some CentralRecords)
         else if u32le cd pos \<noteq> Some CDFH_SIG then (entries, None)
         else
           (case central_entry_at cd policy pos of
              None \<Rightarrow> (entries, None)
            | Some (e, record_end, n) \<Rightarrow>
                if max_metadata_bytes policy < metadata + n then (entries, Some MetadataBytes)
                else central_from cd policy record_end (metadata + n) (entries @ [e])))
      else (entries, None))"
  by pat_completeness auto
termination
  by (relation "measure (\<lambda>(cd, policy, pos, metadata, entries). length cd - pos)")
     (auto dest!: central_entry_at_advances)

declare central_from.simps [simp del]

text \<open>The declared count is a hint that the walk ignores.\<close>

definition parse_central_directory_bounded ::
  "bytes \<Rightarrow> nat \<Rightarrow> ZipRecoveryPolicy \<Rightarrow> ZipEntry list \<times> LimitHit option" where
  "parse_central_directory_bounded cd declared_count policy = central_from cd policy 0 0 []"

section \<open>The local header scan\<close>

definition next_signature :: "bytes \<Rightarrow> nat \<Rightarrow> nat option" where
  "next_signature d from =
     find (\<lambda>i. u32le d i = Some LFH_SIG \<or> u32le d i = Some CDFH_SIG \<or> u32le d i = Some 0x08074b50)
       [from..<length d - 3]"

definition scanned_entry_at :: "bytes \<Rightarrow> nat \<Rightarrow> ZipEntry" where
  "scanned_entry_at d i =
     (let comp_raw = u32_at d (i + 18); uncomp_raw = u32_at d (i + 22);
          name_start = i + 30; name_end = name_start + unat (u16_at d (i + 26));
          raw = get_range d name_start name_end in
      \<lparr> en_name = entry_name raw, name_valid_utf8 = entry_name_valid raw,
        en_method = u16_at d (i + 8), en_crc32 = u32_at d (i + 14),
        en_comp_size = unat comp_raw, en_uncomp_size = unat uncomp_raw,
        local_header_offset = i, en_flags = u16_at d (i + 6),
        en_zip64 = (is_zip64 comp_raw uncomp_raw 0
          \<or> extra_has_zip64 (get_range d name_end (name_end + unat (u16_at d (i + 28))))),
        from_central_dir = False \<rparr>)"

text \<open>Where the scan goes on behind the header at \<open>i\<close>; always forward.\<close>

definition scan_next :: "bytes \<Rightarrow> nat \<Rightarrow> nat" where
  "scan_next d i =
     (let data_start = i + 30 + unat (u16_at d (i + 26)) + unat (u16_at d (i + 28));
          comp_size = unat (u32_at d (i + 18));
          nxt = (if 0 < comp_size then data_start + comp_size
                 else (case next_signature d data_start of Some p \<Rightarrow> p | None \<Rightarrow> length d)) in
      if i < nxt then nxt else i + 1)"

lemma scan_next_gt: "i < scan_next d i"
  by (simp add: scan_next_def Let_def)

function scan_entries_from ::
  "bytes \<Rightarrow> ZipRecoveryPolicy \<Rightarrow> nat \<Rightarrow> ZipEntry list \<Rightarrow> ZipEntry list \<times> LimitHit option" where
  "scan_entries_from d policy i entries =
     (if i + 30 \<le> min (length d) (max_scan_bytes policy) then
        (if max_candidate_records policy \<le> length entries then (entries, Some CandidateRecords)
         else if u32le d i \<noteq> Some LFH_SIG then scan_entries_from d policy (i + 1) entries
         else scan_entries_from d policy (scan_next d i) (entries @ [scanned_entry_at d i]))
      else (entries, None))"
  by pat_completeness auto
termination
proof (relation "measure (\<lambda>(d, policy, i, entries). length d - i)", goal_cases)
  case (3 d policy i entries)
  then show ?case using scan_next_gt [of i d] by (simp add: diff_less_mono2)
qed auto

declare scan_entries_from.simps [simp del]

definition scan_local_headers_bounded :: "bytes \<Rightarrow> ZipRecoveryPolicy \<Rightarrow> ZipEntry list \<times> LimitHit option" where
  "scan_local_headers_bounded d policy = scan_entries_from d policy 0 []"

section \<open>Byte ranges\<close>

definition range_start :: "bytes \<Rightarrow> ZipEntry \<Rightarrow> nat option" where
  "range_start d e =
     (case checked_add (local_header_offset e) 30 of
        None \<Rightarrow> None
      | Some h \<Rightarrow>
          if length d < h then None
          else checked_add (h + unat (u16_at d (local_header_offset e + 26)))
                 (unat (u16_at d (local_header_offset e + 28))))"

definition payload_range :: "bytes \<Rightarrow> ZipEntry \<Rightarrow> (nat \<times> nat) option" where
  "payload_range d e =
     (case range_start d e of
        None \<Rightarrow> None
      | Some data_start \<Rightarrow>
          (case checked_add data_start (en_comp_size e) of
             None \<Rightarrow> None
           | Some fin \<Rightarrow> if length d < fin then None else Some (local_header_offset e, fin)))"

text \<open>The lenient variant clamps a payload that runs past the end and says so.\<close>

definition payload_range_lenient :: "bytes \<Rightarrow> ZipEntry \<Rightarrow> (nat \<times> nat \<times> bool) option" where
  "payload_range_lenient d e =
     (case range_start d e of
        None \<Rightarrow> None
      | Some data_start \<Rightarrow>
          if length d < data_start then None
          else
            (case checked_add data_start (en_comp_size e) of
               None \<Rightarrow> None
             | Some fin \<Rightarrow>
                 if fin \<le> length d then Some (local_header_offset e, fin, False)
                 else Some (local_header_offset e, length d, True)))"

section \<open>Extraction\<close>

definition extract_base :: "ZipEntry \<Rightarrow> ExtractStatus \<Rightarrow> ExtractedPart" where
  "extract_base e status =
     \<lparr> ep_name = en_name e, ep_bytes = [], ep_status = status, crc_expected = en_crc32 e, crc_actual = 0 \<rparr>"

definition extract_entry :: "inflater \<Rightarrow> (bytes \<Rightarrow> u32) \<Rightarrow> bytes \<Rightarrow> ZipEntry \<Rightarrow> ExtractedPart" where
  "extract_entry dec crc d e =
     (if is_encrypted e then extract_base e Encrypted
      else if en_zip64 e then extract_base e Zip64Unsupported
      else if \<not> from_central_dir e \<and> has_data_descriptor e \<and> en_comp_size e = 0
      then extract_base e StreamedUnsized
      else
        (let lfh = local_header_offset e in
         if u32le d lfh \<noteq> Some LFH_SIG then extract_base e BadLocalHeader
         else
           (case (u16le d (lfh + 26), u16le d (lfh + 28)) of
              (Some nl, Some el) \<Rightarrow>
                (let data_start = lfh + 30 + unat nl + unat el in
                 case checked_add data_start (en_comp_size e) of
                   None \<Rightarrow> extract_base e BadLocalHeader
                 | Some data_end \<Rightarrow>
                     (case get_range d data_start data_end of
                        None \<Rightarrow> extract_base e Truncated
                      | Some packed \<Rightarrow>
                          if en_method e \<noteq> 0 \<and> en_method e \<noteq> 8
                          then extract_base e (Unsupported (en_method e))
                          else
                            (case (if en_method e = 0 then Some packed
                                   else inflate_bounded dec packed MAX_INFLATE_BYTES) of
                               None \<Rightarrow> extract_base e DecodeFailed
                             | Some bs \<Rightarrow>
                                 \<lparr> ep_name = en_name e, ep_bytes = bs,
                                   ep_status = (if crc bs = en_crc32 e then VerifiedCrc else CrcMismatch),
                                   crc_expected = en_crc32 e, crc_actual = crc bs \<rparr>)))
            | _ \<Rightarrow> extract_base e BadLocalHeader)))"

text \<open>The bytes an extraction decodes, when the header and the size place them in the file.\<close>

definition packed_bytes :: "bytes \<Rightarrow> ZipEntry \<Rightarrow> bytes option" where
  "packed_bytes d e =
     (if u32le d (local_header_offset e) \<noteq> Some LFH_SIG then None
      else
        (case (u16le d (local_header_offset e + 26), u16le d (local_header_offset e + 28)) of
           (Some nl, Some el) \<Rightarrow>
             (let start = local_header_offset e + 30 + unat nl + unat el in
              Option.bind (checked_add start (en_comp_size e)) (get_range d start))
         | _ \<Rightarrow> None))"

definition decoded :: "inflater \<Rightarrow> u16 \<Rightarrow> bytes \<Rightarrow> bytes option" where
  "decoded dec meth packed =
     (if meth = 0 then Some packed
      else if meth = 8 then inflate_bounded dec packed MAX_INFLATE_BYTES else None)"

definition in_scope :: "ZipEntry \<Rightarrow> bool" where
  "in_scope e \<longleftrightarrow> \<not> is_encrypted e \<and> \<not> en_zip64 e
     \<and> \<not> (\<not> from_central_dir e \<and> has_data_descriptor e \<and> en_comp_size e = 0)"

lemma extract_in_scope:
  assumes "in_scope e"
  shows "extract_entry dec crc d e =
    (case packed_bytes d e of
       Some packed \<Rightarrow>
         (if en_method e \<noteq> 0 \<and> en_method e \<noteq> 8 then extract_base e (Unsupported (en_method e))
          else
            (case decoded dec (en_method e) packed of
               None \<Rightarrow> extract_base e DecodeFailed
             | Some bs \<Rightarrow>
                 \<lparr> ep_name = en_name e, ep_bytes = bs,
                   ep_status = (if crc bs = en_crc32 e then VerifiedCrc else CrcMismatch),
                   crc_expected = en_crc32 e, crc_actual = crc bs \<rparr>))
     | None \<Rightarrow>
         extract_base e
           (if u32le d (local_header_offset e) = Some LFH_SIG
               \<and> local_header_offset e + 30 \<le> length d
               \<and> local_header_offset e + 30 + unat (u16_at d (local_header_offset e + 26))
                   + unat (u16_at d (local_header_offset e + 28)) + en_comp_size e < 2 ^ 64
            then Truncated else BadLocalHeader))"
  using assms
  by (auto simp: extract_entry_def in_scope_def packed_bytes_def decoded_def Let_def checked_add_def
      u16le_def split: option.splits)

text \<open>
  C12. Verified means verified: an extraction is reported as verified exactly when the entry is neither
  encrypted nor ZIP64 nor an unsized stream, a local header stands at its offset, the bytes it
  places behind that header lie in the file and decode (as they are, or by the decoder below the
  size bound without error), and the CRC of the result is the expected one; bytes are handed
  out only for a successful decoding, and then they are the decoded bytes.
\<close>

theorem extract_verified_iff:
  "(ep_status (extract_entry dec crc d e) = VerifiedCrc
      \<longleftrightarrow> in_scope e \<and> (\<exists>packed bs. packed_bytes d e = Some packed
            \<and> decoded dec (en_method e) packed = Some bs \<and> crc bs = en_crc32 e))
   \<and> ep_bytes (extract_entry dec crc d e)
       = (case (if in_scope e then Option.bind (packed_bytes d e) (decoded dec (en_method e)) else None) of
            Some bs \<Rightarrow> bs | None \<Rightarrow> [])"
proof (cases "in_scope e")
  case True
  then show ?thesis
    by (auto simp: extract_in_scope extract_base_def decoded_def split: option.splits)
next
  case False
  then show ?thesis by (auto simp: extract_entry_def in_scope_def extract_base_def)
qed

end
