(* ===== verification/Zip_Container.thy ===== *)
theory Zip_Container
  imports Zip_Policy
begin

text \<open>
  Container ownership (\<open>phx_zip_core/src/zip_container.rs\<close>): which archives are embedded in a
  source, proven by the rebasing identity and by every directory record resolving to a local
  header of its name, and which of them owns an offset.
  Shown: what a detected archive guarantees (the confirmation count the code asserts included)
  and that the owner of an offset is the innermost detected archive around it.
\<close>

section \<open>Model\<close>

definition EOCD_LEN :: nat where "EOCD_LEN = 22"

definition MAX_EMBEDDED_ARCHIVES :: nat where "MAX_EMBEDDED_ARCHIVES = 4096"

record EmbeddedArchive =
  ea_base :: nat
  ea_end :: nat
  ea_cd_start :: nat
  ea_eocd :: nat
  ea_records :: nat
  ea_confirmed_records :: nat

definition archive_contains :: "EmbeddedArchive \<Rightarrow> nat \<Rightarrow> bool" where
  "archive_contains a off \<longleftrightarrow> ea_base a \<le> off \<and> off < ea_end a"

datatype ContainerOwnership = OuterContainer | NestedContainer | AmbiguousContainer

definition ownership_code :: "ContainerOwnership \<Rightarrow> string" where
  "ownership_code w =
     (case w of
        OuterContainer \<Rightarrow> ''OUTER_CONTAINER''
      | NestedContainer \<Rightarrow> ''NESTED_CONTAINER_DETECTED''
      | AmbiguousContainer \<Rightarrow> ''AMBIGUOUS_CONTAINER_OWNERSHIP'')"

text \<open>
  One step of a directory walk at a signature: the name, the relative local-header offset and
  the end of the record, unless a field is out of range. Both walks of the module do this.
\<close>

definition directory_record ::
  "bytes \<Rightarrow> ZipRecoveryPolicy \<Rightarrow> nat \<Rightarrow> nat \<Rightarrow> (bytes \<times> nat \<times> nat) option" where
  "directory_record d policy cd_end pos =
     (case (u16le d (pos + 28), u16le d (pos + 30), u16le d (pos + 32), u32le d (pos + 42)) of
        (Some nl, Some el, Some cl, Some rel) \<Rightarrow>
          (let name_len = unat nl; extra_len = unat el; cmt_len = unat cl in
           if max_name_bytes policy < name_len \<or> max_extra_bytes policy < extra_len then None
           else
             (let name_start = pos + 46; name_end = name_start + name_len;
                  rec_end = name_end + extra_len + cmt_len in
              if cd_end < rec_end then None
              else map_option (\<lambda>nm. (nm, unat rel, rec_end)) (get_range d name_start name_end)))
      | _ \<Rightarrow> None)"

lemma directory_record_advances: "directory_record d policy cd_end pos = Some (nm, rel, e) \<Longrightarrow> pos + 46 \<le> e \<and> e \<le> cd_end"
  by (auto simp: directory_record_def Let_def split: option.splits if_splits)

function chain_from ::
  "bytes \<Rightarrow> ZipRecoveryPolicy \<Rightarrow> nat \<Rightarrow> nat \<Rightarrow> (bytes \<times> nat) list \<Rightarrow> ((bytes \<times> nat) list \<times> nat) option" where
  "chain_from d policy cd_end pos out =
     (if pos + 46 \<le> cd_end \<and> length out < max_central_records policy then
        (if u32le d pos \<noteq> Some CDFH_SIG then Some (out, pos)
         else
           (case directory_record d policy cd_end pos of
              None \<Rightarrow> None
            | Some (nm, rel, rec_end) \<Rightarrow> chain_from d policy cd_end rec_end (out @ [(nm, rel)])))
      else Some (out, pos))"
  by pat_completeness auto
termination
  by (relation "measure (\<lambda>(d, policy, cd_end, pos, out). cd_end - pos)") (auto dest!: directory_record_advances)

declare chain_from.simps [simp del]

definition chain_records :: "bytes \<Rightarrow> nat \<Rightarrow> nat \<Rightarrow> ZipRecoveryPolicy \<Rightarrow> (bytes \<times> nat) list option" where
  "chain_records d cd_start cd_end policy =
     (case chain_from d policy cd_end cd_start [] of
        None \<Rightarrow> None
      | Some (out, pos) \<Rightarrow> if pos \<noteq> cd_end then None else Some out)"

definition header_named_at :: "bytes \<Rightarrow> nat \<Rightarrow> bytes \<Rightarrow> bool" where
  "header_named_at d at nm \<longleftrightarrow>
     (case checked_add at 30 of None \<Rightarrow> False | Some e \<Rightarrow> e \<le> length d)
     \<and> u32le d at = Some LFH_SIG
     \<and> (case u16le d (at + 26) of
          None \<Rightarrow> False
        | Some nl \<Rightarrow> unat nl = length nm \<and> get_range d (at + 30) (at + 30 + length nm) = Some nm)"

definition candidate_base_confirms ::
  "bytes \<Rightarrow> nat \<Rightarrow> nat \<Rightarrow> nat \<Rightarrow> ZipRecoveryPolicy \<Rightarrow> bool" where
  "candidate_base_confirms d cd_start cd_end base policy =
     (case chain_records d cd_start cd_end policy of
        None \<Rightarrow> False
      | Some recs \<Rightarrow>
          recs \<noteq> [] \<and> list_all (\<lambda>(nm, rel). base + rel < cd_start \<and> header_named_at d (base + rel) nm) recs)"

definition derive_base_from_records ::
  "bytes \<Rightarrow> nat \<Rightarrow> nat \<Rightarrow> ZipRecoveryPolicy \<Rightarrow> nat option" where
  "derive_base_from_records d cd_start cd_end policy =
     (case chain_records d cd_start cd_end policy of
        None \<Rightarrow> None
      | Some [] \<Rightarrow> None
      | Some ((first_name, first_rel) # _) \<Rightarrow>
          map_option (\<lambda>probe. probe - first_rel)
            (find (\<lambda>probe. u32le d probe = Some LFH_SIG \<and> header_named_at d probe first_name
                 \<and> first_rel \<le> probe \<and> 0 < probe - first_rel
                 \<and> candidate_base_confirms d cd_start cd_end (probe - first_rel) policy)
              [0..<cd_start - 29]))"

text \<open>The final walk of a validation: the numbers of records and of confirmed records.\<close>

function confirm_from ::
  "bytes \<Rightarrow> ZipRecoveryPolicy \<Rightarrow> nat \<Rightarrow> nat \<Rightarrow> nat \<Rightarrow> nat \<Rightarrow> nat \<Rightarrow> nat \<Rightarrow> (nat \<times> nat) option" where
  "confirm_from d policy base cd_start cd_end pos records confirmed =
     (if pos + 46 \<le> cd_end \<and> records < max_central_records policy then
        (if u32le d pos \<noteq> Some CDFH_SIG then Some (records, confirmed)
         else
           (case directory_record d policy cd_end pos of
              None \<Rightarrow> None
            | Some (nm, rel, rec_end) \<Rightarrow>
                confirm_from d policy base cd_start cd_end rec_end (records + 1)
                  (if base + rel < cd_start \<and> header_named_at d (base + rel) nm
                   then confirmed + 1 else confirmed)))
      else Some (records, confirmed))"
  by pat_completeness auto
termination
  by (relation "measure (\<lambda>(d, policy, base, cd_start, cd_end, pos, records, confirmed). cd_end - pos)")
     (auto dest!: directory_record_advances)

declare confirm_from.simps [simp del]

definition embedded_base :: "bytes \<Rightarrow> nat \<Rightarrow> nat \<Rightarrow> nat \<Rightarrow> ZipRecoveryPolicy \<Rightarrow> nat option" where
  "embedded_base d cd_start cd_end cd_offset policy =
     (if cd_offset \<le> cd_start \<and> 0 < cd_start - cd_offset
         \<and> candidate_base_confirms d cd_start cd_end (cd_start - cd_offset) policy
      then Some (cd_start - cd_offset)
      else derive_base_from_records d cd_start cd_end policy)"

definition validate_embedded :: "bytes \<Rightarrow> nat \<Rightarrow> ZipRecoveryPolicy \<Rightarrow> EmbeddedArchive option" where
  "validate_embedded d eocd policy =
     (case (u16le d (eocd + 10), u32le d (eocd + 12), u32le d (eocd + 16), u16le d (eocd + 20)) of
        (Some tot, Some sz, Some offs, Some cmt) \<Rightarrow>
          (let cd_size = unat sz; cd_offset = unat offs; comment_len = unat cmt in
           if unat tot = 0 \<or> cd_size = 0 then None
           else if max_comment_bytes policy < comment_len then None
           else if eocd < cd_size then None
           else
             (let cd_start = eocd - cd_size; cd_end = eocd in
              if length d < cd_end \<or> u32le d cd_start \<noteq> Some CDFH_SIG then None
              else
                (case embedded_base d cd_start cd_end cd_offset policy of
                   None \<Rightarrow> None
                 | Some base \<Rightarrow>
                     if base = 0 \<or> cd_start \<le> base then None
                     else
                       (case confirm_from d policy base cd_start cd_end cd_start 0 0 of
                          None \<Rightarrow> None
                        | Some (records, confirmed) \<Rightarrow>
                            if records = 0 \<or> records \<noteq> unat tot then None
                            else
                              (let e = min (eocd + EOCD_LEN + comment_len) (length d) in
                               if length d \<le> e then None
                               else Some \<lparr> ea_base = base, ea_end = e, ea_cd_start = cd_start,
                                           ea_eocd = eocd, ea_records = records,
                                           ea_confirmed_records = confirmed \<rparr>)))))
      | _ \<Rightarrow> None)"

function detect_from :: "bytes \<Rightarrow> ZipRecoveryPolicy \<Rightarrow> nat \<Rightarrow> EmbeddedArchive list \<Rightarrow> EmbeddedArchive list" where
  "detect_from d policy p archives =
     (if p + EOCD_LEN \<le> min (length d) (max_scan_bytes policy) then
        (if u32le d p \<noteq> Some EOCD_SIG then detect_from d policy (p + 1) archives
         else if MAX_EMBEDDED_ARCHIVES \<le> length archives then archives
         else detect_from d policy (p + 1)
                (archives @ (case validate_embedded d p policy of None \<Rightarrow> [] | Some a \<Rightarrow> [a])))
      else archives)"
  by pat_completeness auto
termination
  by (relation "measure (\<lambda>(d, policy, p, archives). length d - p)") (auto simp: EOCD_LEN_def)

declare detect_from.simps [simp del]

text \<open>
  The ownership map is the list of archives. Sorting by the pair of base and end is sorting
  stably by end and then by base.
\<close>

definition detect :: "bytes \<Rightarrow> ZipRecoveryPolicy \<Rightarrow> EmbeddedArchive list" where
  "detect d policy =
     (if length d < EOCD_LEN then []
      else dedup_by_key ea_base (sort_key ea_base (sort_key ea_end (detect_from d policy 0 []))))"

text \<open>\<open>partition_point\<close> of a list sorted by base is the length of the prefix at or below the offset.\<close>

definition owner_of :: "EmbeddedArchive list \<Rightarrow> nat \<Rightarrow> EmbeddedArchive option" where
  "owner_of archives off =
     (let idx = length (takeWhile (\<lambda>a. ea_base a \<le> off) archives) in
      foldl (\<lambda>best a.
          if archive_contains a off \<and> (case best of None \<Rightarrow> True | Some b \<Rightarrow> ea_base b < ea_base a)
          then Some a else best)
        None (rev (take idx archives)))"

definition ownership_of :: "EmbeddedArchive list \<Rightarrow> nat \<Rightarrow> ContainerOwnership" where
  "ownership_of archives off =
     (case owner_of archives off of Some a \<Rightarrow> NestedContainer | None \<Rightarrow> OuterContainer)"

section \<open>Validation\<close>

lemma confirm_chain:
  assumes "chain_from d policy cd_end pos out = Some (out', e)"
  shows "\<exists>recs. out' = out @ recs
    \<and> confirm_from d policy base cd_start cd_end pos (length out) n
      = Some (length out', n + length (filter (\<lambda>(nm, rel). base + rel < cd_start \<and> header_named_at d (base + rel) nm) recs))"
  using assms
proof (induction d policy cd_end pos out arbitrary: n rule: chain_from.induct)
  case (1 d policy cd_end pos out)
  show ?case
  proof (cases "pos + 46 \<le> cd_end \<and> length out < max_central_records policy \<and> u32le d pos = Some CDFH_SIG")
    case False
    then have "out' = out" using 1(2) by (auto simp: chain_from.simps [of d policy cd_end pos] split: if_splits)
    then show ?thesis using False by (auto simp: confirm_from.simps [of d policy base])
  next
    case True
    then obtain nm rel r where r: "directory_record d policy cd_end pos = Some (nm, rel, r)"
      and rest: "chain_from d policy cd_end r (out @ [(nm, rel)]) = Some (out', e)"
      using 1(2) by (auto simp: chain_from.simps [of d policy cd_end pos] split: option.splits)
    let ?ok = "base + rel < cd_start \<and> header_named_at d (base + rel) nm"
    obtain recs where recs: "out' = (out @ [(nm, rel)]) @ recs"
      "confirm_from d policy base cd_start cd_end r (length (out @ [(nm, rel)])) (if ?ok then n + 1 else n)
       = Some (length out', (if ?ok then n + 1 else n)
           + length (filter (\<lambda>(nm, rel). base + rel < cd_start \<and> header_named_at d (base + rel) nm) recs))"
      using 1(1) [of "(nm, rel, r)" nm "(rel, r)" rel r "if ?ok then n + 1 else n"] True r rest by auto
    have step: "confirm_from d policy base cd_start cd_end pos (length out) n
      = confirm_from d policy base cd_start cd_end r (length out + 1) (if ?ok then n + 1 else n)"
      using True r by (simp add: confirm_from.simps [of d policy base cd_start cd_end pos])
    show ?thesis
      using recs step by (intro exI [of _ "(nm, rel) # recs"]) auto
  qed
qed

lemma embedded_base_confirms:
  assumes "embedded_base d cd_start cd_end cd_offset policy = Some base"
  shows "candidate_base_confirms d cd_start cd_end base policy \<and> 0 < base"
  using assms
  by (auto simp: embedded_base_def derive_base_from_records_def split: if_splits option.splits list.splits
      dest!: find_SomeD)

text \<open>What a validated archive guarantees.\<close>

definition proven_embedded :: "bytes \<Rightarrow> ZipRecoveryPolicy \<Rightarrow> EmbeddedArchive \<Rightarrow> bool" where
  "proven_embedded d policy a \<longleftrightarrow>
     0 < ea_base a \<and> ea_base a < ea_cd_start a \<and> ea_cd_start a < ea_eocd a
     \<and> ea_eocd a + EOCD_LEN \<le> ea_end a \<and> ea_end a < length d
     \<and> ea_confirmed_records a = ea_records a \<and> ea_records a = unat (u16_at d (ea_eocd a + 10))
     \<and> (\<exists>recs. chain_records d (ea_cd_start a) (ea_eocd a) policy = Some recs \<and> length recs = ea_records a
          \<and> list_all (\<lambda>(nm, rel). ea_base a + rel < ea_cd_start a
               \<and> header_named_at d (ea_base a + rel) nm) recs)"

lemma validate_embedded_proven:
  assumes "validate_embedded d eocd policy = Some a"
  shows "proven_embedded d policy a \<and> ea_eocd a = eocd"
proof -
  let ?base = "ea_base a" and ?cd = "ea_cd_start a"
  have v: "embedded_base d ?cd eocd (unat (u32_at d (eocd + 16))) policy = Some ?base"
      "confirm_from d policy ?base ?cd eocd ?cd 0 0 = Some (ea_records a, ea_confirmed_records a)"
      "?base < ?cd" "?cd < eocd" "ea_eocd a = eocd"
      "ea_records a = unat (u16_at d (eocd + 10))" "ea_end a < length d" "eocd + EOCD_LEN \<le> ea_end a"
    using assms
    by (auto simp: validate_embedded_def Let_def u16le_def u32le_def split: option.splits if_splits)
  note conf = embedded_base_confirms [OF v(1)]
  then obtain recs where recs: "chain_records d ?cd eocd policy = Some recs" "recs \<noteq> []"
    "list_all (\<lambda>(nm, rel). ?base + rel < ?cd \<and> header_named_at d (?base + rel) nm) recs"
    by (auto simp: candidate_base_confirms_def split: option.splits)
  then have "chain_from d policy eocd ?cd [] = Some (recs, eocd)"
    by (auto simp: chain_records_def split: option.splits if_splits)
  from confirm_chain [OF this, of ?base ?cd 0] recs(3) v(2)
  have "ea_records a = length recs" "ea_confirmed_records a = length recs"
    by (auto simp: list_all_iff filter_id_conv)
  then show ?thesis using v conf recs unfolding proven_embedded_def by auto
qed

lemma detect_from_proven:
  assumes "list_all (proven_embedded d policy) archives"
  shows "list_all (proven_embedded d policy) (detect_from d policy p archives)"
  using assms
proof (induction d policy p archives rule: detect_from.induct)
  case (1 d policy p archives)
  have "list_all (proven_embedded d policy) (archives @ (case validate_embedded d p policy of None \<Rightarrow> [] | Some a \<Rightarrow> [a]))"
    using 1(3) validate_embedded_proven by (auto split: option.splits)
  then show ?case using 1 by (subst detect_from.simps) auto
qed

lemma detect_proven: "a \<in> set (detect d policy) \<Longrightarrow> proven_embedded d policy a"
  using detect_from_proven [of d policy "[]" 0]
    set_dedup_by_key [of ea_base "sort_key ea_base (sort_key ea_end (detect_from d policy 0 []))"]
  by (auto simp: detect_def list_all_iff split: if_splits)

lemma detect_sorted: "sorted_wrt (\<lambda>a b. ea_base a < ea_base b) (detect d policy)"
  by (auto simp: detect_def intro: sorted_dedup_by_key)

section \<open>Ownership\<close>

lemma owner_fold:
  fixes best :: "EmbeddedArchive option"
  assumes "sorted_wrt (\<lambda>a b. ea_base b < ea_base a) xs"
    "\<forall>b a. best = Some b \<longrightarrow> a \<in> set xs \<longrightarrow> ea_base a < ea_base b"
  shows "foldl (\<lambda>best a.
          if archive_contains a off \<and> (case best of None \<Rightarrow> True | Some b \<Rightarrow> ea_base b < ea_base a)
          then Some a else best) best xs
    = (case best of Some b \<Rightarrow> Some b | None \<Rightarrow> find (\<lambda>a. archive_contains a off) xs)"
  using assms
proof (induction xs arbitrary: best)
  case (Cons x xs)
  show ?case
  proof (cases best)
    case (Some b)
    then have "\<not> ea_base b < ea_base x" using Cons.prems(2) Some by auto
    then show ?thesis using Cons.IH [of best] Cons.prems Some by simp
  next
    case None
    show ?thesis
    proof (cases "archive_contains x off")
      case True
      then show ?thesis using Cons.IH [of "Some x"] Cons.prems(1) None by simp
    next
      case False
      then show ?thesis using Cons.IH [of None] Cons.prems(1) None by simp
    qed
  qed
qed (simp split: option.splits)

text \<open>What the parser relies on: a list of archives ordered by base answers with the innermost one.\<close>

locale container_map =
  fixes archives :: "EmbeddedArchive list"
  assumes bases_ordered: "sorted_wrt (\<lambda>a b. ea_base a < ea_base b) archives"
begin

lemma owner_find: "owner_of archives off = find (\<lambda>a. archive_contains a off) (rev archives)"
proof -
  let ?pre = "takeWhile (\<lambda>a. ea_base a \<le> off) archives" and ?suf = "dropWhile (\<lambda>a. ea_base a \<le> off) archives"
  have sorted: "sorted_wrt (\<lambda>a b. ea_base a < ea_base b) (?pre @ ?suf)" using bases_ordered by simp
  have "\<not> archive_contains a off" if a: "a \<in> set ?suf" for a
  proof -
    obtain x xs where x: "?suf = x # xs" using a by (cases ?suf) auto
    then have "\<not> ea_base x \<le> off" using hd_dropWhile [of "\<lambda>a. ea_base a \<le> off" archives] by simp
    moreover have "sorted_wrt (\<lambda>a b. ea_base a < ea_base b) (x # xs)"
      using sorted unfolding sorted_wrt_append x by blast
    ultimately have "off < ea_base a" using a x by auto
    then show ?thesis by (simp add: archive_contains_def)
  qed
  then have none: "find (\<lambda>a. archive_contains a off) (rev ?suf) = None" by (simp add: find_None_iff)
  have app: "find P (xs @ ys) = (case find P xs of None \<Rightarrow> find P ys | Some x \<Rightarrow> Some x)" for P :: "EmbeddedArchive \<Rightarrow> bool" and xs ys
    by (induction xs) auto
  have "take (length ?pre) archives = ?pre" by (simp add: takeWhile_eq_take [symmetric])
  moreover have "sorted_wrt (\<lambda>a b. ea_base b < ea_base a) (rev ?pre)"
    using sorted unfolding sorted_wrt_append sorted_wrt_rev by blast
  ultimately have "owner_of archives off = find (\<lambda>a. archive_contains a off) (rev ?pre)"
    using owner_fold [of "rev ?pre" None off] by (simp add: owner_of_def)
  also have "\<dots> = find (\<lambda>a. archive_contains a off) (rev ?suf @ rev ?pre)" using app none by simp
  also have "rev ?suf @ rev ?pre = rev archives" by (simp add: rev_append [symmetric] del: rev_append)
  finally show ?thesis .
qed

lemma owner_none: "owner_of archives off = None \<longleftrightarrow> \<not> list_ex (\<lambda>a. archive_contains a off) archives"
  by (auto simp: owner_find find_None_iff list_ex_iff)

lemma owner_some:
  "owner_of archives off = Some a \<longleftrightarrow>
     a \<in> set archives \<and> archive_contains a off
     \<and> \<not> list_ex (\<lambda>b. archive_contains b off \<and> ea_base a < ea_base b) archives"
proof -
  have rev: "sorted_wrt (\<lambda>a b. ea_base b < ea_base a) (rev archives)"
    using bases_ordered by (simp add: sorted_wrt_rev)
  have "find (\<lambda>a. archive_contains a off) xs = Some a \<longleftrightarrow>
      a \<in> set xs \<and> archive_contains a off \<and> \<not> list_ex (\<lambda>b. archive_contains b off \<and> ea_base a < ea_base b) xs"
    if "sorted_wrt (\<lambda>a b. ea_base b < ea_base a) xs" for xs
    using that
  proof (induction xs)
    case (Cons x xs)
    then show ?case by (auto simp: list_ex_iff dest: less_asym)
  qed simp
  from this [OF rev] show ?thesis by (simp add: owner_find list_ex_iff)
qed

end

interpretation detected: container_map "detect d policy" for d policy
  by unfold_locales (rule detect_sorted)

text \<open>
  C28. Ownership is proven and innermost: every detected archive lies strictly inside the source
  behind its first byte, its directory abuts its end record and walks to exactly the declared
  number of records, each of which resolves, relative to the archive's base, to a local header
  of the same name before the directory (so the confirmed count always equals the record count,
  as the code asserts); and the owner of an offset is the detected archive with the greatest
  base among those around it, or none when none is around it.
\<close>

theorem detect_owner_proven:
  "list_all (proven_embedded d policy) (detect d policy)
   \<and> (owner_of (detect d policy) off = None
        \<longleftrightarrow> \<not> list_ex (\<lambda>a. archive_contains a off) (detect d policy))
   \<and> (owner_of (detect d policy) off = Some a
        \<longleftrightarrow> a \<in> set (detect d policy) \<and> archive_contains a off
          \<and> \<not> list_ex (\<lambda>b. archive_contains b off \<and> ea_base a < ea_base b) (detect d policy))"
  using detect_proven detected.owner_none detected.owner_some by (simp add: list_all_iff)

text \<open>Of several archives validated at one base the map keeps the one that ends first.\<close>

lemma dedup_keeps_first:
  assumes "sorted_wrt (\<lambda>a b. f a < f b \<or> f a = f b \<and> g a \<le> (g b :: nat)) xs" "x \<in> set xs"
  shows "\<exists>y\<in>set (dedup_by_key f xs). f y = (f x :: nat) \<and> g y \<le> g x"
  using assms
proof (induction f xs arbitrary: x rule: dedup_by_key.induct)
  case (3 f x1 y xs)
  show ?case
  proof (cases "f x1 = f y")
    case True
    have "sorted_wrt (\<lambda>a b. f a < f b \<or> f a = f b \<and> g a \<le> g b) (x1 # xs)" using 3(3) by simp
    note ih = 3(1) [OF True this]
    have "g x1 \<le> g y" using 3(3) True by auto
    then have "\<exists>z\<in>set (dedup_by_key f (x1 # xs)). f z = f x \<and> g z \<le> g x"
      using ih [of x1] ih [of x] 3(4) True by (cases "x = y") (auto intro: order.trans)
    then show ?thesis using True by simp
  next
    case False
    then show ?thesis using 3(2) [of x] 3(3,4) by auto
  qed
qed auto

lemma detect_from_keeps: "a \<in> set archives \<Longrightarrow> a \<in> set (detect_from d policy p archives)"
proof (induction d policy p archives rule: detect_from.induct)
  case (1 d policy p archives)
  then show ?case by (subst detect_from.simps) auto
qed

lemma detect_from_finds:
  assumes "validate_embedded d q policy = Some a" "u32le d q = Some EOCD_SIG" "p \<le> q"
    "q + EOCD_LEN \<le> min (length d) (max_scan_bytes policy)"
    "length (detect_from d policy p archives) < MAX_EMBEDDED_ARCHIVES"
  shows "a \<in> set (detect_from d policy p archives)"
  using assms
proof (induction d policy p archives rule: detect_from.induct)
  case (1 d policy p archives)
  have more: "p + EOCD_LEN \<le> min (length d) (max_scan_bytes policy)" using 1(5,6) by linarith
  let ?next = "archives @ (case validate_embedded d p policy of None \<Rightarrow> [] | Some a \<Rightarrow> [a])"
  show ?case
  proof (cases "u32le d p \<noteq> Some EOCD_SIG")
    case True
    then have "p \<noteq> q" using 1(4) by auto
    moreover have eq: "detect_from d policy p archives = detect_from d policy (p + 1) archives"
      using True more by (simp add: detect_from.simps [of d policy p])
    ultimately show ?thesis using 1(1) [OF more True 1(3,4) _ 1(6)] 1(5,7) by simp
  next
    case False
    have room: "\<not> MAX_EMBEDDED_ARCHIVES \<le> length archives"
      using 1(7) more False by (auto simp: detect_from.simps [of d policy p])
    then have eq: "detect_from d policy p archives = detect_from d policy (p + 1) ?next"
      using False more by (simp add: detect_from.simps [of d policy p])
    show ?thesis
    proof (cases "p = q")
      case True
      then show ?thesis using eq 1(3) detect_from_keeps [of a ?next] by simp
    next
      case False
      then show ?thesis using 1(2) [OF more _ room 1(3,4) _ 1(6)] \<open>\<not> (u32le d p \<noteq> _)\<close> 1(5,7) eq by simp
    qed
  qed
qed

lemma sorted_lex:
  assumes "sorted (map f ys)" "\<And>k. sorted (map g (filter (\<lambda>x. f x = k) ys))"
  shows "sorted_wrt (\<lambda>a b. f a < f b \<or> f a = f b \<and> g a \<le> (g b :: nat)) (ys :: 'a list)"
  using assms
proof (induction ys)
  case (Cons y ys)
  have "sorted (map g (filter (\<lambda>x. f x = k) ys))" for k
    using Cons.prems(2) [of k] by (simp split: if_splits)
  then have "sorted_wrt (\<lambda>a b. f a < f b \<or> f a = f b \<and> g a \<le> g b) ys" using Cons by simp
  moreover have "f y < f z \<or> f y = f z \<and> g y \<le> g z" if z: "z \<in> set ys" for z
    using Cons.prems(1) Cons.prems(2) [of "f y"] z by (cases "f y = f z") auto
  ultimately show ?case by simp
qed simp

lemma sort_key_lex:
  "sorted_wrt (\<lambda>a b. f a < f b \<or> f a = f b \<and> g a \<le> (g b :: nat)) (sort_key f (sort_key g xs))"
proof (rule sorted_lex)
  have "filter (\<lambda>x. f x = k) (sort_key f (sort_key g xs)) = filter (\<lambda>x. f x = k) (sort_key g xs)" for k
    by (simp add: sort_key_stable)
  then show "sorted (map g (filter (\<lambda>x. f x = k) (sort_key f (sort_key g xs))))" for k
    by (simp add: sorted_filter)
qed simp

lemma detect_keeps_narrowest:
  assumes "validate_embedded d q policy = Some a" "u32le d q = Some EOCD_SIG"
    "q + EOCD_LEN \<le> min (length d) (max_scan_bytes policy)"
    "length (detect_from d policy 0 []) < MAX_EMBEDDED_ARCHIVES"
  shows "\<exists>b\<in>set (detect d policy). ea_base b = ea_base a \<and> ea_end b \<le> ea_end a"
proof -
  have "a \<in> set (detect_from d policy 0 [])" using detect_from_finds [OF assms(1,2) _ assms(3,4)] by simp
  then have "\<exists>b\<in>set (dedup_by_key ea_base (sort_key ea_base (sort_key ea_end (detect_from d policy 0 [])))).
      ea_base b = ea_base a \<and> ea_end b \<le> ea_end a"
    by (intro dedup_keeps_first sort_key_lex) simp
  then show ?thesis using assms(3) by (simp add: detect_def)
qed

end
