(* ===== verification/Zip_Offset_Map.thy ===== *)
theory Zip_Offset_Map
  imports Zip_Policy
begin

text \<open>
  Piecewise mapping of stale directory offsets to physical ones
  (\<open>phx_zip_core/src/zip_offset_map.rs\<close>): observations are sorted, made monotonic, grouped into
  runs of equal shift, and the number of runs is capped.
  Shown: a usable map sends every kept observation to its physical offset, shifts any other
  offset only by an observed shift, and is strictly increasing where it is defined.
\<close>

section \<open>Model\<close>

record OffsetSegment =
  original_start :: nat
  original_end :: nat
  delta :: int
  support :: nat

definition seg_contains :: "OffsetSegment \<Rightarrow> nat \<Rightarrow> bool" where
  "seg_contains s st \<longleftrightarrow> original_start s \<le> st \<and> st \<le> original_end s"

definition seg_apply :: "OffsetSegment \<Rightarrow> nat \<Rightarrow> nat option" where
  "seg_apply s st =
     (case checked_add_i64 (as_i64 st) (delta s) of
        None \<Rightarrow> None
      | Some v \<Rightarrow> if v < 0 then None else Some (nat v))"

datatype OffsetMapKind = EmptyMap | SingleDelta | Piecewise | RejectedMap

record OffsetObservation =
  stored :: nat
  physical :: nat

record OffsetMap =
  map_kind :: OffsetMapKind
  segments :: "OffsetSegment list"
  discarded :: nat

definition empty_map :: OffsetMap where
  "empty_map = \<lparr> map_kind = EmptyMap, segments = [], discarded = 0 \<rparr>"

definition is_usable :: "OffsetMap \<Rightarrow> bool" where
  "is_usable m \<longleftrightarrow> map_kind m = SingleDelta \<or> map_kind m = Piecewise"

definition map_offset :: "OffsetMap \<Rightarrow> nat \<Rightarrow> nat option" where
  "map_offset m st =
     (if \<not> is_usable m then None
      else (case find (\<lambda>s. seg_contains s st) (segments m) of
              None \<Rightarrow> None | Some s \<Rightarrow> seg_apply s st))"

text \<open>The monotonicity loop: the observations kept behind the last kept one, and the rest's number.\<close>

fun keep_monotonic :: "OffsetObservation option \<Rightarrow> OffsetObservation list \<Rightarrow> OffsetObservation list \<times> nat" where
  "keep_monotonic prev [] = ([], 0)"
| "keep_monotonic prev (ob # obs) =
     (if case prev of Some p \<Rightarrow> physical ob \<le> physical p | None \<Rightarrow> False
      then (case keep_monotonic prev obs of (kept, n) \<Rightarrow> (kept, n + 1))
      else (case keep_monotonic (Some ob) obs of (kept, n) \<Rightarrow> (ob # kept, n)))"

definition delta_of :: "OffsetObservation \<Rightarrow> int" where
  "delta_of ob = sub_i64 (as_i64 (physical ob)) (as_i64 (stored ob))"

definition new_segment :: "OffsetObservation \<Rightarrow> OffsetSegment" where
  "new_segment ob =
     \<lparr> original_start = stored ob, original_end = stored ob, delta = delta_of ob, support = 1 \<rparr>"

definition push_observation :: "OffsetSegment list \<Rightarrow> OffsetObservation \<Rightarrow> OffsetSegment list" where
  "push_observation segs ob =
     (if segs \<noteq> [] \<and> delta (last segs) = delta_of ob
      then butlast segs @ [(last segs)\<lparr> original_end := stored ob, support := support (last segs) + 1 \<rparr>]
      else segs @ [new_segment ob])"

definition widen_first :: "OffsetSegment list \<Rightarrow> OffsetSegment list" where
  "widen_first segs = (case segs of [] \<Rightarrow> [] | s # r \<Rightarrow> s\<lparr> original_start := 0 \<rparr> # r)"

definition widen_last :: "OffsetSegment list \<Rightarrow> OffsetSegment list" where
  "widen_last segs =
     (if segs = [] then [] else butlast segs @ [(last segs)\<lparr> original_end := u64_max \<rparr>])"

definition infer :: "OffsetObservation list \<Rightarrow> nat \<Rightarrow> OffsetMap" where
  "infer observations max_segments =
     (if observations = [] \<or> max_segments = 0 then empty_map
      else
        (let obs = dedup_by_key stored (sort_key stored observations) in
         case keep_monotonic None obs of
           (kept, disc) \<Rightarrow>
             if kept = [] then \<lparr> map_kind = RejectedMap, segments = [], discarded = disc \<rparr>
             else
               (let segs = foldl push_observation [] kept in
                if max_segments < length segs
                then \<lparr> map_kind = RejectedMap, segments = [], discarded = disc \<rparr>
                else
                  (let segs = widen_last (widen_first segs) in
                   \<lparr> map_kind = (if length segs = 1 then SingleDelta else Piecewise),
                     segments = segs, discarded = disc \<rparr>))))"

section \<open>Kept observations\<close>

lemma keep_monotonic_spec:
  assumes "keep_monotonic prev obs = (kept, n)" "sorted_wrt (\<lambda>a b. stored a < stored b) obs"
  shows "length kept + n = length obs \<and> set kept \<subseteq> set obs
    \<and> sorted_wrt (\<lambda>a b. stored a < stored b \<and> physical a < physical b) kept
    \<and> (\<forall>p. prev = Some p \<longrightarrow> (\<forall>ob\<in>set kept. physical p < physical ob))
    \<and> (prev = None \<longrightarrow> obs \<noteq> [] \<longrightarrow> kept \<noteq> [])"
  using assms
proof (induction prev obs arbitrary: kept n rule: keep_monotonic.induct)
  case (2 prev ob obs)
  show ?case
  proof (cases "case prev of Some p \<Rightarrow> physical ob \<le> physical p | None \<Rightarrow> False")
    case True
    then obtain m where "keep_monotonic prev obs = (kept, m)" "n = m + 1"
      using 2(3) by (auto split: prod.splits)
    with 2(1) [OF True this(1)] 2(4) True show ?thesis by (auto split: option.splits)
  next
    case False
    then obtain k where k: "keep_monotonic (Some ob) obs = (k, n)" "kept = ob # k"
      using 2(3) by (auto split: prod.splits)
    note ih = 2(2) [OF False k(1)]
    have "sorted_wrt (\<lambda>a b. stored a < stored b) obs" "\<forall>b\<in>set obs. stored ob < stored b" using 2(4) by auto
    with ih have *: "length k + n = length obs" "set k \<subseteq> set obs" "\<forall>b\<in>set k. physical ob < physical b"
      "sorted_wrt (\<lambda>a b. stored a < stored b \<and> physical a < physical b) k" by auto
    then have "\<forall>b\<in>set k. stored ob < stored b" using \<open>\<forall>b\<in>set obs. _ b\<close> by blast
    moreover have "\<forall>p. prev = Some p \<longrightarrow> (\<forall>b\<in>set kept. physical p < physical b)"
      using *(3) k(2) False by fastforce
    ultimately show ?thesis using * k(2) by auto
  qed
qed simp

section \<open>Runs\<close>

text \<open>The runs over a list of observations: ordered, non-overlapping, each bounded by observations.\<close>

definition runs_of :: "OffsetSegment list \<Rightarrow> OffsetObservation list \<Rightarrow> bool" where
  "runs_of segs ks \<longleftrightarrow>
     sorted_wrt (\<lambda>a b. original_end a < original_start b) segs
     \<and> (\<forall>ob\<in>set ks. \<exists>s\<in>set segs. seg_contains s (stored ob) \<and> delta s = delta_of ob)
     \<and> (\<forall>s\<in>set segs. original_start s \<le> original_end s
          \<and> (\<exists>a\<in>set ks. stored a = original_start s \<and> delta_of a = delta s)
          \<and> (\<exists>b\<in>set ks. stored b = original_end s \<and> delta_of b = delta s))
     \<and> (\<Sum>s\<leftarrow>segs. support s) = length ks"

lemma runs_of_push:
  assumes "runs_of segs ks" "\<forall>a\<in>set ks. stored a < stored ob"
  shows "runs_of (push_observation segs ob) (ks @ [ob])"
proof (cases "segs \<noteq> [] \<and> delta (last segs) = delta_of ob")
  case True
  define init l where "init = butlast segs" and "l = last segs"
  have segs: "segs = init @ [l]" using True by (simp add: init_def l_def)
  have d: "delta l = delta_of ob" using True by (simp add: l_def)
  obtain b where "b \<in> set ks" "stored b = original_end l" using assms(1) unfolding runs_of_def segs by auto
  then have below: "original_end l < stored ob" using assms(2) by metis
  have push: "push_observation segs ob = init @ [l\<lparr> original_end := stored ob, support := support l + 1 \<rparr>]"
    using d by (simp add: segs push_observation_def)
  have "\<exists>s\<in>set (push_observation segs ob). seg_contains s (stored o') \<and> delta s = delta_of o'"
    if o': "o' \<in> set (ks @ [ob])" for o'
  proof (cases "o' = ob")
    case True
    have "original_start l \<le> stored ob" using assms(1) below unfolding runs_of_def segs by force
    then show ?thesis using d True by (auto simp: push seg_contains_def)
  next
    case False
    then obtain s where "s \<in> set segs" "seg_contains s (stored o')" "delta s = delta_of o'"
      using o' assms(1) unfolding runs_of_def by force
    then show ?thesis using below unfolding push unfolding segs by (auto simp: seg_contains_def)
  qed
  moreover have "sorted_wrt (\<lambda>a b. original_end a < original_start b) (push_observation segs ob)"
    using assms(1) unfolding push unfolding runs_of_def segs by (simp add: sorted_wrt_append)
  moreover have "\<forall>s\<in>set (push_observation segs ob). original_start s \<le> original_end s
      \<and> (\<exists>a\<in>set (ks @ [ob]). stored a = original_start s \<and> delta_of a = delta s)
      \<and> (\<exists>b\<in>set (ks @ [ob]). stored b = original_end s \<and> delta_of b = delta s)"
    using assms(1) below d unfolding push unfolding runs_of_def segs by auto
  moreover have "(\<Sum>s\<leftarrow>push_observation segs ob. support s) = length (ks @ [ob])"
    using assms(1) unfolding push unfolding runs_of_def segs by simp
  ultimately show ?thesis unfolding runs_of_def by blast
next
  case False
  then have push: "push_observation segs ob = segs @ [new_segment ob]"
    unfolding push_observation_def by (simp only: if_False)
  have "\<forall>s\<in>set segs. original_end s < stored ob" using assms unfolding runs_of_def by force
  then show ?thesis using assms(1)
    unfolding runs_of_def push by (auto simp: sorted_wrt_append new_segment_def seg_contains_def)
qed

lemma runs_of_foldl:
  "sorted_wrt (\<lambda>a b. stored a < stored b) ks \<Longrightarrow> runs_of (foldl push_observation [] ks) ks"
proof (induction ks rule: rev_induct)
  case (snoc ob ks)
  then have "runs_of (foldl push_observation [] ks) ks" by (simp add: sorted_wrt_append)
  moreover have "\<forall>a\<in>set ks. stored a < stored ob" using snoc.prems by (simp add: sorted_wrt_append)
  ultimately show ?case using runs_of_push by simp
qed (simp add: runs_of_def)

lemma widen_nth:
  assumes "i < length segs"
  shows "widen_last (widen_first segs) ! i
    = (segs ! i)\<lparr> original_start := (if i = 0 then 0 else original_start (segs ! i)),
                  original_end := (if i = length segs - 1 then u64_max else original_end (segs ! i)) \<rparr>"
proof -
  have first: "widen_first segs ! i = (segs ! i)\<lparr> original_start := (if i = 0 then 0 else original_start (segs ! i)) \<rparr>"
    using assms by (cases segs; cases i) (simp_all add: widen_first_def)
  have len: "length (widen_first segs) = length segs" by (cases segs) (simp_all add: widen_first_def)
  have "widen_last (widen_first segs) ! i
    = (widen_first segs ! i)\<lparr> original_end := (if i = length segs - 1 then u64_max else original_end (segs ! i)) \<rparr>"
  proof (cases "i = length segs - 1")
    case True
    have "widen_first segs \<noteq> []" using len assms by auto
    then show ?thesis using True len assms
      by (simp add: widen_last_def nth_append last_conv_nth)
  next
    case False
    have "widen_first segs \<noteq> []" using len assms by auto
    then show ?thesis using False len assms first
      by (simp add: widen_last_def nth_append nth_butlast)
  qed
  with first show ?thesis by simp
qed

lemma length_widen [simp]: "length (widen_last (widen_first segs)) = length segs"
  by (cases segs) (simp_all add: widen_first_def widen_last_def)

lemma kept_order:
  assumes "sorted_wrt (\<lambda>a b. stored a < stored b \<and> physical a < physical b) kept"
    "a \<in> set kept" "b \<in> set kept" "stored b < stored a"
  shows "physical b < physical a"
proof -
  obtain i j where "i < length kept" "kept ! i = a" "j < length kept" "kept ! j = b"
    using assms(2,3) by (metis in_set_conv_nth)
  note ij = this
  have "j < i"
  proof (rule ccontr)
    assume "\<not> j < i"
    then have "i < j \<or> i = j" by auto
    then show False
      using sorted_wrt_nth_less [OF assms(1), of i j] ij assms(4) by auto
  qed
  then show ?thesis using sorted_wrt_nth_less [OF assms(1), of j i] ij by simp
qed

lemma find_unique:
  assumes "x \<in> set xs" "P x" "\<And>y. y \<in> set xs \<Longrightarrow> P y \<Longrightarrow> y = x"
  shows "find P xs = Some x"
proof (cases "find P xs")
  case None
  then show ?thesis using assms(1,2) by (simp add: find_None_iff)
next
  case (Some y)
  then show ?thesis using assms(3) find_SomeD [OF Some] by simp
qed

lemma widened_ordered:
  assumes "sorted_wrt (\<lambda>a b. original_end a < original_start b) segs"
  shows "sorted_wrt (\<lambda>a b. original_end a < original_start b) (widen_last (widen_first segs))"
  using assms by (auto simp: sorted_wrt_iff_nth_less widen_nth)

text \<open>The segment that answers for an offset is the only one that contains it.\<close>

lemma find_widened:
  assumes "sorted_wrt (\<lambda>a b. original_end a < original_start b) segs" "i < length segs"
    "seg_contains (widen_last (widen_first segs) ! i) st"
  shows "find (\<lambda>s. seg_contains s st) (widen_last (widen_first segs)) = Some (widen_last (widen_first segs) ! i)"
proof (rule find_unique)
  let ?S = "widen_last (widen_first segs)"
  fix y assume "y \<in> set ?S" "seg_contains y st"
  then obtain j where j: "j < length segs" "?S ! j = y" by (auto simp: in_set_conv_nth)
  have "\<not> i < j" "\<not> j < i"
    using widened_ordered [OF assms(1)] assms(2,3) j \<open>seg_contains y st\<close>
    by (fastforce simp: sorted_wrt_iff_nth_less seg_contains_def)+
  then show "y = ?S ! i" using j by simp
qed (use assms in auto)

lemma find_index: "find P xs = Some x \<Longrightarrow> \<exists>i<length xs. x = xs ! i \<and> P x"
  by (auto simp: find_Some_iff)

section \<open>Inference\<close>

text \<open>What a usable inferred map is made of.\<close>

lemma infer_usable:
  assumes "is_usable (infer obs n)"
  obtains kept segs where "set kept \<subseteq> set obs" "kept \<noteq> []"
    "sorted_wrt (\<lambda>a b. stored a < stored b \<and> physical a < physical b) kept"
    "runs_of segs kept" "segments (infer obs n) = widen_last (widen_first segs)" "length segs \<le> n"
    "length kept + discarded (infer obs n) = card (stored ` set obs)"
proof -
  let ?obs = "dedup_by_key stored (sort_key stored obs)"
  obtain kept disc where k: "keep_monotonic None ?obs = (kept, disc)" by (cases "keep_monotonic None ?obs")
  have sorted: "sorted_wrt (\<lambda>a b. stored a < stored b) ?obs" by (rule sorted_dedup_by_key) simp
  note spec = keep_monotonic_spec [OF k sorted]
  have "runs_of (foldl push_observation [] kept) kept"
    by (rule runs_of_foldl) (use spec in \<open>auto elim: sorted_wrt_mono_rel [rotated]\<close>)
  moreover have "length ?obs = card (stored ` set obs)"
  proof -
    have "sorted_wrt (<) (map stored ?obs)" using sorted by (simp add: sorted_wrt_map)
    then have "distinct (map stored ?obs)" by (simp add: strict_sorted_iff)
    then have "length ?obs = card (set (map stored ?obs))" using distinct_card by fastforce
    then show ?thesis using keys_dedup_by_key [of stored "sort_key stored obs"] by simp
  qed
  moreover have "set kept \<subseteq> set obs" using spec set_dedup_by_key [of stored "sort_key stored obs"] by auto
  moreover have "obs \<noteq> []" "n \<noteq> 0" "kept \<noteq> []" "length (foldl push_observation [] kept) \<le> n"
    "segments (infer obs n) = widen_last (widen_first (foldl push_observation [] kept))"
    "discarded (infer obs n) = disc"
    using assms k unfolding infer_def
    by (auto simp: Let_def is_usable_def empty_map_def split: if_splits)
  ultimately show ?thesis using that [of kept "foldl push_observation [] kept"] spec by metis
qed

definition small_offsets :: "OffsetObservation list \<Rightarrow> bool" where
  "small_offsets obs = list_all (\<lambda>ob. stored ob < 2 ^ 63 \<and> physical ob < 2 ^ 63) obs"

lemma delta_of_small: "small_offsets obs \<Longrightarrow> ob \<in> set obs \<Longrightarrow> delta_of ob = int (physical ob) - int (stored ob)"
  by (simp add: small_offsets_def list_all_iff delta_of_def sub_i64_small)

lemma map_offset_Some:
  assumes "map_offset m st = Some p" "st < 2 ^ 63" "segments m = widen_last (widen_first segs)"
  obtains i where "i < length segs" "seg_contains (widen_last (widen_first segs) ! i) st"
    "int p = int st + delta (segs ! i)"
proof -
  obtain s where "find (\<lambda>s. seg_contains s st) (widen_last (widen_first segs)) = Some s" "seg_apply s st = Some p"
    using assms(1,3) by (auto simp: map_offset_def split: if_splits option.splits)
  moreover from find_index [OF this(1)] obtain i where
    "i < length segs" "s = widen_last (widen_first segs) ! i" "seg_contains s st" by auto
  ultimately show ?thesis using that [of i] assms(2)
    by (auto simp: seg_apply_def widen_nth checked_add_i64_def split: if_splits)
qed

text \<open>
  A usable offset map says only what was observed: it has at most the allowed number of
  segments; every observation it kept is mapped to its physical offset; whatever else it
  maps is moved by the shift of some kept observation; it is strictly increasing, so no two
  records are ever sent to one header and no order is reversed; and every distinct stored
  offset is either kept or counted as discarded.
\<close>

theorem infer_sound:
  assumes small: "small_offsets obs" and usable: "is_usable (infer obs n)"
  shows "length (segments (infer obs n)) \<le> n
    \<and> (\<exists>kept. kept \<noteq> [] \<and> set kept \<subseteq> set obs
        \<and> length kept + discarded (infer obs n) = card (stored ` set obs)
        \<and> (\<forall>ob\<in>set kept. map_offset (infer obs n) (stored ob) = Some (physical ob))
        \<and> (\<forall>st p. st < 2 ^ 63 \<longrightarrow> map_offset (infer obs n) st = Some p \<longrightarrow>
             (\<exists>ob\<in>set kept. int p - int st = int (physical ob) - int (stored ob))))
    \<and> (\<forall>s t p q. s < t \<longrightarrow> t < 2 ^ 63 \<longrightarrow> map_offset (infer obs n) s = Some p
         \<longrightarrow> map_offset (infer obs n) t = Some q \<longrightarrow> p < q)"
proof -
  obtain kept segs where K: "set kept \<subseteq> set obs" "kept \<noteq> []"
    "sorted_wrt (\<lambda>a b. stored a < stored b \<and> physical a < physical b) kept"
    "runs_of segs kept" "segments (infer obs n) = widen_last (widen_first segs)" "length segs \<le> n"
    "length kept + discarded (infer obs n) = card (stored ` set obs)"
    by (rule infer_usable [OF usable])
  have ord: "sorted_wrt (\<lambda>a b. original_end a < original_start b) segs" using K(4) by (simp add: runs_of_def)
  have dlt: "delta_of ob = int (physical ob) - int (stored ob)" if "ob \<in> set kept" for ob
    using delta_of_small [OF small] K(1) that by blast
  have bounds: "\<exists>a\<in>set kept. \<exists>b\<in>set kept. stored a = original_start (segs ! i) \<and> delta_of a = delta (segs ! i)
      \<and> stored b = original_end (segs ! i) \<and> delta_of b = delta (segs ! i)" if "i < length segs" for i
    using K(4) nth_mem [OF that] unfolding runs_of_def by meson
  have hit: "map_offset (infer obs n) (stored ob) = Some (physical ob)" if ob: "ob \<in> set kept" for ob
  proof -
    obtain i where i: "i < length segs" "seg_contains (segs ! i) (stored ob)" "delta (segs ! i) = delta_of ob"
      using K(4) ob unfolding runs_of_def by (metis in_set_conv_nth)
    have lt: "stored ob < 2 ^ 63" "physical ob < 2 ^ 63"
      using small K(1) ob by (auto simp: small_offsets_def list_all_iff)
    then have "seg_contains (widen_last (widen_first segs) ! i) (stored ob)"
      using i(1,2) by (auto simp: widen_nth seg_contains_def u64_max_def)
    from find_widened [OF ord i(1) this] usable show ?thesis
      unfolding map_offset_def K(5)
      using i(1,3) dlt [OF ob] lt by (simp add: seg_apply_def widen_nth checked_add_i64_def)
  qed
  have moved: "\<exists>ob\<in>set kept. int p - int st = int (physical ob) - int (stored ob)"
    if st: "st < 2 ^ 63" and p: "map_offset (infer obs n) st = Some p" for st p
  proof -
    obtain i where "i < length segs" "int p = int st + delta (segs ! i)"
      by (rule map_offset_Some [OF p st K(5)])
    with bounds [of i] dlt show ?thesis by force
  qed
  have mono: "p < q" if st: "s < t" "t < 2 ^ 63" and
    p: "map_offset (infer obs n) s = Some p" and q: "map_offset (infer obs n) t = Some q" for s t p q
  proof -
    have s: "s < 2 ^ 63" using st by simp
    obtain i where i: "i < length segs" "seg_contains (widen_last (widen_first segs) ! i) s"
      "int p = int s + delta (segs ! i)" by (rule map_offset_Some [OF p s K(5)])
    obtain j where j: "j < length segs" "seg_contains (widen_last (widen_first segs) ! j) t"
      "int q = int t + delta (segs ! j)" by (rule map_offset_Some [OF q st(2) K(5)])
    have "\<not> j < i"
    proof
      assume "j < i"
      then have "original_end (widen_last (widen_first segs) ! j) < original_start (widen_last (widen_first segs) ! i)"
        using widened_ordered [OF ord] i(1) by (simp add: sorted_wrt_iff_nth_less)
      with i(2) j(2) st show False by (simp add: seg_contains_def)
    qed
    moreover have "p < q" if "i = j" using i(3) j(3) st(1) that by simp
    moreover have "p < q" if ij: "i < j"
    proof -
      obtain b where b: "b \<in> set kept" "stored b = original_end (segs ! i)" "delta_of b = delta (segs ! i)"
        using bounds [OF i(1)] by blast
      obtain a where a: "a \<in> set kept" "stored a = original_start (segs ! j)" "delta_of a = delta (segs ! j)"
        using bounds [OF j(1)] by blast
      have "stored b < stored a" using ord ij j(1) a(2) b(2) by (simp add: sorted_wrt_iff_nth_less)
      then have "physical b < physical a" using kept_order [OF K(3) a(1) b(1)] by simp
      moreover have "s \<le> stored b" "stored a \<le> t"
        using i(2) j(2) ij j(1) i(1) a(2) b(2) by (auto simp: widen_nth seg_contains_def split: if_splits)
      ultimately show ?thesis using dlt [OF a(1)] dlt [OF b(1)] a(3) b(3) i(3) j(3) by linarith
    qed
    ultimately show ?thesis by (meson nat_neq_iff)
  qed
  show ?thesis
  proof (intro conjI exI [of _ kept] allI impI)
    show "length (segments (infer obs n)) \<le> n" using K(5,6) by simp
    show "kept \<noteq> []" by (rule K(2))
    show "set kept \<subseteq> set obs" by (rule K(1))
    show "length kept + discarded (infer obs n) = card (stored ` set obs)" by (rule K(7))
    show "\<forall>ob\<in>set kept. map_offset (infer obs n) (stored ob) = Some (physical ob)" using hit by blast
  qed (rule moved mono; assumption)+
qed

text \<open>Three records of an archive from which 256 bytes were deleted behind the first one.\<close>

definition edit_observations :: "OffsetObservation list" where
  "edit_observations =
     [\<lparr> stored = 2000, physical = 1744 \<rparr>, \<lparr> stored = 0, physical = 0 \<rparr>, \<lparr> stored = 1000, physical = 744 \<rparr>]"

lemma infer_edit:
  "infer edit_observations 4 =
     \<lparr> map_kind = Piecewise,
       segments = [\<lparr> original_start = 0, original_end = 0, delta = 0, support = 1 \<rparr>,
                   \<lparr> original_start = 1000, original_end = u64_max, delta = - 256, support = 2 \<rparr>],
       discarded = 0 \<rparr>"
  by (simp add: edit_observations_def infer_def delta_of_def sub_i64_def push_observation_def
      new_segment_def widen_first_def widen_last_def)

theorem infer_sound_witness:
  "is_usable (infer edit_observations 4) \<and> map_offset (infer edit_observations 4) 1500 = Some 1244
   \<and> (\<exists>kept. kept \<noteq> [] \<and> set kept \<subseteq> set edit_observations
        \<and> length kept + discarded (infer edit_observations 4) = card (stored ` set edit_observations)
        \<and> (\<exists>ob\<in>set kept. int 1244 - int 1500 = int (physical ob) - int (stored ob)))"
proof -
  have small: "small_offsets edit_observations" by (simp add: small_offsets_def edit_observations_def)
  have usable: "is_usable (infer edit_observations 4)" by (simp add: infer_edit is_usable_def)
  have hit: "map_offset (infer edit_observations 4) 1500 = Some 1244"
    by (simp add: map_offset_def infer_edit is_usable_def seg_contains_def seg_apply_def
        checked_add_i64_def u64_max_def)
  obtain kept where "kept \<noteq> []" "set kept \<subseteq> set edit_observations"
    "length kept + discarded (infer edit_observations 4) = card (stored ` set edit_observations)"
    "\<forall>st p. st < 2 ^ 63 \<longrightarrow> map_offset (infer edit_observations 4) st = Some p \<longrightarrow>
       (\<exists>ob\<in>set kept. int p - int st = int (physical ob) - int (stored ob))"
    using infer_sound [OF small usable] by blast
  moreover have "(1500 :: nat) < 2 ^ 63" by simp
  ultimately show ?thesis using usable hit by blast
qed

end
