(* ===== verification/Cd_Scan.thy ===== *)
theory Cd_Scan
  imports Zip_Policy
begin

text \<open>
  The search for a surviving central directory (\<open>phx_zip_core/src/cd_scan.rs\<close>): every walkable
  chain of directory records is a candidate; at most one is accepted, on the proof that one
  offset shift explains all its records and that it agrees with the end record.
  Shown: what acceptance guarantees, and that the accepted chain is the only proven one.
\<close>

section \<open>Records\<close>

definition CDFH_PAT :: bytes where "CDFH_PAT = [0x50, 0x4b, 0x01, 0x02]"

definition LFH_PAT :: bytes where "LFH_PAT = [0x50, 0x4b, 0x03, 0x04]"

definition EOCD_PAT :: bytes where "EOCD_PAT = [0x50, 0x4b, 0x05, 0x06]"

definition MAX_CANDIDATES :: nat where "MAX_CANDIDATES = 4096"

definition MAX_RECORDS_PER_CHAIN :: nat where "MAX_RECORDS_PER_CHAIN = 65536"

datatype RecordSupport = Supported | MissingByHeadTruncation | Conflicting | Unresolved

record CdCandidate =
  cc_start :: nat
  cc_end :: nat
  record_count :: nat
  byte_len :: nat
  eocd_consistent :: bool
  supported :: nat
  missing_by_truncation :: nat
  conflicting :: nat
  unresolved :: nat
  delta_candidates :: "int list"
  accepted_delta :: "int option"
  rejection :: "string option"

record CdScanReport =
  candidates :: "CdCandidate list"
  accepted :: "nat option"
  scanned_bytes :: nat
  signature_candidates :: nat
  provenance :: "CdProvenance option"

definition accepted_candidate :: "CdScanReport \<Rightarrow> CdCandidate option" where
  "accepted_candidate rep =
     (case accepted rep of None \<Rightarrow> None | Some i \<Rightarrow> get_at (candidates rep) i)"

definition scan_find_eocd :: "bytes \<Rightarrow> nat option" where
  "scan_find_eocd d =
     (if length d < 21 then None
      else find (\<lambda>i. cut d i (i + 4) = EOCD_PAT) (rev [length d - 65557..<length d - 21]))"

record CdRecord =
  cr_end :: nat
  cr_name :: string
  cr_lfh_offset :: nat
  cr_method :: u16

definition control_byte :: "u8 \<Rightarrow> bool" where
  "control_byte b \<longleftrightarrow> b < 0x20 \<or> b = 0x7f"

definition parse_record :: "bytes \<Rightarrow> nat \<Rightarrow> CdRecord option" where
  "parse_record d at =
     (if length d < at + 46 \<or> cut d at (at + 4) \<noteq> CDFH_PAT then None
      else
        (let name_len = unat (u16_at d (at + 28)); extra_len = unat (u16_at d (at + 30));
             comment_len = unat (u16_at d (at + 32));
             e = at + 46 + name_len + extra_len + comment_len in
         if length d < e \<or> name_len = 0 then None
         else
           (let raw = cut d (at + 46) (at + 46 + name_len) in
            if list_ex control_byte raw then None
            else Some \<lparr> cr_end = e, cr_name = from_utf8_lossy raw,
                        cr_lfh_offset = unat (u32_at d (at + 42)), cr_method = u16_at d (at + 10) \<rparr>)))"

function index_headers_from :: "bytes \<Rightarrow> nat \<Rightarrow> (string \<rightharpoonup> nat) \<Rightarrow> (string \<rightharpoonup> nat)" where
  "index_headers_from d i m =
     (if i + 30 \<le> length d then
        (if cut d i (i + 4) \<noteq> LFH_PAT then index_headers_from d (i + 1) m
         else
           (let nl = unat (u16_at d (i + 26));
                raw = cut d (i + 30) (i + 30 + nl) in
            index_headers_from d (i + 4)
              (if 0 < nl \<and> i + 30 + nl \<le> length d \<and> \<not> list_ex control_byte raw
                  \<and> m (from_utf8_lossy raw) = None
               then m(from_utf8_lossy raw \<mapsto> i) else m)))
      else m)"
  by pat_completeness auto
termination
  by (relation "measure (\<lambda>(d, i, m). length d - i)") auto

declare index_headers_from.simps [simp del]

definition index_local_headers :: "bytes \<Rightarrow> (string \<rightharpoonup> nat)" where
  "index_local_headers d = index_headers_from d 0 Map.empty"

section \<open>Chains\<close>

function walk_chain :: "bytes \<Rightarrow> nat \<Rightarrow> CdRecord list \<Rightarrow> CdRecord list \<times> nat" where
  "walk_chain d pos records =
     (if length records < MAX_RECORDS_PER_CHAIN then
        (case parse_record d pos of
           None \<Rightarrow> (records, pos)
         | Some r \<Rightarrow> if cr_end r \<le> pos then (records, pos) else walk_chain d (cr_end r) (records @ [r]))
      else (records, pos))"
  by pat_completeness auto
termination
  by (relation "measure (\<lambda>(d, pos, records). MAX_RECORDS_PER_CHAIN - length records)") auto

declare walk_chain.simps [simp del]

definition record_delta :: "(string \<rightharpoonup> nat) \<Rightarrow> CdRecord \<Rightarrow> int option" where
  "record_delta lfh r =
     (case lfh (cr_name r) of
        None \<Rightarrow> None
      | Some actual \<Rightarrow> checked_add_i64 (as_i64 actual) (- as_i64 (cr_lfh_offset r)))"

text \<open>How one record relates to the file under a shift.\<close>

definition record_support :: "bytes \<Rightarrow> int \<Rightarrow> CdRecord \<Rightarrow> RecordSupport" where
  "record_support d dlt r =
     (case checked_add_i64 (as_i64 (cr_lfh_offset r)) dlt of
        None \<Rightarrow> Unresolved
      | Some x \<Rightarrow>
          if x < 0 then MissingByHeadTruncation
          else
            (let at = nat x in
             if at + 30 \<le> length d then
               (let nl = unat (u16_at d (at + 26));
                    name_ok = (at + 30 + nl \<le> length d
                       \<and> cut d (at + 30) (at + 30 + nl) = str_bytes (cr_name r));
                    method_ok = (u16_at d (at + 8) = cr_method r) in
                if cut d at (at + 4) = LFH_PAT \<and> name_ok \<and> method_ok then Supported else Conflicting)
             else Conflicting))"

definition count_support :: "bytes \<Rightarrow> int \<Rightarrow> CdRecord list \<Rightarrow> RecordSupport \<Rightarrow> nat" where
  "count_support d dlt records s = length (filter (\<lambda>r. record_support d dlt r = s) records)"

definition declared_sizes :: "bytes \<Rightarrow> nat option \<Rightarrow> nat option \<times> nat option" where
  "declared_sizes d eocd =
     (case eocd of
        None \<Rightarrow> (None, None)
      | Some e \<Rightarrow> (map_option unat (u16le d (e + 10)), map_option unat (u32le d (e + 12))))"

definition matches_eocd :: "bytes \<Rightarrow> nat option \<Rightarrow> nat \<Rightarrow> nat \<Rightarrow> nat \<Rightarrow> bool" where
  "matches_eocd d eocd start pos n =
     (case (eocd, fst (declared_sizes d eocd), snd (declared_sizes d eocd)) of
        (Some e, Some c, Some s) \<Rightarrow> c = n \<and> s = pos - start \<and> pos = e
      | _ \<Rightarrow> False)"

definition evaluate_chain ::
  "bytes \<Rightarrow> (string \<rightharpoonup> nat) \<Rightarrow> nat option \<Rightarrow> nat \<Rightarrow> CdRecord list \<Rightarrow> nat \<Rightarrow> CdCandidate" where
  "evaluate_chain d lfh eocd start records pos =
     (let n = length records;
          uniq = remdups_adj (sort (List.map_filter (record_delta lfh) records));
          cand = \<lparr> cc_start = start, cc_end = pos, record_count = n, byte_len = pos - start,
                   eocd_consistent = matches_eocd d eocd start pos n, supported = 0,
                   missing_by_truncation = 0, conflicting = 0, unresolved = 0,
                   delta_candidates = uniq, accepted_delta = None, rejection = None \<rparr> in
      case uniq of
        [] \<Rightarrow> cand\<lparr> unresolved := n, rejection := Some ''no surviving local header pins the offset shift'' \<rparr>
      | [dlt] \<Rightarrow>
          (let cand = cand\<lparr> supported := count_support d dlt records Supported,
                            missing_by_truncation := count_support d dlt records MissingByHeadTruncation,
                            conflicting := count_support d dlt records Conflicting,
                            unresolved := count_support d dlt records Unresolved \<rparr> in
           if 0 < conflicting cand
           then cand\<lparr> rejection := Some ''a record's shifted offset is in-bounds but has no local header'' \<rparr>
           else if supported cand = 0 then cand\<lparr> rejection := Some ''no supported record'' \<rparr>
           else if \<not> eocd_consistent cand
           then cand\<lparr> rejection := Some ''chain does not match the surviving EOCD count/size/boundary'' \<rparr>
           else cand\<lparr> accepted_delta := Some dlt \<rparr>)
      | _ \<Rightarrow> cand\<lparr> conflicting := n,
                    rejection := Some ''records require different offset shifts; no single delta'' \<rparr>)"

fun scan_chains ::
  "bytes \<Rightarrow> (string \<rightharpoonup> nat) \<Rightarrow> nat option \<Rightarrow> nat list \<Rightarrow> nat \<Rightarrow> CdCandidate list" where
  "scan_chains d lfh eocd [] walked_end = []"
| "scan_chains d lfh eocd (start # starts) walked_end =
     (if start < walked_end then scan_chains d lfh eocd starts walked_end
      else
        (case walk_chain d start [] of
           (records, pos) \<Rightarrow>
             if records = [] then scan_chains d lfh eocd starts walked_end
             else evaluate_chain d lfh eocd start records pos # scan_chains d lfh eocd starts pos))"

definition candidate_starts :: "bytes \<Rightarrow> nat list" where
  "candidate_starts d = take MAX_CANDIDATES (filter (\<lambda>i. cut d i (i + 4) = CDFH_PAT) [0..<length d - 3])"

definition proven_chain :: "CdCandidate \<Rightarrow> bool" where
  "proven_chain c \<longleftrightarrow> rejection c = None \<and> accepted_delta c \<noteq> None"

definition mark_ambiguous :: "CdCandidate \<Rightarrow> CdCandidate" where
  "mark_ambiguous c =
     (if proven_chain c
      then c\<lparr> rejection := Some ''ambiguous: another chain is equally well proven'', accepted_delta := None \<rparr>
      else c)"

definition scan_surviving_cd :: "bytes \<Rightarrow> CdScanReport" where
  "scan_surviving_cd d =
     (let rep = \<lparr> candidates = [], accepted = None, scanned_bytes = length d,
                  signature_candidates = 0, provenance = None \<rparr> in
      if length d < 46 then rep
      else
        (let starts = candidate_starts d;
             cands = scan_chains d (index_local_headers d) (scan_find_eocd d) starts 0;
             proven = filter (\<lambda>i. proven_chain (cands ! i)) [0..<length cands];
             rep = rep\<lparr> candidates := cands, signature_candidates := length starts \<rparr> in
         case proven of
           [] \<Rightarrow> rep
         | [i] \<Rightarrow> rep\<lparr> accepted := Some i, provenance := Some OriginalSurviving \<rparr>
         | _ \<Rightarrow> rep\<lparr> candidates := map mark_ambiguous cands, provenance := Some UnknownProvenance \<rparr>))"

section \<open>Acceptance\<close>

lemma index_headers_bound:
  assumes "index_headers_from d i m nm = Some p" "\<And>q. m nm = Some q \<Longrightarrow> q < length d"
  shows "p < length d"
  using assms
proof (induction d i m rule: index_headers_from.induct)
  case (1 d i m)
  let ?raw = "cut d (i + 30) (i + 30 + unat (u16_at d (i + 26)))"
  let ?m = "if 0 < unat (u16_at d (i + 26)) \<and> i + 30 + unat (u16_at d (i + 26)) \<le> length d
       \<and> \<not> list_ex control_byte ?raw \<and> m (from_utf8_lossy ?raw) = None
     then m(from_utf8_lossy ?raw \<mapsto> i) else m"
  show ?case
  proof (cases "i + 30 \<le> length d")
    case False
    then show ?thesis using 1(3,4) by (simp add: index_headers_from.simps [of d i])
  next
    case more: True
    show ?thesis
    proof (cases "cut d i (i + 4) \<noteq> LFH_PAT")
      case True
      then show ?thesis using 1(1) [OF more True] 1(3,4) more by (simp add: index_headers_from.simps [of d i])
    next
      case False
      have "index_headers_from d (i + 4) ?m nm = Some p"
        using 1(3) more False by (simp add: index_headers_from.simps [of d i] Let_def split: if_splits)
      moreover have "q < length d" if "?m nm = Some q" for q
        using that 1(4) more by (auto split: if_splits)
      ultimately show ?thesis using 1(2) [OF more False refl refl] by blast
    qed
  qed
qed

lemma remdups_adj_single: "remdups_adj xs = [y] \<Longrightarrow> set xs = {y}"
  by (metis list.set(1,2) remdups_adj_set)

text \<open>What a proven chain guarantees.\<close>

definition explained_chain :: "bytes \<Rightarrow> CdCandidate \<Rightarrow> CdRecord list \<Rightarrow> int \<Rightarrow> bool" where
  "explained_chain d c records dlt \<longleftrightarrow>
     scan_find_eocd d = Some (cc_end c)
     \<and> walk_chain d (cc_start c) [] = (records, cc_end c)
     \<and> length records = unat (u16_at d (cc_end c + 10))
     \<and> cc_end c - cc_start c = unat (u32_at d (cc_end c + 12))
     \<and> list_all (\<lambda>r. record_support d dlt r \<in> {Supported, MissingByHeadTruncation}) records
     \<and> list_ex (\<lambda>r. record_support d dlt r = Supported) records"

lemma evaluate_chain_proven:
  assumes "proven_chain (evaluate_chain d (index_local_headers d) (scan_find_eocd d) start records pos)"
    "walk_chain d start [] = (records, pos)" "length d < 2 ^ 62"
    "list_all (\<lambda>r. cr_lfh_offset r < 2 ^ 32) records"
  shows "\<exists>dlt. accepted_delta (evaluate_chain d (index_local_headers d) (scan_find_eocd d) start records pos) = Some dlt
    \<and> explained_chain d (evaluate_chain d (index_local_headers d) (scan_find_eocd d) start records pos) records dlt"
proof -
  let ?c = "evaluate_chain d (index_local_headers d) (scan_find_eocd d) start records pos"
  let ?uniq = "remdups_adj (sort (List.map_filter (record_delta (index_local_headers d)) records))"
  obtain dlt where u: "?uniq = [dlt]"
    using assms(1) by (cases ?uniq rule: remdups_adj.cases)
      (auto simp: evaluate_chain_def Let_def proven_chain_def)
  then have c: "?c = \<lparr> cc_start = start, cc_end = pos, record_count = length records, byte_len = pos - start,
      eocd_consistent = True, supported = count_support d dlt records Supported,
      missing_by_truncation = count_support d dlt records MissingByHeadTruncation,
      conflicting = 0, unresolved = count_support d dlt records Unresolved,
      delta_candidates = [dlt], accepted_delta = Some dlt, rejection = None \<rparr>"
    and facts: "count_support d dlt records Conflicting = 0" "0 < count_support d dlt records Supported"
      "matches_eocd d (scan_find_eocd d) start pos (length records)"
    using assms(1) by (auto simp: evaluate_chain_def Let_def proven_chain_def split: if_splits)
  have "dlt \<in> set (List.map_filter (record_delta (index_local_headers d)) records)"
    using remdups_adj_single [OF u] by simp
  then obtain r actual where r: "r \<in> set records" "index_local_headers d (cr_name r) = Some actual"
    "checked_add_i64 (as_i64 actual) (- as_i64 (cr_lfh_offset r)) = Some dlt"
    by (auto simp: List.map_filter_def record_delta_def split: option.splits)
  have "actual < length d" using r(2) index_headers_bound [of d 0 Map.empty] by (simp add: index_local_headers_def)
  moreover have "cr_lfh_offset r < 2 ^ 32" using r(1) assms(4) by (simp add: list_all_iff)
  ultimately have dlt: "- (2 ^ 32) < dlt" "dlt < int (length d)"
    using r(3) assms(3) by (auto simp: checked_add_i64_def split: if_splits)
  have "record_support d dlt r \<in> {Supported, MissingByHeadTruncation}" if "r \<in> set records" for r
  proof -
    have "record_support d dlt r \<noteq> Conflicting" using facts(1) that by (simp add: count_support_def filter_empty_conv)
    moreover have "record_support d dlt r \<noteq> Unresolved"
    proof -
      have "cr_lfh_offset r < 2 ^ 32" using that assms(4) by (simp add: list_all_iff)
      then have "checked_add_i64 (as_i64 (cr_lfh_offset r)) dlt = Some (int (cr_lfh_offset r) + dlt)"
        using dlt assms(3) by (simp add: checked_add_i64_def)
      then show ?thesis by (simp add: record_support_def Let_def)
    qed
    ultimately show ?thesis by (cases "record_support d dlt r") auto
  qed
  moreover have "list_ex (\<lambda>r. record_support d dlt r = Supported) records"
    using facts(2) by (auto simp: count_support_def list_ex_iff filter_empty_conv)
  moreover have "scan_find_eocd d = Some pos" "length records = unat (u16_at d (pos + 10))"
    "pos - start = unat (u32_at d (pos + 12))"
    using facts(3) by (auto simp: matches_eocd_def declared_sizes_def u16le_def u32le_def split: option.splits if_splits)
  ultimately show ?thesis using assms(2) unfolding explained_chain_def c by (simp add: list_all_iff)
qed

lemma walk_chain_records:
  assumes "walk_chain d pos rs = (records, e)" "list_all (\<lambda>r. cr_lfh_offset r < 2 ^ 32) rs"
  shows "list_all (\<lambda>r. cr_lfh_offset r < 2 ^ 32) records"
  using assms
proof (induction d pos rs rule: walk_chain.induct)
  case (1 d pos rs)
  have "cr_lfh_offset r < 2 ^ 32" if "parse_record d pos = Some r" for r
    using that unsigned_less [of "u32_at d (pos + 42)"]
    by (auto simp: parse_record_def Let_def split: if_splits)
  then show ?case using 1
    by (auto simp: walk_chain.simps [of d pos] split: if_splits option.splits)
qed

lemma scan_chains_members:
  "c \<in> set (scan_chains d lfh eocd starts w) \<Longrightarrow>
    \<exists>start records pos. walk_chain d start [] = (records, pos) \<and> c = evaluate_chain d lfh eocd start records pos"
proof (induction d lfh eocd starts w rule: scan_chains.induct)
  case (2 d lfh eocd start starts w)
  obtain records pos where "walk_chain d start [] = (records, pos)" by (cases "walk_chain d start []")
  with 2 show ?case by (auto split: if_splits)
qed simp

lemma cc_start_evaluate [simp]:
  "cc_start (evaluate_chain d lfh eocd start records pos) = start"
  "cc_end (evaluate_chain d lfh eocd start records pos) = pos"
  by (auto simp: evaluate_chain_def Let_def split: list.splits)

text \<open>
  The accepted directory is proven, and the only one that is: its chain of records ends where
  the end record starts and has the declared number of records and bytes; one shift explains
  every record, each being either found at its shifted offset (a local header of the same
  name and method) or cut off with the head of the file, and at least one is found; and no
  other chain of the file passes this test.
\<close>

theorem scan_accepts_proven:
  assumes acc: "accepted_candidate (scan_surviving_cd d) = Some c" and len: "length d < 2 ^ 62"
  shows "\<exists>records dlt. accepted_delta c = Some dlt \<and> explained_chain d c records dlt
    \<and> provenance (scan_surviving_cd d) = Some OriginalSurviving
    \<and> filter proven_chain (candidates (scan_surviving_cd d)) = [c]"
proof -
  define cands where "cands = scan_chains d (index_local_headers d) (scan_find_eocd d) (candidate_starts d) 0"
  let ?proven = "filter (\<lambda>i. proven_chain (cands ! i)) [0..<length cands]"
  obtain i where i: "?proven = [i]" "accepted (scan_surviving_cd d) = Some i"
    "candidates (scan_surviving_cd d) = cands" "provenance (scan_surviving_cd d) = Some OriginalSurviving"
    using acc by (auto simp: scan_surviving_cd_def Let_def cands_def accepted_candidate_def
        split: if_splits list.splits)
  then have c: "c = cands ! i" "i < length cands" using acc by (auto simp: accepted_candidate_def get_at_Some)
  have "i \<in> set ?proven" using i(1) by simp
  then have proven: "proven_chain c" using c by simp
  obtain start records pos where ch: "walk_chain d start [] = (records, pos)"
    "c = evaluate_chain d (index_local_headers d) (scan_find_eocd d) start records pos"
    using scan_chains_members [OF nth_mem [OF c(2), unfolded cands_def]] c(1) unfolding cands_def by metis
  have "list_all (\<lambda>r. cr_lfh_offset r < 2 ^ 32) records" using walk_chain_records [OF ch(1)] by simp
  with evaluate_chain_proven [OF proven [unfolded ch(2)] ch(1) len] obtain dlt where
    "accepted_delta c = Some dlt" "explained_chain d c records dlt" unfolding ch(2) [symmetric] by blast
  moreover have "filter proven_chain cands = [c]"
  proof -
    have "filter proven_chain cands = map (\<lambda>i. cands ! i) ?proven"
      using filter_map [of proven_chain "\<lambda>i. cands ! i" "[0..<length cands]"] by (simp add: map_nth comp_def)
    then show ?thesis using i(1) c by simp
  qed
  ultimately show ?thesis using i by blast
qed

end
