(* ===== verification/Opc_Zip.thy ===== *)
theory Opc_Zip
  imports Zip_Entries Zip_Container Zip_Offset_Map Cd_Scan "HOL-Library.List_Lexorder" "HOL-Library.Char_ord" "HOL-Library.Sublist" "HOL-Library.Multiset"
begin

unbundle bit_operations_syntax

text \<open>
  The recovery-oriented ZIP reader (\<open>phx_zip_core/src/opc_zip.rs\<close>): the declared directory, the
  surviving directory found by scanning, the reconciliation of stale offsets, the decision
  whether the directory is complete, and the merge with an independent scan of the local
  headers under container ownership.
  Shown: what the merge may add and may drop.
\<close>

section \<open>Merging the directory and the scan\<close>

record EntryConflict =
  cf_name :: string
  cf_offset :: nat
  cf_field :: string
  central_value :: nat
  local_value :: nat

record RejectedCandidate =
  rj_offset :: nat
  rj_name :: string
  rj_reason :: string

text \<open>The bytes that directory records own, as far as their headers or the directory's layout tell.\<close>

definition declared_offsets :: "ZipEntry list \<Rightarrow> nat list" where
  "declared_offsets central =
     remdups_adj (sort (filter (\<lambda>off. off \<noteq> u64_max) (map local_header_offset central)))"

definition layout_claim :: "bytes \<Rightarrow> nat list \<Rightarrow> nat \<Rightarrow> ZipEntry \<Rightarrow> (nat \<times> nat) option" where
  "layout_claim d declared horizon e =
     (let start = local_header_offset e in
      if start = u64_max \<or> payload_range d e \<noteq> None then None
      else
        (let fin = (case find (\<lambda>off. start < off) declared of Some off \<Rightarrow> off | None \<Rightarrow> horizon) in
         if start < fin then Some (start, fin) else None))"

definition head_claim :: "ZipEntry list \<Rightarrow> nat list \<Rightarrow> (nat \<times> nat) list" where
  "head_claim central declared =
     (if list_ex (\<lambda>e. local_header_offset e = u64_max) central
      then (case declared of [] \<Rightarrow> [] | first # _ \<Rightarrow> if 0 < first then [(0, first)] else [])
      else [])"

definition initial_claims :: "bytes \<Rightarrow> ZipEntry list \<Rightarrow> nat option \<Rightarrow> (nat \<times> nat) list" where
  "initial_claims d central cd_region_start =
     (let declared = declared_offsets central;
          horizon = (case cd_region_start of Some s \<Rightarrow> s | None \<Rightarrow> length d) in
      List.map_filter (payload_range d) central
      @ List.map_filter (layout_claim d declared horizon) central
      @ head_claim central declared)"

definition entry_conflicts :: "bytes \<Rightarrow> ZipEntry \<Rightarrow> EntryConflict list" where
  "entry_conflicts d e =
     (let off = local_header_offset e in
      if \<not> local_header_present d off then []
      else
        (let l_method = u16_at d (off + 8); l_crc = u32_at d (off + 14);
             l_csize = unat (u32_at d (off + 18));
             conflict = (\<lambda>field cv lv. \<lparr> cf_name = en_name e, cf_offset = off, cf_field = field,
               central_value = cv, local_value = lv \<rparr>) in
         (if \<not> has_data_descriptor e \<and> l_crc \<noteq> en_crc32 e \<and> l_crc \<noteq> 0
          then [conflict ''crc32'' (unat (en_crc32 e)) (unat l_crc)] else [])
         @ (if \<not> has_data_descriptor e \<and> l_csize \<noteq> en_comp_size e \<and> l_csize \<noteq> 0
            then [conflict ''comp_size'' (en_comp_size e) l_csize] else [])
         @ (if l_method \<noteq> en_method e
            then [conflict ''method'' (unat (en_method e)) (unat l_method)] else [])))"

record merge_state =
  ms_entries :: "ZipEntry list"
  by_offset :: "nat set"
  claimed :: "(nat \<times> nat) list"
  ms_nested :: nat
  ms_rejected :: "RejectedCandidate list"
  ms_warnings :: "message list"
  scan_only :: nat

definition reject :: "ZipEntry \<Rightarrow> string \<Rightarrow> merge_state \<Rightarrow> merge_state" where
  "reject e reason st =
     st\<lparr> ms_rejected := ms_rejected st
           @ [\<lparr> rj_offset = local_header_offset e, rj_name = en_name e, rj_reason = reason \<rparr>] \<rparr>"

definition nested :: "ZipEntry \<Rightarrow> merge_state \<Rightarrow> merge_state" where
  "nested e st = reject e (ownership_code NestedContainer) (st\<lparr> ms_nested := ms_nested st + 1 \<rparr>)"

text \<open>The directory records that belong to the outer archive.\<close>

fun absorb_central :: "EmbeddedArchive list \<Rightarrow> ZipEntry list \<Rightarrow> merge_state \<Rightarrow> merge_state" where
  "absorb_central containers [] st = st"
| "absorb_central containers (e # es) st =
     absorb_central containers es
       (if owner_of containers (local_header_offset e) \<noteq> None then nested e st
        else st\<lparr> ms_entries := ms_entries st @ [e] \<rparr>)"

text \<open>One scanned candidate below the limit.\<close>

definition absorb_candidate :: "bytes \<Rightarrow> EmbeddedArchive list \<Rightarrow> ZipEntry \<Rightarrow> merge_state \<Rightarrow> merge_state" where
  "absorb_candidate d containers cand st =
     (let off = local_header_offset cand in
      if owner_of containers off \<noteq> None then nested cand st
      else if off \<in> by_offset st then st
      else
        (case payload_range_lenient d cand of
           None \<Rightarrow> reject cand ''LOCAL_HEADER_CANDIDATE_REJECTED'' st
         | Some (start, fin, trunc) \<Rightarrow>
             if list_ex (\<lambda>(s, e). s \<le> start \<and> start < e) (claimed st)
             then reject cand ''NESTED_SIGNATURE_CANDIDATE'' st
             else if list_ex (\<lambda>(s, e). start < e \<and> s < fin) (claimed st)
             then reject cand ''ENTRY_RANGE_OVERLAP'' st
             else st\<lparr> by_offset := insert off (by_offset st), claimed := claimed st @ [(start, fin)],
                      ms_warnings := ms_warnings st
                        @ (if trunc
                           then [Msg ''LOCAL_HEADER_CANDIDATE_TRUNCATED: '{}' at {off} declares a payload that runs past the end of the file; surfaced so extraction reports Truncated rather than discarding a real archive member''
                                   [S (en_name cand), N off]]
                           else []),
                      ms_entries := ms_entries st @ [cand], scan_only := scan_only st + 1 \<rparr>))"

fun absorb_scanned ::
  "bytes \<Rightarrow> EmbeddedArchive list \<Rightarrow> ZipRecoveryPolicy \<Rightarrow> ZipEntry list \<Rightarrow> merge_state \<Rightarrow> merge_state" where
  "absorb_scanned d containers policy [] st = st"
| "absorb_scanned d containers policy (cand # cands) st =
     (if max_candidate_records policy \<le> length (ms_entries st)
      then st\<lparr> ms_warnings := ms_warnings st @ [Msg (limit_code CandidateRecords) []] \<rparr>
      else absorb_scanned d containers policy cands (absorb_candidate d containers cand st))"

record ReconcileReport =
  rr_nested :: nat
  rr_entries :: "ZipEntry list"
  rr_scan_only :: nat
  rr_conflicts :: "EntryConflict list"
  rr_rejected :: "RejectedCandidate list"
  rr_warnings :: "message list"

definition merge_start :: "bytes \<Rightarrow> ZipEntry list \<Rightarrow> nat option \<Rightarrow> merge_state" where
  "merge_start d central cd_region_start =
     \<lparr> ms_entries = [], by_offset = set (map local_header_offset central),
       claimed = initial_claims d central cd_region_start, ms_nested = 0, ms_rejected = [],
       ms_warnings = [], scan_only = 0 \<rparr>"

text \<open>The final order: by offset, then by name.\<close>

definition sort_entries :: "ZipEntry list \<Rightarrow> ZipEntry list" where
  "sort_entries es = sort_key local_header_offset (sort_key en_name es)"

definition reconcile_cd_and_scan ::
  "bytes \<Rightarrow> ZipEntry list \<Rightarrow> ZipEntry list \<Rightarrow> nat option \<Rightarrow> EmbeddedArchive list \<Rightarrow> ZipRecoveryPolicy
    \<Rightarrow> ReconcileReport" where
  "reconcile_cd_and_scan d central scanned cd_region_start containers policy =
     (let conflicts = concat (map (entry_conflicts d) central);
          st = absorb_scanned d containers policy scanned
                 (absorb_central containers central (merge_start d central cd_region_start)) in
      \<lparr> rr_nested = ms_nested st, rr_entries = sort_entries (ms_entries st),
        rr_scan_only = scan_only st, rr_conflicts = conflicts, rr_rejected = ms_rejected st,
        rr_warnings = ms_warnings st
          @ (if 0 < scan_only st
             then [Msg ''reconciliation added {scan_only} scan-only entries the central directory did not describe; they are not verified by the scan alone'' [N (scan_only st)]]
             else [])
          @ (if conflicts \<noteq> []
             then [Msg ''CD_LFH_METADATA_CONFLICT: {} field disagreement(s) between directory records and their local headers'' [N (length conflicts)]]
             else []) \<rparr>)"

section \<open>Locating the directory\<close>

record ZipParse =
  zp_entries :: "ZipEntry list"
  eocd_found :: bool
  zp_cd_found :: bool
  used_local_scan :: bool
  zp_warnings :: "message list"
  scan_only_entries :: nat
  zp_conflicts :: "EntryConflict list"
  rejected_candidates :: "RejectedCandidate list"
  limits_hit :: "LimitHit list"
  cd_offset_shift :: "int option"
  zp_recovered_by_scan :: bool
  zp_count_consistent :: bool
  cd_declared_count :: "nat option"
  nested_containers :: nat
  nested_candidates :: nat
  cd_located_by_size :: bool
  records_repointed :: nat
  records_reconciled :: nat
  offset_segments :: nat
  offset_map_kind :: "OffsetMapKind option"
  index_stats :: IndexStats

definition zip_parse_default :: ZipParse where
  "zip_parse_default =
     \<lparr> zp_entries = [], eocd_found = False, zp_cd_found = False, used_local_scan = False,
       zp_warnings = [], scan_only_entries = 0, zp_conflicts = [], rejected_candidates = [],
       limits_hit = [], cd_offset_shift = None, zp_recovered_by_scan = False,
       zp_count_consistent = False, cd_declared_count = None, nested_containers = 0,
       nested_candidates = 0, cd_located_by_size = False, records_repointed = 0,
       records_reconciled = 0, offset_segments = 0, offset_map_kind = None,
       index_stats = stats_default \<rparr>"

definition zp_warn :: "message \<Rightarrow> ZipParse \<Rightarrow> ZipParse" where
  "zp_warn w out = out\<lparr> zp_warnings := zp_warnings out @ [w] \<rparr>"

definition zp_limit :: "LimitHit option \<Rightarrow> ZipParse \<Rightarrow> ZipParse" where
  "zp_limit l out =
     (case l of
        None \<Rightarrow> out
      | Some l \<Rightarrow> (zp_warn (Msg (limit_code l) []) out)\<lparr> limits_hit := limits_hit out @ [l] \<rparr>)"

text \<open>Where the directory is: as declared, else measured back from the end record by its size.\<close>

definition directory_start ::
  "bytes \<Rightarrow> EmbeddedArchive list \<Rightarrow> nat \<Rightarrow> nat \<Rightarrow> nat \<Rightarrow> ZipParse \<Rightarrow> nat \<times> ZipParse" where
  "directory_start d containers eocd_off cd_size declared_start out =
     (let (cd_start, out) =
        (if declared_start + 4 \<le> length d \<and> u32le d declared_start = Some CDFH_SIG
         then (declared_start, out)
         else if cd_size \<le> eocd_off \<and> eocd_off - cd_size + 4 \<le> length d
                 \<and> u32le d (eocd_off - cd_size) = Some CDFH_SIG
         then (eocd_off - cd_size,
           zp_warn (Msg ''EOCD_DIRECTORY_OFFSET_STALE: declared at {declared_start}, located at {s} by directory size''
                      [N declared_start, N (eocd_off - cd_size)])
             (out\<lparr> cd_located_by_size := True \<rparr>))
         else (declared_start, out)) in
      if owner_of containers cd_start \<noteq> None
      then (length d,
        (zp_warn (Msg ''NESTED_CONTAINER_DETECTED: the located directory lies inside an embedded archive; not adopted as this archive's directory'' []) out)
          \<lparr> cd_located_by_size := False \<rparr>)
      else (cd_start, out))"

text \<open>The directory the end record names: the parse, the declared count, the directory's start.\<close>

definition parse_declared ::
  "bytes \<Rightarrow> ZipRecoveryPolicy \<Rightarrow> EmbeddedArchive list \<Rightarrow> ZipParse \<Rightarrow> ZipParse \<times> nat option \<times> nat option" where
  "parse_declared d policy containers out =
     (case opc_find_eocd d of
        None \<Rightarrow> (out, None, None)
      | Some eocd_off \<Rightarrow>
          (let out = out\<lparr> eocd_found := True \<rparr> in
           case (u32le d (eocd_off + 12), u32le d (eocd_off + 16), u16le d (eocd_off + 10)) of
             (Some sz, Some off, Some tot) \<Rightarrow>
               (let cd_size = unat sz; declared = Some (unat tot) in
                case directory_start d containers eocd_off cd_size (unat off) out of
                  (cd_start, out) \<Rightarrow>
                    (let cd_end = min (cd_start + cd_size) (length d) in
                     if cd_start < length d \<and> cd_start < cd_end
                     then
                       (case parse_central_directory_bounded (cut d cd_start cd_end) (unat tot) policy of
                          (entries, limit) \<Rightarrow>
                            (let out = zp_limit limit out in
                             (if entries \<noteq> [] then out\<lparr> zp_cd_found := True, zp_entries := entries \<rparr> else out,
                              declared, Some cd_start)))
                     else (out, declared, None)))
           | _ \<Rightarrow> (out, None, None)))"

definition fmt_int :: "int \<Rightarrow> string" where
  "fmt_int i = (if i < 0 then ''-'' @ fmt_nat (nat (- i)) else fmt_nat (nat i))"

text \<open>A stored offset moved by the accepted shift; unusable when it falls before the file.\<close>

definition shift_entry :: "int \<Rightarrow> ZipEntry \<Rightarrow> ZipEntry" where
  "shift_entry dlt e =
     e\<lparr> local_header_offset :=
          (case checked_add_i64 (as_i64 (local_header_offset e)) dlt of
             None \<Rightarrow> u64_max | Some x \<Rightarrow> if 0 \<le> x then nat x else u64_max) \<rparr>"

text \<open>The surviving directory found by scanning, when the declared one yielded nothing.\<close>

definition parse_surviving ::
  "bytes \<Rightarrow> ZipRecoveryPolicy \<Rightarrow> EmbeddedArchive list \<Rightarrow> ZipParse \<Rightarrow> nat option \<Rightarrow> ZipParse \<times> nat option" where
  "parse_surviving d policy containers out cd_region_start =
     (case accepted_candidate (scan_surviving_cd d) of
        None \<Rightarrow> (out, cd_region_start)
      | Some c \<Rightarrow>
          if owner_of containers (cc_start c) \<noteq> None
          then (zp_warn (Msg ''NESTED_CONTAINER_DETECTED: the surviving directory found by scanning belongs to an embedded archive, not to this one; not adopted'' []) out,
                cd_region_start)
          else
            (case parse_central_directory_bounded (cut d (cc_start c) (cc_end c)) (record_count c) policy of
               (entries, limit) \<Rightarrow>
                 (let out = zp_limit limit out; dlt = (case accepted_delta c of Some x \<Rightarrow> x | None \<Rightarrow> 0) in
                  if entries = [] then (out, cd_region_start)
                  else
                    (zp_warn (Msg ''surviving original central directory recovered at [{}..{}): {} records, offset shift {}''
                        [N (cc_start c), N (cc_end c), N (record_count c), S (fmt_int dlt)])
                      (out\<lparr> zp_entries := (if dlt \<noteq> 0 then map (shift_entry dlt) entries else entries),
                            cd_offset_shift := (if dlt \<noteq> 0 then Some dlt else cd_offset_shift out),
                            zp_cd_found := True, zp_recovered_by_scan := True \<rparr>),
                     Some (cc_start c)))))"

section \<open>Reconciling offsets\<close>

text \<open>One record's observation, if any, and the index with its lookup counters.\<close>

definition observe ::
  "bytes \<Rightarrow> ZipEntry \<Rightarrow> LocalHeaderIndex \<Rightarrow> OffsetObservation list \<times> LocalHeaderIndex" where
  "observe d e idx =
     (let st = local_header_offset e; nm = str_bytes (en_name e) in
      if (case at_offset idx st of None \<Rightarrow> False | Some r \<Rightarrow> raw_name r d = Some nm)
      then ([\<lparr> stored = st, physical = st \<rparr>], idx)
      else
        (case candidates_named idx d nm of
           (cands, idx) \<Rightarrow>
             (case filter (\<lambda>r. lr_method r = en_method e \<and> (lr_crc32 r = en_crc32 e \<or> lr_crc32 r = 0)) cands of
                [r] \<Rightarrow> ([\<lparr> stored = st, physical = lr_offset r \<rparr>], idx)
              | _ \<Rightarrow> ([], idx))))"

fun observe_all ::
  "bytes \<Rightarrow> ZipEntry list \<Rightarrow> LocalHeaderIndex \<Rightarrow> OffsetObservation list \<times> LocalHeaderIndex" where
  "observe_all d [] idx = ([], idx)"
| "observe_all d (e # es) idx =
     (case observe d e idx of
        (ob, idx1) \<Rightarrow> (case observe_all d es idx1 of (obs, idx2) \<Rightarrow> (ob @ obs, idx2)))"

text \<open>The record with its offset moved to its own header, and whether it moved.\<close>

definition repoint :: "bytes \<Rightarrow> LocalHeaderIndex \<Rightarrow> OffsetMap \<Rightarrow> ZipEntry \<Rightarrow> ZipEntry \<times> bool" where
  "repoint d idx m e =
     (let nm = str_bytes (en_name e) in
      if entry_header_at d (local_header_offset e) nm then (e, False)
      else
        (case map_offset m (local_header_offset e) of
           None \<Rightarrow> (e, False)
         | Some phys \<Rightarrow>
             (case at_offset idx phys of
                None \<Rightarrow> (e, False)
              | Some r \<Rightarrow>
                  if raw_name r d = Some nm then (e\<lparr> local_header_offset := phys \<rparr>, True) else (e, False))))"

definition reconcile_offsets :: "bytes \<Rightarrow> ZipRecoveryPolicy \<Rightarrow> ZipParse \<Rightarrow> ZipParse" where
  "reconcile_offsets d policy out =
     (case observe_all d (zp_entries out) (index_build d policy) of
        (obs, idx) \<Rightarrow>
          (let m = infer obs (max_offset_segments policy);
               out = out\<lparr> offset_segments := length (segments m), offset_map_kind := Some (map_kind m) \<rparr>;
               out =
                 (if is_usable m
                  then
                    (let moved = map (repoint d idx m) (zp_entries out);
                         repointed = length (filter snd moved);
                         out = out\<lparr> zp_entries := map fst moved, records_repointed := repointed \<rparr> in
                     if 0 < repointed
                     then zp_warn (Msg ''ENTRY_OFFSETS_REMAPPED: {repointed} directory record(s) re-pointed through a {}-segment offset map''
                            [N repointed, N (length (segments m))]) out
                     else out)
                  else out) in
           out\<lparr> records_reconciled :=
                   length (filter (\<lambda>e. entry_header_at d (local_header_offset e) (str_bytes (en_name e))) (zp_entries out)),
                 index_stats := ix_stats idx \<rparr>))"

section \<open>Completeness and the whole parse\<close>

text \<open>The gap search over sorted ranges: whether it stopped at a gap, and the cursor.\<close>

fun gap_scan :: "(nat \<times> nat) list \<Rightarrow> nat \<Rightarrow> bool \<times> nat" where
  "gap_scan [] cursor = (False, cursor)"
| "gap_scan ((s, e) # rs) cursor =
     (if cursor < s \<and> 30 \<le> s - cursor then (True, cursor) else gap_scan rs (max cursor e))"

definition sort_ranges :: "(nat \<times> nat) list \<Rightarrow> (nat \<times> nat) list" where
  "sort_ranges rs = sort_key fst (sort_key snd rs)"

definition unaccounted_gap :: "bytes \<Rightarrow> nat option \<Rightarrow> ZipEntry list \<Rightarrow> bool" where
  "unaccounted_gap d cd_region_start entries =
     (let horizon = (case cd_region_start of Some s \<Rightarrow> s | None \<Rightarrow> length d) in
      case gap_scan (sort_ranges (List.map_filter (payload_range d) entries)) 0 of
        (gap, cursor) \<Rightarrow> gap \<or> 30 \<le> horizon - cursor)"

definition directory_complete :: "bytes \<Rightarrow> nat option \<Rightarrow> nat option \<Rightarrow> ZipParse \<Rightarrow> bool" where
  "directory_complete d declared_count cd_region_start out \<longleftrightarrow>
     zp_cd_found out \<and> zp_entries out \<noteq> [] \<and> declared_count = Some (length (zp_entries out))
     \<and> list_all (\<lambda>e. local_header_present d (local_header_offset e)) (zp_entries out)
     \<and> \<not> unaccounted_gap d cd_region_start (zp_entries out)"

definition merge_scan ::
  "bytes \<Rightarrow> ZipRecoveryPolicy \<Rightarrow> EmbeddedArchive list \<Rightarrow> nat option \<Rightarrow> ZipParse \<Rightarrow> ZipParse" where
  "merge_scan d policy containers cd_region_start out =
     (let out = zp_warn
            (if zp_entries out = []
             then Msg ''central directory missing/unusable; scanning local file headers'' []
             else Msg ''LOCAL_HEADER_SCAN_REQUIRED'' [])
            (out\<lparr> used_local_scan := True \<rparr>) in
      case scan_local_headers_bounded d policy of
        (scanned, limit) \<Rightarrow>
          (let out = zp_limit limit out;
               rep = reconcile_cd_and_scan d (zp_entries out) scanned cd_region_start containers policy in
           out\<lparr> nested_candidates := rr_nested rep, zp_entries := rr_entries rep,
                 scan_only_entries := rr_scan_only rep, zp_conflicts := rr_conflicts rep,
                 rejected_candidates := rr_rejected rep,
                 zp_warnings := zp_warnings out @ rr_warnings rep \<rparr>))"

definition parse_zip_with_policy :: "bytes \<Rightarrow> ZipRecoveryPolicy \<Rightarrow> ZipParse" where
  "parse_zip_with_policy d policy =
     (let containers = detect d policy;
          out = zip_parse_default\<lparr> nested_containers := length containers \<rparr> in
      case parse_declared d policy containers out of
        (out, declared_count, cd_region_start) \<Rightarrow>
          (case (if zp_entries out = [] then parse_surviving d policy containers out cd_region_start
                 else (out, cd_region_start)) of
             (out, cd_region_start) \<Rightarrow>
               (let out = (if zp_entries out \<noteq> [] then reconcile_offsets d policy out else out);
                    cd_entries = length (zp_entries out);
                    complete = directory_complete d declared_count cd_region_start out;
                    out = out\<lparr> cd_declared_count := declared_count,
                               zp_count_consistent := (zp_cd_found out \<and> declared_count = Some cd_entries
                                 \<and> 0 < cd_entries) \<rparr>;
                    out = (case declared_count of
                             Some n \<Rightarrow>
                               if zp_cd_found out \<and> n \<noteq> cd_entries
                               then zp_warn (Msg ''EOCD_ENTRY_COUNT_INCONSISTENT: EOCD declares {n} entries, {cd_entries} structurally valid records were walked''
                                      [N n, N cd_entries]) out
                               else out
                           | None \<Rightarrow> out) in
                if complete then out else merge_scan d policy containers cd_region_start out)))"

definition parse_zip :: "bytes \<Rightarrow> ZipParse" where
  "parse_zip d = parse_zip_with_policy d policy_default"

section \<open>What the merge adds and drops\<close>

definition outer_entry :: "EmbeddedArchive list \<Rightarrow> ZipEntry \<Rightarrow> bool" where
  "outer_entry containers e \<longleftrightarrow> owner_of containers (local_header_offset e) = None"

definition claim_of :: "bytes \<Rightarrow> ZipEntry \<Rightarrow> (nat \<times> nat) option" where
  "claim_of d e = map_option (\<lambda>(s, f, t). (s, f)) (payload_range_lenient d e)"

definition apart :: "nat \<times> nat \<Rightarrow> nat \<times> nat \<Rightarrow> bool" where
  "apart a b \<longleftrightarrow> snd a \<le> fst b \<or> snd b \<le> fst a"

text \<open>Additions that respect given claims and offsets, and each other.\<close>

definition fresh_additions ::
  "bytes \<Rightarrow> EmbeddedArchive list \<Rightarrow> (nat \<times> nat) list \<Rightarrow> nat set \<Rightarrow> ZipEntry list \<Rightarrow> bool" where
  "fresh_additions d containers claims offs added \<longleftrightarrow>
     list_all (\<lambda>a. outer_entry containers a \<and> local_header_offset a \<notin> offs
        \<and> (case claim_of d a of None \<Rightarrow> False | Some r \<Rightarrow> list_all (apart r) claims)) added
     \<and> sorted_wrt (\<lambda>a b. local_header_offset a \<noteq> local_header_offset b
          \<and> apart (the (claim_of d a)) (the (claim_of d b))) added"

lemma fresh_additions_Cons:
  assumes "outer_entry containers a" "local_header_offset a \<notin> offs" "claim_of d a = Some r"
    "list_all (apart r) claims"
    "fresh_additions d containers (claims @ [r]) (insert (local_header_offset a) offs) added"
  shows "fresh_additions d containers claims offs (a # added)"
proof -
  have "local_header_offset a \<noteq> local_header_offset b \<and> apart (the (claim_of d a)) (the (claim_of d b))"
    if "b \<in> set added" for b
    using that assms(3,5) unfolding fresh_additions_def list_all_iff
    by (auto simp: apart_def split: option.splits)
  moreover have "list_all (\<lambda>a. outer_entry containers a \<and> local_header_offset a \<notin> offs
      \<and> (case claim_of d a of None \<Rightarrow> False | Some r \<Rightarrow> list_all (apart r) claims)) added"
    using assms(5) unfolding fresh_additions_def list_all_iff by (auto split: option.splits)
  ultimately show ?thesis using assms unfolding fresh_additions_def by simp
qed

lemma absorb_candidate_cases:
  obtains "ms_entries (absorb_candidate d containers cand st) = ms_entries st"
      "by_offset (absorb_candidate d containers cand st) = by_offset st"
      "claimed (absorb_candidate d containers cand st) = claimed st"
      "scan_only (absorb_candidate d containers cand st) = scan_only st"
  | r where "ms_entries (absorb_candidate d containers cand st) = ms_entries st @ [cand]"
      "by_offset (absorb_candidate d containers cand st) = insert (local_header_offset cand) (by_offset st)"
      "claimed (absorb_candidate d containers cand st) = claimed st @ [r]"
      "scan_only (absorb_candidate d containers cand st) = scan_only st + 1"
      "outer_entry containers cand" "local_header_offset cand \<notin> by_offset st" "claim_of d cand = Some r"
      "list_all (apart r) (claimed st)"
proof (cases "outer_entry containers cand \<and> local_header_offset cand \<notin> by_offset st
    \<and> (case payload_range_lenient d cand of None \<Rightarrow> False
       | Some (s, f, t) \<Rightarrow> \<not> list_ex (\<lambda>(a, b). a \<le> s \<and> s < b) (claimed st)
           \<and> \<not> list_ex (\<lambda>(a, b). s < b \<and> a < f) (claimed st))")
  case False
  then show ?thesis
    by (intro that(1))
       (auto simp: absorb_candidate_def outer_entry_def Let_def nested_def reject_def split: option.splits prod.splits)
next
  case True
  then obtain s f t where p: "payload_range_lenient d cand = Some (s, f, t)"
    "\<not> list_ex (\<lambda>(a, b). a \<le> s \<and> s < b) (claimed st)" "\<not> list_ex (\<lambda>(a, b). s < b \<and> a < f) (claimed st)"
    by (auto split: option.splits)
  have "list_all (apart (s, f)) (claimed st)"
    using p(3) by (auto simp: apart_def list_all_iff list_ex_iff not_less)
  then show ?thesis using True p
    by (intro that(2) [of "(s, f)"]) (auto simp: absorb_candidate_def outer_entry_def Let_def claim_of_def)
qed

lemma absorb_scanned_spec:
  "\<exists>added. subseq added scanned
    \<and> ms_entries (absorb_scanned d containers policy scanned st) = ms_entries st @ added
    \<and> scan_only (absorb_scanned d containers policy scanned st) = scan_only st + length added
    \<and> fresh_additions d containers (claimed st) (by_offset st) added"
proof (induction scanned arbitrary: st)
  case Nil
  then show ?case by (simp add: fresh_additions_def)
next
  case (Cons cand cands)
  show ?case
  proof (cases "max_candidate_records policy \<le> length (ms_entries st)")
    case True
    then show ?thesis by (intro exI [of _ "[]"]) (simp add: fresh_additions_def)
  next
    case False
    then have step: "absorb_scanned d containers policy (cand # cands) st
      = absorb_scanned d containers policy cands (absorb_candidate d containers cand st)" by simp
    obtain added where added: "subseq added cands"
      "ms_entries (absorb_scanned d containers policy (cand # cands) st)
        = ms_entries (absorb_candidate d containers cand st) @ added"
      "scan_only (absorb_scanned d containers policy (cand # cands) st)
        = scan_only (absorb_candidate d containers cand st) + length added"
      "fresh_additions d containers (claimed (absorb_candidate d containers cand st))
        (by_offset (absorb_candidate d containers cand st)) added"
      unfolding step using Cons.IH by blast
    show ?thesis
    proof (rule absorb_candidate_cases [of d containers cand st], goal_cases)
      case 1
      then show ?case using added by (intro exI [of _ added]) auto
    next
      case (2 r)
      have "fresh_additions d containers (claimed st) (by_offset st) (cand # added)"
        using fresh_additions_Cons [OF 2(5-8)] added(4) unfolding 2(2,3) by blast
      then show ?case using added(1-3) 2(1,4) by (intro exI [of _ "cand # added"]) auto
    qed
  qed
qed

lemma absorb_central_spec:
  "ms_entries (absorb_central containers es st) = ms_entries st @ filter (outer_entry containers) es
   \<and> by_offset (absorb_central containers es st) = by_offset st
   \<and> claimed (absorb_central containers es st) = claimed st
   \<and> scan_only (absorb_central containers es st) = scan_only st"
  by (induction containers es st rule: absorb_central.induct)
     (auto simp: outer_entry_def nested_def reject_def)

text \<open>
  C11. The merge only adds and never guesses: its entries are, in file order, exactly the directory
  records of the outer archive, unaltered, together with scanned headers, as many as it
  reports; each added header lies outside every embedded archive, at an offset no directory
  record names, and its bytes are disjoint from whatever directory records own and from all
  other added entries.
\<close>

theorem merge_adds_only_disjoint:
  "\<exists>added. subseq added scanned
    \<and> mset (rr_entries (reconcile_cd_and_scan d central scanned cd_start containers policy))
        = mset (filter (outer_entry containers) central) + mset added
    \<and> sorted (map local_header_offset (rr_entries (reconcile_cd_and_scan d central scanned cd_start containers policy)))
    \<and> rr_scan_only (reconcile_cd_and_scan d central scanned cd_start containers policy) = length added
    \<and> fresh_additions d containers (initial_claims d central cd_start) (set (map local_header_offset central)) added"
proof -
  let ?st = "absorb_central containers central (merge_start d central cd_start)"
  obtain added where "subseq added scanned"
    "ms_entries (absorb_scanned d containers policy scanned ?st) = ms_entries ?st @ added"
    "scan_only (absorb_scanned d containers policy scanned ?st) = scan_only ?st + length added"
    "fresh_additions d containers (claimed ?st) (by_offset ?st) added"
    using absorb_scanned_spec by blast
  then show ?thesis
    by (intro exI [of _ added])
       (simp add: absorb_central_spec merge_start_def reconcile_cd_and_scan_def Let_def sort_entries_def)
qed

end
