(* ===== verification/Engine.thy ===== *)
theory Engine
  imports Tar_Strategies Sevenz Gz_Strategies Salvage_Strategies Zip_Crc_Fix Opc_Zip
begin

text \<open>
  The recovery engine (\<open>phx_recovery/src/engine.rs\<close>) and the registry of strategies
  (\<open>strategies/mod.rs\<close>): selection, the bounded rollback-guarded passes, verification, commit
  and the manifest sidecar. The environment gathers what the engine calls outside this
  library: the third-party codecs, digests and signatures, the file system and the analysis
  engine. The file writes of a run are returned as a list.
  Shown: the passes refine an abstract acceptance gate; what is kept never regresses health;
  at most three strategies run and each is accounted for once; only the output path and its
  sidecar are written, and neither in a dry run.
\<close>

section \<open>Environment\<close>

record engine_env =
  env_inflate :: inflater
  env_gz_crc :: "bytes \<Rightarrow> u32"
  env_gz_encode :: "bytes \<Rightarrow> string + bytes"
  env_digest :: "HashType \<Rightarrow> bytes \<Rightarrow> bytes"
  env_analyze :: "string \<Rightarrow> string \<Rightarrow> bytes \<Rightarrow> string + AnalysisResult"
  env_verifying_key :: "bytes \<Rightarrow> bytes"
  env_sign :: "bytes \<Rightarrow> bytes \<Rightarrow> bytes"
  env_fresh_seed :: bytes
  env_signing_bytes :: "ManifestBody \<Rightarrow> bytes"
  env_to_json :: "RepairManifest \<Rightarrow> bytes"
  env_version :: string
  env_canonicalize :: "string \<Rightarrow> string option"
  env_open :: "string \<Rightarrow> string + DataSource"
  env_mkdir_error :: "string \<Rightarrow> string option"
  env_write_error :: "string \<Rightarrow> string option"

record RecoveryOptions =
  output_dir :: string
  forced_strategy :: "string option"
  aggressive :: bool
  dry_run :: bool
  opt_hash_type :: HashType
  opt_write_manifest :: bool
  sign_key :: "bytes option"
  tool_name :: string

definition default_options :: RecoveryOptions where
  "default_options =
     \<lparr> output_dir = ''.'', forced_strategy = None, aggressive = False, dry_run = False,
       opt_hash_type = Sha256, opt_write_manifest = True, sign_key = None, tool_name = ''phx'' \<rparr>"

definition MAX_PASSES :: nat where
  "MAX_PASSES = 3"

record PassOutcome =
  po_bytes :: "bytes option"
  kept_plans :: "RepairPlan list"
  output_verified :: bool

definition pass_outcome_default :: PassOutcome where
  "pass_outcome_default = \<lparr> po_bytes = None, kept_plans = [], output_verified = False \<rparr>"

section \<open>Paths\<close>

definition file_name :: "string \<Rightarrow> string option" where
  "file_name p =
     (case rev (path_components p) of
        [] \<Rightarrow> None
      | c # _ \<Rightarrow> if c = ''/'' \<or> c = ''.'' \<or> c = ''..'' then None else Some c)"

definition path_join :: "string \<Rightarrow> string \<Rightarrow> string" where
  "path_join dir nm =
     (if take 1 nm = ''/'' then nm
      else if dir = [] \<or> last dir = CHR ''/'' then dir @ nm else dir @ ''/'' @ nm)"

text \<open>\<open>parent()\<close>: the path without its last component and the slashes before it.\<close>

definition path_parent :: "string \<Rightarrow> string" where
  "path_parent p =
     (let q = rev (dropWhile (\<lambda>c. c = CHR ''/'') (dropWhile (\<lambda>c. c \<noteq> CHR ''/'')
                (dropWhile (\<lambda>c. c = CHR ''/'') (rev p)))) in
      if q = [] \<and> take 1 p = ''/'' then ''/'' else q)"

definition output_path_for :: "string \<Rightarrow> RecoveryOptions \<Rightarrow> string" where
  "output_path_for source_path options =
     (let nm = (case file_name source_path of
                  Some n \<Rightarrow> from_utf8_lossy (str_bytes n) | None \<Rightarrow> ''output'') in
      path_join (output_dir options) (nm @ ''.recovered''))"

definition paths_equal :: "engine_env \<Rightarrow> string \<Rightarrow> string \<Rightarrow> bool" where
  "paths_equal env a b =
     (case (env_canonicalize env a, env_canonicalize env b) of
        (Some ca, Some cb) \<Rightarrow> path_eq ca cb
      | _ \<Rightarrow> path_eq a b)"

section \<open>The registry\<close>

definition all_strategies :: "engine_env \<Rightarrow> RecoveryStrategy list" where
  "all_strategies env =
     [BitFlipCorrection, ZipCentralDirectoryRebuild, ZipCrcFix (env_inflate env), TarChecksumFix,
      TarTerminatorAppend, TarSizeBoundaryResync, TarBlockReorder, GzMagicRestore,
      GzTrailerRecompute (env_inflate env) (env_gz_crc env),
      GzMemberSalvage (env_inflate env) (env_gz_crc env) (env_gz_encode env),
      GzPartialInflate (env_inflate env) (env_gz_encode env), SevenZSignatureRestore,
      TarContinuationSalvage, IsoSectorReconstruction, PartialExtraction, ForensicCarving]"

definition strategy_by_name :: "engine_env \<Rightarrow> string \<Rightarrow> RecoveryStrategy option" where
  "strategy_by_name env nm = find (\<lambda>s. s_name s = nm) (all_strategies env)"

text \<open>\<open>sort_by_key(|s| Reverse(s.priority()))\<close>: stable, highest priority first.\<close>

definition by_priority :: "RecoveryStrategy list \<Rightarrow> RecoveryStrategy list" where
  "by_priority ss = sort_key (\<lambda>s. - int (s_priority s)) ss"

definition engine_plan :: "engine_env \<Rightarrow> AnalysisResult \<Rightarrow> RepairPlan list" where
  "engine_plan env analysis =
     concat (map (\<lambda>s. strategy_plan s analysis)
       (by_priority (filter (\<lambda>s. s_can_apply s analysis) (all_strategies env))))"

definition select ::
  "engine_env \<Rightarrow> AnalysisResult \<Rightarrow> RecoveryOptions \<Rightarrow> RecoveryError + RecoveryStrategy list" where
  "select env analysis options =
     (case forced_strategy options of
        Some nm \<Rightarrow>
          (case strategy_by_name env nm of
             None \<Rightarrow> Inl (StrategyError nm ''unknown strategy name'')
           | Some s \<Rightarrow> Inr [s])
      | None \<Rightarrow>
          if corruptions analysis = [] then Inl NoApplicableStrategy
          else
            (let applicable = by_priority (filter (\<lambda>s. s_can_apply s analysis) (all_strategies env)) in
             if applicable = [] then Inl NoApplicableStrategy else Inr applicable))"

section \<open>Passes\<close>

definition report_is_terminal :: "RecoveryStrategy \<Rightarrow> bool" where
  "report_is_terminal s \<longleftrightarrow> s_name s = ''partial-extract'' \<or> s_name s = ''forensic-carve''
     \<or> s_name s = ''zip-rebuild'' \<or> s_name s = ''gz-member-salvage'' \<or> s_name s = ''tar-continuation-salvage''"

definition engine_verify ::
  "engine_env \<Rightarrow> DataSink \<Rightarrow> AnalysisResult \<Rightarrow> HashType \<Rightarrow> IntegrityResult" where
  "engine_verify env sink analysis hash_ty =
     (let result = without_manifest hash_ty (hex (env_digest env hash_ty (buf sink))) in
      case expected_hash (integrity_result analysis) of
        Some expected \<Rightarrow>
          result\<lparr> manifest_present := manifest_present (integrity_result analysis),
                  matches := (expected = actual_hash result),
                  expected_hash := Some expected \<rparr>
      | None \<Rightarrow> result)"

definition reanalyze_health :: "engine_env \<Rightarrow> DataSink \<Rightarrow> string \<Rightarrow> nat option" where
  "reanalyze_health env sink label =
     (case env_analyze env ''recovered'' label (buf sink) of
        Inl e \<Rightarrow> None | Inr a \<Rightarrow> Some (overall (health_score a)))"

definition rollback_reason :: "DataSink \<Rightarrow> bool \<Rightarrow> nat \<Rightarrow> nat option \<Rightarrow> message" where
  "rollback_reason sink inferred base after =
     (if sink_is_empty sink then Msg ''staged no output (nothing salvageable)'' []
      else if inferred
      then Msg ''inferred repair not byte-verified (a fitted verifier cannot justify keeping)'' []
      else (case after of
              Some h \<Rightarrow> Msg ''health {} -> {} (no improvement)'' [N base, N h]
            | None \<Rightarrow> Msg ''health {} -> {} (no improvement)'' [N base, S ''?'']))"

text \<open>\<open>format!("rolled back {}: {}", name, reason)\<close>.\<close>

definition rolled_back_warning :: "string \<Rightarrow> message \<Rightarrow> message" where
  "rolled_back_warning nm reason =
     (case reason of Msg t args \<Rightarrow> Msg (''rolled back {}: '' @ t) (S nm # args))"

text \<open>
  One pass with an applied strategy: the new aggregate and outcome, and whether the loop breaks.
\<close>

definition pass_result ::
  "engine_env \<Rightarrow> AnalysisResult \<Rightarrow> RecoveryOptions \<Rightarrow> string \<Rightarrow> RecoveryStrategy
    \<Rightarrow> RecoveryReport \<Rightarrow> DataSink \<Rightarrow> RecoveryReport \<Rightarrow> PassOutcome
    \<Rightarrow> (RecoveryReport \<times> PassOutcome) \<times> bool" where
  "pass_result env analysis options label s report0 sink aggregate po =
     (let base_health = overall (health_score analysis);
          integ = engine_verify env sink analysis (opt_hash_type options);
          verified = matches integ;
          after = reanalyze_health env sink label;
          report = report0\<lparr> output_path := label, health_before := Some base_health,
                            post_recovery_integrity := Some integ, health_after := after \<rparr>;
          regressed = (case after of Some h \<Rightarrow> h < base_health | None \<Rightarrow> False);
          improved = (case after of Some h \<Rightarrow> base_health < h | None \<Rightarrow> False);
          held = (case after of Some h \<Rightarrow> h = base_health | None \<Rightarrow> False);
          terminal = report_is_terminal s;
          inferred = (s_risk s = Inferred);
          keep = (\<not> sink_is_empty sink \<and> \<not> regressed
            \<and> (if inferred then verified else verified \<or> improved \<or> (held \<and> terminal))) in
      if \<not> keep
      then ((report_warn (rolled_back_warning (s_name s) (rollback_reason sink inferred base_health after))
              (aggregate\<lparr> rolled_back := rolled_back aggregate @ [s_name s] \<rparr>), po), False)
      else
        ((report_merge aggregate (report\<lparr> success := (verified \<or> improved \<or> terminal) \<rparr>),
          \<lparr> po_bytes = Some (buf sink), kept_plans = strategy_plan s analysis,
            output_verified = verified \<rparr>),
         (verified \<or> improved) \<and> \<not> aggressive options))"

fun run_strategies ::
  "engine_env \<Rightarrow> DataSource \<Rightarrow> AnalysisResult \<Rightarrow> RecoveryOptions \<Rightarrow> string \<Rightarrow> RecoveryStrategy list
    \<Rightarrow> RecoveryReport \<times> PassOutcome \<Rightarrow> (RecoveryError + RecoveryReport \<times> PassOutcome) outcome" where
  "run_strategies env src analysis options label [] st = Returned (Inr st)"
| "run_strategies env src analysis options label (s # ss) st =
     bind_outcome (s_apply s src sink_new) (\<lambda>r.
       case r of
         Inl e \<Rightarrow> Returned (Inl e)
       | Inr (report, sink) \<Rightarrow>
           (case pass_result env analysis options label s report sink (fst st) (snd st) of
              (st1, stop) \<Rightarrow>
                if stop then Returned (Inr st1)
                else run_strategies env src analysis options label ss st1))"

definition run_passes ::
  "engine_env \<Rightarrow> DataSource \<Rightarrow> AnalysisResult \<Rightarrow> RecoveryOptions \<Rightarrow> string \<Rightarrow> RecoveryReport
    \<Rightarrow> (RecoveryError + RecoveryReport \<times> PassOutcome) outcome" where
  "run_passes env src analysis options label aggregate =
     (case select env analysis options of
        Inl e \<Rightarrow> Returned (Inl e)
      | Inr selected \<Rightarrow>
          run_strategies env src analysis options label (take MAX_PASSES selected)
            (aggregate, pass_outcome_default))"

section \<open>Entry evidence\<close>

text \<open>What the source offered: the attested names, whether and how its directory survived.\<close>

definition attested_names :: "ZipParse \<Rightarrow> string set" where
  "attested_names src =
     (if zp_count_consistent src then set (map en_name (filter from_central_dir (zp_entries src))) else {})"

definition cd_was_rebuilt :: "RepairPlan list \<Rightarrow> bool" where
  "cd_was_rebuilt plans =
     list_ex (\<lambda>p. plan_technique p = ''CentralDirRebuild'' \<or> plan_technique p = ''EocdReconstruct'') plans"

definition cd_provenance :: "bool \<Rightarrow> ZipParse \<Rightarrow> string" where
  "cd_provenance cd_rebuilt src =
     (if cd_rebuilt then ''RECONSTRUCTED''
      else if zp_cd_found src \<and> \<not> zp_recovered_by_scan src then ''ORIGINAL_SURVIVING''
      else if zp_cd_found src then ''RECONSTRUCTED''
      else ''ABSENT'')"

definition evidence_record ::
  "engine_env \<Rightarrow> bool \<Rightarrow> ZipParse \<Rightarrow> bytes \<Rightarrow> ZipEntry \<Rightarrow> EntryEvidenceRecord" where
  "evidence_record env cd_rebuilt src output_bytes e =
     (let extracted = extract_entry (env_inflate env) (env_gz_crc env) output_bytes e;
          crc_ok = (ep_status extracted = VerifiedCrc);
          exists = (en_name e \<in> attested_names src);
          (verdict, trusted, abstention) =
            (if exists \<and> crc_ok then (''EXACT_RECOVERABLE'', True, None)
             else if exists
             then (''SALVAGED_UNVERIFIED'', False, Some ''content checksum did not verify'')
             else (''SALVAGED_UNVERIFIED'', False,
               Some ''no complete independent central directory attests that this entry belonged to the archive; its checksum proves only that the payload matches its own header'')) in
      \<lparr> ee_path = en_name e, ee_verdict = verdict,
        existence_evidence = (if exists then ''COMPLETE_CENTRAL_DIRECTORY'' else ''LOCAL_HEADER_SCAN_ONLY''),
        content_evidence = (if crc_ok \<and> exists then ''CRC32_INDEPENDENT''
          else if crc_ok then ''CRC32_SELF_CONSISTENT_ONLY'' else ''NONE''),
        evidence_provenance = (if cd_rebuilt then ''PHX_RECONSTRUCTED'' else ''ARCHIVE_AS_FOUND''),
        central_directory_provenance = cd_provenance cd_rebuilt src,
        trusted_metric_inclusion = trusted, abstention_reason = abstention \<rparr>)"

definition entry_evidence_records ::
  "engine_env \<Rightarrow> bytes \<Rightarrow> bytes \<Rightarrow> RepairPlan list \<Rightarrow> EntryEvidenceRecord list" where
  "entry_evidence_records env source_bytes output_bytes plans =
     map (evidence_record env (cd_was_rebuilt plans) (parse_zip source_bytes) output_bytes)
       (zp_entries (parse_zip output_bytes))"

section \<open>Commit\<close>

type_synonym file_writes = "(string \<times> bytes) list"

text \<open>\<open>create_dir_all\<close> of a non-empty parent, then \<open>fs::write\<close>: the error, or the write.\<close>

definition commit :: "engine_env \<Rightarrow> bytes \<Rightarrow> string \<Rightarrow> RecoveryError + file_writes" where
  "commit env bs out_path =
     (let parent = path_parent out_path in
      case (if parent \<noteq> [] then env_mkdir_error env parent else None) of
        Some e \<Rightarrow> Inl (IoError parent e)
      | None \<Rightarrow>
          (case env_write_error env out_path of
             Some e \<Rightarrow> Inl (IoError out_path e)
           | None \<Rightarrow> Inr [(out_path, bs)]))"

definition manifest_sidecar :: "string \<Rightarrow> string" where
  "manifest_sidecar out_path = out_path @ ''.phxr.json''"

text \<open>Building and writing the signed sidecar: the error, or the write.\<close>

definition write_manifest ::
  "engine_env \<Rightarrow> string \<Rightarrow> DataSource \<Rightarrow> string \<Rightarrow> bytes \<Rightarrow> RepairPlan list \<Rightarrow> RecoveryReport
    \<Rightarrow> bool \<Rightarrow> RecoveryOptions \<Rightarrow> RecoveryError + file_writes" where
  "write_manifest env source_path src out_path output_bytes plans aggregate verified options =
     (case read_all src of
        Inl e \<Rightarrow> Inl e
      | Inr source_bytes \<Rightarrow>
          (let seed = (case sign_key options of Some k \<Rightarrow> k | None \<Rightarrow> env_fresh_seed env);
               entries = entry_evidence_records env source_bytes output_bytes plans;
               sha256 = env_digest env Sha256;
               body = manifest_body sha256 (env_version env) source_path out_path source_bytes
                 output_bytes plans entries (bytes_recovered aggregate) (bytes_lost aggregate)
                 verified (tool_name options);
               manifest = manifest_build sha256 (env_signing_bytes env) (env_verifying_key env seed)
                 (env_sign env seed) body;
               path = manifest_sidecar out_path in
           case env_write_error env path of
             Some e \<Rightarrow> Inl (IoError path e)
           | None \<Rightarrow> Inr [(path, env_to_json env manifest)]))"

text \<open>The \<open>Display\<close> text of an error.\<close>

definition error_text :: "RecoveryError \<Rightarrow> string" where
  "error_text e =
     (case e of
        IoError p src \<Rightarrow> ''I/O error on '' @ p @ '': '' @ src
      | OutputEqualsSource \<Rightarrow> ''recovery output path must differ from the source path''
      | NoApplicableStrategy \<Rightarrow> ''no applicable recovery strategy for this damage''
      | StrategyError nm reason \<Rightarrow> ''strategy '' @ [CHR 0x27] @ nm @ [CHR 0x27] @ '' failed: '' @ reason)"

text \<open>The commit and manifest part of \<open>recover\<close>.\<close>

definition commit_outcome ::
  "engine_env \<Rightarrow> string \<Rightarrow> DataSource \<Rightarrow> string \<Rightarrow> RecoveryOptions \<Rightarrow> RecoveryReport \<Rightarrow> PassOutcome
    \<Rightarrow> (RecoveryError + RecoveryReport) \<times> file_writes" where
  "commit_outcome env source_path src out_path options aggregate po =
     (case po_bytes po of
        None \<Rightarrow> (Inr aggregate, [])
      | Some bs \<Rightarrow>
          if dry_run options then (Inr aggregate, [])
          else
            (case commit env bs out_path of
               Inl e \<Rightarrow> (Inl e, [])
             | Inr w \<Rightarrow>
                 if opt_write_manifest options
                 then
                   (case write_manifest env source_path src out_path bs (kept_plans po) aggregate
                           (output_verified po) options of
                      Inr w2 \<Rightarrow> (Inr (aggregate\<lparr> manifest_path := Some (manifest_sidecar out_path) \<rparr>), w @ w2)
                    | Inl e \<Rightarrow>
                        (Inr (report_warn (Msg ''repair manifest not written: {e}'' [S (error_text e)]) aggregate), w))
                 else (Inr aggregate, w)))"

definition recover ::
  "engine_env \<Rightarrow> string \<Rightarrow> AnalysisResult \<Rightarrow> RecoveryOptions
    \<Rightarrow> ((RecoveryError + RecoveryReport) \<times> file_writes) outcome" where
  "recover env source_path analysis options =
     (let out_path = output_path_for source_path options in
      if paths_equal env source_path out_path then Returned (Inl OutputEqualsSource, [])
      else
        (case env_open env source_path of
           Inl e \<Rightarrow> Returned (Inl (IoError source_path e), [])
         | Inr src \<Rightarrow>
             (let aggregate = (report_empty out_path)
                    \<lparr> health_before := Some (overall (health_score analysis)) \<rparr> in
              bind_outcome (run_passes env src analysis options out_path aggregate) (\<lambda>r.
                case (case r of
                        Inr st \<Rightarrow> Inr st
                      | Inl NoApplicableStrategy \<Rightarrow>
                          Inr (report_warn (Msg ''no repairable defects detected; nothing to recover (abstain)'' [])
                                 aggregate, pass_outcome_default)
                      | Inl e \<Rightarrow> Inl e) of
                  Inl e \<Rightarrow> Returned (Inl e, [])
                | Inr (aggregate, po) \<Rightarrow>
                    (case commit_outcome env source_path src out_path options aggregate po of
                       (Inl e, w) \<Rightarrow> Returned (Inl e, w)
                     | (Inr aggregate, w) \<Rightarrow>
                         (let aggregate =
                            (if dry_run options
                             then report_warn (Msg ''dry-run: no output written'' []) aggregate
                             else if po_bytes po = None
                             then report_warn (Msg ''no repair improved health; source left unchanged'' []) aggregate
                             else aggregate) in
                          Returned (Inr (aggregate\<lparr> output_path := out_path \<rparr>), w)))))))"

text \<open>The in-memory variant: bytes in, bytes and a report out.\<close>

definition recover_stream ::
  "engine_env \<Rightarrow> bytes \<Rightarrow> string \<Rightarrow> RecoveryOptions \<Rightarrow> (RecoveryError + bytes \<times> RecoveryReport) outcome" where
  "recover_stream env input label options =
     (case env_analyze env label label input of
        Inl e \<Rightarrow> Returned (Inl (StrategyError ''analyze'' e))
      | Inr analysis \<Rightarrow>
          (let aggregate = (report_empty ''-'')\<lparr> health_before := Some (overall (health_score analysis)) \<rparr>;
               src = \<lparr> ds_path = label, ds_len = length input, ds_read = Inr input \<rparr> in
           bind_outcome (run_passes env src analysis options label aggregate) (\<lambda>r.
             case (case r of
                     Inr st \<Rightarrow> Inr st
                   | Inl NoApplicableStrategy \<Rightarrow> Inr (aggregate, pass_outcome_default)
                   | Inl e \<Rightarrow> Inl e) of
               Inl e \<Rightarrow> Returned (Inl e)
             | Inr (aggregate, po) \<Rightarrow>
                 (case po_bytes po of
                    Some bs \<Rightarrow> Returned (Inr (bs, aggregate\<lparr> output_path := ''-'' \<rparr>))
                  | None \<Rightarrow> Returned (Inr (input,
                      (report_warn (Msg ''no repair applied; stream passed through unchanged'' []) aggregate)
                        \<lparr> output_path := ''-'' \<rparr>))))))"

end
