(* ===== verification/Engine_Gate.thy ===== *)
theory Engine_Gate
  imports Engine
begin

text \<open>
  An abstract acceptance gate for repair candidates, and the refinement: the engine's passes
  (\<open>phx_recovery/src/engine.rs\<close>) run exactly the gate over the staged outputs of the selected
  strategies. The contract of the strategies enters through the locale facts of the
  registry's sixteen members.
\<close>

section \<open>The registry keeps the contract\<close>

lemma all_strategies_contract:
  "s \<in> set (all_strategies env) \<Longrightarrow> staging_strategy (s_name s) (s_apply s)"
  unfolding all_strategies_def
  by (auto intro: bitflip.staging_strategy_axioms zip_rebuild.staging_strategy_axioms
      zip_crc_fix.staging_strategy_axioms tar_checksum_fix.staging_strategy_axioms
      tar_terminator.staging_strategy_axioms tar_size_resync.staging_strategy_axioms
      tar_reorder.staging_strategy_axioms gz_magic.staging_strategy_axioms
      gz_trailer.staging_strategy_axioms gz_salvage.staging_strategy_axioms
      gz_partial.staging_strategy_axioms sevenz_restore.staging_strategy_axioms
      tar_continuation.staging_strategy_axioms iso_sector.staging_strategy_axioms
      partial_extract.staging_strategy_axioms forensic_carve.staging_strategy_axioms)

lemma select_registered:
  "select env a opts = Inr ss \<Longrightarrow> set ss \<subseteq> set (all_strategies env) \<and> ss \<noteq> []"
  by (auto simp: select_def strategy_by_name_def by_priority_def Let_def
      dest: find_SomeD split: option.splits if_splits)

section \<open>The gate\<close>

text \<open>What the gate sees of a staged output.\<close>

record candidate =
  c_name :: string
  c_out :: bytes
  c_verified :: bool
  c_after :: "nat option"
  c_terminal :: bool
  c_inferred :: bool
  c_plans :: "RepairPlan list"

definition accepted :: "nat \<Rightarrow> candidate \<Rightarrow> bool" where
  "accepted base c \<longleftrightarrow> c_out c \<noteq> []
     \<and> (case c_after c of Some h \<Rightarrow> base \<le> h | None \<Rightarrow> True)
     \<and> (c_verified c \<or> \<not> c_inferred c
          \<and> (case c_after c of Some h \<Rightarrow> base < h \<or> h = base \<and> c_terminal c | None \<Rightarrow> False))"

definition decisive :: "nat \<Rightarrow> candidate \<Rightarrow> bool" where
  "decisive base c \<longleftrightarrow> c_verified c \<or> (case c_after c of Some h \<Rightarrow> base < h | None \<Rightarrow> False)"

definition stops :: "nat \<Rightarrow> bool \<Rightarrow> candidate \<Rightarrow> bool" where
  "stops base aggr c \<longleftrightarrow> accepted base c \<and> decisive base c \<and> \<not> aggr"

text \<open>The candidates a run looks at: up to and including the first that stops it.\<close>

fun gate_run :: "nat \<Rightarrow> bool \<Rightarrow> candidate list \<Rightarrow> candidate list" where
  "gate_run base aggr [] = []"
| "gate_run base aggr (c # cs) = c # (if stops base aggr c then [] else gate_run base aggr cs)"

definition kept :: "nat \<Rightarrow> candidate list \<Rightarrow> candidate list" where
  "kept base cs = filter (accepted base) cs"

text \<open>The abstract outcome: the last kept candidate, if any.\<close>

definition gate_outcome :: "nat \<Rightarrow> PassOutcome \<Rightarrow> candidate list \<Rightarrow> PassOutcome" where
  "gate_outcome base po cs =
     (if kept base cs = [] then po
      else (let c = last (kept base cs) in
        \<lparr> po_bytes = Some (c_out c), kept_plans = c_plans c, output_verified = c_verified c \<rparr>))"

section \<open>Candidates of the engine\<close>

definition candidate_of ::
  "engine_env \<Rightarrow> AnalysisResult \<Rightarrow> RecoveryOptions \<Rightarrow> string \<Rightarrow> RecoveryStrategy \<Rightarrow> DataSink \<Rightarrow> candidate" where
  "candidate_of env analysis options label s sink =
     \<lparr> c_name = s_name s, c_out = buf sink,
       c_verified = matches (engine_verify env sink analysis (opt_hash_type options)),
       c_after = reanalyze_health env sink label, c_terminal = report_is_terminal s,
       c_inferred = (s_risk s = Inferred), c_plans = strategy_plan s analysis \<rparr>"

text \<open>The strategy, applied to the source with a fresh sink, stages the candidate.\<close>

definition stages ::
  "engine_env \<Rightarrow> DataSource \<Rightarrow> AnalysisResult \<Rightarrow> RecoveryOptions \<Rightarrow> string
    \<Rightarrow> RecoveryStrategy \<Rightarrow> candidate \<Rightarrow> bool" where
  "stages env src analysis options label s c \<longleftrightarrow>
     (\<exists>rep sink. s_apply s src sink_new = Returned (Inr (rep, sink))
        \<and> c = candidate_of env analysis options label s sink)"

abbreviation base_of :: "AnalysisResult \<Rightarrow> nat" where
  "base_of analysis \<equiv> overall (health_score analysis)"

lemma pass_result_gate:
  assumes "strategies_applied rep = [s_name s]" "rolled_back rep = []"
  shows "\<exists>agg'. pass_result env analysis options label s rep sink agg po
      = ((agg', if accepted (base_of analysis) (candidate_of env analysis options label s sink)
          then \<lparr> po_bytes = Some (buf sink), kept_plans = strategy_plan s analysis,
                 output_verified = matches (engine_verify env sink analysis (opt_hash_type options)) \<rparr>
          else po),
         stops (base_of analysis) (aggressive options) (candidate_of env analysis options label s sink))
    \<and> strategies_applied agg' = strategies_applied agg
        @ (if accepted (base_of analysis) (candidate_of env analysis options label s sink) then [s_name s] else [])
    \<and> rolled_back agg' = rolled_back agg
        @ (if accepted (base_of analysis) (candidate_of env analysis options label s sink) then [] else [s_name s])
    \<and> success agg' = (success agg \<or> accepted (base_of analysis) (candidate_of env analysis options label s sink))"
proof -
  define c where "c = candidate_of env analysis options label s sink"
  define keep where "keep \<longleftrightarrow> accepted (base_of analysis) c"
  have keep: "(\<not> sink_is_empty sink
      \<and> \<not> (case reanalyze_health env sink label of Some h \<Rightarrow> h < base_of analysis | None \<Rightarrow> False)
      \<and> (if s_risk s = Inferred then matches (engine_verify env sink analysis (opt_hash_type options))
         else matches (engine_verify env sink analysis (opt_hash_type options))
           \<or> (case reanalyze_health env sink label of Some h \<Rightarrow> base_of analysis < h | None \<Rightarrow> False)
           \<or> (case reanalyze_health env sink label of Some h \<Rightarrow> h = base_of analysis | None \<Rightarrow> False)
             \<and> report_is_terminal s)) = keep"
    unfolding keep_def
    by (auto simp: accepted_def c_def candidate_of_def sink_is_empty_def split: option.split)
  have decisive: "(matches (engine_verify env sink analysis (opt_hash_type options))
      \<or> (case reanalyze_health env sink label of Some h \<Rightarrow> base_of analysis < h | None \<Rightarrow> False))
      = decisive (base_of analysis) c"
    by (simp add: decisive_def c_def candidate_of_def)
  show ?thesis
  proof (cases keep)
    case True
    then have ok: "decisive (base_of analysis) c \<or> report_is_terminal s"
      by (auto simp: keep_def accepted_def decisive_def c_def candidate_of_def split: option.splits)
    have split: "(v \<or> i \<or> t) = ((v \<or> i) \<or> t)" for v i t by blast
    show ?thesis
      using True assms ok unfolding pass_result_def Let_def keep
      by (simp only: split decisive) (simp add: keep_def stops_def report_merge_def c_def)
  next
    case False
    then show ?thesis
      using assms unfolding pass_result_def Let_def keep c_def [symmetric]
      by (simp add: keep_def stops_def report_warn_def)
  qed
qed

lemma run_strategies_gate:
  assumes "run_strategies env src analysis options label ss (agg, po) = Returned (Inr (agg', po'))"
    "set ss \<subseteq> set (all_strategies env)"
  shows "\<exists>cs. list_all2 (stages env src analysis options label) (take (length cs) ss) cs
    \<and> gate_run (base_of analysis) (aggressive options) cs = cs
    \<and> (length cs < length ss \<longrightarrow> cs \<noteq> [] \<and> stops (base_of analysis) (aggressive options) (last cs))
    \<and> po' = gate_outcome (base_of analysis) po cs
    \<and> strategies_applied agg' = strategies_applied agg @ map c_name (kept (base_of analysis) cs)
    \<and> rolled_back agg' = rolled_back agg @ map c_name (filter (\<lambda>c. \<not> accepted (base_of analysis) c) cs)
    \<and> success agg' = (success agg \<or> kept (base_of analysis) cs \<noteq> [])"
  using assms
proof (induction ss arbitrary: agg po)
  case Nil
  then show ?case by (intro exI [of _ "[]"]) (simp add: gate_outcome_def kept_def)
next
  case (Cons s ss)
  let ?base = "base_of analysis" and ?aggr = "aggressive options"
  obtain r where r: "s_apply s src sink_new = Returned r"
    using Cons.prems(1) by (cases "s_apply s src sink_new") auto
  obtain rep sink where ap: "s_apply s src sink_new = Returned (Inr (rep, sink))"
    using Cons.prems(1) r by (cases r) auto
  have contract: "staging_strategy (s_name s) (s_apply s)"
    using all_strategies_contract [of s env] Cons.prems(2) by simp
  have local: "report_local (s_name s) rep"
    by (rule staging_strategy.staging_report [OF contract ap])
  define c where "c = candidate_of env analysis options label s sink"
  have c: "c_name c = s_name s" "c_out c = buf sink" "c_plans c = strategy_plan s analysis"
    "c_verified c = matches (engine_verify env sink analysis (opt_hash_type options))"
    by (simp_all add: c_def candidate_of_def)
  have staged: "stages env src analysis options label s c"
    using ap by (auto simp: stages_def c_def)
  obtain agg1 where p: "pass_result env analysis options label s rep sink agg po
      = ((agg1, if accepted ?base c then \<lparr> po_bytes = Some (c_out c), kept_plans = c_plans c,
            output_verified = c_verified c \<rparr> else po), stops ?base ?aggr c)"
    and agg1: "strategies_applied agg1 = strategies_applied agg @ (if accepted ?base c then [s_name s] else [])"
      "rolled_back agg1 = rolled_back agg @ (if accepted ?base c then [] else [s_name s])"
      "success agg1 = (success agg \<or> accepted ?base c)"
    using pass_result_gate [of rep s env analysis options label sink agg po] local
    unfolding c_def [symmetric] c by (auto simp: report_local_def)
  show ?case
  proof (cases "stops ?base ?aggr c")
    case True
    then have acc: "accepted ?base c" by (simp add: stops_def)
    show ?thesis
      using Cons.prems(1) ap p True acc agg1 staged c
      by (intro exI [of _ "[c]"]) (simp add: gate_outcome_def kept_def Let_def)
  next
    case False
    let ?po1 = "if accepted ?base c then \<lparr> po_bytes = Some (c_out c), kept_plans = c_plans c,
      output_verified = c_verified c \<rparr> else po"
    have "run_strategies env src analysis options label ss (agg1, ?po1) = Returned (Inr (agg', po'))"
      using Cons.prems(1) ap p False by simp
    from Cons.IH [OF this] Cons.prems(2) obtain cs where cs:
        "list_all2 (stages env src analysis options label) (take (length cs) ss) cs"
        "gate_run ?base ?aggr cs = cs"
        "length cs < length ss \<longrightarrow> cs \<noteq> [] \<and> stops ?base ?aggr (last cs)"
        "po' = gate_outcome ?base ?po1 cs"
        "strategies_applied agg' = strategies_applied agg1 @ map c_name (kept ?base cs)"
        "rolled_back agg' = rolled_back agg1 @ map c_name (filter (\<lambda>c. \<not> accepted ?base c) cs)"
        "success agg' = (success agg1 \<or> kept ?base cs \<noteq> [])"
      by auto
    have "gate_outcome ?base ?po1 cs = gate_outcome ?base po (c # cs)"
      by (simp add: gate_outcome_def kept_def Let_def)
    then show ?thesis
      using cs staged False agg1 c
      by (intro exI [of _ "c # cs"]) (auto simp: kept_def)
  qed
qed

lemma run_passes_gate:
  assumes "run_passes env src analysis options label agg = Returned (Inr (agg', po'))"
  shows "\<exists>ss cs. select env analysis options = Inr ss \<and> length cs \<le> MAX_PASSES
    \<and> list_all2 (stages env src analysis options label) (take (length cs) ss) cs
    \<and> gate_run (base_of analysis) (aggressive options) cs = cs
    \<and> (length cs < length (take MAX_PASSES ss)
        \<longrightarrow> cs \<noteq> [] \<and> stops (base_of analysis) (aggressive options) (last cs))
    \<and> po' = gate_outcome (base_of analysis) pass_outcome_default cs
    \<and> strategies_applied agg' = strategies_applied agg @ map c_name (kept (base_of analysis) cs)
    \<and> rolled_back agg' = rolled_back agg @ map c_name (filter (\<lambda>c. \<not> accepted (base_of analysis) c) cs)
    \<and> success agg' = (success agg \<or> kept (base_of analysis) cs \<noteq> [])"
proof -
  obtain ss where ss: "select env analysis options = Inr ss"
    using assms by (cases "select env analysis options") (auto simp: run_passes_def)
  have run: "run_strategies env src analysis options label (take MAX_PASSES ss) (agg, pass_outcome_default)
      = Returned (Inr (agg', po'))"
    using assms ss by (simp add: run_passes_def)
  have "set (take MAX_PASSES ss) \<subseteq> set (all_strategies env)"
    using select_registered [OF ss] by (meson order_trans set_take_subset)
  from run_strategies_gate [OF run this] obtain cs where cs:
      "list_all2 (stages env src analysis options label) (take (length cs) (take MAX_PASSES ss)) cs"
      "gate_run (base_of analysis) (aggressive options) cs = cs"
      "length cs < length (take MAX_PASSES ss)
        \<longrightarrow> cs \<noteq> [] \<and> stops (base_of analysis) (aggressive options) (last cs)"
      "po' = gate_outcome (base_of analysis) pass_outcome_default cs"
      "strategies_applied agg' = strategies_applied agg @ map c_name (kept (base_of analysis) cs)"
      "rolled_back agg' = rolled_back agg @ map c_name (filter (\<lambda>c. \<not> accepted (base_of analysis) c) cs)"
      "success agg' = (success agg \<or> kept (base_of analysis) cs \<noteq> [])"
    by blast
  have len: "length cs = length (take (length cs) (take MAX_PASSES ss))"
    using list_all2_lengthD [OF cs(1)] by simp
  then have "length cs \<le> MAX_PASSES" by simp
  moreover from this have "take (length cs) (take MAX_PASSES ss) = take (length cs) ss"
    by (simp add: min_def)
  ultimately show ?thesis using cs ss by (intro exI [of _ ss] exI [of _ cs]) simp
qed

text \<open>A pass fails with an I/O error or a strategy's error, never with the abstention error.\<close>

lemma strategy_never_abstains:
  assumes "staging_strategy nm ap"
  shows "ap src sink \<noteq> Returned (Inl NoApplicableStrategy)"
proof (cases "ds_read src")
  case (Inl e)
  then show ?thesis using staging_strategy.staging_io_error [OF assms Inl] by simp
next
  case (Inr bs)
  then show ?thesis using staging_strategy.staging_error_names [OF assms Inr] by blast
qed

lemma run_strategies_never_abstains:
  "set ss \<subseteq> set (all_strategies env) \<Longrightarrow>
    run_strategies env src analysis options label ss st \<noteq> Returned (Inl NoApplicableStrategy)"
proof (induction ss arbitrary: st)
  case (Cons s ss)
  have "s_apply s src sink_new \<noteq> Returned (Inl NoApplicableStrategy)"
    using strategy_never_abstains [OF all_strategies_contract [of s env]] Cons.prems by simp
  then show ?case
    using Cons by (auto split: sum.splits prod.splits if_splits)
qed simp

end
