(* ===== verification/Engine_Safety.thy ===== *)
theory Engine_Safety
  imports Engine_Gate
begin

text \<open>
  What a caller of the engine may rely on: which files a recovery writes and with which content,
  how the strategies it ran are accounted for, when a stream passes through unchanged, which
  entries of a repair manifest are trusted; and the command line
  (\<open>veraqis_recover/src/main.rs\<close>) with its exit codes.
\<close>

section \<open>The command line\<close>

record Cli =
  cli_path :: string
  cli_output :: "string option"

definition EXIT_SUCCESS :: int where "EXIT_SUCCESS = 0"

definition EXIT_ISSUES :: int where "EXIT_ISSUES = 1"

definition EXIT_FATAL :: int where "EXIT_FATAL = 2"

text \<open>
  \<open>run\<close>: the exit code and the file writes. \<open>analyze_file\<close> is \<open>Engine::analyze\<close> on a path;
  console output is left out.
\<close>

definition cli_run ::
  "engine_env \<Rightarrow> (string \<Rightarrow> string + AnalysisResult) \<Rightarrow> Cli \<Rightarrow> (int \<times> file_writes) outcome" where
  "cli_run env analyze_file cli =
     (case analyze_file (cli_path cli) of
        Inl e \<Rightarrow> Returned (EXIT_FATAL, [])
      | Inr analysis \<Rightarrow>
          (case cli_output cli of
             None \<Rightarrow> Returned (if is_clean analysis then EXIT_SUCCESS else EXIT_ISSUES, [])
           | Some dir \<Rightarrow>
               (case env_mkdir_error env dir of
                  Some e \<Rightarrow> Returned (EXIT_FATAL, [])
                | None \<Rightarrow>
                    (let options = default_options
                           \<lparr> output_dir := dir, opt_hash_type := hash_type (integrity_result analysis),
                             tool_name := ''veraqis-recover'' \<rparr> in
                     bind_outcome (recover env (cli_path cli) analysis options) (\<lambda>(r, w).
                       case r of
                         Inr report \<Rightarrow>
                           Returned (if is_clean analysis \<or> success report then EXIT_SUCCESS else EXIT_ISSUES, w)
                       | Inl e \<Rightarrow> Returned (EXIT_FATAL, w))))))"

section \<open>Writes\<close>

text \<open>What a successful recovery comes down to: its passes, or the abstention.\<close>

lemma recover_passes:
  assumes "recover env path analysis options = Returned (Inr rep, w)"
  obtains src agg po agg' rep1 where "env_open env path = Inr src"
    "\<not> paths_equal env path (output_path_for path options)"
    "run_passes env src analysis options (output_path_for path options)
        ((report_empty (output_path_for path options))\<lparr> health_before := Some (base_of analysis) \<rparr>)
      = Returned (Inr (agg, po))
     \<or> select env analysis options = Inl NoApplicableStrategy \<and> po = pass_outcome_default
        \<and> strategies_applied agg = [] \<and> rolled_back agg = [] \<and> \<not> success agg"
    "commit_outcome env path src (output_path_for path options) options agg po = (Inr agg', w)"
    "strategies_applied rep = strategies_applied agg'" "rolled_back rep = rolled_back agg'"
    "success rep = success agg'"
proof -
  let ?out = "output_path_for path options"
  let ?agg = "(report_empty ?out)\<lparr> health_before := Some (base_of analysis) \<rparr>"
  have np: "\<not> paths_equal env path ?out"
    using assms by (auto simp: recover_def Let_def split: if_splits)
  obtain src where src: "env_open env path = Inr src"
    using assms np by (cases "env_open env path") (auto simp: recover_def Let_def)
  obtain r where r: "run_passes env src analysis options ?out ?agg = Returned r"
    using assms np src by (cases "run_passes env src analysis options ?out ?agg") (auto simp: recover_def Let_def)
  have none: "r = Inl NoApplicableStrategy \<Longrightarrow> select env analysis options = Inl NoApplicableStrategy"
  proof -
    assume a: "r = Inl NoApplicableStrategy"
    show "select env analysis options = Inl NoApplicableStrategy"
    proof (cases "select env analysis options")
      case (Inr ss)
      have "set (take MAX_PASSES ss) \<subseteq> set (all_strategies env)"
        using select_registered [OF Inr] by (meson order_trans set_take_subset)
      then have "run_strategies env src analysis options ?out (take MAX_PASSES ss) st
          \<noteq> Returned (Inl NoApplicableStrategy)" for st
        by (rule run_strategies_never_abstains)
      then show ?thesis using r a Inr by (simp add: run_passes_def)
    qed (use r a in \<open>simp add: run_passes_def\<close>)
  qed
  define agg_po where "agg_po = (case r of Inr st \<Rightarrow> st
    | Inl _ \<Rightarrow> (report_warn (Msg ''no repairable defects detected; nothing to recover (abstain)'' []) ?agg,
        pass_outcome_default))"
  obtain agg po where ap: "agg_po = (agg, po)" by fastforce
  obtain agg' where c: "commit_outcome env path src ?out options agg po = (Inr agg', w)"
      "strategies_applied rep = strategies_applied agg'" "rolled_back rep = rolled_back agg'"
      "success rep = success agg'"
      "r = Inl NoApplicableStrategy \<or> (\<exists>st. r = Inr st)"
  proof (cases r)
    case (Inl e)
    then have "e = NoApplicableStrategy"
      using assms np src r by (cases e) (auto simp: recover_def Let_def)
    with Inl ap assms np src r that show ?thesis
      by (auto simp: recover_def Let_def agg_po_def report_warn_def split: prod.splits sum.splits if_splits)
  next
    case (Inr st)
    with ap assms np src r that show ?thesis
      by (cases st) (auto simp: recover_def Let_def agg_po_def report_warn_def split: prod.splits sum.splits if_splits)
  qed
  show ?thesis
  proof (rule that [OF src np _ c(1-4)])
    show "run_passes env src analysis options ?out ?agg = Returned (Inr (agg, po))
       \<or> select env analysis options = Inl NoApplicableStrategy \<and> po = pass_outcome_default
          \<and> strategies_applied agg = [] \<and> rolled_back agg = [] \<and> \<not> success agg"
      using c(5) r none ap by (auto simp: agg_po_def report_warn_def report_empty_def)
  qed
qed

lemma commit_outcome_writes:
  assumes "commit_outcome env path src out options agg po = (Inr agg', w)"
  shows "(w = [] \<or> (\<exists>bs. po_bytes po = Some bs \<and> \<not> dry_run options
      \<and> (w = [(out, bs)] \<or> (\<exists>js. opt_write_manifest options \<and> w = [(out, bs), (manifest_sidecar out, js)]))))
    \<and> (po_bytes po = None \<or> dry_run options \<longrightarrow> w = [])
    \<and> strategies_applied agg' = strategies_applied agg \<and> rolled_back agg' = rolled_back agg
    \<and> success agg' = success agg"
  using assms
  by (auto simp: commit_outcome_def commit_def write_manifest_def report_warn_def Let_def
      split: option.splits if_splits sum.splits)

lemma kept_accepted:
  assumes "po_bytes (gate_outcome base pass_outcome_default cs) = Some bs"
  shows "\<exists>c \<in> set cs. accepted base c \<and> c_out c = bs"
proof -
  have ne: "kept base cs \<noteq> []" and bs: "bs = c_out (last (kept base cs))"
    using assms by (auto simp: gate_outcome_def pass_outcome_default_def Let_def split: if_splits)
  from last_in_set [OF ne] have "last (kept base cs) \<in> set cs" "accepted base (last (kept base cs))"
    by (auto simp: kept_def)
  with bs show ?thesis by blast
qed

lemma staged_by:
  assumes "list_all2 (stages env src a opts label) (take (length cs) ss) cs" "c \<in> set cs"
  shows "\<exists>s \<in> set (take (length cs) ss). stages env src a opts label s c"
  using assms by (metis in_set_conv_nth list_all2_conv_all_nth)

lemma staged_names:
  assumes "list_all2 (stages env src a opts label) (take (length cs) ss) cs"
  shows "map c_name cs = take (length cs) (map s_name ss)"
proof -
  have "map c_name cs = map s_name (take (length cs) ss)"
    using assms by (induction rule: list_all2_induct) (auto simp: stages_def candidate_of_def)
  then show ?thesis by (simp add: take_map)
qed

text \<open>
  C1. A recovery writes only what passed the gate, and only where it says: it never writes in a dry
  run and never when it kept nothing; it writes at most the output path and its manifest
  sidecar, and the output path is not the source; and the bytes at the output path are
  exactly what one of the first three selected strategies staged from the source, accepted
  by the gate: not empty, byte-verified against a reference or not worse in re-analysed health
  (and then better, or a faithful salvage at equal health), and byte-verified whenever the
  strategy only infers or the health is unknown.
\<close>

theorem recover_writes_accepted:
  assumes "recover env path analysis options = Returned (Inr rep, w)"
  shows "set (map fst w) \<subseteq> {output_path_for path options, manifest_sidecar (output_path_for path options)}
    \<and> \<not> paths_equal env path (output_path_for path options)
    \<and> (dry_run options \<longrightarrow> w = [])
    \<and> (\<forall>p bs. (p, bs) \<in> set w \<and> p = output_path_for path options \<longrightarrow>
        (\<exists>src ss s c. env_open env path = Inr src \<and> select env analysis options = Inr ss
          \<and> s \<in> set (take MAX_PASSES ss)
          \<and> stages env src analysis options (output_path_for path options) s c
          \<and> accepted (base_of analysis) c \<and> bs = c_out c))"
proof -
  let ?out = "output_path_for path options"
  from recover_passes [OF assms] obtain src agg po agg' where
      src: "env_open env path = Inr src" and np: "\<not> paths_equal env path ?out"
    and run: "run_passes env src analysis options ?out
        ((report_empty ?out)\<lparr> health_before := Some (base_of analysis) \<rparr>) = Returned (Inr (agg, po))
      \<or> select env analysis options = Inl NoApplicableStrategy \<and> po = pass_outcome_default
        \<and> strategies_applied agg = [] \<and> rolled_back agg = [] \<and> \<not> success agg"
    and c: "commit_outcome env path src ?out options agg po = (Inr agg', w)"
    by metis
  note ws = commit_outcome_writes [OF c]
  have side: "manifest_sidecar ?out \<noteq> ?out" by (simp add: manifest_sidecar_def)
  have gate: "\<exists>ss s c. select env analysis options = Inr ss \<and> s \<in> set (take MAX_PASSES ss)
      \<and> stages env src analysis options ?out s c \<and> accepted (base_of analysis) c \<and> bs = c_out c"
    if bs: "po_bytes po = Some bs" for bs
  proof -
    have "run_passes env src analysis options ?out
        ((report_empty ?out)\<lparr> health_before := Some (base_of analysis) \<rparr>) = Returned (Inr (agg, po))"
      using run bs by (auto simp: pass_outcome_default_def)
    from run_passes_gate [OF this] obtain ss cs where g: "select env analysis options = Inr ss"
        "length cs \<le> MAX_PASSES" "list_all2 (stages env src analysis options ?out) (take (length cs) ss) cs"
        "po = gate_outcome (base_of analysis) pass_outcome_default cs"
      by blast
    obtain c where c: "c \<in> set cs" "accepted (base_of analysis) c" "c_out c = bs"
      using kept_accepted bs g(4) by metis
    obtain s where s: "s \<in> set (take (length cs) ss)" "stages env src analysis options ?out s c"
      using staged_by [OF g(3) c(1)] by blast
    have "s \<in> set (take MAX_PASSES ss)"
      using s(1) set_take_subset_set_take [OF g(2), of ss] by blast
    with g(1) s(2) c(2,3) show ?thesis by blast
  qed
  have "set (map fst w) \<subseteq> {?out, manifest_sidecar ?out}" using ws by auto
  moreover have "dry_run options \<longrightarrow> w = []" using ws by blast
  moreover have "po_bytes po = Some bs" if "(p, bs) \<in> set w" "p = ?out" for p bs
    using ws that side by auto
  ultimately show ?thesis using src np gate by blast
qed

text \<open>
  C34. Every strategy that ran is accounted for exactly once, in order. The candidates are what the first
  strategies of the selection stage from the source, one after the other, at most three; those the
  gate keeps are the applied list and those it refuses are the rolled-back list, and the run
  succeeds when one is kept. It goes through the first three strategies of the selection, or all of
  a shorter one, unless a kept and decisive repair stops it, which an aggressive run never does.
  With no detected defect and no forced strategy nothing runs, succeeds or is written.
\<close>

theorem recover_accounts_for_strategies:
  assumes "recover env path analysis options = Returned (Inr rep, w)"
  shows "length (strategies_applied rep) + length (rolled_back rep) \<le> 3
    \<and> (case select env analysis options of
         Inr ss \<Rightarrow> (\<exists>src cs. env_open env path = Inr src \<and> length cs \<le> 3
           \<and> list_all2 (stages env src analysis options (output_path_for path options)) (take (length cs) ss) cs
           \<and> gate_run (base_of analysis) (aggressive options) cs = cs
           \<and> (length cs < min 3 (length ss)
               \<longrightarrow> cs \<noteq> [] \<and> stops (base_of analysis) (aggressive options) (last cs))
           \<and> map c_name cs = take (length cs) (map s_name ss)
           \<and> strategies_applied rep = map c_name (kept (base_of analysis) cs)
           \<and> rolled_back rep = map c_name (filter (\<lambda>c. \<not> accepted (base_of analysis) c) cs)
           \<and> mset (strategies_applied rep) + mset (rolled_back rep) = mset (map c_name cs)
           \<and> success rep = (kept (base_of analysis) cs \<noteq> [])
           \<and> (kept (base_of analysis) cs = [] \<longrightarrow> w = []))
       | Inl e \<Rightarrow> e = NoApplicableStrategy \<and> strategies_applied rep = [] \<and> rolled_back rep = []
           \<and> \<not> success rep \<and> w = [])
    \<and> (corruptions analysis = [] \<and> forced_strategy options = None \<longrightarrow>
        strategies_applied rep = [] \<and> rolled_back rep = [] \<and> \<not> success rep \<and> w = [])"
proof -
  let ?out = "output_path_for path options" and ?base = "base_of analysis"
  from recover_passes [OF assms] obtain src agg po agg' where
    src: "env_open env path = Inr src"
    and run: "run_passes env src analysis options ?out
        ((report_empty ?out)\<lparr> health_before := Some (base_of analysis) \<rparr>) = Returned (Inr (agg, po))
      \<or> select env analysis options = Inl NoApplicableStrategy \<and> po = pass_outcome_default
        \<and> strategies_applied agg = [] \<and> rolled_back agg = [] \<and> \<not> success agg"
    and c: "commit_outcome env path src ?out options agg po = (Inr agg', w)"
    and rep: "strategies_applied rep = strategies_applied agg'" "rolled_back rep = rolled_back agg'"
      "success rep = success agg'"
    by metis
  note ws = commit_outcome_writes [OF c]
  have clean: "select env analysis options = Inl NoApplicableStrategy"
    if "corruptions analysis = []" "forced_strategy options = None"
    using that by (simp add: select_def)
  show ?thesis
  proof (cases "select env analysis options")
    case (Inl e)
    then have "po_bytes po = None" "strategies_applied agg = []" "rolled_back agg = []" "\<not> success agg"
        "e = NoApplicableStrategy"
      using run by (auto simp: run_passes_def pass_outcome_default_def)
    then show ?thesis using ws rep Inl by auto
  next
    case (Inr ss)
    have "run_passes env src analysis options ?out
        ((report_empty ?out)\<lparr> health_before := Some (base_of analysis) \<rparr>) = Returned (Inr (agg, po))"
      using run Inr by auto
    from run_passes_gate [OF this] Inr obtain cs where g:
        "length cs \<le> MAX_PASSES" "list_all2 (stages env src analysis options ?out) (take (length cs) ss) cs"
        "gate_run ?base (aggressive options) cs = cs"
        "length cs < length (take MAX_PASSES ss)
          \<longrightarrow> cs \<noteq> [] \<and> stops ?base (aggressive options) (last cs)"
        "po = gate_outcome ?base pass_outcome_default cs"
        "strategies_applied agg = map c_name (kept ?base cs)"
        "rolled_back agg = map c_name (filter (\<lambda>c. \<not> accepted ?base c) cs)"
        "success agg = (kept ?base cs \<noteq> [])"
      by (auto simp: report_empty_def)
    have three: "length cs \<le> 3" and early: "length cs < min 3 (length ss)
        \<longrightarrow> cs \<noteq> [] \<and> stops ?base (aggressive options) (last cs)"
      using g(1,4) by (simp_all add: MAX_PASSES_def min.commute)
    have lists: "strategies_applied rep = map c_name (kept ?base cs)"
      "rolled_back rep = map c_name (filter (\<lambda>c. \<not> accepted ?base c) cs)" "success rep = (kept ?base cs \<noteq> [])"
      using ws rep g(6-8) by simp_all
    have total: "mset (strategies_applied rep) + mset (rolled_back rep) = mset (map c_name cs)"
      unfolding lists by (simp add: kept_def flip: image_mset_union)
    have quiet: "kept ?base cs = [] \<longrightarrow> w = []"
      using ws g(5) by (simp add: gate_outcome_def pass_outcome_default_def)
    have "length (strategies_applied rep) + length (rolled_back rep) \<le> 3"
      using arg_cong [OF total, of "size"] three by simp
    moreover have "\<not> (corruptions analysis = [] \<and> forced_strategy options = None)" using clean Inr by auto
    ultimately show ?thesis
      unfolding Inr sum.case
      using src three g(2,3) early staged_names [OF g(2)] lists total quiet by blast
  qed
qed

text \<open>
  C6. Stream recovery refines the gate: the candidates are what the first three selected strategies
  stage from the input, all of them unless a kept and decisive one stops a run that is not
  aggressive; what comes out is the last candidate the gate keeps, and, when it keeps
  none or there is no applicable strategy, the input itself, unchanged.
\<close>

theorem recover_stream_refines_gate:
  assumes "recover_stream env input label options = Returned (Inr (out, rep))"
  shows "\<exists>a ss cs. env_analyze env label label input = Inr a
    \<and> (select env a options = Inr ss \<or> select env a options = Inl NoApplicableStrategy \<and> ss = [])
    \<and> list_all2 (stages env \<lparr> ds_path = label, ds_len = length input, ds_read = Inr input \<rparr> a options label)
        (take (length cs) ss) cs
    \<and> gate_run (base_of a) (aggressive options) cs = cs \<and> length cs \<le> 3
    \<and> (length cs < min 3 (length ss) \<longrightarrow> cs \<noteq> [] \<and> stops (base_of a) (aggressive options) (last cs))
    \<and> out = (if kept (base_of a) cs = [] then input else c_out (last (kept (base_of a) cs)))"
proof -
  let ?src = "\<lparr> ds_path = label, ds_len = length input, ds_read = Inr input \<rparr>"
  obtain a where a: "env_analyze env label label input = Inr a"
    using assms by (cases "env_analyze env label label input") (auto simp: recover_stream_def)
  let ?agg = "(report_empty ''-'')\<lparr> health_before := Some (base_of a) \<rparr>"
  obtain r where r: "run_passes env ?src a options label ?agg = Returned r"
    using assms a by (cases "run_passes env ?src a options label ?agg") (auto simp: recover_stream_def Let_def)
  show ?thesis
  proof (cases r)
    case (Inr st)
    obtain agg po where st: "st = (agg, po)" by fastforce
    from run_passes_gate r Inr st obtain ss cs where g: "select env a options = Inr ss"
        "length cs \<le> MAX_PASSES" "list_all2 (stages env ?src a options label) (take (length cs) ss) cs"
        "gate_run (base_of a) (aggressive options) cs = cs"
        "length cs < length (take MAX_PASSES ss)
          \<longrightarrow> cs \<noteq> [] \<and> stops (base_of a) (aggressive options) (last cs)"
        "po = gate_outcome (base_of a) pass_outcome_default cs"
      by metis
    have few: "length cs \<le> 3" "length cs < min 3 (length ss)
        \<longrightarrow> cs \<noteq> [] \<and> stops (base_of a) (aggressive options) (last cs)"
      using g(2,5) by (simp_all add: MAX_PASSES_def min.commute)
    have "out = (case po_bytes po of Some bs \<Rightarrow> bs | None \<Rightarrow> input)"
      using assms a r Inr st by (auto simp: recover_stream_def Let_def split: option.splits)
    then have "out = (if kept (base_of a) cs = [] then input else c_out (last (kept (base_of a) cs)))"
      using g(6) by (simp add: gate_outcome_def pass_outcome_default_def Let_def)
    then show ?thesis using a g(1,3,4) few by blast
  next
    case (Inl e)
    then have "e = NoApplicableStrategy"
      using assms a r by (cases e) (auto simp: recover_stream_def Let_def)
    moreover have "out = input"
      using assms a r Inl \<open>e = NoApplicableStrategy\<close>
      by (auto simp: recover_stream_def Let_def pass_outcome_default_def)
    moreover have "select env a options = Inl NoApplicableStrategy"
    proof (cases "select env a options")
      case (Inr ss)
      have "set (take MAX_PASSES ss) \<subseteq> set (all_strategies env)"
        using select_registered [OF Inr] by (meson order_trans set_take_subset)
      from run_strategies_never_abstains [OF this] show ?thesis
        using r Inl Inr \<open>e = NoApplicableStrategy\<close> by (simp add: run_passes_def)
    qed (use r Inl \<open>e = NoApplicableStrategy\<close> in \<open>simp add: run_passes_def\<close>)
    ultimately show ?thesis
      using a by (intro exI [of _ a] exI [of _ "[]"]) (simp add: kept_def)
  qed
qed

section \<open>Exit codes\<close>

lemma commit_outcome_some:
  assumes "commit_outcome env path src out options agg po = (Inr agg', w)" "po_bytes po \<noteq> None"
    "\<not> dry_run options"
  shows "w \<noteq> [] \<and> fst (hd w) = out"
  using assms
  by (auto simp: commit_outcome_def commit_def Let_def split: option.splits if_splits sum.splits)

lemma commit_outcome_error: "commit_outcome env path src out options agg po = (Inl e, w) \<Longrightarrow> w = []"
  by (auto simp: commit_outcome_def split: option.splits if_splits sum.splits)

lemma recover_error_writes_nothing:
  assumes "recover env path analysis options = Returned (Inl e, w)"
  shows "w = []"
proof (cases "paths_equal env path (output_path_for path options)")
  case True
  then show ?thesis using assms by (simp add: recover_def)
next
  case False
  let ?out = "output_path_for path options"
  let ?agg = "(report_empty ?out)\<lparr> health_before := Some (base_of analysis) \<rparr>"
  show ?thesis
  proof (cases "env_open env path")
    case (Inl e')
    then show ?thesis using assms False by (simp add: recover_def)
  next
    case (Inr src)
    obtain r where r: "run_passes env src analysis options ?out ?agg = Returned r"
      using assms False Inr
      by (cases "run_passes env src analysis options ?out ?agg") (auto simp: recover_def Let_def)
    consider (ok) agg po where "r = Inr (agg, po)" | (abstain) "r = Inl NoApplicableStrategy"
      | (err) e' where "r = Inl e'" "e' \<noteq> NoApplicableStrategy"
      by (cases r) auto
    then show ?thesis
    proof cases
      case ok
      then show ?thesis
        using assms False Inr r commit_outcome_error [of env path src ?out options agg po]
        by (auto simp: recover_def Let_def split: prod.splits sum.splits)
    next
      case abstain
      then show ?thesis
        using assms False Inr r
        by (auto simp: recover_def Let_def commit_outcome_def pass_outcome_default_def split: if_splits)
    next
      case err
      then show ?thesis
        using assms False Inr r by (cases e') (auto simp: recover_def Let_def)
    qed
  qed
qed

lemma recover_success_iff_writes:
  assumes "recover env path analysis options = Returned (Inr rep, w)" "\<not> dry_run options"
  shows "success rep \<longleftrightarrow> w \<noteq> []" "w \<noteq> [] \<Longrightarrow> fst (hd w) = output_path_for path options"
proof -
  let ?out = "output_path_for path options"
  let ?agg = "(report_empty ?out)\<lparr> health_before := Some (base_of analysis) \<rparr>"
  from recover_passes [OF assms(1)] obtain src agg po agg' where
    run: "run_passes env src analysis options ?out ?agg = Returned (Inr (agg, po))
      \<or> select env analysis options = Inl NoApplicableStrategy \<and> po = pass_outcome_default
        \<and> strategies_applied agg = [] \<and> rolled_back agg = [] \<and> \<not> success agg"
    and c: "commit_outcome env path src ?out options agg po = (Inr agg', w)"
    and rep: "success rep = success agg'"
    by metis
  note ws = commit_outcome_writes [OF c]
  have "success agg \<longleftrightarrow> po_bytes po \<noteq> None"
    using run
  proof
    assume "run_passes env src analysis options ?out ?agg = Returned (Inr (agg, po))"
    from run_passes_gate [OF this] obtain cs where
        "po = gate_outcome (base_of analysis) pass_outcome_default cs"
        "success agg = (success ?agg \<or> kept (base_of analysis) cs \<noteq> [])"
      by blast
    then show ?thesis
      by (simp add: gate_outcome_def pass_outcome_default_def Let_def report_empty_def)
  qed (simp add: pass_outcome_default_def)
  then show "success rep \<longleftrightarrow> w \<noteq> []"
    using rep ws commit_outcome_some [OF c _ assms(2)] by auto
  show "w \<noteq> [] \<Longrightarrow> fst (hd w) = ?out" using ws by auto
qed

text \<open>
  C33. The exit code tells the truth about the output: on a damaged input the command exits with
  success exactly when it wrote a recovered file (at the output path); a clean input is
  never written out and never reported as having issues; an input that cannot be analysed
  is fatal; without an output directory nothing is written.
\<close>

theorem cli_exit_code_truthful:
  assumes "cli_run env analyze_file cli = Returned (code, w)"
  shows "case analyze_file (cli_path cli) of
      Inl e \<Rightarrow> code = EXIT_FATAL \<and> w = []
    | Inr a \<Rightarrow>
        (if is_clean a then w = [] \<and> code \<noteq> EXIT_ISSUES
         else (code = EXIT_SUCCESS \<longleftrightarrow> w \<noteq> []))
      \<and> (w \<noteq> [] \<longrightarrow> (\<exists>dir. cli_output cli = Some dir
          \<and> fst (hd w) = output_path_for (cli_path cli) (default_options\<lparr> output_dir := dir \<rparr>)))"
proof (cases "analyze_file (cli_path cli)")
  case (Inl e)
  then show ?thesis using assms by (simp add: cli_run_def)
next
  case (Inr a)
  show ?thesis
  proof (cases "\<exists>dir. cli_output cli = Some dir \<and> env_mkdir_error env dir = None")
    case False
    then show ?thesis
      using assms Inr
      by (auto simp: cli_run_def EXIT_FATAL_def EXIT_ISSUES_def EXIT_SUCCESS_def split: option.splits if_splits)
  next
    case True
    then obtain dir where dir: "cli_output cli = Some dir" "env_mkdir_error env dir = None" by blast
    define opts where "opts = default_options\<lparr> output_dir := dir,
      opt_hash_type := hash_type (integrity_result a), tool_name := ''veraqis-recover'' \<rparr>"
    have o: "\<not> dry_run opts" "forced_strategy opts = None"
      "output_path_for p opts = output_path_for p (default_options\<lparr> output_dir := dir \<rparr>)" for p
      by (simp_all add: opts_def default_options_def output_path_for_def)
    obtain r w' where r: "recover env (cli_path cli) a opts = Returned (r, w')"
      using assms Inr dir
      by (cases "recover env (cli_path cli) a opts") (auto simp: cli_run_def Let_def opts_def)
    show ?thesis
    proof (cases r)
      case (Inl e)
      then show ?thesis
        using assms Inr dir r recover_error_writes_nothing [of env "cli_path cli" a opts e w']
        by (auto simp: cli_run_def Let_def opts_def EXIT_FATAL_def EXIT_SUCCESS_def EXIT_ISSUES_def)
    next
      case (Inr rep)
      have code: "code = (if is_clean a \<or> success rep then EXIT_SUCCESS else EXIT_ISSUES)" "w = w'"
        using assms \<open>analyze_file (cli_path cli) = Inr a\<close> dir r Inr by (auto simp: cli_run_def Let_def opts_def)
      have rec: "recover env (cli_path cli) a opts = Returned (Inr rep, w)" using r Inr code(2) by simp
      note iff = recover_success_iff_writes [OF rec o(1)]
      have "is_clean a \<Longrightarrow> w = []"
      proof -
        assume "is_clean a"
        then have "select env a opts = Inl NoApplicableStrategy"
          by (simp add: select_def o(2) is_clean_def)
        then show "w = []"
          using recover_passes [OF rec] commit_outcome_writes
          by (metis PassOutcome.select_convs(1) Inl_Inr_False outcome.inject(1) pass_outcome_default_def
              run_passes_def sum.case(1))
      qed
      then show ?thesis
        using iff code dir o(3) \<open>analyze_file (cli_path cli) = Inr a\<close>
        by (auto simp: EXIT_SUCCESS_def EXIT_ISSUES_def)
    qed
  qed
qed

section \<open>A concrete run\<close>

definition example_analysis :: AnalysisResult where
  "example_analysis =
     \<lparr> target_path = ''a.bin'', total_size_bytes = 3, archive_format = None,
       integrity_result = without_manifest Sha256 [],
       corruptions = [synthetic (stream_location 0 0) Truncation Major ''X'' None],
       health_score = perfect \<rparr>"

definition example_env :: engine_env where
  "example_env =
     \<lparr> env_inflate = prefix_inflater, env_gz_crc = (\<lambda>_. 7), env_gz_encode = Inr, env_digest = (\<lambda>_ _. []),
       env_analyze = (\<lambda>_ _ _. Inr example_analysis),
       env_verifying_key = id, env_sign = (\<lambda>_ b. b), env_fresh_seed = [], env_signing_bytes = (\<lambda>_. []),
       env_to_json = (\<lambda>_. []), env_version = ''1'', env_canonicalize = (\<lambda>_. None),
       env_open = (\<lambda>p. Inr \<lparr> ds_path = p, ds_len = 3, ds_read = Inr [1, 2, 3] \<rparr>),
       env_mkdir_error = (\<lambda>_. None), env_write_error = (\<lambda>_. None) \<rparr>"

definition example_options :: RecoveryOptions where
  "example_options = default_options\<lparr> forced_strategy := Some ''partial-extract'', opt_write_manifest := False \<rparr>"

lemmas strategy_names =
  BitFlipCorrection_def ZipCentralDirectoryRebuild_def ZipCrcFix_def TarChecksumFix_def TarTerminatorAppend_def
  TarSizeBoundaryResync_def TarBlockReorder_def GzMagicRestore_def GzTrailerRecompute_def GzMemberSalvage_def
  GzPartialInflate_def SevenZSignatureRestore_def TarContinuationSalvage_def IsoSectorReconstruction_def
  PartialExtraction_def ForensicCarving_def

lemma example_path: "output_path_for ''a.bin'' example_options = ''./a.bin.recovered''"
  "\<not> paths_equal example_env ''a.bin'' ''./a.bin.recovered''"
proof -
  show "output_path_for ''a.bin'' example_options = ''./a.bin.recovered''"
    unfolding output_path_for_def example_options_def default_options_def by code_simp
  have "path_eq ''a.bin'' ''./a.bin.recovered'' = False" by code_simp
  then show "\<not> paths_equal example_env ''a.bin'' ''./a.bin.recovered''"
    by (simp add: paths_equal_def example_env_def)
qed

lemma example_select: "select env a example_options = Inr [PartialExtraction]"
  by (simp add: select_def strategy_by_name_def all_strategies_def example_options_def strategy_names)

lemma example_recover:
  "\<exists>rep. recover example_env ''a.bin'' example_analysis example_options
      = Returned (Inr rep, [(''./a.bin.recovered'', [1, 2, 3])])
    \<and> strategies_applied rep = [''partial-extract''] \<and> rolled_back rep = []"
proof -
  have open_src: "env_open example_env ''a.bin''
      = Inr \<lparr> ds_path = ''a.bin'', ds_len = 3, ds_read = Inr [1, 2, 3] \<rparr>"
    and env: "env_analyze example_env p l b = Inr example_analysis" "env_mkdir_error example_env p = None"
      "env_write_error example_env p = None" for p l b
    by (simp_all add: example_env_def)
  have opts: "dry_run example_options = False" "opt_write_manifest example_options = False"
    "aggressive example_options = False"
    by (simp_all add: example_options_def default_options_def)
  have pe: "s_apply PartialExtraction \<lparr> ds_path = ''a.bin'', ds_len = 3, ds_read = Inr [1, 2, 3] \<rparr> sink_new
      = Returned (Inr ((strategy_report ''partial-extract'')\<lparr> bytes_recovered := 3, bytes_lost := 0, success := True \<rparr>,
          sink_write sink_new [1, 2, 3]))"
    by (simp add: PartialExtraction_def partial_extract_run_def Let_def applied_ok_def)
  have terminal: "report_is_terminal PartialExtraction" "s_risk PartialExtraction = Lossy"
    by (simp_all add: report_is_terminal_def PartialExtraction_def)
  have health: "reanalyze_health example_env sink l = Some (overall (health_score example_analysis))" for sink l
    by (simp add: reanalyze_health_def env)
  show ?thesis
    unfolding recover_def Let_def example_path
    by (simp add: example_path open_src run_passes_def example_select MAX_PASSES_def pe pass_result_def Let_def
        health terminal opts commit_outcome_def commit_def env sink_is_empty_def report_merge_def report_empty_def
        strategy_report_def)
qed

theorem recover_writes_accepted_witness:
  "set (map fst [(''./a.bin.recovered'', [1, 2, 3 :: u8])])
     \<subseteq> {output_path_for ''a.bin'' example_options, manifest_sidecar (output_path_for ''a.bin'' example_options)}
   \<and> (\<exists>src ss s c. env_open example_env ''a.bin'' = Inr src
        \<and> select example_env example_analysis example_options = Inr ss \<and> s \<in> set (take MAX_PASSES ss)
        \<and> stages example_env src example_analysis example_options ''./a.bin.recovered'' s c
        \<and> accepted (base_of example_analysis) c \<and> [1, 2, 3] = c_out c)"
proof -
  obtain rep where r: "recover example_env ''a.bin'' example_analysis example_options
      = Returned (Inr rep, [(''./a.bin.recovered'', [1, 2, 3])])"
    using example_recover by blast
  have mem: "(''./a.bin.recovered'', [1, 2, 3]) \<in> set [(''./a.bin.recovered'', [1, 2, 3 :: u8])]" by simp
  note t = recover_writes_accepted [OF r]
  from t [unfolded example_path(1)] mem show ?thesis unfolding example_path(1) by blast
qed

theorem recover_accounts_for_strategies_witness:
  "\<exists>rep w. recover example_env ''a.bin'' example_analysis example_options = Returned (Inr rep, w)
    \<and> length (strategies_applied rep) + length (rolled_back rep) \<le> 3"
  using example_recover recover_accounts_for_strategies
    [of example_env "''a.bin''" example_analysis example_options] by blast

theorem recover_stream_refines_gate_witness:
  "\<exists>out rep a ss cs. recover_stream example_env [1, 2, 3] ''a.bin'' example_options = Returned (Inr (out, rep))
    \<and> env_analyze example_env ''a.bin'' ''a.bin'' [1, 2, 3] = Inr a
    \<and> out = (if kept (base_of a) cs = [] then [1, 2, 3] else c_out (last (kept (base_of a) cs)))"
proof -
  have an: "env_analyze example_env p l b = Inr example_analysis" for p l b
    by (simp add: example_env_def)
  let ?src = "\<lparr> ds_path = ''a.bin'', ds_len = length [1, 2, 3 :: u8], ds_read = Inr [1, 2, 3] \<rparr>"
  obtain rep1 where pe: "s_apply PartialExtraction ?src sink_new
      = Returned (Inr (rep1, sink_write sink_new [1, 2, 3]))"
    by (simp add: PartialExtraction_def partial_extract_run_def Let_def applied_ok_def)
  let ?agg = "(report_empty ''-'')\<lparr> health_before := Some (base_of example_analysis) \<rparr>"
  obtain agg po stop where "pass_result example_env example_analysis example_options ''a.bin'' PartialExtraction rep1
      (sink_write sink_new [1, 2, 3]) ?agg pass_outcome_default = ((agg, po), stop)" by (metis prod.exhaust)
  then have "run_passes example_env ?src example_analysis example_options ''a.bin'' ?agg = Returned (Inr (agg, po))"
    unfolding run_passes_def example_select by (simp add: MAX_PASSES_def pe [simplified])
  then have "\<exists>out rep. recover_stream example_env [1, 2, 3] ''a.bin'' example_options = Returned (Inr (out, rep))"
    unfolding recover_stream_def Let_def an
    by (cases "po_bytes po") simp_all
  then obtain out rep where r: "recover_stream example_env [1, 2, 3] ''a.bin'' example_options = Returned (Inr (out, rep))"
    by blast
  from recover_stream_refines_gate [OF r] r show ?thesis by blast
qed

theorem cli_exit_code_truthful_witness:
  "cli_run example_env (\<lambda>_. Inl ''unreadable'') \<lparr> cli_path = ''a.bin'', cli_output = None \<rparr> = Returned (2, [])
   \<and> (\<exists>w. cli_run example_env (\<lambda>_. Inr example_analysis) \<lparr> cli_path = ''a.bin'', cli_output = None \<rparr>
        = Returned (EXIT_ISSUES, w) \<and> w = [])"
proof -
  have run: "cli_run example_env (\<lambda>_. Inr example_analysis) \<lparr> cli_path = ''a.bin'', cli_output = None \<rparr>
      = Returned (EXIT_ISSUES, [])"
    by (simp add: cli_run_def is_clean_def example_analysis_def)
  have "cli_run example_env (\<lambda>_. Inl ''unreadable'') \<lparr> cli_path = ''a.bin'', cli_output = None \<rparr>
      = Returned (2, [])"
    by (simp add: cli_run_def EXIT_FATAL_def)
  then show ?thesis using run cli_exit_code_truthful [OF run] by simp
qed

end
