(* ===== verification/Engine_Paths.thy ===== *)
theory Engine_Paths
  imports Engine
begin

text \<open>
  The output path of a recovery never names the source: its last component is the source's file
  name with \<open>.recovered\<close> appended.
\<close>

section \<open>Lossy decoding\<close>

lemma utf8_step_bad_length: "utf8_step bs = (False, n) \<Longrightarrow> n \<le> 3"
  by (auto simp: utf8_step_def Let_def split: if_splits)

lemma from_utf8_lossy_length: "length bs \<le> length (from_utf8_lossy bs)"
proof (induction bs rule: from_utf8_lossy.induct)
  case (1 bs)
  show ?case
  proof (cases "bs = []")
    case False
    obtain ok n where st: "utf8_step bs = (ok, n)" by (cases "utf8_step bs")
    have "length (drop n bs) \<le> length (from_utf8_lossy (drop n bs))"
      using 1 [OF False st [symmetric]] .
    moreover have "\<not> ok \<Longrightarrow> n \<le> 3" using utf8_step_bad_length st by (cases ok) auto
    moreover have "length utf8_replacement = 3" by (simp add: utf8_replacement_def)
    ultimately show ?thesis
      using False st by (cases ok) (simp_all add: from_utf8_lossy.simps [of bs])
  qed simp
qed

lemma from_utf8_lossy_set:
  "set (from_utf8_lossy bs) \<subseteq> char_of_byte ` set bs \<union> set utf8_replacement"
proof (induction bs rule: from_utf8_lossy.induct)
  case (1 bs)
  show ?case
  proof (cases "bs = []")
    case False
    obtain ok n where st: "utf8_step bs = (ok, n)" by (cases "utf8_step bs")
    have ih: "set (from_utf8_lossy (drop n bs)) \<subseteq> char_of_byte ` set (drop n bs) \<union> set utf8_replacement"
      using 1 [OF False st [symmetric]] .
    have "char_of_byte ` set (drop n bs) \<subseteq> char_of_byte ` set bs"
      "char_of_byte ` set (take n bs) \<subseteq> char_of_byte ` set bs"
      by (rule image_mono, rule set_drop_subset, rule image_mono, rule set_take_subset)
    with ih show ?thesis
      using False st by (cases ok) (auto simp: from_utf8_lossy.simps [of bs])
  qed simp
qed

lemma lossy_no_slash: "CHR ''/'' \<notin> set s \<Longrightarrow> CHR ''/'' \<notin> set (from_utf8_lossy (str_bytes s))"
proof -
  assume a: "CHR ''/'' \<notin> set s"
  have "set s = char_of_byte ` set (str_bytes s)"
    by (metis map_char_str_bytes set_map)
  moreover have "CHR ''/'' \<notin> set utf8_replacement"
    by code_simp
  ultimately show ?thesis using a from_utf8_lossy_set [of "str_bytes s"] by blast
qed

section \<open>Components\<close>

lemma path_join_last:
  assumes "CHR ''/'' \<notin> set nm" "nm \<noteq> []" "nm \<noteq> ''.''"
  shows "path_components (path_join dir nm) \<noteq> [] \<and> last (path_components (path_join dir nm)) = nm"
proof -
  have nm: "take 1 nm \<noteq> ''/''" using assms(1) by (cases nm) auto
  note plain = split_slash_plain [OF assms(1)]
  have "\<exists>ps. split_slash (path_join dir nm) = ps @ [nm]"
  proof (cases "dir = [] \<or> last dir = CHR ''/''")
    case True
    then show ?thesis
    proof
      assume "dir = []"
      then show ?thesis using nm plain by (simp add: path_join_def)
    next
      assume l: "last dir = CHR ''/''"
      show ?thesis
      proof (cases "dir = []")
        case False
        then obtain d where "dir = d @ [CHR ''/'']" using l by (metis append_butlast_last_id)
        then show ?thesis using nm plain by (simp add: path_join_def split_slash_append)
      qed (use nm plain in \<open>simp add: path_join_def\<close>)
    qed
  next
    case False
    then show ?thesis using nm plain by (simp add: path_join_def split_slash_append)
  qed
  then show ?thesis using assms(2,3) by (auto simp: path_components_def Let_def)
qed

lemma rev_unfold_last: "xs \<noteq> [] \<Longrightarrow> rev xs = last xs # rev (butlast xs)"
  by (induction xs rule: rev_induct) simp_all

lemma file_name_Some:
  assumes "file_name p = Some n"
  shows "CHR ''/'' \<notin> set n \<and> path_components p \<noteq> [] \<and> last (path_components p) = n"
proof -
  obtain cs where r: "rev (path_components p) = n # cs" and n: "n \<noteq> ''/''" "n \<noteq> ''.''" "n \<noteq> ''..''"
    using assms by (auto simp: file_name_def split: list.splits if_splits)
  then have "path_components p = rev cs @ [n]" by (metis rev.simps(2) rev_rev_ident)
  then have "n \<in> set (path_components p)" "path_components p \<noteq> []" "last (path_components p) = n" by simp_all
  moreover from this(1) n have "n \<in> set (split_slash p)"
    by (auto simp: path_components_def Let_def split: if_splits)
  ultimately show ?thesis using split_slash_pieces by blast
qed

lemma file_name_None:
  assumes "file_name p = None" "path_components p \<noteq> []"
  shows "last (path_components p) \<in> {''/'', ''.'', ''..''}"
proof -
  obtain c cs where r: "rev (path_components p) = c # cs" using assms(2) by (cases "rev (path_components p)") auto
  have "c \<in> {''/'', ''.'', ''..''}"
    using assms(1) unfolding file_name_def r by (simp split: if_splits)
  moreover have "c = last (path_components p)" using hd_rev [of "path_components p"] unfolding r by simp
  ultimately show ?thesis by simp
qed

text \<open>
  The output path is never the source path: for every source path and every output directory the
  output path's last component is the decoded source file name (or \<open>output\<close>) followed by
  \<open>.recovered\<close>, which differs from the last component of the source; so the engine can only
  refuse a recovery as overwriting its source when the file system itself identifies the
  two paths.
\<close>

theorem output_path_never_source:
  "\<not> path_eq p (output_path_for p options)
   \<and> file_name (output_path_for p options)
       = Some ((case file_name p of Some n \<Rightarrow> from_utf8_lossy (str_bytes n) | None \<Rightarrow> ''output'') @ ''.recovered'')"
proof -
  let ?stem = "case file_name p of Some n \<Rightarrow> from_utf8_lossy (str_bytes n) | None \<Rightarrow> ''output''"
  let ?nm = "?stem @ ''.recovered''"
  have out: "output_path_for p options = path_join (output_dir options) ?nm"
    by (simp add: output_path_for_def Let_def)
  have "CHR ''/'' \<notin> set ?stem"
    using file_name_Some [of p] lossy_no_slash by (cases "file_name p") auto
  then have slash: "CHR ''/'' \<notin> set ?nm" by simp
  have len: "10 \<le> length ?nm" by simp
  have special: "?nm \<noteq> []" "?nm \<noteq> ''.''" "?nm \<noteq> ''/''" "?nm \<noteq> ''..''" using len by auto
  note last = path_join_last [OF slash special(1,2), of "output_dir options"]
  have "file_name (output_path_for p options) = Some ?nm"
  proof -
    let ?ps = "path_components (path_join (output_dir options) ?nm)"
    have "rev ?ps = ?nm # rev (butlast ?ps)"
      using rev_unfold_last [OF conjunct1 [OF last]] unfolding conjunct2 [OF last] .
    then show ?thesis unfolding out file_name_def using special(2-4) by (simp only: list.case) simp
  qed
  moreover have "\<not> path_eq p (output_path_for p options)"
  proof
    assume "path_eq p (output_path_for p options)"
    then have same: "path_components p \<noteq> []" "last (path_components p) = ?nm"
      using last unfolding out path_eq_def by simp_all
    show False
    proof (cases "file_name p")
      case None
      then show ?thesis using file_name_None [OF None same(1)] same(2) by simp
    next
      case (Some n)
      then have "n = from_utf8_lossy (str_bytes n) @ ''.recovered''"
        using file_name_Some [OF Some] same(2) by simp
      from arg_cong [OF this, of length] show False
        using from_utf8_lossy_length [of "str_bytes n"] by simp
    qed
  qed
  ultimately show ?thesis by simp
qed

end
