(* ===== verification/Opc_Intact.thy ===== *)
theory Opc_Intact
  imports Opc_Zip Zip_Repair
begin

unbundle bit_operations_syntax

text \<open>
  The ZIP reader on archives that are in order: the directory is found as declared, walked,
  confirmed against the local headers and accepted without a scan, and every entry's bytes
  are where the entry says. Together with the rebuild strategy this closes the loop: what the
  tool rebuilds, its reader reads.
\<close>

section \<open>Walking a written directory\<close>

text \<open>The entry that the reader makes of a directory record.\<close>

definition entry_of :: "LocalHeader \<Rightarrow> ZipEntry" where
  "entry_of h =
     \<lparr> en_name = from_utf8_lossy (lh_name h), name_valid_utf8 = utf8_valid (lh_name h),
       en_method = lh_method h, en_crc32 = lh_crc32 h, en_comp_size = comp_size h,
       en_uncomp_size = uncomp_size h, local_header_offset = lfh_offset h, en_flags = lh_flags h,
       en_zip64 = is_zip64 (comp_size32 h) (uncomp_size32 h) (of_nat (lfh_offset h)),
       from_central_dir = True \<rparr>"

definition header_fits :: "LocalHeader \<Rightarrow> bool" where
  "header_fits h \<longleftrightarrow> length (lh_name h) < 2 ^ 16 \<and> lfh_offset h < 2 ^ 32
     \<and> comp_size h < 2 ^ 32 \<and> uncomp_size h < 2 ^ 32"

lemma cd_record_entry:
  assumes "header_fits h"
  shows "u32_at (cd_record h @ r) 0 = Zip_Policy.CDFH_SIG" "u16_at (cd_record h @ r) 8 = lh_flags h"
    "u16_at (cd_record h @ r) 10 = lh_method h" "u32_at (cd_record h @ r) 16 = lh_crc32 h"
    "u32_at (cd_record h @ r) 20 = comp_size32 h" "u32_at (cd_record h @ r) 24 = uncomp_size32 h"
    "unat (u16_at (cd_record h @ r) 28) = length (lh_name h)"
    "unat (u16_at (cd_record h @ r) 30) = 0" "unat (u16_at (cd_record h @ r) 32) = 0"
    "u32_at (cd_record h @ r) 42 = of_nat (lfh_offset h)"
    "cut (cd_record h @ r) 46 (46 + length (lh_name h)) = lh_name h"
proof -
  have "length (lh_name h) < 2 ^ 16" using assms by (simp add: header_fits_def)
  note nl = unat_of_nat_len(2) [OF this]
  show "u32_at (cd_record h @ r) 0 = Zip_Policy.CDFH_SIG"
    by (simp add: cd_record_def word_at_skip Zip_Rebuild.CDFH_SIG_def Zip_Policy.CDFH_SIG_def)
  show "u16_at (cd_record h @ r) 8 = lh_flags h" "u16_at (cd_record h @ r) 10 = lh_method h"
    "u32_at (cd_record h @ r) 16 = lh_crc32 h" "u32_at (cd_record h @ r) 20 = comp_size32 h"
    "u32_at (cd_record h @ r) 24 = uncomp_size32 h" "u32_at (cd_record h @ r) 42 = of_nat (lfh_offset h)"
    by (simp_all add: cd_record_def word_at_skip)
  show "unat (u16_at (cd_record h @ r) 28) = length (lh_name h)"
    "unat (u16_at (cd_record h @ r) 30) = 0" "unat (u16_at (cd_record h @ r) 32) = 0"
    using nl by (simp_all add: cd_record_def word_at_skip)
  show "cut (cd_record h @ r) 46 (46 + length (lh_name h)) = lh_name h"
    by (simp add: cd_record_def cut_append_right cut_0)
qed

lemma central_entry_at_record:
  assumes cd: "cd = pre @ cd_record h @ r" and fits: "header_fits h"
    and policy: "max_name_bytes policy = 65535"
  shows "central_entry_at cd policy (length pre)
    = Some (entry_of h, length (pre @ cd_record h), length (lh_name h))"
proof -
  note f = cd_record_entry [OF fits]
  have at: "u16_at cd (length pre + k) = u16_at (cd_record h @ r) k"
    "u32_at cd (length pre + k) = u32_at (cd_record h @ r) k" for k
    unfolding cd by (simp_all add: word_at_append)
  have nm: "cut cd (length pre + 46) (length pre + 46 + length (lh_name h)) = lh_name h"
    unfolding cd using f(11) by (simp add: cut_append_right add.assoc)
  have len: "length cd = length pre + 46 + length (lh_name h) + length r" using cd by simp
  have sizes: "unat (comp_size32 h) = comp_size h" "unat (uncomp_size32 h) = uncomp_size h"
    "unat (of_nat (lfh_offset h) :: u32) = lfh_offset h"
    using fits unat_of_nat_len(1) by (auto simp: header_fits_def comp_size32_def uncomp_size32_def)
  have "\<not> 65535 < length (lh_name h)" using fits by (simp add: header_fits_def)
  moreover have "get_range cd (length pre + 46) (length pre + 46 + length (lh_name h)) = Some (lh_name h)"
    using nm len by (simp add: get_range_def)
  moreover have "extra_has_zip64 (get_range cd q (q + 0)) = False" for q
    by (auto simp: extra_has_zip64_def get_range_def zip64_field_from.simps)
  ultimately show ?thesis
    unfolding central_entry_at_def Let_def at f sizes policy
    using len by (simp add: entry_of_def entry_name_def entry_name_valid_def)
qed

lemma central_from_records:
  assumes "cd = pre @ concat (map cd_record hs)" "list_all header_fits hs"
    "max_name_bytes policy = 65535" "length cd \<le> max_central_bytes policy"
    "length acc + length hs < max_central_records policy"
    "meta + length (concat (map cd_record hs)) \<le> max_metadata_bytes policy"
  shows "central_from cd policy (length pre) meta acc = (acc @ map entry_of hs, None)"
  using assms
proof (induction hs arbitrary: pre meta acc)
  case Nil
  then show ?case by (subst central_from.simps) simp
next
  case (Cons h hs)
  let ?r = "concat (map cd_record hs)"
  have cd: "cd = pre @ cd_record h @ ?r" using Cons.prems(1) by simp
  have fits: "header_fits h" using Cons.prems(2) by simp
  have "u32_at cd (length pre) = u32_at (cd_record h @ ?r) 0"
    unfolding cd using word_at_append(2) [of pre "cd_record h @ ?r" 0] by simp
  then have sig: "u32le cd (length pre) = Some Zip_Policy.CDFH_SIG"
    using cd cd_record_entry(1) [OF fits] by (simp add: u32le_def)
  have ih: "central_from cd policy (length (pre @ cd_record h)) (meta + length (lh_name h)) (acc @ [entry_of h])
      = ((acc @ [entry_of h]) @ map entry_of hs, None)"
    using Cons.prems cd by (intro Cons.IH) auto
  show ?case
    using Cons.prems(4-6) cd sig ih central_entry_at_record [OF cd fits Cons.prems(3)]
    by (subst central_from.simps) auto
qed

section \<open>The members where the directory says\<close>

lemma headers_members:
  assumes "body = pre0 @ concat (map zip_local es)"
  shows "list_all2 (\<lambda>h e. \<exists>pre r. body = pre @ zip_local e @ r \<and> h = header_of (length pre) e)
    (headers_of (length pre0) es) es"
  using assms
proof (induction es arbitrary: pre0)
  case (Cons e es)
  have "list_all2 (\<lambda>h e. \<exists>pre r. body = pre @ zip_local e @ r \<and> h = header_of (length pre) e)
      (headers_of (length (pre0 @ zip_local e)) es) es"
    using Cons.prems by (intro Cons.IH) simp
  moreover have "body = pre0 @ zip_local e @ concat (map zip_local es)" using Cons.prems by simp
  ultimately show ?case by auto
qed simp

text \<open>
  A member lies where its directory record says when the local header there carries the same
  name and the packed bytes behind it are inside the file.
\<close>

definition local_reads :: "bytes \<Rightarrow> LocalHeader \<Rightarrow> nat \<Rightarrow> bool" where
  "local_reads d h el \<longleftrightarrow>
     u32_at d (lfh_offset h) = Zip_Rebuild.LFH_SIG
     \<and> unat (u16_at d (lfh_offset h + 26)) = length (lh_name h) \<and> unat (u16_at d (lfh_offset h + 28)) = el
     \<and> cut d (lfh_offset h + 30) (lfh_offset h + 30 + length (lh_name h)) = lh_name h
     \<and> data_offset h = lfh_offset h + 30 + length (lh_name h) + el
     \<and> header_end h \<le> length d \<and> length d < 2 ^ 64 \<and> utf8_valid (lh_name h)"

definition member_at :: "bytes \<Rightarrow> LocalHeader \<Rightarrow> bytes \<Rightarrow> bool" where
  "member_at d h p \<longleftrightarrow> header_fits h
     \<and> local_header_present d (lfh_offset h)
     \<and> entry_header_at d (lfh_offset h) (str_bytes (en_name (entry_of h)))
     \<and> payload_range d (entry_of h) = Some (lfh_offset h, header_end h)
     \<and> packed_bytes d (entry_of h) = Some p"

lemma member_in_place:
  assumes "local_reads d h el" and fits: "header_fits h"
  shows "member_at d h (cut d (data_offset h) (header_end h))"
proof -
  note r = assms(1) [unfolded local_reads_def]
  have he: "header_end h = data_offset h + comp_size h" by (simp add: header_end_def)
  have ld: "lfh_offset h + 30 + length (lh_name h) + el + comp_size h \<le> length d" "length d < 2 ^ 64"
    using r he by simp_all
  have sig: "u32le d (lfh_offset h) = Some Zip_Policy.LFH_SIG"
    using r ld by (simp add: u32le_def Zip_Rebuild.LFH_SIG_def Zip_Policy.LFH_SIG_def)
  have present: "local_header_present d (lfh_offset h)"
    using sig ld by (simp add: local_header_present_def checked_add_def)
  have name: "str_bytes (en_name (entry_of h)) = lh_name h"
    using r by (simp add: entry_of_def from_utf8_lossy_valid str_bytes_def comp_def)
  have "entry_header_at d (lfh_offset h) (str_bytes (en_name (entry_of h)))"
    unfolding name entry_header_at_def using present r ld by (simp add: u16le_def get_range_def)
  moreover have "payload_range d (entry_of h) = Some (lfh_offset h, header_end h)"
    using ld r he unfolding payload_range_def range_start_def by (simp add: entry_of_def checked_add_def)
  moreover have "packed_bytes d (entry_of h) = Some (cut d (data_offset h) (header_end h))"
    using sig ld r he unfolding packed_bytes_def
    by (simp add: entry_of_def checked_add_def u16le_def get_range_def Let_def)
  ultimately show ?thesis using present fits by (simp add: member_at_def)
qed

lemma entry_in_place:
  assumes d: "d = pre @ zip_local e @ r" and ok: "zip_entry_ok e" and len: "length d < 2 ^ 64"
    and valid: "utf8_valid (ze_name e)" and off: "length pre < 2 ^ 32"
  shows "member_at d (header_of (length pre) e) (ze_payload e)"
proof -
  let ?h = "header_of (length pre) e"
  note f = zip_local_fields [OF ok]
  have at: "u16_at d (length pre + k) = u16_at (zip_local e @ r) k"
    "u32_at d (length pre + k) = u32_at (zip_local e @ r) k" for k
    unfolding d by (simp_all add: word_at_append)
  have ld: "length d = length pre + length (zip_local e) + length r" using d by simp
  have at0: "u32_at d (length pre) = Zip_Rebuild.LFH_SIG" using at(2) [of 0] f(1) by simp
  have nm: "cut d (length pre + 30) (length pre + 30 + length (ze_name e)) = ze_name e"
    unfolding d using f(12) by (simp add: cut_append_right add.assoc)
  have "header_end ?h \<le> length d" using ld by (simp only: header_end_header_of)
  then have reads: "local_reads d ?h (length (ze_extra e))"
    using at0 nm at(1) f(10,11) len valid
    unfolding local_reads_def by (simp add: header_of_def)
  have "header_fits ?h"
    using ok off unsigned_less [of "ze_usize e"] by (simp add: header_fits_def zip_entry_ok_def header_of_def)
  from member_in_place [OF reads this]
  have "member_at d ?h (cut d (data_offset ?h) (header_end ?h))" .
  moreover have "cut (zip_local e @ r) (30 + length (ze_name e) + length (ze_extra e)) (length (zip_local e)) = ze_payload e"
    by (simp add: zip_local_def cut_append_right cut_0)
  then have "cut d (length pre + 30 + length (ze_name e) + length (ze_extra e)) (length pre + length (zip_local e)) = ze_payload e"
    unfolding d by (simp add: cut_append_right add.assoc)
  then have "cut d (data_offset ?h) (header_end ?h) = ze_payload e"
    unfolding header_end_header_of by (simp add: header_of_def)
  ultimately show ?thesis by simp
qed

lemma gap_scan_tiled:
  "gap_scan (map (\<lambda>h. (lfh_offset h, header_end h)) (headers_of off es)) off
     = (False, off + length (concat (map zip_local es)))"
  by (induction es arbitrary: off) (simp_all add: add.assoc)

lemma headers_of_sorted:
  "sorted (map lfh_offset (headers_of off es)) \<and> sorted (map header_end (headers_of off es))
   \<and> list_all (\<lambda>h. off \<le> lfh_offset h \<and> off \<le> header_end h) (headers_of off es)"
proof (induction es arbitrary: off)
  case (Cons e es)
  note ih = Cons.IH [of "off + length (zip_local e)"]
  then have "list_all (\<lambda>h. off + length (zip_local e) \<le> lfh_offset h \<and> off + length (zip_local e) \<le> header_end h)
      (headers_of (off + length (zip_local e)) es)" by blast
  then show ?case using ih by (fastforce simp: list_all_iff)
qed simp

section \<open>Intact archives\<close>

text \<open>
  An archive in order: sizes fit their fields, names are non-empty text, the directory is below
  the bounds of the default policy and does not lie inside an embedded archive.
\<close>

definition intact_archive :: "zip_entry list \<Rightarrow> bool" where
  "intact_archive es \<longleftrightarrow>
     es \<noteq> [] \<and> list_all (\<lambda>e. zip_entry_ok e \<and> utf8_valid (ze_name e)) es \<and> length es < 2 ^ 16
     \<and> length (concat (map zip_local es)) < 2 ^ 32
     \<and> length (concat (map cd_record (headers_of 0 es))) \<le> 2 ^ 26
     \<and> owner_of (detect (rebuilt_archive es) policy_default) (length (concat (map zip_local es))) = None"

lemma opc_find_eocd_last: "opc_find_eocd (x @ eocd_record n a b) = Some (length x)"
proof -
  let ?d = "x @ eocd_record n a b"
  have "[length ?d - (22 + 65535)..<length ?d - 22 + 1] = [length ?d - (22 + 65535)..<length x] @ [length x]"
    by simp
  moreover have "u32_at ?d (length x) = u32_at (eocd_record n a b) 0"
    using word_at_append(2) [of x "eocd_record n a b" 0] by simp
  then have "u32le ?d (length x) = Some Zip_Policy.EOCD_SIG"
    by (simp add: u32le_def eocd_record_def word_at_skip Zip_Policy.EOCD_SIG_def Zip_Rebuild.EOCD_SIG_def)
  ultimately show ?thesis unfolding opc_find_eocd_def by simp
qed

lemma eocd_fields:
  assumes "n < 2 ^ 16" "a < 2 ^ 32" "b < 2 ^ 32"
  shows "unat (u16_at (eocd_record n a b) 10) = n" "unat (u32_at (eocd_record n a b) 12) = a"
    "unat (u32_at (eocd_record n a b) 16) = b"
  using unat_of_nat_len(2) [OF assms(1)] unat_of_nat_len(1) [OF assms(2)] unat_of_nat_len(1) [OF assms(3)]
  by (simp_all add: eocd_record_def word_at_skip)

lemma repoint_in_place:
  assumes "list_all (\<lambda>e. entry_header_at d (local_header_offset e) (str_bytes (en_name e))) es"
  shows "map fst (map (repoint d idx m) es) = es" "filter snd (map (repoint d idx m) es) = []"
proof -
  have "repoint d idx m e = (e, False)" if "e \<in> set es" for e
    using assms that by (simp add: list_all_iff repoint_def)
  then show "map fst (map (repoint d idx m) es) = es" "filter snd (map (repoint d idx m) es) = []"
    by (auto simp: filter_empty_conv intro!: map_idI)
qed

lemma reconcile_in_place:
  assumes "list_all (\<lambda>e. entry_header_at d (local_header_offset e) (str_bytes (en_name e))) (zp_entries out)"
  shows "zp_entries (reconcile_offsets d policy out) = zp_entries out"
    "zp_warnings (reconcile_offsets d policy out) = zp_warnings out"
    "zp_cd_found (reconcile_offsets d policy out) = zp_cd_found out"
    "used_local_scan (reconcile_offsets d policy out) = used_local_scan out"
    "zp_recovered_by_scan (reconcile_offsets d policy out) = zp_recovered_by_scan out"
  using repoint_in_place [OF assms]
  by (simp_all add: reconcile_offsets_def Let_def split: prod.splits)

lemma list_all2_firstD: "list_all2 P xs ys \<Longrightarrow> (\<And>x y. P x y \<Longrightarrow> Q x) \<Longrightarrow> list_all Q xs"
  by (induction rule: list_all2_induct) auto

lemma list_all2_maps: "list_all2 P xs ys \<Longrightarrow> (\<And>x y. P x y \<Longrightarrow> f x = g y) \<Longrightarrow> map f xs = map g ys"
  by (induction rule: list_all2_induct) auto

lemma local_header_offset_entry_of [simp]: "local_header_offset (entry_of h) = lfh_offset h"
  by (simp add: entry_of_def)

lemma map_filter_total:
  "list_all (\<lambda>x. f (k x) = Some (g x)) xs \<Longrightarrow> List.map_filter f (map k xs) = map g xs"
  by (induction xs) (simp_all add: List.map_filter_simps)

section \<open>Reading a laid out archive\<close>

text \<open>
  Any body of members followed by directory records for \<open>hs\<close> and an end record. It is in order
  when every record points at its member, the members leave no room for a hidden header and
  the directory is below the bounds of the default policy and outside every embedded archive.
\<close>

definition laid_out :: "bytes \<Rightarrow> LocalHeader list \<Rightarrow> bytes" where
  "laid_out body hs =
     (let cd = concat (map cd_record hs) in body @ cd @ eocd_record (length hs) (length cd) (length body))"

definition members_tiled :: "nat \<Rightarrow> LocalHeader list \<Rightarrow> bool" where
  "members_tiled n hs \<longleftrightarrow>
     (case gap_scan (sort_ranges (map (\<lambda>h. (lfh_offset h, header_end h)) hs)) 0 of
        (gap, cursor) \<Rightarrow> \<not> gap \<and> n - cursor < 30)"

definition in_order :: "bytes \<Rightarrow> LocalHeader list \<Rightarrow> bytes list \<Rightarrow> bool" where
  "in_order body hs ps \<longleftrightarrow>
     hs \<noteq> [] \<and> length hs < 2 ^ 16 \<and> length body < 2 ^ 32 \<and> length (concat (map cd_record hs)) \<le> 2 ^ 26
     \<and> owner_of (detect (laid_out body hs) policy_default) (length body) = None
     \<and> list_all2 (member_at (laid_out body hs)) hs ps \<and> members_tiled (length body) hs"

lemma in_order_members:
  assumes "in_order body hs ps"
  shows "list_all2 (\<lambda>h p. header_fits h
      \<and> local_header_present (laid_out body hs) (lfh_offset h)
      \<and> entry_header_at (laid_out body hs) (lfh_offset h) (str_bytes (en_name (entry_of h)))
      \<and> payload_range (laid_out body hs) (entry_of h) = Some (lfh_offset h, header_end h)
      \<and> packed_bytes (laid_out body hs) (entry_of h) = Some p) hs ps"
  using assms by (auto simp: in_order_def member_at_def elim!: list_all2_mono)

lemma in_order_no_gap:
  assumes "in_order body hs ps"
  shows "\<not> unaccounted_gap (laid_out body hs) (Some (length body)) (map entry_of hs)"
proof -
  have "list_all (\<lambda>h. payload_range (laid_out body hs) (entry_of h) = Some (lfh_offset h, header_end h)) hs"
    using in_order_members [OF assms] by (rule list_all2_firstD) simp
  then have ranges: "List.map_filter (payload_range (laid_out body hs)) (map entry_of hs)
      = map (\<lambda>h. (lfh_offset h, header_end h)) hs"
    by (rule map_filter_total)
  then show ?thesis
    using assms by (auto simp: unaccounted_gap_def in_order_def members_tiled_def)
qed

text \<open>The declared directory of an archive in order.\<close>

lemma parse_declared_in_order:
  assumes order: "in_order body hs ps" and out: "zp_warnings out = []"
  shows "parse_declared (laid_out body hs) policy_default (detect (laid_out body hs) policy_default) out
    = (out\<lparr> eocd_found := True, zp_cd_found := True, zp_entries := map entry_of hs \<rparr>,
       Some (length hs), Some (length body))"
proof -
  let ?cd = "concat (map cd_record hs)"
  let ?e = "eocd_record (length hs) (length ?cd) (length body)"
  define d where "d = laid_out body hs"
  have d: "d = (body @ ?cd) @ ?e" "d = body @ ?cd @ ?e" by (simp_all add: d_def laid_out_def Let_def)
  have bounds: "length hs < 2 ^ 16" "length ?cd < 2 ^ 32" "length body < 2 ^ 32" "length ?cd \<le> 2 ^ 26" "hs \<noteq> []"
    and owner: "owner_of (detect d policy_default) (length body) = None"
    using order by (auto simp: in_order_def d_def)
  have find: "opc_find_eocd d = Some (length (body @ ?cd))" unfolding d(1) by (rule opc_find_eocd_last)
  have ld: "length d = length body + length ?cd + 22" using d(1) by simp
  note f = eocd_fields [OF bounds(1-3)]
  have at: "u16_at d (length (body @ ?cd) + k) = u16_at ?e k" "u32_at d (length (body @ ?cd) + k) = u32_at ?e k" for k
    unfolding d(1) by (rule word_at_append)+
  have reads: "u32le d (length (body @ ?cd) + 12) = Some (u32_at ?e 12)"
    "u32le d (length (body @ ?cd) + 16) = Some (u32_at ?e 16)" "u16le d (length (body @ ?cd) + 10) = Some (u16_at ?e 10)"
    using at ld by (simp_all add: u32le_def u16le_def)
  have fits: "list_all header_fits hs"
    using in_order_members [OF order] by (rule list_all2_firstD) simp
  obtain h hs' where hs: "hs = h # hs'" using bounds(5) by (cases hs) simp_all
  have "u32_at d (length body) = u32_at (?cd @ ?e) 0"
    unfolding d(2) using word_at_append(2) [of body "?cd @ ?e" 0] by simp
  also have "\<dots> = Zip_Policy.CDFH_SIG" using cd_record_entry(1) [of h] fits hs by simp
  finally have sig: "u32le d (length body) = Some Zip_Policy.CDFH_SIG" using ld by (simp add: u32le_def)
  have cdlen: "0 < length ?cd" using hs by simp
  have cut: "cut d (length body) (length body + length ?cd) = ?cd"
    unfolding d(2) by (rule cut_append_mid) simp_all
  have walk: "central_from ?cd policy_default 0 0 [] = (map entry_of hs, None)"
    using central_from_records [of ?cd "[]" hs policy_default "[]" 0] fits bounds
    by (simp add: policy_default_def)
  have start: "directory_start d (detect d policy_default) (length (body @ ?cd)) (length ?cd) (length body) out'
      = (length body, out')" for out'
    using sig owner ld by (simp add: directory_start_def)
  have "parse_declared d policy_default (detect d policy_default) out
    = (out\<lparr> eocd_found := True, zp_cd_found := True, zp_entries := map entry_of hs \<rparr>,
       Some (length hs), Some (length body))"
    unfolding parse_declared_def find option.case Let_def reads prod.case f start
    using ld cdlen walk cut hs by (simp add: parse_central_directory_bounded_def zp_limit_def min_absorb1)
  then show ?thesis by (simp add: d_def)
qed

lemma parse_in_order:
  assumes "in_order body hs ps"
  shows "zp_entries (parse_zip (laid_out body hs)) = map entry_of hs
    \<and> map (packed_bytes (laid_out body hs)) (zp_entries (parse_zip (laid_out body hs))) = map Some ps
    \<and> zp_cd_found (parse_zip (laid_out body hs)) \<and> zp_count_consistent (parse_zip (laid_out body hs))
    \<and> \<not> used_local_scan (parse_zip (laid_out body hs)) \<and> \<not> zp_recovered_by_scan (parse_zip (laid_out body hs))
    \<and> zp_warnings (parse_zip (laid_out body hs)) = []"
proof -
  define d where "d = laid_out body hs"
  define start where "start = zip_parse_default\<lparr> nested_containers := length (detect d policy_default) \<rparr>"
  define out where "out = start\<lparr> eocd_found := True, zp_cd_found := True, zp_entries := map entry_of hs \<rparr>"
  define rec where "rec = reconcile_offsets d policy_default out"
  have ne: "map entry_of hs \<noteq> []" using assms by (simp add: in_order_def)
  have decl: "parse_declared d policy_default (detect d policy_default) start
      = (out, Some (length hs), Some (length body))"
    unfolding d_def out_def by (rule parse_declared_in_order [OF assms]) (simp add: start_def zip_parse_default_def)
  have "list_all (\<lambda>e. entry_header_at d (local_header_offset e) (str_bytes (en_name e))) (zp_entries out)"
    using in_order_members [OF assms] unfolding d_def
    by (simp add: out_def list.pred_map comp_def) (rule list_all2_firstD, assumption, simp)
  from reconcile_in_place [OF this, of policy_default]
  have rec: "zp_entries rec = map entry_of hs" "zp_warnings rec = []" "zp_cd_found rec"
    "\<not> used_local_scan rec" "\<not> zp_recovered_by_scan rec"
    by (simp_all add: rec_def out_def start_def zip_parse_default_def)
  have "list_all (\<lambda>e. local_header_present d (local_header_offset e)) (map entry_of hs)"
    using in_order_members [OF assms] unfolding d_def list.pred_map comp_def by (rule list_all2_firstD) simp
  then have complete: "directory_complete d (Some (length hs)) (Some (length body)) rec"
    using rec ne in_order_no_gap [OF assms] by (simp add: directory_complete_def d_def)
  have "zp_entries out \<noteq> []" using ne by (simp add: out_def)
  then have "parse_zip d = rec\<lparr> cd_declared_count := Some (length hs), zp_count_consistent := True \<rparr>"
    unfolding parse_zip_def parse_zip_with_policy_def Let_def start_def [symmetric] decl prod.case
    using rec ne complete by (simp add: rec_def [symmetric])
  moreover have "map (packed_bytes d) (map entry_of hs) = map Some ps"
    using in_order_members [OF assms] unfolding d_def list.map_comp by (rule list_all2_maps) simp
  ultimately show ?thesis using rec by (simp add: d_def)
qed

section \<open>Intact archives in order\<close>

lemma rebuilt_laid_out: "rebuilt_archive es = laid_out (concat (map zip_local es)) (headers_of 0 es)"
  by (simp add: rebuilt_archive_def laid_out_def Let_def)

text \<open>What an intact archive's entries are, member by member.\<close>

lemma intact_members:
  assumes "intact_archive es"
  shows "list_all2 (\<lambda>h e. member_at (rebuilt_archive es) h (ze_payload e)) (headers_of 0 es) es"
proof -
  let ?d = "rebuilt_archive es" and ?body = "concat (map zip_local es)"
  have len: "length ?d < 2 ^ 64"
    using assms by (simp add: intact_archive_def rebuilt_archive_def Let_def)
  have "list_all2 (\<lambda>h e. \<exists>pre r. ?body = pre @ zip_local e @ r \<and> h = header_of (length pre) e)
      (headers_of 0 es) es" using headers_members [of ?body "[]" es] by simp
  then show ?thesis
  proof (rule list.rel_mono_strong)
    fix h e
    assume mem: "e \<in> set es"
      and "\<exists>pre r. ?body = pre @ zip_local e @ r \<and> h = header_of (length pre) e"
    then obtain pre r where e: "?body = pre @ zip_local e @ r" and h: "h = header_of (length pre) e" by blast
    have ok: "zip_entry_ok e" "utf8_valid (ze_name e)"
      using assms mem by (auto simp: intact_archive_def list_all_iff)
    have d: "?d = pre @ zip_local e @ (r @ directory_bytes es)" using e by (simp add: rebuilt_split)
    have "length pre < 2 ^ 32" using arg_cong [OF e, of length] assms by (simp add: intact_archive_def)
    then show "member_at ?d h (ze_payload e)" unfolding h by (rule entry_in_place [OF d ok(1) len ok(2)])
  qed
qed

lemma intact_in_order:
  assumes "intact_archive es"
  shows "in_order (concat (map zip_local es)) (headers_of 0 es) (map ze_payload es)"
proof -
  have "sort_ranges (map (\<lambda>h. (lfh_offset h, header_end h)) (headers_of 0 es))
      = map (\<lambda>h. (lfh_offset h, header_end h)) (headers_of 0 es)"
    using headers_of_sorted [of 0 es] by (simp add: sort_ranges_def sort_key_id_if_sorted comp_def)
  then have "members_tiled (length (concat (map zip_local es))) (headers_of 0 es)"
    using gap_scan_tiled [of 0 es] by (simp add: members_tiled_def)
  moreover have "list_all2 (member_at (laid_out (concat (map zip_local es)) (headers_of 0 es)))
      (headers_of 0 es) (map ze_payload es)"
    using intact_members [OF assms] by (simp add: rebuilt_laid_out list_all2_conv_all_nth)
  moreover have "headers_of 0 es \<noteq> []" using assms by (cases es) (simp_all add: intact_archive_def)
  ultimately show ?thesis
    using assms unfolding in_order_def rebuilt_laid_out [symmetric] by (simp add: intact_archive_def)
qed

lemma parse_intact:
  assumes "intact_archive es"
  shows "zp_entries (parse_zip (rebuilt_archive es)) = map entry_of (headers_of 0 es)
    \<and> map (packed_bytes (rebuilt_archive es)) (zp_entries (parse_zip (rebuilt_archive es)))
        = map (\<lambda>e. Some (ze_payload e)) es
    \<and> zp_cd_found (parse_zip (rebuilt_archive es)) \<and> zp_count_consistent (parse_zip (rebuilt_archive es))
    \<and> \<not> used_local_scan (parse_zip (rebuilt_archive es)) \<and> \<not> zp_recovered_by_scan (parse_zip (rebuilt_archive es))
    \<and> zp_warnings (parse_zip (rebuilt_archive es)) = []"
  using parse_in_order [OF intact_in_order [OF assms]]
  unfolding rebuilt_laid_out [symmetric] list.map_comp comp_def .

text \<open>
  C9. Intact archives are read exactly: the reader finds one entry per member, in order, with the
  member's name, method, CRC, sizes and offset, all from the directory and without any scan or
  warning, and marks the directory complete; and the bytes every entry places in the file are
  the member's stored bytes.
\<close>

theorem parse_intact_archive:
  assumes "intact_archive es"
  shows "zp_entries (parse_zip (rebuilt_archive es)) = map entry_of (headers_of 0 es)
    \<and> map (packed_bytes (rebuilt_archive es)) (zp_entries (parse_zip (rebuilt_archive es)))
        = map (\<lambda>e. Some (ze_payload e)) es
    \<and> zp_cd_found (parse_zip (rebuilt_archive es)) \<and> zp_count_consistent (parse_zip (rebuilt_archive es))
    \<and> \<not> used_local_scan (parse_zip (rebuilt_archive es)) \<and> \<not> zp_recovered_by_scan (parse_zip (rebuilt_archive es))
    \<and> zp_warnings (parse_zip (rebuilt_archive es)) = []"
  by (rule parse_intact [OF assms])

section \<open>A small archive\<close>

text \<open>Without an end record before the last 22 bytes nothing is embedded.\<close>

lemma validate_at_end:
  assumes "p + EOCD_LEN = length d"
  shows "validate_embedded d p policy = None"
proof (cases "validate_embedded d p policy")
  case (Some a)
  from validate_embedded_proven [OF this] assms show ?thesis by (simp add: proven_embedded_def)
qed

lemma eocd_magic_at:
  assumes "u32_at d p = Zip_Policy.EOCD_SIG" "p + 4 \<le> length d"
  shows "cut d p (p + 4) = EOCD_MAGIC"
proof -
  have "u32_at d p = Zip_Rebuild.EOCD_SIG"
    using assms(1) by (simp only: Zip_Policy.EOCD_SIG_def Zip_Rebuild.EOCD_SIG_def)
  then show ?thesis using u32_bytes_of_cut [OF assms(2)] magic_bytes(3) by metis
qed

lemma detect_from_none:
  assumes "list_all (\<lambda>p. u32_at d p \<noteq> Zip_Policy.EOCD_SIG) [0..<length d - EOCD_LEN]"
  shows "detect_from d policy p [] = []"
  using assms
proof (induction d policy p "[] :: EmbeddedArchive list" rule: detect_from.induct)
  case (1 d policy p)
  show ?case
  proof (cases "p + EOCD_LEN \<le> min (length d) (max_scan_bytes policy)")
    case False
    then show ?thesis by (subst detect_from.simps) (simp only: if_False)
  next
    case more: True
    show ?thesis
    proof (cases "u32le d p \<noteq> Some Zip_Policy.EOCD_SIG")
      case True
      then show ?thesis using 1(1) [OF more True 1(3)] more by (subst detect_from.simps) simp
    next
      case False
      have "p + EOCD_LEN = length d"
      proof (rule ccontr)
        assume "p + EOCD_LEN \<noteq> length d"
        then have "p \<in> set [0..<length d - EOCD_LEN]" using more by auto
        then have "u32_at d p \<noteq> Zip_Policy.EOCD_SIG" using 1(3) unfolding list_all_iff by blast
        then show False using False by (simp add: u32le_def split: if_splits)
      qed
      note none = validate_at_end [OF this, of policy]
      have "detect_from d policy (p + 1) [] = []"
        using 1(2) [OF more] False none 1(3) by (simp add: MAX_EMBEDDED_ARCHIVES_def)
      then show ?thesis using more False none
        by (subst detect_from.simps) (simp add: MAX_EMBEDDED_ARCHIVES_def)
    qed
  qed
qed

lemma detect_none:
  assumes "list_all (\<lambda>p. cut d p (p + 4) \<noteq> EOCD_MAGIC) [0..<length d - EOCD_LEN]"
  shows "detect d policy = []"
proof -
  have "list_all (\<lambda>p. u32_at d p \<noteq> Zip_Policy.EOCD_SIG) [0..<length d - EOCD_LEN]"
    using assms eocd_magic_at [of d] by (auto simp: list_all_iff EOCD_LEN_def)
  then show ?thesis by (simp add: detect_def detect_from_none)
qed

lemma local_small: "zip_local (small_entry 0) =
    [0x50, 0x4b, 3, 4, 20, 0, 0, 0, 0, 0, 0, 0, 0, 0, 0, 0, 0, 0, 0, 0, 0, 0, 0, 0, 0, 0, 1, 0, 0, 0, 97]"
proof -
  have "u16_bytes 20 = [20, 0]" "u16_bytes 0 = [0, 0]" "u16_bytes 1 = [1, 0]" "u32_bytes 0 = [0, 0, 0, 0]"
    by (simp_all add: u16_bytes_def u32_bytes_def to_le_2 to_le_4)
  then show ?thesis
    by (simp add: zip_local_def small_entry_def magic_bytes LFH_MAGIC_def)
qed

lemma rebuilt_small: "rebuilt_archive [small_entry 0] =
    [0x50, 0x4b, 3, 4, 20, 0, 0, 0, 0, 0, 0, 0, 0, 0, 0, 0, 0, 0, 0, 0, 0, 0, 0, 0, 0, 0, 1, 0, 0, 0, 97]
    @ [0x50, 0x4b, 1, 2, 20, 0, 20, 0, 0, 0, 0, 0, 0, 0, 0, 0, 0, 0, 0, 0,
       0, 0, 0, 0, 0, 0, 0, 0, 1, 0, 0, 0, 0, 0, 0, 0, 0, 0, 0, 0, 0, 0, 0, 0, 0, 0, 97]
    @ [0x50, 0x4b, 5, 6, 0, 0, 0, 0, 1, 0, 1, 0, 47, 0, 0, 0, 31, 0, 0, 0, 0, 0]"
proof -
  have "u32_bytes 0 = [0, 0, 0, 0]" by (simp add: u32_bytes_def to_le_4)
  then show ?thesis unfolding rebuilt_split directory_small by (simp add: local_small)
qed

lemma intact_small: "intact_archive [small_entry 0]"
proof -
  have "list_all (\<lambda>p. cut (rebuilt_archive [small_entry 0]) p (p + 4) \<noteq> EOCD_MAGIC)
      [0..<length (rebuilt_archive [small_entry 0]) - EOCD_LEN]"
    unfolding rebuilt_small by code_simp
  from detect_none [OF this] have "detect (rebuilt_archive [small_entry 0]) policy_default = []" .
  moreover have "utf8_valid [97]" by (rule utf8_valid_ascii) simp
  ultimately show ?thesis
    by (simp add: intact_archive_def owner_of_def zip_entry_ok_def small_entry_def header_of_def)
qed

theorem parse_intact_archive_witness:
  "map en_name (zp_entries (parse_zip (rebuilt_archive [small_entry 0]))) = [''a'']
   \<and> map (packed_bytes (rebuilt_archive [small_entry 0])) (zp_entries (parse_zip (rebuilt_archive [small_entry 0]))) = [Some []]
   \<and> \<not> used_local_scan (parse_zip (rebuilt_archive [small_entry 0]))"
proof -
  note p = parse_intact_archive [OF intact_small]
  have "from_utf8_lossy [97] = ''a''" by code_simp
  then have "map en_name (map entry_of (headers_of 0 [small_entry 0])) = [''a'']"
    by (simp add: entry_of_def header_of_def small_entry_def)
  moreover have "map (\<lambda>e. Some (ze_payload e)) [small_entry 0] = [Some []]" by (simp add: small_entry_def)
  ultimately show ?thesis
    using conjunct1 [OF p] conjunct1 [OF conjunct2 [OF p]] conjunct2 [OF conjunct2 [OF conjunct2 [OF p]]]
    by (simp only:) simp
qed

end
