(* ===== verification/Engine_Evidence.thy ===== *)
theory Engine_Evidence
  imports Engine_Safety Opc_Intact
begin

unbundle bit_operations_syntax

text \<open>
  The entry evidence of the manifest (\<open>entry_evidence_records\<close> of \<open>phx_recovery/src/engine.rs\<close>)
  over the model of the ZIP reader: which of an output's entries are included as trusted, and
  that a rebuilt directory attests nothing.
\<close>

section \<open>What a parse needs to be consistent\<close>

lemma zp_update_simps [simp]:
  "zp_count_consistent (zp_warn w out) = zp_count_consistent out"
  "zp_count_consistent (zp_limit l out) = zp_count_consistent out"
  by (simp_all add: zp_warn_def zp_limit_def split: option.split)

lemma merge_scan_consistent:
  "zp_count_consistent (merge_scan d policy containers c out) = zp_count_consistent out"
  by (simp add: merge_scan_def Let_def split: prod.split)

lemma parse_consistent_eocd:
  assumes "zp_count_consistent (parse_zip d)"
  shows "opc_find_eocd d \<noteq> None"
proof
  assume none: "opc_find_eocd d = None"
  then have "parse_declared d policy containers out = (out, None, None)" for policy containers out
    by (simp add: parse_declared_def)
  then have "\<not> zp_count_consistent (parse_zip d)"
    by (simp add: parse_zip_def parse_zip_with_policy_def Let_def merge_scan_consistent split: prod.split)
  with assms show False by simp
qed

section \<open>Trusted entries\<close>

lemma verified_iff:
  "ep_status (extract_entry dec crc d e) = VerifiedCrc
    \<longleftrightarrow> in_scope e \<and> (\<exists>packed bs. packed_bytes d e = Some packed
          \<and> decoded dec (en_method e) packed = Some bs \<and> crc bs = en_crc32 e)"
proof (cases "in_scope e")
  case True
  then show ?thesis
    by (auto simp: extract_in_scope extract_base_def decoded_def split: option.splits)
next
  case False
  then show ?thesis by (auto simp: extract_entry_def in_scope_def extract_base_def)
qed

definition attests :: "bytes \<Rightarrow> string \<Rightarrow> bool" where
  "attests source nm \<longleftrightarrow>
     opc_find_eocd source \<noteq> None \<and> zp_count_consistent (parse_zip source)
     \<and> (\<exists>a \<in> set (zp_entries (parse_zip source)). from_central_dir a \<and> en_name a = nm)"

lemma attested_iff: "nm \<in> attested_names (parse_zip source) \<longleftrightarrow> attests source nm"
  using parse_consistent_eocd [of source] by (auto simp: attested_names_def attests_def)

lemma evidence_record_path [simp]: "ee_path (evidence_record env r src out e) = en_name e"
  by (simp add: evidence_record_def Let_def split: prod.split)

text \<open>
  C2. The manifest lists one evidence record per entry of the output, under its name, and an entry
  counts as trusted exactly when the end record of the source exists, the source's directory
  agrees with the count it declares and lists that name, and the entry's bytes in the output
  decode to content with the entry's CRC; exactly then the verdict is exact, the content
  evidence independent and no abstention reason is given. Without an end record in the source
  nothing is trusted, whatever was rebuilt.
\<close>

theorem evidence_trusted_iff:
  "list_all2 (\<lambda>e r. ee_path r = en_name e
      \<and> (trusted_metric_inclusion r \<longleftrightarrow> attests source (en_name e) \<and> in_scope e
           \<and> (\<exists>packed bs. packed_bytes out e = Some packed
               \<and> decoded (env_inflate env) (en_method e) packed = Some bs \<and> env_gz_crc env bs = en_crc32 e))
      \<and> (trusted_metric_inclusion r \<longleftrightarrow> ee_verdict r = ''EXACT_RECOVERABLE'')
      \<and> (trusted_metric_inclusion r \<longleftrightarrow> content_evidence r = ''CRC32_INDEPENDENT'')
      \<and> (trusted_metric_inclusion r \<longleftrightarrow> abstention_reason r = None))
    (zp_entries (parse_zip out)) (entry_evidence_records env source out plans)"
proof -
  have "trusted_metric_inclusion (evidence_record env rb (parse_zip source) out e)
      \<longleftrightarrow> attests source (en_name e)
          \<and> ep_status (extract_entry (env_inflate env) (env_gz_crc env) out e) = VerifiedCrc"
    "trusted_metric_inclusion (evidence_record env rb (parse_zip source) out e)
      \<longleftrightarrow> ee_verdict (evidence_record env rb (parse_zip source) out e) = ''EXACT_RECOVERABLE''"
    "trusted_metric_inclusion (evidence_record env rb (parse_zip source) out e)
      \<longleftrightarrow> content_evidence (evidence_record env rb (parse_zip source) out e) = ''CRC32_INDEPENDENT''"
    "trusted_metric_inclusion (evidence_record env rb (parse_zip source) out e)
      \<longleftrightarrow> abstention_reason (evidence_record env rb (parse_zip source) out e) = None" for rb e
    by (auto simp: evidence_record_def attested_iff Let_def)
  then show ?thesis
    unfolding entry_evidence_records_def list_all2_map2 verified_iff
    by (simp add: list.rel_refl)
qed

section \<open>A rebuild attests nothing\<close>

text \<open>Members stored without compression, unencrypted and with their content's CRC.\<close>

definition stored_verified :: "(bytes \<Rightarrow> u32) \<Rightarrow> zip_entry \<Rightarrow> bool" where
  "stored_verified crc e \<longleftrightarrow>
     ze_method e = 0 \<and> ze_flags e = 0 \<and> ze_crc e = crc (ze_payload e)
     \<and> length (ze_payload e) < 2 ^ 32 - 1 \<and> ze_usize e \<noteq> 0xFFFFFFFF"

lemma entry_of_verified:
  assumes st: "stored_verified crc e" and h: "h = header_of off e" "off < 2 ^ 32 - 1"
    and p: "packed_bytes d (entry_of h) = Some (ze_payload e)"
  shows "ep_status (extract_entry dec crc d (entry_of h)) = VerifiedCrc"
proof -
  have "of_nat (length (ze_payload e)) \<noteq> ZIP64_SENTINEL_U32" "of_nat off \<noteq> ZIP64_SENTINEL_U32"
    using st h(2) by (auto simp: stored_verified_def ZIP64_SENTINEL_U32_def unat_of_nat_len(1)
        dest: arg_cong [of _ _ unat])
  then have "\<not> en_zip64 (entry_of h)"
    using st unfolding h(1)
    by (simp add: entry_of_def is_zip64_def header_of_def stored_verified_def comp_size32_def uncomp_size32_def
        ZIP64_SENTINEL_U32_def)
  then have "in_scope (entry_of h)"
    using st unfolding h(1)
    by (simp add: in_scope_def is_encrypted_def entry_of_def header_of_def stored_verified_def)
  moreover have "en_method (entry_of h) = 0" "en_crc32 (entry_of h) = crc (ze_payload e)"
    using st unfolding h(1) by (simp_all add: entry_of_def header_of_def stored_verified_def)
  ultimately show ?thesis using p by (simp add: verified_iff decoded_def)
qed

lemma list_all2_to_map: "list_all2 P xs ys \<Longrightarrow> (\<And>x y. P x y \<Longrightarrow> f x = g y) \<Longrightarrow> map f xs = map g ys"
  by (induction rule: list_all2_induct) simp_all

lemma intact_extractions:
  assumes "intact_archive es" "list_all (stored_verified crc) es"
  shows "list_all2 (\<lambda>h e. lh_name h = ze_name e
      \<and> ep_status (extract_entry dec crc (rebuilt_archive es) (entry_of h)) = VerifiedCrc) (headers_of 0 es) es"
proof -
  let ?body = "concat (map zip_local es)"
  have "list_all2 (\<lambda>h e. \<exists>pre r. ?body = pre @ zip_local e @ r \<and> h = header_of (length pre) e)
      (headers_of 0 es) es" using headers_members [of ?body "[]" es] by simp
  then have "list_all2 (\<lambda>h e. (\<exists>pre r. ?body = pre @ zip_local e @ r \<and> h = header_of (length pre) e)
      \<and> packed_bytes (rebuilt_archive es) (entry_of h) = Some (ze_payload e)) (headers_of 0 es) es"
    using intact_members [OF assms(1)] by (simp add: list_all2_conv_all_nth member_at_def)
  then show ?thesis
  proof (rule list.rel_mono_strong)
    fix h e
    assume mem: "e \<in> set es"
      and "(\<exists>pre r. ?body = pre @ zip_local e @ r \<and> h = header_of (length pre) e)
        \<and> packed_bytes (rebuilt_archive es) (entry_of h) = Some (ze_payload e)"
    then obtain pre r where b: "?body = pre @ zip_local e @ r" and h: "h = header_of (length pre) e"
      and p: "packed_bytes (rebuilt_archive es) (entry_of h) = Some (ze_payload e)" by blast
    have "length pre + 30 \<le> length ?body" unfolding b by (simp add: zip_local_def)
    then have "length pre < 2 ^ 32 - 1" using assms(1) by (simp add: intact_archive_def)
    with entry_of_verified [OF _ h _ p] mem assms(2)
    show "lh_name h = ze_name e
      \<and> ep_status (extract_entry dec crc (rebuilt_archive es) (entry_of h)) = VerifiedCrc"
      by (simp add: list_all_iff h header_of_def)
  qed
qed

lemma entry_of_name [simp]: "en_name (entry_of h) = from_utf8_lossy (lh_name h)"
  by (simp add: entry_of_def)

text \<open>
  C5. A rebuild does not manufacture evidence: when the source has no end record any more, the
  output that carries a complete rebuilt directory over stored members whose contents all
  verify is still reported member by member as unverified salvage, with only self-consistent
  checksums; the same output judged against a source whose own directory is intact is reported
  member by member as exact.
\<close>

theorem rebuild_attests_nothing:
  assumes "intact_archive es" "list_all (stored_verified (env_gz_crc env)) es" "opc_find_eocd source = None"
  shows "map (\<lambda>r. (ee_path r, ee_verdict r, content_evidence r))
      (entry_evidence_records env source (rebuilt_archive es) plans)
    = map (\<lambda>e. (from_utf8_lossy (ze_name e), ''SALVAGED_UNVERIFIED'', ''CRC32_SELF_CONSISTENT_ONLY'')) es
   \<and> map (\<lambda>r. (ee_path r, ee_verdict r, content_evidence r))
      (entry_evidence_records env (rebuilt_archive es) (rebuilt_archive es) plans)
    = map (\<lambda>e. (from_utf8_lossy (ze_name e), ''EXACT_RECOVERABLE'', ''CRC32_INDEPENDENT'')) es"
proof -
  let ?d = "rebuilt_archive es"
  note p = parse_intact [OF assms(1)]
  have entries: "zp_entries (parse_zip ?d) = map entry_of (headers_of 0 es)" using p by blast
  have lost: "\<not> attests source nm" for nm using assms(3) by (simp add: attests_def)
  have found: "attests ?d (en_name (entry_of h))" if "h \<in> set (headers_of 0 es)" for h
    using p that parse_consistent_eocd [of ?d] unfolding attests_def entries
    by (auto simp: entry_of_def)
  note ex = intact_extractions [OF assms(1,2), of "env_inflate env"]
  have rec: "ee_path (evidence_record env rb (parse_zip s) ?d e) = en_name e"
    "attests s (en_name e) \<Longrightarrow> ep_status (extract_entry (env_inflate env) (env_gz_crc env) ?d e) = VerifiedCrc \<Longrightarrow>
      ee_verdict (evidence_record env rb (parse_zip s) ?d e) = ''EXACT_RECOVERABLE''
      \<and> content_evidence (evidence_record env rb (parse_zip s) ?d e) = ''CRC32_INDEPENDENT''"
    "\<not> attests s (en_name e) \<Longrightarrow> ep_status (extract_entry (env_inflate env) (env_gz_crc env) ?d e) = VerifiedCrc \<Longrightarrow>
      ee_verdict (evidence_record env rb (parse_zip s) ?d e) = ''SALVAGED_UNVERIFIED''
      \<and> content_evidence (evidence_record env rb (parse_zip s) ?d e) = ''CRC32_SELF_CONSISTENT_ONLY''" for rb s e
    by (simp_all add: evidence_record_def attested_iff Let_def)
  have ex2: "list_all2 (\<lambda>h e. h \<in> set (headers_of 0 es) \<and> lh_name h = ze_name e
      \<and> ep_status (extract_entry (env_inflate env) (env_gz_crc env) ?d (entry_of h)) = VerifiedCrc) (headers_of 0 es) es"
    using ex by (rule list.rel_mono_strong) simp
  have "(\<lambda>r. (ee_path r, ee_verdict r, content_evidence r)) (evidence_record env rb (parse_zip source) ?d (entry_of h))
        = (from_utf8_lossy (ze_name e), ''SALVAGED_UNVERIFIED'', ''CRC32_SELF_CONSISTENT_ONLY'')
      \<and> (\<lambda>r. (ee_path r, ee_verdict r, content_evidence r)) (evidence_record env rb (parse_zip ?d) ?d (entry_of h))
        = (from_utf8_lossy (ze_name e), ''EXACT_RECOVERABLE'', ''CRC32_INDEPENDENT'')"
    if "h \<in> set (headers_of 0 es) \<and> lh_name h = ze_name e
      \<and> ep_status (extract_entry (env_inflate env) (env_gz_crc env) ?d (entry_of h)) = VerifiedCrc" for rb h e
    using rec(2) [OF found] rec(3) [OF lost] that by simp
  then show ?thesis
    unfolding entry_evidence_records_def entries list.map_comp comp_def
    by (intro conjI list_all2_to_map [OF ex2]) blast+
qed

theorem rebuild_attests_nothing_witness:
  "map ee_verdict (entry_evidence_records (example_env\<lparr> env_gz_crc := crc32 \<rparr>) [] (rebuilt_archive [small_entry 0]) [])
    = [''SALVAGED_UNVERIFIED'']
   \<and> map ee_verdict (entry_evidence_records (example_env\<lparr> env_gz_crc := crc32 \<rparr>) (rebuilt_archive [small_entry 0])
      (rebuilt_archive [small_entry 0]) []) = [''EXACT_RECOVERABLE'']"
proof -
  let ?env = "example_env\<lparr> env_gz_crc := crc32 \<rparr>"
  have "crc32 [] = 0" by (simp add: crc32_def crc32_new_def crc32_update_def crc32_finalize_def)
  then have st: "list_all (stored_verified (env_gz_crc ?env)) [small_entry 0]"
    by (simp add: stored_verified_def small_entry_def)
  have no: "opc_find_eocd [] = None" by (simp add: opc_find_eocd_def)
  have "map ee_verdict rs = map (\<lambda>e. v) es" if "map (\<lambda>r. (ee_path r, ee_verdict r, content_evidence r)) rs
      = map (\<lambda>e. (f e, v, c)) es" for rs f v c and es :: "zip_entry list"
    using arg_cong [OF that, of "map (fst \<circ> snd)"] by (simp add: comp_def)
  from this [OF conjunct1 [OF rebuild_attests_nothing [OF intact_small st no, of "[]"]]]
    this [OF conjunct2 [OF rebuild_attests_nothing [OF intact_small st no, of "[]"]]]
  show ?thesis by simp
qed

end
