(* ===== verification/Rule_Registry.thy ===== *)
theory Rule_Registry
  imports Health
begin

text \<open>
  The registry of diagnosis rules (\<open>corruption/rules.rs\<close>), the confidence table
  (\<open>corruption/confidence.rs\<close>) and the classifier (\<open>corruption/classifier.rs\<close>): located
  defects become typed corruptions, and neighbouring flipped regions are merged.
  Shown: rule identifiers are unique, every kind of defect has a registered rule and none is
  below the emission threshold; merging keeps exactly the damaged bytes, in separated regions.
\<close>

section \<open>The registry\<close>

record ClassifierRule =
  cr_id :: string
  cr_format :: string
  cr_category :: CorruptionCategory
  default_severity :: Severity
  cr_description :: string
  affected_field :: string
  evidence_type :: EvidenceType
  confidence_deterministic :: bool

definition crule ::
  "string \<Rightarrow> string \<Rightarrow> CorruptionCategory \<Rightarrow> Severity \<Rightarrow> string \<Rightarrow> string \<Rightarrow> EvidenceType \<Rightarrow> bool
    \<Rightarrow> ClassifierRule" where
  "crule i f c s d a e k =
     \<lparr> cr_id = i, cr_format = f, cr_category = c, default_severity = s, cr_description = d,
       affected_field = a, evidence_type = e, confidence_deterministic = k \<rparr>"

definition ZIP_STRUCTURE_RULES :: "ClassifierRule list" where
  "ZIP_STRUCTURE_RULES =
     [crule ''ZIP_EOCD_001'' ''ZIP'' StructuralCorruption Catastrophic
        ''EOCD signature missing or zeroed'' ''EOCD.signature'' EvSignatureMismatch True,
      crule ''ZIP_EOCD_002'' ''ZIP'' StructuralCorruption Major
        ''EOCD.cd_offset points outside file'' ''EOCD.cd_offset'' EvOffsetOutOfBounds False,
      crule ''ZIP_EOCD_003'' ''ZIP'' StructuralCorruption Major
        ''EOCD.cd_size larger than file'' ''EOCD.cd_size'' EvLengthOverflow True,
      crule ''ZIP_CD_001'' ''ZIP'' StructuralCorruption Catastrophic
        ''Central directory entirely missing'' ''CentralDirectory'' EvStructureMissing False,
      crule ''ZIP_CD_002'' ''ZIP'' StructuralCorruption Major
        ''Central directory signature invalid'' ''CentralDirHeader.signature'' EvSignatureMismatch True,
      crule ''ZIP_CD_003'' ''ZIP'' MissingData Major
        ''Central directory truncated mid-entry'' ''CentralDirectory'' EvTruncationMarker False,
      crule ''ZIP_LFH_001'' ''ZIP'' StructuralCorruption Major
        ''Local file header signature invalid'' ''LocalFileHeader.signature'' EvSignatureMismatch True,
      crule ''ZIP_LFH_002'' ''ZIP'' MissingData Major
        ''Local file header missing'' ''LocalFileHeader'' EvStructureMissing False]"

definition ZIP_CONTENT_RULES :: "ClassifierRule list" where
  "ZIP_CONTENT_RULES =
     [crule ''ZIP_CRC_001'' ''ZIP'' ChecksumMismatch Minor
        ''CRC-32 mismatch, single entry'' ''LocalFileHeader.crc32'' EvChecksumMismatch True,
      crule ''ZIP_CRC_002'' ''ZIP'' ChecksumMismatch Major
        ''CRC-32 mismatch, multiple entries'' ''LocalFileHeader.crc32'' EvChecksumMismatch True,
      crule ''ZIP_SIZE_001'' ''ZIP'' StructuralCorruption Major
        ''Compressed size field wrong (too large)'' ''CentralDirHeader.compressed_size'' EvLengthOverflow False,
      crule ''ZIP_SIZE_002'' ''ZIP'' Truncation Major
        ''File shorter than declared compressed size'' ''stream'' EvTruncationMarker False,
      crule ''ZIP_TRUNC_001'' ''ZIP'' Truncation Minor
        ''Truncated last 1%'' ''stream.tail'' EvTruncationMarker False,
      crule ''ZIP_TRUNC_002'' ''ZIP'' Truncation Major
        ''Truncated last 5%'' ''stream.tail'' EvTruncationMarker False,
      crule ''ZIP_TRUNC_003'' ''ZIP'' Truncation Catastrophic
        ''Truncated last 20%'' ''stream.tail'' EvTruncationMarker False,
      crule ''ZIP_TRUNC_004'' ''ZIP'' Truncation Catastrophic
        ''Truncated first 5% (header destroyed)'' ''stream.header'' EvTruncationMarker False,
      crule ''ZIP_FLIP_001'' ''ZIP'' BitFlip Minor
        ''Single bit flip in payload'' ''payload.bits'' EvChecksumMismatch False,
      crule ''ZIP_FLIP_002'' ''ZIP'' BitFlip Major
        ''Multiple bit flips in payload'' ''payload.bits'' EvChecksumMismatch False,
      crule ''ZIP_FLIP_003'' ''ZIP'' BitFlip Major
        ''Bit flip in header area'' ''header.bits'' EvChecksumMismatch False,
      crule ''ZIP_EXTRA_001'' ''ZIP'' StructuralCorruption Minor
        ''Extra field length overflow'' ''CentralDirHeader.extra_len'' EvLengthOverflow False,
      crule ''ZIP_Z64_001'' ''ZIP'' StructuralCorruption Major
        ''ZIP64 EOCD locator corrupted'' ''ZIP64_EOCD_Locator.signature'' EvSignatureMismatch True,
      crule ''ZIP_COMP_001'' ''ZIP'' StructuralCorruption Catastrophic
        ''Compound: missing EOCD + CRC mismatch'' ''EOCD.signature'' EvSignatureMismatch True,
      crule ''ZIP_COMP_002'' ''ZIP'' Truncation Catastrophic
        ''Compound: truncated + bitflip'' ''stream.tail'' EvTruncationMarker False]"

definition TAR_RULES :: "ClassifierRule list" where
  "TAR_RULES =
     [crule ''TAR_UST_001'' ''TAR'' StructuralCorruption Major
        ''UStar checksum invalid'' ''UStarHeader.checksum'' EvChecksumMismatch True,
      crule ''TAR_UST_002'' ''TAR'' StructuralCorruption Minor
        ''UStar magic missing'' ''UStarHeader.magic'' EvSignatureMismatch True,
      crule ''TAR_TERM_001'' ''TAR'' StructuralCorruption Minor
        ''Missing zero-block terminator'' ''Archive.terminator'' EvStructureMissing False,
      crule ''TAR_TERM_002'' ''TAR'' PaddingMismatch Benign
        ''Extra garbage after terminator'' ''Archive.terminator'' EvPaddingViolation False,
      crule ''TAR_SIZE_001'' ''TAR'' StructuralCorruption Major
        ''Size field larger than remaining data'' ''UStarHeader.size'' EvLengthOverflow False,
      crule ''TAR_SIZE_002'' ''TAR'' MissingData Major
        ''File data shorter than declared size'' ''UStarHeader.size'' EvTruncationMarker False,
      crule ''TAR_BLOCK_001'' ''TAR'' BlockReorder Major
        ''Two data blocks swapped'' ''block.order'' EvBlockReorder False,
      crule ''TAR_TRUNC_001'' ''TAR'' Truncation Minor
        ''Truncated last 1%'' ''stream.tail'' EvTruncationMarker False,
      crule ''TAR_TRUNC_002'' ''TAR'' Truncation Major
        ''Truncated last 10%'' ''stream.tail'' EvTruncationMarker False,
      crule ''TAR_TRUNC_003'' ''TAR'' Truncation Catastrophic
        ''Truncated first block'' ''stream.header'' EvTruncationMarker False,
      crule ''TAR_FLIP_001'' ''TAR'' BitFlip Minor
        ''Single bit flip in file content'' ''payload.bits'' EvChecksumMismatch False,
      crule ''TAR_FLIP_002'' ''TAR'' BitFlip Major
        ''Multiple bit flips in header area'' ''header.bits'' EvChecksumMismatch False,
      crule ''TAR_GNU_001'' ''TAR'' StructuralCorruption Major
        ''GNU LongName block corrupted'' ''GnuLongName.block'' EvStructureMissing False,
      crule ''TAR_SPARSE_001'' ''TAR'' StructuralCorruption Major
        ''Sparse file map invalid'' ''SparseMap'' EvValueOutOfRange False,
      crule ''TAR_COMP_001'' ''TAR'' StructuralCorruption Catastrophic
        ''Compound: checksum + truncated'' ''UStarHeader.checksum'' EvChecksumMismatch True]"

definition ISO_RULES :: "ClassifierRule list" where
  "ISO_RULES =
     [crule ''ISO_PVD_001'' ''ISO'' StructuralCorruption Catastrophic
        ''Primary volume descriptor magic missing'' ''PrimaryVolumeDescriptor.magic'' EvSignatureMismatch True,
      crule ''ISO_PVD_002'' ''ISO'' StructuralCorruption Major
        ''PVD volume space size wrong'' ''PrimaryVolumeDescriptor.volume_space'' EvValueOutOfRange False,
      crule ''ISO_SVD_001'' ''ISO'' StructuralCorruption Major
        ''Supplementary VD (Joliet) corrupt'' ''SupplementaryVolumeDescriptor.magic'' EvSignatureMismatch True,
      crule ''ISO_PT_001'' ''ISO'' MissingData Major
        ''Path table offset beyond EOF'' ''PrimaryVolumeDescriptor.path_table_location'' EvOffsetOutOfBounds False,
      crule ''ISO_PT_002'' ''ISO'' StructuralCorruption Major
        ''Path table entry length invalid'' ''PathTable.entry_length'' EvLengthUnderflow False,
      crule ''ISO_DIR_001'' ''ISO'' StructuralCorruption Major
        ''Directory record length field zero'' ''DirectoryRecord.length'' EvLengthUnderflow False,
      crule ''ISO_DIR_002'' ''ISO'' MissingData Major
        ''Directory record points to missing extent'' ''DirectoryRecord.extent'' EvOffsetOutOfBounds False,
      crule ''ISO_SECTOR_001'' ''ISO'' BitFlip Minor
        ''Single sector data bitflip'' ''sector.bits'' EvChecksumMismatch False,
      crule ''ISO_SECTOR_002'' ''ISO'' MissingData Major
        ''Multiple consecutive sectors zeroed'' ''sector.data'' EvStructureMissing False,
      crule ''ISO_TRUNC_001'' ''ISO'' Truncation Major
        ''Truncated 5%'' ''stream.tail'' EvTruncationMarker False,
      crule ''ISO_TRUNC_002'' ''ISO'' Truncation Catastrophic
        ''Truncated 20%'' ''stream.tail'' EvTruncationMarker False,
      crule ''ISO_TRUNC_003'' ''ISO'' Truncation Catastrophic
        ''Truncated at PVD (sector 16)'' ''stream.header'' EvTruncationMarker False]"

definition GZIP_RULES :: "ClassifierRule list" where
  "GZIP_RULES =
     [crule ''GZ_MAGIC_001'' ''GZIP'' StructuralCorruption Catastrophic
        ''Magic bytes replaced'' ''gzip.magic'' EvSignatureMismatch True,
      crule ''GZ_CM_001'' ''GZIP'' StructuralCorruption Major
        ''Compression method invalid (not 8)'' ''gzip.cm'' EvValueOutOfRange False,
      crule ''GZ_HCRC_001'' ''GZIP'' ChecksumMismatch Minor
        ''Header CRC16 mismatch'' ''gzip.hcrc'' EvChecksumMismatch False,
      crule ''GZ_ICRC_001'' ''GZIP'' ChecksumMismatch Major
        ''Content CRC32 mismatch'' ''gzip.crc32'' EvChecksumMismatch True,
      crule ''GZ_ISIZE_001'' ''GZIP'' StructuralCorruption Minor
        ''ISIZE wrong'' ''gzip.isize'' EvValueOutOfRange False,
      crule ''GZ_TRUNC_001'' ''GZIP'' Truncation Major
        ''Truncated in compressed data'' ''stream.tail'' EvTruncationMarker False,
      crule ''GZ_TRUNC_002'' ''GZIP'' Truncation Catastrophic
        ''Truncated before header end'' ''stream.header'' EvTruncationMarker False,
      crule ''GZ_FLIP_001'' ''GZIP'' BitFlip Major
        ''Bit flip in compressed data'' ''payload.bits'' EvChecksumMismatch False,
      crule ''GZ_EXTRA_001'' ''GZIP'' StructuralCorruption Minor
        ''Extra field length overflow'' ''gzip.extra_len'' EvLengthOverflow False]"

definition PDF_RULES :: "ClassifierRule list" where
  "PDF_RULES =
     [crule ''PDF_HDR_001'' ''PDF'' StructuralCorruption Catastrophic
        ''%PDF- header missing'' ''pdf.header'' EvSignatureMismatch True,
      crule ''PDF_HDR_002'' ''PDF'' StructuralCorruption Minor
        ''Version marker malformed'' ''pdf.version'' EvValueOutOfRange False,
      crule ''PDF_EOF_001'' ''PDF'' StructuralCorruption Major
        ''%%EOF marker missing'' ''pdf.eof'' EvStructureMissing False,
      crule ''PDF_XREF_001'' ''PDF'' StructuralCorruption Major
        ''startxref offset wrong'' ''pdf.startxref'' EvOffsetOutOfBounds False,
      crule ''PDF_XREF_002'' ''PDF'' MissingData Major
        ''xref table missing entirely'' ''pdf.xref'' EvStructureMissing False,
      crule ''PDF_XREF_003'' ''PDF'' StructuralCorruption Major
        ''xref entry format invalid'' ''pdf.xref.entry'' EvValueOutOfRange False,
      crule ''PDF_OBJ_001'' ''PDF'' StructuralCorruption Major
        ''Object stream header corrupt'' ''pdf.objstm'' EvStructureMissing False,
      crule ''PDF_OBJ_002'' ''PDF'' MissingData Major
        ''Indirect object missing'' ''pdf.object'' EvStructureMissing False,
      crule ''PDF_TRUNC_001'' ''PDF'' Truncation Minor
        ''Truncated last 1%'' ''stream.tail'' EvTruncationMarker False,
      crule ''PDF_TRUNC_002'' ''PDF'' Truncation Major
        ''Truncated last 15%'' ''stream.tail'' EvTruncationMarker False,
      crule ''PDF_TRUNC_003'' ''PDF'' Truncation Catastrophic
        ''Truncated at 50%'' ''stream.tail'' EvTruncationMarker False,
      crule ''PDF_FLIP_001'' ''PDF'' BitFlip Minor
        ''Bit flip in page content stream'' ''payload.bits'' EvChecksumMismatch False,
      crule ''PDF_FLIP_002'' ''PDF'' BitFlip Major
        ''Bit flip in cross-reference stream'' ''pdf.xref.bits'' EvChecksumMismatch False,
      crule ''PDF_COMP_001'' ''PDF'' StructuralCorruption Catastrophic
        ''Missing xref + object missing'' ''pdf.xref'' EvStructureMissing False]"

definition SQLITE_RULES :: "ClassifierRule list" where
  "SQLITE_RULES =
     [crule ''SQ_MAGIC_001'' ''SQLite'' StructuralCorruption Catastrophic
        ''Header magic missing'' ''sqlite.magic'' EvSignatureMismatch True,
      crule ''SQ_PGSIZE_001'' ''SQLite'' StructuralCorruption Catastrophic
        ''Page size not a power of two'' ''sqlite.page_size'' EvValueOutOfRange False,
      crule ''SQ_PGSIZE_002'' ''SQLite'' StructuralCorruption Major
        ''Page size mismatch with actual pages'' ''sqlite.page_size'' EvValueOutOfRange False,
      crule ''SQ_FC_001'' ''SQLite'' StructuralCorruption Major
        ''File change counter mismatch'' ''sqlite.change_counter'' EvValueOutOfRange False,
      crule ''SQ_BTREE_001'' ''SQLite'' StructuralCorruption Major
        ''B-tree page type byte invalid'' ''sqlite.btree.page_type'' EvValueOutOfRange False,
      crule ''SQ_BTREE_002'' ''SQLite'' StructuralCorruption Major
        ''B-tree cell count exceeds capacity'' ''sqlite.btree.cell_count'' EvValueOutOfRange False,
      crule ''SQ_BTREE_003'' ''SQLite'' MissingData Major
        ''Cell pointer references missing offset'' ''sqlite.btree.cell_ptr'' EvOffsetOutOfBounds False,
      crule ''SQ_FREE_001'' ''SQLite'' StructuralCorruption Minor
        ''Freelist trunk page number invalid'' ''sqlite.freelist_trunk'' EvValueOutOfRange False,
      crule ''SQ_FREE_002'' ''SQLite'' StructuralCorruption Major
        ''Freelist count exceeds actual pages'' ''sqlite.freelist_count'' EvValueOutOfRange False,
      crule ''SQ_WAL_001'' ''SQLite'' StructuralCorruption Minor
        ''WAL header magic missing'' ''wal.magic'' EvSignatureMismatch True,
      crule ''SQ_WAL_002'' ''SQLite'' StructuralCorruption Major
        ''WAL salt mismatch'' ''wal.salt'' EvValueOutOfRange False,
      crule ''SQ_TRUNC_001'' ''SQLite'' Truncation Major
        ''Truncated mid-page'' ''stream.tail'' EvTruncationMarker False,
      crule ''SQ_TRUNC_002'' ''SQLite'' Truncation Catastrophic
        ''Truncated before page 2'' ''stream.tail'' EvTruncationMarker False,
      crule ''SQ_FLIP_001'' ''SQLite'' BitFlip Minor
        ''Bit flip in row data'' ''payload.bits'' EvChecksumMismatch False,
      crule ''SQ_FLIP_002'' ''SQLite'' BitFlip Major
        ''Bit flip in B-tree interior key'' ''sqlite.btree.key'' EvChecksumMismatch False,
      crule ''SQ_COMP_001'' ''SQLite'' StructuralCorruption Catastrophic
        ''Corrupt B-tree + bit flip'' ''sqlite.btree'' EvStructureMissing False]"

definition STREAM_RULES :: "ClassifierRule list" where
  "STREAM_RULES =
     [crule ''RAR_MAGIC_001'' ''RAR'' StructuralCorruption Catastrophic
        ''RAR signature corrupted'' ''signature'' EvSignatureMismatch True,
      crule ''RAR_CRC_001'' ''RAR'' ChecksumMismatch Major
        ''RAR file CRC mismatch'' ''trailer.checksum'' EvChecksumMismatch False,
      crule ''7Z_MAGIC_001'' ''7Z'' StructuralCorruption Catastrophic
        ''7z signature header corrupted'' ''signature'' EvSignatureMismatch True,
      crule ''7Z_CRC_001'' ''7Z'' ChecksumMismatch Major
        ''7z CRC mismatch'' ''trailer.checksum'' EvChecksumMismatch False,
      crule ''7Z_TRUNC_001'' ''7Z'' Truncation Catastrophic
        ''7z end header beyond EOF (truncated)'' ''stream.tail'' EvTruncationMarker False,
      crule ''BZ2_MAGIC_001'' ''BZIP2'' StructuralCorruption Catastrophic
        ''BZh stream magic corrupted'' ''signature'' EvSignatureMismatch True,
      crule ''BZ2_CRC_001'' ''BZIP2'' ChecksumMismatch Major
        ''BZIP2 block CRC mismatch'' ''trailer.checksum'' EvChecksumMismatch False,
      crule ''XZ_MAGIC_001'' ''XZ'' StructuralCorruption Catastrophic
        ''XZ stream header magic corrupted'' ''signature'' EvSignatureMismatch True,
      crule ''XZ_CRC_001'' ''XZ'' ChecksumMismatch Major
        ''XZ check mismatch'' ''trailer.checksum'' EvChecksumMismatch False,
      crule ''ZST_MAGIC_001'' ''ZSTD'' StructuralCorruption Catastrophic
        ''ZSTD frame magic corrupted'' ''signature'' EvSignatureMismatch True,
      crule ''ZST_CRC_001'' ''ZSTD'' ChecksumMismatch Major
        ''ZSTD content checksum mismatch'' ''trailer.checksum'' EvChecksumMismatch False,
      crule ''LZ4_MAGIC_001'' ''LZ4'' StructuralCorruption Catastrophic
        ''LZ4 frame magic corrupted'' ''signature'' EvSignatureMismatch True,
      crule ''LZ4_CRC_001'' ''LZ4'' ChecksumMismatch Major
        ''LZ4 content checksum mismatch'' ''trailer.checksum'' EvChecksumMismatch False]"

definition CROSS_FORMAT_RULES :: "ClassifierRule list" where
  "CROSS_FORMAT_RULES =
     [crule ''INTEGRITY_HASH_001'' ''*'' ChecksumMismatch Major
        ''Content hash does not match manifest'' ''manifest.hash'' EvChecksumMismatch True,
      crule ''GEN_TRUNC_001'' ''*'' Truncation Major
        ''Stream truncated'' ''stream.tail'' EvTruncationMarker False,
      crule ''GEN_FLIP_001'' ''*'' BitFlip Minor
        ''Flipped bit(s)'' ''payload.bits'' EvChecksumMismatch False,
      crule ''GEN_MISSING_001'' ''*'' MissingData Major
        ''Data region missing'' ''data.range'' EvStructureMissing False,
      crule ''GEN_STRUCT_001'' ''*'' StructuralCorruption Major
        ''Structural corruption'' ''stream.layout'' EvValueOutOfRange False,
      crule ''GEN_REORDER_001'' ''*'' BlockReorder Major
        ''Blocks out of order'' ''block.order'' EvBlockReorder False]"

definition SECURITY_RULES :: "ClassifierRule list" where
  "SECURITY_RULES =
     [crule ''SEC_BOMB_RATIO_001'' ''*'' SecurityThreat Catastrophic
        ''Compression ratio (per-entry or aggregate) exceeds limit'' ''decompress.ratio'' EvRatioExceeded False,
      crule ''SEC_BOMB_OUTPUT_001'' ''*'' SecurityThreat Catastrophic
        ''Cumulative uncompressed output exceeds cap'' ''decompress.output_bytes'' EvRatioExceeded False,
      crule ''SEC_BOMB_OVERLAP_001'' ''ZIP'' SecurityThreat Catastrophic
        ''Two local file headers reference overlapping data (Fifield signature)'' ''LocalFileHeader.compressed_data'' EvOverlappingEntries False,
      crule ''SEC_CYCLE_001'' ''*'' SecurityThreat Catastrophic
        (''Nested container hash equals an ancestor'' @ [CHR 0x27] @ ''s (quine)'') ''container.sha256'' EvCycleDetected True,
      crule ''SEC_DEPTH_001'' ''*'' SecurityThreat Major
        ''Nesting depth exceeds max_depth'' ''container.depth'' EvDepthExceeded True,
      crule ''SEC_ENTRIES_001'' ''*'' SecurityThreat Major
        ''Entry count exceeds limit'' ''container.entry_count'' EvValueOutOfRange False,
      crule ''SEC_TRAVERSAL_001'' ''*'' SecurityThreat Major
        ''Entry path escapes staging after normalization'' ''entry.path'' EvPathEscape True,
      crule ''SEC_SYMLINK_001'' ''*'' SecurityThreat Major
        ''Symlink/hardlink entry pointing outside sandbox'' ''entry.link_target'' EvPathEscape True,
      crule ''SEC_PARSER_TIMEOUT_001'' ''*'' SecurityThreat Major
        ''A parser exceeded its CPU-time budget on one container'' ''container.cpu_time'' EvValueOutOfRange False]"

definition RULES :: "ClassifierRule list" where
  "RULES =
     ZIP_STRUCTURE_RULES @ ZIP_CONTENT_RULES @ TAR_RULES @ ISO_RULES @ GZIP_RULES
     @ PDF_RULES @ SQLITE_RULES @ STREAM_RULES @ CROSS_FORMAT_RULES @ SECURITY_RULES"

definition find_rule :: "string \<Rightarrow> ClassifierRule option" where
  "find_rule i = find (\<lambda>r. cr_id r = i) RULES"

section \<open>Confidence\<close>

text \<open>In hundredths.\<close>

definition confidence_base :: "EvidenceType \<Rightarrow> nat" where
  "confidence_base e =
     (case e of
        EvSignatureMismatch \<Rightarrow> 100 | EvChecksumMismatch \<Rightarrow> 100 | EvOffsetOutOfBounds \<Rightarrow> 100
      | EvLengthOverflow \<Rightarrow> 100 | EvLengthUnderflow \<Rightarrow> 95 | EvStructureMissing \<Rightarrow> 98
      | EvValueOutOfRange \<Rightarrow> 95 | EvBlockReorder \<Rightarrow> 80 | EvPaddingViolation \<Rightarrow> 70
      | EvTruncationMarker \<Rightarrow> 99 | EvOverlappingEntries \<Rightarrow> 99 | EvRatioExceeded \<Rightarrow> 99
      | EvDepthExceeded \<Rightarrow> 100 | EvPathEscape \<Rightarrow> 100 | EvCycleDetected \<Rightarrow> 100)"

definition offset_out_of_bounds :: "nat \<Rightarrow> nat \<Rightarrow> nat" where
  "offset_out_of_bounds off file_size = (if file_size < off then 100 else 90)"

section \<open>Defects\<close>

datatype DefectKind =
  ZipMissingEocd | ZipEocdCdOffsetOob | ZipCentralDirectoryMissing | ZipCentralDirectoryDamaged
| ZipEntryCountMismatch | ZipLocalHeaderMissing | ZipCrcMismatch | ZipSizeMismatch
| TarHeaderChecksumBad
| SqMagicBad | SqPageSizeBad | SqPageSizeMismatch | SqFileChangeCounter | SqBtreePageTypeBad
| SqBtreeCellCountBad | SqBtreeCellPtrBad | SqFreelistTrunkBad | SqFreelistCountBad
| SqTruncatedMidPage | SqTruncatedBeforePage2 | SqWalMagicBad | SqWalSaltMismatch
| TarMissingTerminator | TarTruncated | IsoMissingPvd | IsoPathTableOutOfBounds
| GzMagicBad | GzCompressionMethodBad | GzTruncated | GzCrcBad | GzIsizeBad
| SevenZMagicBad | SevenZStartHeaderCrcBad | SevenZEndHeaderOob | RarMagicBad
| ManifestHashMismatch | BitFlipRegion | ReferenceDiff

definition kind_rule_id :: "DefectKind \<Rightarrow> string" where
  "kind_rule_id k =
     (case k of
        ZipMissingEocd \<Rightarrow> ''ZIP_EOCD_001'' | ZipEocdCdOffsetOob \<Rightarrow> ''ZIP_EOCD_002''
      | ZipCentralDirectoryMissing \<Rightarrow> ''ZIP_CD_001'' | ZipCentralDirectoryDamaged \<Rightarrow> ''ZIP_CD_002''
      | ZipEntryCountMismatch \<Rightarrow> ''ZIP_CD_003'' | ZipLocalHeaderMissing \<Rightarrow> ''ZIP_LFH_001''
      | ZipCrcMismatch \<Rightarrow> ''ZIP_CRC_001'' | ZipSizeMismatch \<Rightarrow> ''ZIP_SIZE_001''
      | TarHeaderChecksumBad \<Rightarrow> ''TAR_UST_001''
      | SqMagicBad \<Rightarrow> ''SQ_MAGIC_001'' | SqPageSizeBad \<Rightarrow> ''SQ_PGSIZE_001''
      | SqPageSizeMismatch \<Rightarrow> ''SQ_PGSIZE_002'' | SqFileChangeCounter \<Rightarrow> ''SQ_FC_001''
      | SqBtreePageTypeBad \<Rightarrow> ''SQ_BTREE_001'' | SqBtreeCellCountBad \<Rightarrow> ''SQ_BTREE_002''
      | SqBtreeCellPtrBad \<Rightarrow> ''SQ_BTREE_003'' | SqFreelistTrunkBad \<Rightarrow> ''SQ_FREE_001''
      | SqFreelistCountBad \<Rightarrow> ''SQ_FREE_002'' | SqTruncatedMidPage \<Rightarrow> ''SQ_TRUNC_001''
      | SqTruncatedBeforePage2 \<Rightarrow> ''SQ_TRUNC_002'' | SqWalMagicBad \<Rightarrow> ''SQ_WAL_001''
      | SqWalSaltMismatch \<Rightarrow> ''SQ_WAL_002''
      | TarMissingTerminator \<Rightarrow> ''TAR_TERM_001'' | TarTruncated \<Rightarrow> ''TAR_TRUNC_002''
      | IsoMissingPvd \<Rightarrow> ''ISO_PVD_001'' | IsoPathTableOutOfBounds \<Rightarrow> ''ISO_PT_001''
      | GzMagicBad \<Rightarrow> ''GZ_MAGIC_001'' | GzCompressionMethodBad \<Rightarrow> ''GZ_CM_001''
      | GzTruncated \<Rightarrow> ''GZ_TRUNC_001'' | GzCrcBad \<Rightarrow> ''GZ_ICRC_001'' | GzIsizeBad \<Rightarrow> ''GZ_ISIZE_001''
      | SevenZMagicBad \<Rightarrow> ''7Z_MAGIC_001'' | SevenZStartHeaderCrcBad \<Rightarrow> ''7Z_CRC_001''
      | SevenZEndHeaderOob \<Rightarrow> ''7Z_TRUNC_001'' | RarMagicBad \<Rightarrow> ''RAR_MAGIC_001''
      | ManifestHashMismatch \<Rightarrow> ''INTEGRITY_HASH_001'' | BitFlipRegion \<Rightarrow> ''GEN_FLIP_001''
      | ReferenceDiff \<Rightarrow> ''GEN_STRUCT_001'')"

record Detected =
  dt_kind :: DefectKind
  dt_location :: CorruptionLocation
  dt_range :: "ByteRange option"
  dt_actual :: bytes
  dt_expected :: "bytes option"
  dt_confidence :: "nat option"
  rule_override :: "string option"
  dt_detail :: message

definition detected :: "DefectKind \<Rightarrow> CorruptionLocation \<Rightarrow> Detected" where
  "detected k loc =
     \<lparr> dt_kind = k, dt_location = loc, dt_range = None, dt_actual = [], dt_expected = None,
       dt_confidence = None, rule_override = None, dt_detail = Msg [] [] \<rparr>"

definition with_rule :: "string \<Rightarrow> Detected \<Rightarrow> Detected" where
  "with_rule i x = x\<lparr> rule_override := Some i \<rparr>"

definition with_range :: "ByteRange \<Rightarrow> Detected \<Rightarrow> Detected" where
  "with_range r x = x\<lparr> dt_range := Some r \<rparr>"

definition with_detail :: "message \<Rightarrow> Detected \<Rightarrow> Detected" where
  "with_detail m x = x\<lparr> dt_detail := m \<rparr>"

definition with_bytes :: "bytes \<Rightarrow> bytes option \<Rightarrow> Detected \<Rightarrow> Detected" where
  "with_bytes actual expected x = x\<lparr> dt_actual := actual, dt_expected := expected \<rparr>"

definition with_confidence :: "nat \<Rightarrow> Detected \<Rightarrow> Detected" where
  "with_confidence c x = x\<lparr> dt_confidence := Some c \<rparr>"

section \<open>Classification\<close>

definition detected_rule_id :: "Detected \<Rightarrow> string" where
  "detected_rule_id x = (case rule_override x of Some i \<Rightarrow> i | None \<Rightarrow> kind_rule_id (dt_kind x))"

text \<open>An unregistered rule panics (\<open>expect\<close>).\<close>

definition classify :: "Detected \<Rightarrow> Corruption option outcome" where
  "classify x =
     (case find_rule (detected_rule_id x) of
        None \<Rightarrow> Panicked
      | Some r \<Rightarrow>
          (let conf = (case dt_confidence x of
                         Some c \<Rightarrow> c
                       | None \<Rightarrow> if confidence_deterministic r then 100
                                  else confidence_base (evidence_type r));
               ev = evidence_new (offset_start (dt_location x)) (dt_expected x) (dt_actual x)
                      (affected_field r) (cr_description r) conf (evidence_type r) in
           Returned
             (if pe_confidence ev < MIN_EMIT_CONFIDENCE then None
              else Some \<lparr> category = cr_category r, severity = default_severity r,
                          byte_range = dt_range x, rule_id = cr_id r, c_location = dt_location x,
                          c_primary = ev \<rparr>)))"

primrec classify_all :: "Detected list \<Rightarrow> Corruption list outcome" where
  "classify_all [] = Returned []"
| "classify_all (x # xs) =
     bind_outcome (classify x) (\<lambda>c.
       bind_outcome (classify_all xs) (\<lambda>cs.
         Returned (case c of None \<Rightarrow> cs | Some c \<Rightarrow> c # cs)))"

section \<open>Merging\<close>

definition severity_rank :: "Severity \<Rightarrow> nat" where
  "severity_rank s = (case s of Benign \<Rightarrow> 0 | Minor \<Rightarrow> 1 | Major \<Rightarrow> 2 | Catastrophic \<Rightarrow> 3)"

instantiation Severity :: linorder
begin

definition less_eq_Severity :: "Severity \<Rightarrow> Severity \<Rightarrow> bool" where
  "a \<le> b \<longleftrightarrow> severity_rank a \<le> severity_rank b"

definition less_Severity :: "Severity \<Rightarrow> Severity \<Rightarrow> bool" where
  "a < b \<longleftrightarrow> severity_rank a < severity_rank b"

instance
  by standard
    (auto simp: less_eq_Severity_def less_Severity_def severity_rank_def split: Severity.splits)

end

definition is_flip_region :: "Corruption \<Rightarrow> bool" where
  "is_flip_region c \<longleftrightarrow> category c = BitFlip \<and> byte_range c \<noteq> None"

definition merge_into :: "Corruption \<Rightarrow> ByteRange \<Rightarrow> Corruption \<Rightarrow> Corruption" where
  "merge_into prev r c =
     (let p = the (byte_range prev);
          n = \<lparr> br_start = min (br_start p) (br_start r), br_end = max (br_end p) (br_end r) \<rparr> in
      prev\<lparr> byte_range := Some n,
            c_location := (c_location prev)\<lparr> offset_start := unat (br_start n), offset_end := unat (br_end n) \<rparr>,
            severity := max (severity prev) (severity c),
            c_primary := (c_primary prev)\<lparr> pe_offset := unat (br_start n) \<rparr> \<rparr>)"

text \<open>The merge loop; the region being grown is the last one pushed.\<close>

fun merge_loop :: "Corruption list \<Rightarrow> Corruption \<Rightarrow> Corruption list" where
  "merge_loop [] prev = [prev]"
| "merge_loop (c # cs) prev =
     (let r = the (byte_range c) in
      if adjacent_or_overlapping (the (byte_range prev)) r then merge_loop cs (merge_into prev r c)
      else prev # merge_loop cs c)"

definition merge_flips :: "Corruption list \<Rightarrow> Corruption list" where
  "merge_flips cs = (case cs of [] \<Rightarrow> [] | c # cs \<Rightarrow> merge_loop cs c)"

definition merge_adjacent :: "Corruption list \<Rightarrow> Corruption list" where
  "merge_adjacent cs =
     merge_flips (sort_key (\<lambda>c. br_start (the (byte_range c))) (filter is_flip_region cs))
     @ filter (\<lambda>c. \<not> is_flip_region c) cs"

section \<open>Facts on the registry\<close>

text \<open>Identifiers of different groups differ in their first two letters.\<close>

lemma group_ids_distinct:
  "distinct (map cr_id (ZIP_STRUCTURE_RULES @ ZIP_CONTENT_RULES))"
  "distinct (map cr_id TAR_RULES)" "distinct (map cr_id ISO_RULES)" "distinct (map cr_id GZIP_RULES)"
  "distinct (map cr_id PDF_RULES)" "distinct (map cr_id SQLITE_RULES)"
  "distinct (map cr_id STREAM_RULES)" "distinct (map cr_id CROSS_FORMAT_RULES)"
  "distinct (map cr_id SECURITY_RULES)"
  by code_simp+

lemma group_letters:
  "set (map (take 2 \<circ> cr_id) (ZIP_STRUCTURE_RULES @ ZIP_CONTENT_RULES)) \<subseteq> {''ZI''}"
  "set (map (take 2 \<circ> cr_id) TAR_RULES) \<subseteq> {''TA''}" "set (map (take 2 \<circ> cr_id) ISO_RULES) \<subseteq> {''IS''}"
  "set (map (take 2 \<circ> cr_id) GZIP_RULES) \<subseteq> {''GZ''}" "set (map (take 2 \<circ> cr_id) PDF_RULES) \<subseteq> {''PD''}"
  "set (map (take 2 \<circ> cr_id) SQLITE_RULES) \<subseteq> {''SQ''}"
  "set (map (take 2 \<circ> cr_id) STREAM_RULES) \<subseteq> {''RA'', ''7Z'', ''BZ'', ''XZ'', ''ZS'', ''LZ''}"
  "set (map (take 2 \<circ> cr_id) CROSS_FORMAT_RULES) \<subseteq> {''GE'', ''IN''}"
  "set (map (take 2 \<circ> cr_id) SECURITY_RULES) \<subseteq> {''SE''}"
  by code_simp+

lemma distinct_append_keys:
  assumes "distinct (map f xs)" "distinct (map f ys)" "set (map (g \<circ> f) xs) \<subseteq> A" "set (map (g \<circ> f) ys) \<subseteq> B"
    "A \<inter> B = {}"
  shows "distinct (map f (xs @ ys)) \<and> set (map (g \<circ> f) (xs @ ys)) \<subseteq> A \<union> B"
  using assms by fastforce

lemma rule_ids_distinct: "distinct (map cr_id RULES)"
proof -
  have disj:
    "{''GE'', ''IN''} \<inter> {''SE''} = {}"
    "{''RA'', ''7Z'', ''BZ'', ''XZ'', ''ZS'', ''LZ''} \<inter> ({''GE'', ''IN''} \<union> {''SE''}) = {}"
    "{''SQ''} \<inter> ({''RA'', ''7Z'', ''BZ'', ''XZ'', ''ZS'', ''LZ''} \<union> ({''GE'', ''IN''} \<union> {''SE''})) = {}"
    "{''PD''} \<inter> ({''SQ''} \<union> ({''RA'', ''7Z'', ''BZ'', ''XZ'', ''ZS'', ''LZ''} \<union> ({''GE'', ''IN''} \<union> {''SE''}))) = {}"
    "{''GZ''} \<inter> ({''PD''} \<union> ({''SQ''} \<union> ({''RA'', ''7Z'', ''BZ'', ''XZ'', ''ZS'', ''LZ''} \<union> ({''GE'', ''IN''} \<union> {''SE''})))) = {}"
    "{''IS''} \<inter> ({''GZ''} \<union> ({''PD''} \<union> ({''SQ''} \<union> ({''RA'', ''7Z'', ''BZ'', ''XZ'', ''ZS'', ''LZ''} \<union> ({''GE'', ''IN''} \<union> {''SE''}))))) = {}"
    "{''TA''} \<inter> ({''IS''} \<union> ({''GZ''} \<union> ({''PD''} \<union> ({''SQ''} \<union> ({''RA'', ''7Z'', ''BZ'', ''XZ'', ''ZS'', ''LZ''} \<union> ({''GE'', ''IN''} \<union> {''SE''})))))) = {}"
    "{''ZI''} \<inter> ({''TA''} \<union> ({''IS''} \<union> ({''GZ''} \<union> ({''PD''} \<union> ({''SQ''} \<union> ({''RA'', ''7Z'', ''BZ'', ''XZ'', ''ZS'', ''LZ''} \<union> ({''GE'', ''IN''} \<union> {''SE''}))))))) = {}"
    by simp_all
  note d = group_ids_distinct and l = group_letters
  note s1 = distinct_append_keys [OF d(8,9) l(8,9) disj(1)]
  note s2 = distinct_append_keys [OF d(7) conjunct1 [OF s1] l(7) conjunct2 [OF s1] disj(2)]
  note s3 = distinct_append_keys [OF d(6) conjunct1 [OF s2] l(6) conjunct2 [OF s2] disj(3)]
  note s4 = distinct_append_keys [OF d(5) conjunct1 [OF s3] l(5) conjunct2 [OF s3] disj(4)]
  note s5 = distinct_append_keys [OF d(4) conjunct1 [OF s4] l(4) conjunct2 [OF s4] disj(5)]
  note s6 = distinct_append_keys [OF d(3) conjunct1 [OF s5] l(3) conjunct2 [OF s5] disj(6)]
  note s7 = distinct_append_keys [OF d(2) conjunct1 [OF s6] l(2) conjunct2 [OF s6] disj(7)]
  note s8 = distinct_append_keys [OF d(1) conjunct1 [OF s7] l(1) conjunct2 [OF s7] disj(8)]
  from s8 show ?thesis unfolding RULES_def append_assoc by (rule conjunct1)
qed

lemma rule_id_list:
  "map cr_id RULES =
    [''ZIP_EOCD_001'', ''ZIP_EOCD_002'', ''ZIP_EOCD_003'', ''ZIP_CD_001'', ''ZIP_CD_002'',
     ''ZIP_CD_003'', ''ZIP_LFH_001'', ''ZIP_LFH_002'', ''ZIP_CRC_001'', ''ZIP_CRC_002'',
     ''ZIP_SIZE_001'', ''ZIP_SIZE_002'', ''ZIP_TRUNC_001'', ''ZIP_TRUNC_002'',
     ''ZIP_TRUNC_003'', ''ZIP_TRUNC_004'', ''ZIP_FLIP_001'', ''ZIP_FLIP_002'',
     ''ZIP_FLIP_003'', ''ZIP_EXTRA_001'', ''ZIP_Z64_001'', ''ZIP_COMP_001'',
     ''ZIP_COMP_002'', ''TAR_UST_001'', ''TAR_UST_002'', ''TAR_TERM_001'', ''TAR_TERM_002'',
     ''TAR_SIZE_001'', ''TAR_SIZE_002'', ''TAR_BLOCK_001'', ''TAR_TRUNC_001'',
     ''TAR_TRUNC_002'', ''TAR_TRUNC_003'', ''TAR_FLIP_001'', ''TAR_FLIP_002'',
     ''TAR_GNU_001'', ''TAR_SPARSE_001'', ''TAR_COMP_001'', ''ISO_PVD_001'', ''ISO_PVD_002'',
     ''ISO_SVD_001'', ''ISO_PT_001'', ''ISO_PT_002'', ''ISO_DIR_001'', ''ISO_DIR_002'',
     ''ISO_SECTOR_001'', ''ISO_SECTOR_002'', ''ISO_TRUNC_001'', ''ISO_TRUNC_002'',
     ''ISO_TRUNC_003'', ''GZ_MAGIC_001'', ''GZ_CM_001'', ''GZ_HCRC_001'', ''GZ_ICRC_001'',
     ''GZ_ISIZE_001'', ''GZ_TRUNC_001'', ''GZ_TRUNC_002'', ''GZ_FLIP_001'', ''GZ_EXTRA_001'',
     ''PDF_HDR_001'', ''PDF_HDR_002'', ''PDF_EOF_001'', ''PDF_XREF_001'', ''PDF_XREF_002'',
     ''PDF_XREF_003'', ''PDF_OBJ_001'', ''PDF_OBJ_002'', ''PDF_TRUNC_001'',
     ''PDF_TRUNC_002'', ''PDF_TRUNC_003'', ''PDF_FLIP_001'', ''PDF_FLIP_002'',
     ''PDF_COMP_001'', ''SQ_MAGIC_001'', ''SQ_PGSIZE_001'', ''SQ_PGSIZE_002'', ''SQ_FC_001'',
     ''SQ_BTREE_001'', ''SQ_BTREE_002'', ''SQ_BTREE_003'', ''SQ_FREE_001'', ''SQ_FREE_002'',
     ''SQ_WAL_001'', ''SQ_WAL_002'', ''SQ_TRUNC_001'', ''SQ_TRUNC_002'', ''SQ_FLIP_001'',
     ''SQ_FLIP_002'', ''SQ_COMP_001'', ''RAR_MAGIC_001'', ''RAR_CRC_001'', ''7Z_MAGIC_001'',
     ''7Z_CRC_001'', ''7Z_TRUNC_001'', ''BZ2_MAGIC_001'', ''BZ2_CRC_001'', ''XZ_MAGIC_001'',
     ''XZ_CRC_001'', ''ZST_MAGIC_001'', ''ZST_CRC_001'', ''LZ4_MAGIC_001'', ''LZ4_CRC_001'',
     ''INTEGRITY_HASH_001'', ''GEN_TRUNC_001'', ''GEN_FLIP_001'', ''GEN_MISSING_001'',
     ''GEN_STRUCT_001'', ''GEN_REORDER_001'', ''SEC_BOMB_RATIO_001'',
     ''SEC_BOMB_OUTPUT_001'', ''SEC_BOMB_OVERLAP_001'', ''SEC_CYCLE_001'', ''SEC_DEPTH_001'',
     ''SEC_ENTRIES_001'', ''SEC_TRAVERSAL_001'', ''SEC_SYMLINK_001'',
     ''SEC_PARSER_TIMEOUT_001'']"
  by (simp add: RULES_def ZIP_STRUCTURE_RULES_def ZIP_CONTENT_RULES_def TAR_RULES_def ISO_RULES_def
      GZIP_RULES_def PDF_RULES_def SQLITE_RULES_def STREAM_RULES_def CROSS_FORMAT_RULES_def
      SECURITY_RULES_def crule_def)

lemma find_rule_Some: "find_rule i = Some r \<longleftrightarrow> r \<in> set RULES \<and> cr_id r = i"
proof
  assume "find_rule i = Some r"
  then show "r \<in> set RULES \<and> cr_id r = i" by (auto simp: find_rule_def dest: find_SomeD)
next
  assume r: "r \<in> set RULES \<and> cr_id r = i"
  then obtain q where q: "find_rule i = Some q"
    unfolding find_rule_def by (cases "find (\<lambda>r. cr_id r = i) RULES") (auto simp: find_None_iff)
  then have "q \<in> set RULES" "cr_id q = cr_id r" using r by (auto simp: find_rule_def dest: find_SomeD)
  with rule_ids_distinct r have "q = r" by (auto simp: distinct_map inj_on_def)
  with q show "find_rule i = Some r" by simp
qed

definition registered :: "string \<Rightarrow> bool" where
  "registered i \<longleftrightarrow> i \<in> set (map cr_id RULES)"

lemma kind_registered: "registered (kind_rule_id k)"
  by (cases k) (simp_all add: kind_rule_id_def registered_def rule_id_list del: set_map)

lemma find_rule_None: "find_rule i = None \<longleftrightarrow> \<not> registered i"
  by (auto simp: find_rule_def find_None_iff registered_def)

lemma confidence_emitted: "MIN_EMIT_CONFIDENCE \<le> confidence_base e"
  by (cases e) (simp_all add: MIN_EMIT_CONFIDENCE_def confidence_base_def)

text \<open>A defect that no explicit confidence pushes below the threshold.\<close>

definition confident :: "Detected \<Rightarrow> bool" where
  "confident x \<longleftrightarrow> (case dt_confidence x of None \<Rightarrow> True | Some c \<Rightarrow> MIN_EMIT_CONFIDENCE \<le> c)"

definition classified_as :: "Detected \<Rightarrow> ClassifierRule \<Rightarrow> Corruption \<Rightarrow> bool" where
  "classified_as x r c \<longleftrightarrow>
     category c = cr_category r \<and> severity c = default_severity r \<and> rule_id c = cr_id r
     \<and> c_location c = dt_location x \<and> byte_range c = dt_range x
     \<and> field_name (c_primary c) = affected_field r \<and> pe_type (c_primary c) = evidence_type r"

lemma classify_confident:
  assumes "confident x" "find_rule (detected_rule_id x) = Some r"
  shows "\<exists>c. classify x = Returned (Some c) \<and> classified_as x r c"
  using assms confidence_emitted [of "evidence_type r"]
  by (auto simp: classify_def confident_def classified_as_def evidence_new_def Let_def
      MIN_EMIT_CONFIDENCE_def split: option.splits)

lemma kinds_confident: "rule_override x = None \<Longrightarrow> registered (detected_rule_id x)"
  using kind_registered by (simp add: detected_rule_id_def)

lemma classify_all_registered:
  assumes "list_all (\<lambda>x. confident x \<and> registered (detected_rule_id x)) xs"
  shows "\<exists>cs. classify_all xs = Returned cs \<and> list_all2 (\<lambda>x c. \<exists>r \<in> set RULES.
    cr_id r = detected_rule_id x \<and> classified_as x r c) xs cs"
  using assms
proof (induction xs)
  case (Cons x xs)
  obtain cs where cs: "classify_all xs = Returned cs" "list_all2 (\<lambda>x c. \<exists>r \<in> set RULES.
    cr_id r = detected_rule_id x \<and> classified_as x r c) xs cs" using Cons by auto
  obtain r where r: "find_rule (detected_rule_id x) = Some r"
    using Cons.prems find_rule_None [of "detected_rule_id x"] by fastforce
  obtain c where c: "classify x = Returned (Some c)" "classified_as x r c"
    using classify_confident [OF _ r] Cons.prems by auto
  have "r \<in> set RULES" "cr_id r = detected_rule_id x" using r by (simp_all add: find_rule_Some)
  then show ?case using cs c by auto
qed simp

text \<open>
  No defect is lost and none is misfiled: a list of defects whose rules are registered and
  whose confidences are not set below the emission threshold is classified without panic into
  one corruption per defect, in order, each with the category, severity, identifier, field and
  evidence type of its rule and with the place it was found at; and the rule of every kind of
  defect is registered.
\<close>

theorem classify_all_total:
  assumes "list_all (\<lambda>x. confident x \<and> (rule_override x = None \<or> registered (the (rule_override x)))) xs"
  shows "\<exists>cs. classify_all xs = Returned cs \<and> list_all2 (\<lambda>x c. \<exists>r \<in> set RULES.
    cr_id r = detected_rule_id x \<and> classified_as x r c) xs cs"
proof (rule classify_all_registered)
  have "registered (detected_rule_id x)" if "rule_override x = None \<or> registered (the (rule_override x))" for x
    using that kinds_confident [of x] by (auto simp: detected_rule_id_def split: option.split)
  with assms show "list_all (\<lambda>x. confident x \<and> registered (detected_rule_id x)) xs"
    by (auto simp: list_all_iff)
qed

theorem classify_all_total_witness:
  "\<exists>c. classify_all [detected GzCrcBad (stream_location 4 8)] = Returned [c]
    \<and> rule_id c = ''GZ_ICRC_001'' \<and> c_location c = stream_location 4 8"
proof -
  have "list_all (\<lambda>x. confident x \<and> (rule_override x = None \<or> registered (the (rule_override x))))
      [detected GzCrcBad (stream_location 4 8)]"
    by (simp add: detected_def confident_def)
  from classify_all_total [OF this] obtain c r where
    "classify_all [detected GzCrcBad (stream_location 4 8)] = Returned [c]"
    "cr_id r = detected_rule_id (detected GzCrcBad (stream_location 4 8))"
    "classified_as (detected GzCrcBad (stream_location 4 8)) r c"
    by (auto simp: list_all2_Cons1)
  then show ?thesis
    by (auto simp: classified_as_def detected_rule_id_def detected_def kind_rule_id_def)
qed

section \<open>Facts on merging\<close>

definition region_of :: "Corruption \<Rightarrow> nat set" where
  "region_of c = {unat (br_start (the (byte_range c)))..<unat (br_end (the (byte_range c)))}"

definition well_formed_flip :: "Corruption \<Rightarrow> bool" where
  "well_formed_flip c \<longleftrightarrow> is_flip_region c \<and> br_start (the (byte_range c)) \<le> br_end (the (byte_range c))"

definition apart_regions :: "Corruption \<Rightarrow> Corruption \<Rightarrow> bool" where
  "apart_regions a b \<longleftrightarrow> br_end (the (byte_range a)) < br_start (the (byte_range b))"

abbreviation region_start :: "Corruption \<Rightarrow> u64" where
  "region_start c \<equiv> br_start (the (byte_range c))"

lemma merge_into_simps:
  assumes "well_formed_flip p" "well_formed_flip c" "region_start p \<le> region_start c"
    "adjacent_or_overlapping (the (byte_range p)) (the (byte_range c))"
  shows "well_formed_flip (merge_into p (the (byte_range c)) c)"
    "region_start (merge_into p (the (byte_range c)) c) = region_start p"
    "region_of (merge_into p (the (byte_range c)) c) = region_of p \<union> region_of c"
proof -
  show "well_formed_flip (merge_into p (the (byte_range c)) c)"
    "region_start (merge_into p (the (byte_range c)) c) = region_start p"
    using assms by (auto simp: well_formed_flip_def merge_into_def is_flip_region_def Let_def min_def max_def)
  have "unat (region_start c) \<le> unat (br_end (the (byte_range p)))"
    "unat (region_start p) \<le> unat (region_start c)"
    "unat (region_start c) \<le> unat (br_end (the (byte_range c)))"
    using assms by (auto simp: adjacent_or_overlapping_def well_formed_flip_def word_le_nat_alt)
  then show "region_of (merge_into p (the (byte_range c)) c) = region_of p \<union> region_of c"
    by (auto simp: region_of_def merge_into_def Let_def min_def max_def word_le_nat_alt)
qed

lemma merge_loop_spec:
  assumes "sorted (map region_start (prev # cs))" "list_all well_formed_flip (prev # cs)"
  shows "(\<Union>c \<in> set (merge_loop cs prev). region_of c) = (\<Union>c \<in> set (prev # cs). region_of c)
    \<and> list_all (\<lambda>c. well_formed_flip c \<and> region_start prev \<le> region_start c) (merge_loop cs prev)
    \<and> sorted_wrt apart_regions (merge_loop cs prev)"
  using assms
proof (induction cs prev rule: merge_loop.induct)
  case (2 c cs prev)
  have le: "region_start prev \<le> region_start c" using 2(3) by simp
  have wf: "well_formed_flip prev" "well_formed_flip c" using 2(4) by simp_all
  show ?case
  proof (cases "adjacent_or_overlapping (the (byte_range prev)) (the (byte_range c))")
    case True
    note m = merge_into_simps [OF wf le True]
    have "sorted (map region_start (merge_into prev (the (byte_range c)) c # cs))"
      using 2(3) m(2) by simp
    moreover have "list_all well_formed_flip (merge_into prev (the (byte_range c)) c # cs)"
      using 2(4) m(1) by simp
    ultimately show ?thesis using 2(1) [OF refl True] True m by (simp add: Un_assoc)
  next
    case False
    then have gap: "br_end (the (byte_range prev)) < region_start c"
      using le wf(2) by (auto simp: adjacent_or_overlapping_def well_formed_flip_def)
    from 2(2) [OF refl False] 2(3,4)
    have ih: "(\<Union>c \<in> set (merge_loop cs c). region_of c) = (\<Union>c \<in> set (c # cs). region_of c)"
      "list_all (\<lambda>x. well_formed_flip x \<and> region_start c \<le> region_start x) (merge_loop cs c)"
      "sorted_wrt apart_regions (merge_loop cs c)" by auto
    have "apart_regions prev x \<and> region_start prev \<le> region_start x" if "x \<in> set (merge_loop cs c)" for x
      using ih(2) that gap le by (auto simp: list_all_iff apart_regions_def)
    then show ?thesis using False ih wf(1) by (auto simp: list_all_iff)
  qed
qed simp

lemma merge_loop_apart:
  "sorted_wrt apart_regions (prev # cs) \<Longrightarrow> list_all well_formed_flip (prev # cs) \<Longrightarrow>
    merge_loop cs prev = prev # cs"
proof (induction cs prev rule: merge_loop.induct)
  case (2 c cs prev)
  then have "\<not> adjacent_or_overlapping (the (byte_range prev)) (the (byte_range c))"
    by (auto simp: adjacent_or_overlapping_def apart_regions_def)
  with 2 show ?case by simp
qed simp

lemma apart_sorted:
  "sorted_wrt apart_regions cs \<Longrightarrow> list_all well_formed_flip cs \<Longrightarrow> sorted (map region_start cs)"
  by (induction cs) (auto simp: apart_regions_def well_formed_flip_def list_all_iff less_imp_le dest: order.strict_trans1)

lemma merge_flips_spec:
  assumes "sorted (map region_start cs)" "list_all well_formed_flip cs"
  shows "(\<Union>c \<in> set (merge_flips cs). region_of c) = (\<Union>c \<in> set cs. region_of c)"
    "list_all well_formed_flip (merge_flips cs)" "sorted_wrt apart_regions (merge_flips cs)"
proof -
  have "(\<Union>c \<in> set (merge_flips cs). region_of c) = (\<Union>c \<in> set cs. region_of c)
    \<and> list_all well_formed_flip (merge_flips cs) \<and> sorted_wrt apart_regions (merge_flips cs)"
  proof (cases cs)
    case (Cons p ps)
    note sp = merge_loop_spec [OF assms [unfolded Cons]]
    then have "list_all well_formed_flip (merge_loop ps p)" by (simp add: list_all_iff)
    with sp show ?thesis unfolding merge_flips_def Cons list.case by blast
  qed (simp add: merge_flips_def)
  then show "(\<Union>c \<in> set (merge_flips cs). region_of c) = (\<Union>c \<in> set cs. region_of c)"
    "list_all well_formed_flip (merge_flips cs)" "sorted_wrt apart_regions (merge_flips cs)" by blast+
qed

lemma filter_flips_merged:
  assumes "list_all well_formed_flip fs"
  shows "filter is_flip_region (fs @ filter (\<lambda>c. \<not> is_flip_region c) cs) = fs"
    "filter (\<lambda>c. \<not> is_flip_region c) (fs @ filter (\<lambda>c. \<not> is_flip_region c) cs) = filter (\<lambda>c. \<not> is_flip_region c) cs"
  using assms by (auto simp: list_all_iff well_formed_flip_def filter_id_conv filter_empty_conv)

text \<open>
  Merging neighbouring flipped regions keeps the damage: the merged regions cover exactly the
  bytes the regions covered before, are in order and separated by at least one intact byte,
  the other corruptions are untouched and in order, and merging again changes nothing.
\<close>

theorem merge_adjacent_exact:
  assumes "list_all well_formed_flip (filter is_flip_region cs)"
  shows "(\<Union>c \<in> set (filter is_flip_region (merge_adjacent cs)). region_of c)
      = (\<Union>c \<in> set (filter is_flip_region cs). region_of c)
    \<and> sorted_wrt apart_regions (filter is_flip_region (merge_adjacent cs))
    \<and> filter (\<lambda>c. \<not> is_flip_region c) (merge_adjacent cs) = filter (\<lambda>c. \<not> is_flip_region c) cs
    \<and> merge_adjacent (merge_adjacent cs) = merge_adjacent cs"
proof -
  let ?s = "sort_key region_start (filter is_flip_region cs)"
  have "list_all well_formed_flip ?s" "sorted (map region_start ?s)"
    using assms by (simp_all add: list_all_iff)
  note m = merge_flips_spec [OF this(2) this(1)]
  have eq: "merge_adjacent cs = merge_flips ?s @ filter (\<lambda>c. \<not> is_flip_region c) cs"
    by (simp add: merge_adjacent_def)
  note f = filter_flips_merged [OF m(2), of cs, folded eq]
  have "sort_key region_start (merge_flips ?s) = merge_flips ?s"
    using apart_sorted [OF m(3,2)] by (simp add: sort_key_id_if_sorted)
  moreover have "merge_flips (merge_flips ?s) = merge_flips ?s"
    using merge_loop_apart m(2,3) by (cases "merge_flips ?s") (simp_all add: merge_flips_def)
  ultimately have "merge_adjacent (merge_adjacent cs) = merge_adjacent cs"
    unfolding merge_adjacent_def [of "merge_adjacent cs"] f by (simp add: eq)
  with f m show ?thesis by simp
qed

definition flip_example :: "nat \<Rightarrow> nat \<Rightarrow> Corruption" where
  "flip_example a b = synthetic (stream_location a b) BitFlip Minor ''GEN_FLIP_001''
     (Some \<lparr> br_start = of_nat a, br_end = of_nat b \<rparr>)"

theorem merge_adjacent_exact_witness:
  "(\<Union>c \<in> set (filter is_flip_region (merge_adjacent [flip_example 4 8, flip_example 0 5])). region_of c) = {0..<8}"
proof -
  have "list_all well_formed_flip (filter is_flip_region [flip_example 4 8, flip_example 0 5])"
    by (simp add: flip_example_def synthetic_def well_formed_flip_def is_flip_region_def)
  from conjunct1 [OF merge_adjacent_exact [OF this]] show ?thesis
    by (auto simp: flip_example_def synthetic_def is_flip_region_def region_of_def)
qed

end
