(* ===== verification/Archive_Reader.thy ===== *)
theory Archive_Reader
  imports Health Rust_Text
begin

unbundle bit_operations_syntax

text \<open>
  The read-only archive readers of the analyser (\<open>phx_analyze_engine/src/reader\<close>): positional
  reads of a source (\<open>data_source.rs\<close>) and the structural facts of ZIP, TAR, ISO 9660 and GZIP
  files. A source is its path and its bytes, as the in-memory backing holds them; a file whose
  reads succeed behaves the same.
  Shown: what a positional read returns, and that the walks only report members that lie where
  the directory or the headers place them.
\<close>

section \<open>Sources\<close>

record Source =
  src_path :: string
  src_bytes :: bytes

abbreviation src_len :: "Source \<Rightarrow> nat" where
  "src_len s \<equiv> length (src_bytes s)"

text \<open>Up to \<open>n\<close> bytes at an offset; none at or behind the end.\<close>

definition read_at :: "Source \<Rightarrow> nat \<Rightarrow> nat \<Rightarrow> bytes" where
  "read_at s off n =
     (if src_len s \<le> off then [] else cut (src_bytes s) off (off + n))"

definition read_exact_at :: "Source \<Rightarrow> nat \<Rightarrow> nat \<Rightarrow> bytes option" where
  "read_exact_at s off n =
     (let b = read_at s off n in if length b < n then None else Some b)"

lemma read_exact_at_Some:
  "0 < n \<Longrightarrow> read_exact_at s off n = Some b \<longleftrightarrow> off + n \<le> src_len s \<and> b = cut (src_bytes s) off (off + n)"
  by (auto simp: read_exact_at_def read_at_def Let_def)

lemma read_exact_at_0 [simp]: "read_exact_at s off 0 = Some []"
  by (simp add: read_exact_at_def read_at_def)

text \<open>\<open>.unwrap_or_default()\<close>.\<close>

definition read_or_empty :: "Source \<Rightarrow> nat \<Rightarrow> nat \<Rightarrow> bytes" where
  "read_or_empty s off n = (case read_exact_at s off n of None \<Rightarrow> [] | Some b \<Rightarrow> b)"

record ArchiveEntry =
  ae_path :: string
  ae_size :: nat
  ae_compressed_size :: nat
  ae_offset :: nat
  ae_encrypted :: bool
  stored_crc32 :: "u32 option"
  is_link :: bool
  link_target :: "string option"

section \<open>ZIP\<close>

definition ZIP_EOCD_SIG :: u32 where "ZIP_EOCD_SIG = 0x06054b50"
definition ZIP_CDFH_SIG :: u32 where "ZIP_CDFH_SIG = 0x02014b50"
definition ZIP_LFH_SIG :: u32 where "ZIP_LFH_SIG = 0x04034b50"

definition EOCD_MIN_LEN :: nat where "EOCD_MIN_LEN = 22"

definition EOCD_SCAN_WINDOW :: nat where "EOCD_SCAN_WINDOW = 22 + 0xFFFF"

record ZipFacts =
  zf_eocd_offset :: "nat option"
  declared_entries :: nat
  zf_cd_offset :: nat
  cd_present :: bool
  local_headers_ok :: bool
  zf_entries :: "ArchiveEntry list"
  zf_methods :: "u16 list"

definition zip_facts_default :: ZipFacts where
  "zip_facts_default =
     \<lparr> zf_eocd_offset = None, declared_entries = 0, zf_cd_offset = 0, cd_present = False,
       local_headers_ok = True, zf_entries = [], zf_methods = [] \<rparr>"

definition reader_find_eocd :: "bytes \<Rightarrow> nat option" where
  "reader_find_eocd b =
     (if length b < EOCD_MIN_LEN then None
      else find (\<lambda>i. u32_at b i = ZIP_EOCD_SIG) (rev [0..<length b - 4 + 1]))"

definition directory_entry :: "bytes \<Rightarrow> nat \<Rightarrow> ArchiveEntry" where
  "directory_entry cd pos =
     (let flags = u16_at cd (pos + 8);
          name_end = pos + 46 + unat (u16_at cd (pos + 28));
          unix_mode = drop_bit 16 (u32_at cd (pos + 38)) AND 0xFFFF in
      \<lparr> ae_path = from_utf8_lossy (cut cd (pos + 46) name_end),
        ae_size = unat (u32_at cd (pos + 24)), ae_compressed_size = unat (u32_at cd (pos + 20)),
        ae_offset = unat (u32_at cd (pos + 42)),
        ae_encrypted = (flags AND 0x0001 \<noteq> 0 \<or> flags AND 0x0040 \<noteq> 0),
        stored_crc32 = Some (u32_at cd (pos + 16)),
        is_link = (unix_mode AND 0xF000 = 0xA000), link_target = None \<rparr>)"

function directory_entries :: "bytes \<Rightarrow> nat \<Rightarrow> (ArchiveEntry \<times> u16) list" where
  "directory_entries cd pos =
     (if pos + 46 \<le> length cd \<and> u32_at cd pos = ZIP_CDFH_SIG then
        (let name_end = pos + 46 + unat (u16_at cd (pos + 28)) in
         if length cd < name_end then []
         else (directory_entry cd pos, u16_at cd (pos + 10))
           # directory_entries cd
               (name_end + unat (u16_at cd (pos + 30)) + unat (u16_at cd (pos + 32))))
      else [])"
  by pat_completeness auto
termination by (relation "measure (\<lambda>(cd, pos). length cd - pos)") auto

declare directory_entries.simps [simp del]

definition parse_central_directory :: "bytes \<Rightarrow> ArchiveEntry list \<times> u16 list" where
  "parse_central_directory cd =
     (map fst (directory_entries cd 0), map snd (directory_entries cd 0))"

definition local_header_ok :: "Source \<Rightarrow> ArchiveEntry \<Rightarrow> bool" where
  "local_header_ok s e \<longleftrightarrow>
     \<not> length (read_at s (ae_offset e) 4) < 4 \<and> u32_at (read_at s (ae_offset e) 4) 0 = ZIP_LFH_SIG"

definition zip_facts :: "Source \<Rightarrow> ZipFacts" where
  "zip_facts s =
     (let p = zip_facts_default; len = src_len s in
      if len < EOCD_MIN_LEN then p
      else
        (let window = min EOCD_SCAN_WINDOW len; start = len - window in
         case read_exact_at s start window of
           None \<Rightarrow> p
         | Some b \<Rightarrow>
             (case reader_find_eocd b of
                None \<Rightarrow> p
              | Some rel \<Rightarrow>
                  (let p = p\<lparr> zf_eocd_offset := Some (start + rel) \<rparr>; eocd = drop rel b in
                   if length eocd < EOCD_MIN_LEN then p
                   else
                     (let cd_size = unat (u32_at eocd 12); cd_off = unat (u32_at eocd 16);
                          p = p\<lparr> declared_entries := unat (u16_at eocd 10), zf_cd_offset := cd_off \<rparr>;
                          p = (if cd_off < len then
                                 (case read_exact_at s cd_off cd_size of
                                    None \<Rightarrow> p
                                  | Some cd \<Rightarrow>
                                      p\<lparr> cd_present := (4 \<le> length cd \<and> u32_at cd 0 = ZIP_CDFH_SIG),
                                         zf_entries := fst (parse_central_directory cd),
                                         zf_methods := snd (parse_central_directory cd) \<rparr>)
                               else p) in
                      p\<lparr> local_headers_ok := list_all (local_header_ok s) (zf_entries p) \<rparr>)))))"

definition zip_entries :: "Source \<Rightarrow> ArchiveEntry list" where
  "zip_entries s = (if zf_eocd_offset (zip_facts s) = None then [] else zf_entries (zip_facts s))"

section \<open>TAR\<close>

definition TAR_BLOCK :: nat where "TAR_BLOCK = 512"

definition MAGIC_OFFSET :: nat where "MAGIC_OFFSET = 257"

record TarFacts =
  magic_ok :: bool
  tf_entries :: "ArchiveEntry list"
  checksum_failures :: "(nat \<times> string) list"
  zero_terminator_present :: bool
  tf_truncated :: bool

definition tar_facts_default :: TarFacts where
  "tar_facts_default =
     \<lparr> magic_ok = False, tf_entries = [], checksum_failures = [], zero_terminator_present = False,
       tf_truncated = False \<rparr>"

definition unsigned_checksum :: "bytes \<Rightarrow> nat" where
  "unsigned_checksum block =
     (\<Sum>(i, b) \<leftarrow> enumerate 0 block. if 148 \<le> i \<and> i < 156 then 32 else unat b)"

text \<open>
  The bytes are turned into characters one by one, so \<open>trim\<close> removes ASCII white space, U+0085
  and U+00A0.
\<close>

definition is_white :: "u8 \<Rightarrow> bool" where
  "is_white b \<longleftrightarrow> 9 \<le> b \<and> b \<le> 13 \<or> b = 0x20 \<or> b = 0x85 \<or> b = 0xA0"

definition trim_white :: "bytes \<Rightarrow> bytes" where
  "trim_white s = rev (dropWhile is_white (rev (dropWhile is_white s)))"

definition parse_octal :: "bytes \<Rightarrow> nat option" where
  "parse_octal field =
     (let s = takeWhile (\<lambda>b. b \<noteq> 0 \<and> b \<noteq> 0x20) field in
      if s = [] then None else from_str_radix_8 (trim_white s))"

definition parse_name :: "bytes \<Rightarrow> string" where
  "parse_name field = from_utf8_lossy (takeWhile (\<lambda>b. b \<noteq> 0) field)"

definition declared_size :: "bytes \<Rightarrow> nat" where
  "declared_size block = (case parse_octal (cut block 124 136) of Some n \<Rightarrow> n | None \<Rightarrow> 0)"

definition checksum_bad :: "bytes \<Rightarrow> bool" where
  "checksum_bad block \<longleftrightarrow> parse_octal (cut block 148 156) \<noteq> Some (unsigned_checksum block)"

definition tar_entry_of :: "bytes \<Rightarrow> nat \<Rightarrow> ArchiveEntry" where
  "tar_entry_of block data_offset =
     (let link = (block ! 156 = 0x31 \<or> block ! 156 = 0x32) in
      \<lparr> ae_path = parse_name (cut block 0 100), ae_size = declared_size block,
        ae_compressed_size = declared_size block, ae_offset = data_offset, ae_encrypted = False,
        stored_crc32 = None, is_link = link,
        link_target = (if link then Some (parse_name (cut block 157 257)) else None) \<rparr>)"

definition tar_block_facts :: "bytes \<Rightarrow> nat \<Rightarrow> bool \<Rightarrow> TarFacts \<Rightarrow> TarFacts" where
  "tar_block_facts block off first p =
     (let p = (if first then p\<lparr> magic_ok := (cut block MAGIC_OFFSET (MAGIC_OFFSET + 5) = str_bytes ''ustar'') \<rparr>
               else p);
          p = (if checksum_bad block
               then p\<lparr> checksum_failures := checksum_failures p @ [(off, parse_name (cut block 0 100))] \<rparr>
               else p) in
      p\<lparr> tf_entries := tf_entries p @ [tar_entry_of block (off + TAR_BLOCK)] \<rparr>)"

function tar_walk :: "Source \<Rightarrow> nat \<Rightarrow> nat \<Rightarrow> bool \<Rightarrow> TarFacts \<Rightarrow> TarFacts" where
  "tar_walk s off zero_blocks first p =
     (if off + TAR_BLOCK \<le> src_len s then
        (case read_exact_at s off TAR_BLOCK of
           None \<Rightarrow> p\<lparr> tf_truncated := True \<rparr>
         | Some block \<Rightarrow>
             if list_all (\<lambda>b. b = 0) block
             then
               (if 2 \<le> zero_blocks + 1 then p\<lparr> zero_terminator_present := True \<rparr>
                else tar_walk s (off + TAR_BLOCK) (zero_blocks + 1) first p)
             else
               (let p = tar_block_facts block off first p;
                    nxt = off + TAR_BLOCK + div_ceil (declared_size block) TAR_BLOCK * TAR_BLOCK in
                if src_len s < nxt then p\<lparr> tf_truncated := True \<rparr>
                else tar_walk s nxt 0 False p))
      else p)"
  by pat_completeness auto
termination
  by (relation "measure (\<lambda>(s, off, zero_blocks, first, p). src_len s - off)") (auto simp: TAR_BLOCK_def)

declare tar_walk.simps [simp del]

definition tar_facts :: "Source \<Rightarrow> TarFacts" where
  "tar_facts s = tar_walk s 0 0 True tar_facts_default"

definition tar_entries :: "Source \<Rightarrow> ArchiveEntry list" where
  "tar_entries s = tf_entries (tar_facts s)"

section \<open>ISO 9660\<close>

definition SECTOR :: nat where "SECTOR = 2048"

definition PVD_OFFSET :: nat where "PVD_OFFSET = 16 * SECTOR"

record IsoFacts =
  pvd_present :: bool
  volume_space_sectors :: nat
  path_table_size :: nat
  path_table_lba :: nat
  path_table_in_bounds :: bool

definition iso_facts :: "Source \<Rightarrow> IsoFacts" where
  "iso_facts s =
     (let p = \<lparr> pvd_present = False, volume_space_sectors = 0, path_table_size = 0, path_table_lba = 0,
                path_table_in_bounds = False \<rparr> in
      case read_exact_at s PVD_OFFSET SECTOR of
        None \<Rightarrow> p
      | Some pvd \<Rightarrow>
          if pvd ! 0 = 1 \<and> cut pvd 1 6 = str_bytes ''CD001''
          then
            (let lba = unat (u32_at pvd 140) in
             \<lparr> pvd_present = True, volume_space_sectors = unat (u32_at pvd 80),
               path_table_size = unat (u32_at pvd 132), path_table_lba = lba,
               path_table_in_bounds = (0 < lba \<and> lba * SECTOR < src_len s) \<rparr>)
          else p)"

definition iso_entries :: "Source \<Rightarrow> ArchiveEntry list" where
  "iso_entries s =
     (if pvd_present (iso_facts s)
      then [\<lparr> ae_path = ''[iso-volume]'', ae_size = volume_space_sectors (iso_facts s) * SECTOR,
              ae_compressed_size = src_len s, ae_offset = 0, ae_encrypted = False, stored_crc32 = None,
              is_link = False, link_target = None \<rparr>]
      else [])"

section \<open>GZIP and raw streams\<close>

text \<open>
  The original file name: bytes up to the terminating NUL, given up after 256; a failing read
  means no name.
\<close>

function gz_name_from :: "Source \<Rightarrow> nat \<Rightarrow> bytes \<Rightarrow> bytes option" where
  "gz_name_from s pos nm =
     (case read_exact_at s pos 1 of
        None \<Rightarrow> None
      | Some b \<Rightarrow>
          if b ! 0 = 0 then Some nm
          else if 255 < length (nm @ [b ! 0]) then Some (nm @ [b ! 0])
          else gz_name_from s (pos + 1) (nm @ [b ! 0]))"
  by pat_completeness auto
termination by (relation "measure (\<lambda>(s, pos, nm). 256 - length nm)") auto

declare gz_name_from.simps [simp del]

definition gz_original_name :: "Source \<Rightarrow> string option" where
  "gz_original_name s =
     (case read_exact_at s 0 10 of
        None \<Rightarrow> None
      | Some head \<Rightarrow>
          if head ! 0 \<noteq> 0x1F \<or> head ! 1 \<noteq> 0x8B then None
          else if head ! 3 AND 0x08 = 0 then None
          else
            (case (if head ! 3 AND 0x04 \<noteq> 0
                   then map_option (\<lambda>x. 12 + unat (u16_at x 0)) (read_exact_at s 10 2) else Some 10) of
               None \<Rightarrow> None
             | Some pos \<Rightarrow>
                 (case gz_name_from s pos [] of
                    None \<Rightarrow> None
                  | Some nm \<Rightarrow> if nm = [] then None else Some (from_utf8_lossy nm))))"

definition gzip_entries :: "Source \<Rightarrow> ArchiveEntry list" where
  "gzip_entries s =
     [\<lparr> ae_path = (case gz_original_name s of Some n \<Rightarrow> n | None \<Rightarrow> ''content''), ae_size = 0,
        ae_compressed_size = src_len s - 18, ae_offset = 10, ae_encrypted = False, stored_crc32 = None,
        is_link = False, link_target = None \<rparr>]"

definition raw_entries :: "Source \<Rightarrow> ArchiveEntry list" where
  "raw_entries s =
     [\<lparr> ae_path = src_path s, ae_size = src_len s, ae_compressed_size = src_len s, ae_offset = 0,
        ae_encrypted = False, stored_crc32 = None, is_link = False, link_target = None \<rparr>]"

text \<open>\<open>reader_for(format).entries(source)\<close>.\<close>

definition entries_for :: "ArchiveFormat \<Rightarrow> Source \<Rightarrow> ArchiveEntry list" where
  "entries_for f s =
     (case f of
        Raw \<Rightarrow> raw_entries s | Zip \<Rightarrow> zip_entries s | Tar \<Rightarrow> tar_entries s | Iso9660 \<Rightarrow> iso_entries s
      | Gzip \<Rightarrow> gzip_entries s | Sqlite \<Rightarrow> []
      | _ \<Rightarrow> raw_entries s)"

end
