(* ===== verification/Sqlite_Reader.thy ===== *)
theory Sqlite_Reader
  imports Archive_Reader "HOL-Library.Sublist"
begin

text \<open>
  The read-only SQLite reader (\<open>reader/sqlite.rs\<close>): header fields, page geometry, freelist
  bounds, a bounded walk over b-tree page headers, and the companion write-ahead log. The log
  is a file beside the database: absent (\<open>None\<close>), unreadable (\<open>Some None\<close>) or its bytes.
  Shown: the walk reports at most one anomaly per page, and which.
\<close>

definition SQ_MAGIC :: bytes where
  "SQ_MAGIC = str_bytes ''SQLite format 3'' @ [0]"

definition MAX_PAGES_WALK :: nat where "MAX_PAGES_WALK = 512"

definition WAL_MAGIC_LE :: u32 where "WAL_MAGIC_LE = 0x377f0682"
definition WAL_MAGIC_BE :: u32 where "WAL_MAGIC_BE = 0x377f0683"

definition u32_be :: "bytes \<Rightarrow> nat \<Rightarrow> u32" where
  "u32_be b i = u32_at (rev (cut b i (i + 4))) 0"

definition u16_be :: "bytes \<Rightarrow> nat \<Rightarrow> u16" where
  "u16_be b i = u16_at (rev (cut b i (i + 2))) 0"

datatype BtreeErrorKind =
  InvalidPageType u8 | CellCountExceedsCapacity nat nat | CellPtrOutOfBounds nat nat

record BtreePageError =
  page_num :: nat
  page_offset :: nat
  be_kind :: BtreeErrorKind

record SqliteFacts =
  sq_magic_ok :: bool
  page_size_raw :: u16
  page_size :: nat
  page_size_valid :: bool
  declared_pages :: u32
  actual_pages :: "nat option"
  ends_on_page_boundary :: bool
  truncated_before_page2 :: bool
  page_count_matches :: bool
  freelist_trunk :: u32
  freelist_count :: u32
  freelist_trunk_valid :: bool
  freelist_count_valid :: bool
  file_change_counter :: u32
  version_valid_for :: u32
  write_version :: u8
  read_version :: u8
  btree_errors :: "BtreePageError list"
  wal_present :: bool
  wal_magic_ok :: bool
  wal_salt_matches :: bool

definition sqlite_facts_default :: SqliteFacts where
  "sqlite_facts_default =
     \<lparr> sq_magic_ok = False, page_size_raw = 0, page_size = 0, page_size_valid = False,
       declared_pages = 0, actual_pages = None, ends_on_page_boundary = False,
       truncated_before_page2 = False, page_count_matches = False, freelist_trunk = 0,
       freelist_count = 0, freelist_trunk_valid = True, freelist_count_valid = True,
       file_change_counter = 0, version_valid_for = 0, write_version = 0, read_version = 0,
       btree_errors = [], wal_present = False, wal_magic_ok = False, wal_salt_matches = False \<rparr>"

text \<open>A power of two between 512 and 65536.\<close>

definition is_valid_page_size :: "nat \<Rightarrow> bool" where
  "is_valid_page_size ps \<longleftrightarrow> ps \<in> (\<lambda>k. 2 ^ k) ` {9..16}"

section \<open>Pages\<close>

text \<open>The first cell pointer, of at most eight, that leaves the page; a failing read ends the check.\<close>

fun bad_cell_pointer :: "Source \<Rightarrow> nat \<Rightarrow> nat \<Rightarrow> nat list \<Rightarrow> nat option" where
  "bad_cell_pointer s ps base [] = None"
| "bad_cell_pointer s ps base (i # is) =
     (case read_exact_at s (base + i * 2) 2 of
        None \<Rightarrow> None
      | Some b \<Rightarrow>
          (let ptr = unat (u16_be b 0) in
           if ptr = 0 \<or> ps \<le> ptr then Some ptr else bad_cell_pointer s ps base is))"

definition btree_header_offset :: "nat \<Rightarrow> nat \<Rightarrow> nat" where
  "btree_header_offset ps n = (if n = 1 then (n - 1) * ps + 100 else (n - 1) * ps)"

definition page_error :: "Source \<Rightarrow> nat \<Rightarrow> nat \<Rightarrow> bytes \<Rightarrow> BtreeErrorKind option" where
  "page_error s ps n hdr =
     (let ty = hdr ! 0; cells = unat (u16_be hdr 3); max_cells = (ps - 12) div 2 mod 2 ^ 16 in
      if ty \<notin> {2, 5, 10, 13} then Some (InvalidPageType ty)
      else if max_cells < cells then Some (CellCountExceedsCapacity cells ps)
      else
        map_option (\<lambda>ptr. CellPtrOutOfBounds ptr ps)
          (bad_cell_pointer s ps
             (btree_header_offset ps n + (if ty = 2 \<or> ty = 5 then 12 else 8)) [0..<min cells 8]))"

fun walk_btree_from :: "Source \<Rightarrow> nat \<Rightarrow> nat list \<Rightarrow> BtreePageError list" where
  "walk_btree_from s ps [] = []"
| "walk_btree_from s ps (n # ns) =
     (case read_exact_at s (btree_header_offset ps n) 12 of
        None \<Rightarrow> []
      | Some hdr \<Rightarrow>
          (case page_error s ps n hdr of
             None \<Rightarrow> []
           | Some k \<Rightarrow> [\<lparr> page_num = n, page_offset = (n - 1) * ps, be_kind = k \<rparr>])
          @ walk_btree_from s ps ns)"

definition walk_btree_pages :: "Source \<Rightarrow> nat \<Rightarrow> nat \<Rightarrow> BtreePageError list" where
  "walk_btree_pages s ps page_count = walk_btree_from s ps [1..<page_count + 1]"

section \<open>The whole file\<close>

definition header_facts :: "bytes \<Rightarrow> SqliteFacts" where
  "header_facts hdr =
     (let raw = u16_be hdr 16; ps = (if raw = 1 then 65536 else unat raw) in
      sqlite_facts_default\<lparr>
        sq_magic_ok := (cut hdr 0 16 = SQ_MAGIC), page_size_raw := raw, page_size := ps,
        page_size_valid := is_valid_page_size ps, write_version := hdr ! 18, read_version := hdr ! 19,
        file_change_counter := u32_be hdr 24, declared_pages := u32_be hdr 28,
        freelist_trunk := u32_be hdr 32, freelist_count := u32_be hdr 36,
        version_valid_for := u32_be hdr 92 \<rparr>)"

definition page_facts :: "Source \<Rightarrow> SqliteFacts \<Rightarrow> SqliteFacts" where
  "page_facts s p =
     (if page_size_valid p \<and> 0 < page_size p then
        (let ps = page_size p; actual = src_len s div ps in
         p\<lparr> actual_pages := Some actual, ends_on_page_boundary := (src_len s mod ps = 0),
            truncated_before_page2 := (src_len s < ps * 2),
            page_count_matches := (0 < declared_pages p \<and> unat (declared_pages p) = actual),
            freelist_trunk_valid := (freelist_trunk p = 0 \<or> unat (freelist_trunk p) \<le> actual),
            freelist_count_valid := (unat (freelist_count p) \<le> actual),
            btree_errors := walk_btree_pages s ps (min (actual mod 2 ^ 32) MAX_PAGES_WALK) \<rparr>)
      else p\<lparr> truncated_before_page2 := (src_len s < 2048) \<rparr>)"

definition wal_facts :: "bytes option option \<Rightarrow> SqliteFacts \<Rightarrow> SqliteFacts" where
  "wal_facts wal p =
     (case wal of
        None \<Rightarrow> p
      | Some contents \<Rightarrow>
          (let p = p\<lparr> wal_present := True \<rparr> in
           case contents of
             None \<Rightarrow> p
           | Some b \<Rightarrow>
               if length b < 32 then p
               else p\<lparr> wal_magic_ok := (u32_be b 0 = WAL_MAGIC_LE \<or> u32_be b 0 = WAL_MAGIC_BE),
                       wal_salt_matches := (u32_be b 16 = version_valid_for p
                         \<or> u32_be b 16 = file_change_counter p) \<rparr>))"

definition sqlite_facts :: "bytes option option \<Rightarrow> Source \<Rightarrow> SqliteFacts" where
  "sqlite_facts wal s =
     (case read_exact_at s 0 100 of
        None \<Rightarrow> sqlite_facts_default\<lparr> truncated_before_page2 := True \<rparr>
      | Some hdr \<Rightarrow> wal_facts wal (page_facts s (header_facts hdr)))"

text \<open>The path of the log: the database's path with \<open>-wal\<close> appended.\<close>

definition wal_path_for :: "string \<Rightarrow> string" where
  "wal_path_for p = p @ ''-wal''"

section \<open>What the walk reports\<close>

lemma walk_btree_member:
  "x \<in> set (walk_btree_from s ps ns) \<Longrightarrow>
    \<exists>n \<in> set ns. \<exists>hdr. page_num x = n \<and> page_offset x = (n - 1) * ps
      \<and> read_exact_at s (btree_header_offset ps n) 12 = Some hdr \<and> page_error s ps n hdr = Some (be_kind x)"
  by (induction ns) (auto split: option.splits, metis+)

lemma walk_btree_subseq: "subseq (map page_num (walk_btree_from s ps ns)) ns"
  by (induction ns) (auto split: option.splits)

end
