(* ===== verification/Detector.thy ===== *)
theory Detector
  imports Rule_Registry Sqlite_Reader Crc Resync_Gzip
begin

unbundle bit_operations_syntax

text \<open>
  The detector (\<open>corruption/detector.rs\<close>): per format, the defects found in a source, located and
  with the bytes observed. The DEFLATE decoder of the third-party library is a parameter.
\<close>

section \<open>ZIP\<close>

definition ordered_stream :: "nat \<Rightarrow> nat \<Rightarrow> CorruptionLocation" where
  "ordered_stream a b = stream_location (min a b) (max a b)"

definition member_location :: "ArchiveEntry \<Rightarrow> nat \<Rightarrow> nat \<Rightarrow> CorruptionLocation" where
  "member_location e a b = \<lparr> cl_file_path = Some (ae_path e), offset_start = a, offset_end = b \<rparr>"

text \<open>The checksum loop over chunks of at most 64 KiB; a read of nothing means truncation.\<close>

function crc_chunks :: "Source \<Rightarrow> nat \<Rightarrow> nat \<Rightarrow> crc32_acc \<Rightarrow> crc32_acc option" where
  "crc_chunks s cursor remaining acc =
     (if remaining = 0 then Some acc
      else
        (let b = read_at s cursor (min remaining 65536) in
         if b = [] then None
         else crc_chunks s (cursor + length b) (remaining - length b) (crc32_update acc b)))"
  by pat_completeness auto
termination by (relation "measure (\<lambda>(s, cursor, remaining, acc). remaining)") auto

declare crc_chunks.simps [simp del]

definition stored_member_crc :: "Source \<Rightarrow> nat \<Rightarrow> nat \<Rightarrow> (nat \<times> u32) option" where
  "stored_member_crc s lfh_offset sz =
     (case read_exact_at s lfh_offset 30 of
        None \<Rightarrow> None
      | Some header \<Rightarrow>
          (let data_off = lfh_offset + 30 + unat (u16_at header 26) + unat (u16_at header 28) in
           map_option (\<lambda>acc. (data_off, crc32_finalize acc)) (crc_chunks s data_off sz crc32_new)))"

text \<open>Only stored members can be checked without a decoder.\<close>

definition stored_crc_defects :: "Source \<Rightarrow> ArchiveEntry \<Rightarrow> u16 \<Rightarrow> Detected list" where
  "stored_crc_defects s e meth =
     (if meth \<noteq> 0 then []
      else
        (case (stored_crc32 e, stored_member_crc s (ae_offset e) (ae_compressed_size e)) of
           (Some stored_crc, Some (data_off, computed)) \<Rightarrow>
             if computed \<noteq> stored_crc
             then
               [with_detail (Msg ''{}: stored {stored_crc:08x}, computed {computed:08x}''
                    [S (ae_path e), N (unat stored_crc), N (unat computed)])
                  (with_bytes (u32_bytes computed) (Some (u32_bytes stored_crc))
                    (with_range \<lparr> br_start = of_nat data_off, br_end = of_nat (data_off + ae_compressed_size e) \<rparr>
                      (detected ZipCrcMismatch
                        (member_location e data_off (data_off + ae_compressed_size e)))))]
             else []
         | _ \<Rightarrow> []))"

text \<open>
  The size check runs for every method and, when it fails, replaces the checksum check.
\<close>

definition zip_member_defects :: "Source \<Rightarrow> ArchiveEntry \<Rightarrow> u16 \<Rightarrow> Detected list" where
  "zip_member_defects s e meth =
     (case map_option (\<lambda>h. unat (u32_at h 18)) (read_exact_at s (ae_offset e) 22) of
        Some lfh_size \<Rightarrow>
          if lfh_size \<noteq> ae_compressed_size e
          then
            [with_detail (Msg ''{}: LFH compressed_size {lfh_size}, CD says {}''
                 [S (ae_path e), N lfh_size, N (ae_compressed_size e)])
               (with_bytes (u32_bytes (of_nat (ae_compressed_size e))) (Some (u32_bytes (of_nat lfh_size)))
                 (detected ZipSizeMismatch (member_location e (ae_offset e + 18) (ae_offset e + 22))))]
          else stored_crc_defects s e meth
      | None \<Rightarrow> stored_crc_defects s e meth)"

fun zip_members_loop :: "Source \<Rightarrow> nat \<Rightarrow> (ArchiveEntry \<times> u16) list \<Rightarrow> Detected list \<Rightarrow> Detected list" where
  "zip_members_loop s mx [] out = out"
| "zip_members_loop s mx ((e, meth) # r) out =
     (if mx \<le> length out then out else zip_members_loop s mx r (out @ zip_member_defects s e meth))"

text \<open>The directory is unreachable, or zeroed or removed.\<close>

definition zip_directory_defect :: "Source \<Rightarrow> ZipFacts \<Rightarrow> nat \<Rightarrow> Detected" where
  "zip_directory_defect s p eocd =
     (let len = src_len s; cd_off = zf_cd_offset p in
      if len \<le> cd_off
      then with_detail (Msg ''cd_offset {cd_off} >= file size {len}'' [N cd_off, N len])
             (with_confidence (offset_out_of_bounds cd_off len)
               (with_bytes (read_or_empty s (eocd + 16) 4) None
                 (detected ZipEocdCdOffsetOob (ordered_stream cd_off eocd))))
      else with_detail (Msg ''central directory offset {cd_off}'' [N cd_off])
             (with_bytes (read_or_empty s cd_off 4) (Some [0x50, 0x4B, 0x01, 0x02])
               (detected ZipCentralDirectoryMissing (ordered_stream cd_off eocd))))"

definition zip_structure_defects :: "Source \<Rightarrow> ZipFacts \<Rightarrow> nat \<Rightarrow> Detected list" where
  "zip_structure_defects s p eocd =
     (if \<not> cd_present p then [zip_directory_defect s p eocd] else [])
     @ (if cd_present p \<and> declared_entries p \<noteq> length (zf_entries p)
        then [with_detail (Msg ''EOCD declares {}, directory has {}''
                   [N (declared_entries p), N (length (zf_entries p))])
                (detected ZipEntryCountMismatch (ordered_stream (zf_cd_offset p) eocd))]
        else [])
     @ (if \<not> local_headers_ok p
        then (let off = (case zf_entries p of e # _ \<Rightarrow> ae_offset e | [] \<Rightarrow> 0) in
              [with_bytes (read_or_empty s off 4) (Some [0x50, 0x4B, 0x03, 0x04])
                 (detected ZipLocalHeaderMissing (stream_location off (off + 4)))])
        else [])"

definition zip_defects :: "Source \<Rightarrow> ZipFacts \<Rightarrow> bool \<Rightarrow> nat \<Rightarrow> Detected list" where
  "zip_defects s p verify_crc mx =
     (case zf_eocd_offset p of
        None \<Rightarrow>
          [with_bytes [] (Some [0x50, 0x4B, 0x05, 0x06])
             (detected ZipMissingEocd (stream_location 0 (src_len s)))]
      | Some eocd \<Rightarrow>
          (let out = zip_structure_defects s p eocd in
           if verify_crc then zip_members_loop s mx (zip (zf_entries p) (zf_methods p)) out else out))"

section \<open>TAR and ISO 9660\<close>

fun tar_checksum_loop :: "Source \<Rightarrow> nat \<Rightarrow> (nat \<times> string) list \<Rightarrow> Detected list \<Rightarrow> Detected list" where
  "tar_checksum_loop s mx [] out = out"
| "tar_checksum_loop s mx ((off, nm) # r) out =
     (if mx \<le> length out then out
      else tar_checksum_loop s mx r
             (out @ [with_detail (Msg nm [])
                (with_bytes (read_or_empty s (off + 148) 8) None
                  (detected TarHeaderChecksumBad (stream_location off (off + 512))))]))"

definition tar_defects :: "Source \<Rightarrow> TarFacts \<Rightarrow> nat \<Rightarrow> Detected list" where
  "tar_defects s p mx =
     tar_checksum_loop s mx (checksum_failures p) []
     @ (if tf_truncated p then [detected TarTruncated (stream_location 0 0)]
        else if \<not> zero_terminator_present p then [detected TarMissingTerminator (stream_location 0 0)]
        else [])"

definition iso_defects :: "Source \<Rightarrow> IsoFacts \<Rightarrow> Detected list" where
  "iso_defects s p =
     (if \<not> pvd_present p
      then [with_bytes (read_or_empty s 32769 5) (Some (str_bytes ''CD001''))
              (detected IsoMissingPvd (stream_location 0 (src_len s)))]
      else if \<not> path_table_in_bounds p
      then [with_detail (Msg ''path-table LBA {}'' [N (path_table_lba p)])
              (with_confidence (offset_out_of_bounds (path_table_lba p * 2048) (src_len s))
                (with_bytes (read_or_empty s (16 * 2048 + 140) 4) None
                  (detected IsoPathTableOutOfBounds (stream_location 0 (src_len s)))))]
      else [])"

section \<open>Signatures\<close>

definition magic_defect :: "Source \<Rightarrow> bytes \<Rightarrow> string \<Rightarrow> Detected list" where
  "magic_defect s magic rule =
     (let actual = read_or_empty s 0 (length magic) in
      if actual \<noteq> magic
      then [with_detail (Msg ''format signature is damaged or missing'' [])
              (with_bytes actual (Some magic)
                (with_rule rule (detected ReferenceDiff (stream_location 0 (length magic)))))]
      else [])"

definition has_window :: "bytes \<Rightarrow> bytes \<Rightarrow> bool" where
  "has_window w tail \<longleftrightarrow> list_ex (\<lambda>i. cut tail i (i + length w) = w) [0..<length tail + 1 - length w]"

definition pdf_stub_defects :: "Source \<Rightarrow> Detected list" where
  "pdf_stub_defects s =
     magic_defect s (str_bytes ''%PDF-'') ''PDF_HDR_001''
     @ (let tail_len = min (src_len s) 1024; start = src_len s - tail_len;
            tail = read_or_empty s start tail_len in
        if \<not> has_window (str_bytes ''%%EOF'') tail
        then [with_detail (Msg ''PDF end-of-file marker is missing'' [])
                (with_bytes (drop (length tail - 5) tail) (Some (str_bytes ''%%EOF''))
                  (with_rule ''PDF_EOF_001'' (detected ReferenceDiff (stream_location start (src_len s)))))]
        else [])"

definition SEVENZ_SIG :: bytes where "SEVENZ_SIG = [0x37, 0x7A, 0xBC, 0xAF, 0x27, 0x1C]"

text \<open>
  The test adds with \<open>checked_add\<close>; the message adds \<open>32 + next_off\<close> without a check, which panics where
  overflow is checked.
\<close>

definition sevenz_defects :: "Source \<Rightarrow> Detected list outcome" where
  "sevenz_defects s =
     (let head = read_or_empty s 0 (min (src_len s) 32);
          sig = (case get_range head 0 6 of None \<Rightarrow> [] | Some x \<Rightarrow> x) in
      if sig \<noteq> SEVENZ_SIG
      then Returned [with_detail (Msg ''7z signature should be 37 7A BC AF 27 1C'' [])
              (with_bytes sig (Some SEVENZ_SIG) (detected SevenZMagicBad (stream_location 0 6)))]
      else if length head < 32 then Returned []
      else
        (let stored = u32_at head 8; computed = crc32 (cut head 12 32) in
         if stored \<noteq> computed
         then Returned [with_detail (Msg ''7z Start Header CRC32 0x{stored:08X}; computed 0x{computed:08X}''
                    [N (unat stored), N (unat computed)])
                 (with_bytes (cut head 8 12) (Some (u32_bytes computed))
                   (detected SevenZStartHeaderCrcBad (stream_location 8 12)))]
         else
           (let next_off = unat (u64_at head 12); next_size = unat (u64_at head 20);
                truncated = (2 ^ 64 \<le> 32 + next_off + next_size \<or> src_len s < 32 + next_off + next_size) in
            if truncated \<and> 0 < next_size
            then (if 2 ^ 64 \<le> 32 + next_off then Panicked
                  else Returned [with_detail (Msg ''7z end header at offset {} size {} exceeds file size {}''
                       [N (32 + next_off), N next_size, N (src_len s)])
                    (detected SevenZEndHeaderOob (stream_location 12 28))])
            else Returned [])))"

definition RAR_PREFIX :: bytes where "RAR_PREFIX = [0x52, 0x61, 0x72, 0x21, 0x1A, 0x07]"

definition rar_defects :: "Source \<Rightarrow> Detected list" where
  "rar_defects s =
     (let head = read_or_empty s 0 (min (src_len s) 8);
          ok = (7 \<le> length head \<and> cut head 0 6 = RAR_PREFIX
            \<and> (head ! 6 = 0 \<or> head ! 6 = 1 \<and> 8 \<le> length head \<and> head ! 7 = 0)) in
      if \<not> ok
      then [with_detail (Msg ''RAR signature should be 52 61 72 21 1A 07 00 (RAR4) or ..01 00 (RAR5)'' [])
              (with_bytes (take 8 head) (Some [0x52, 0x61, 0x72, 0x21, 0x1A, 0x07, 0x00])
                (detected RarMagicBad (stream_location 0 7)))]
      else [])"

section \<open>GZIP\<close>

definition GZ_MIN_SIZE :: nat where "GZ_MIN_SIZE = 18"

definition GZ_DECOMP_CAP :: nat where "GZ_DECOMP_CAP = 64 * 1024 * 1024"

text \<open>Past a zero-terminated field.\<close>

definition past_field :: "bytes \<Rightarrow> nat \<Rightarrow> nat" where
  "past_field d pos = pos + length (takeWhile (\<lambda>b. b \<noteq> 0) (drop pos d)) + 1"

definition detector_body_start :: "bytes \<Rightarrow> nat" where
  "detector_body_start d =
     (if length d < 10 then length d
      else
        (let flags = d ! 3 in
         if flags AND 0x04 \<noteq> 0 \<and> length d < 12 then length d
         else
           (let pos = (if flags AND 0x04 \<noteq> 0 then 12 + unat (u16_at d 10) else 10);
                pos = (if flags AND 0x08 \<noteq> 0 then past_field d pos else pos);
                pos = (if flags AND 0x10 \<noteq> 0 then past_field d pos else pos);
                pos = (if flags AND 0x02 \<noteq> 0 then pos + 2 else pos) in
            min pos (length d))))"

definition gz_header_defects :: "bytes \<Rightarrow> Detected list" where
  "gz_header_defects d =
     (if \<not> (2 \<le> length d \<and> d ! 0 = 0x1F \<and> d ! 1 = 0x8B)
      then [with_detail (Msg ''magic bytes should be 1F 8B'' [])
              (with_bytes (case get_range d 0 2 of None \<Rightarrow> [] | Some x \<Rightarrow> x) (Some [0x1F, 0x8B])
                (detected GzMagicBad (stream_location 0 2)))]
      else [])"

definition gz_trailer_defects :: "bytes \<Rightarrow> u32 \<Rightarrow> u32 \<Rightarrow> nat \<Rightarrow> Detected list" where
  "gz_trailer_defects plain stored_crc stored_isize len =
     (let actual_crc = crc32 plain; actual_isize = (of_nat (length plain) :: u32) in
      (if actual_crc \<noteq> stored_crc
       then [with_detail (Msg ''trailer CRC32 0x{stored_crc32:08X}; computed 0x{actual_crc:08X}''
                  [N (unat stored_crc), N (unat actual_crc)])
               (with_bytes (u32_bytes stored_crc) (Some (u32_bytes actual_crc))
                 (detected GzCrcBad (stream_location (len - 8) (len - 4))))]
       else [])
      @ (if actual_isize \<noteq> stored_isize
         then [with_detail (Msg ''trailer ISIZE {stored_isize}; decompressed size {}''
                    [N (unat stored_isize), N (length plain)])
                 (with_bytes (u32_bytes stored_isize) (Some (u32_bytes actual_isize))
                   (detected GzIsizeBad (stream_location (len - 4) len)))]
         else []))"

definition gz_body_defects :: "inflater \<Rightarrow> bytes \<Rightarrow> Detected list \<Rightarrow> Detected list" where
  "gz_body_defects dec d out =
     (let len = length d; body_start = detector_body_start d; trailer_start = len - 8 in
      if trailer_start \<le> body_start
      then out @ (if out = []
                  then [with_detail (Msg ''DEFLATE body region is empty or overlaps trailer'' [])
                          (detected GzTruncated (stream_location body_start len))]
                  else [])
      else
        (let body = cut d body_start trailer_start;
             plain = take GZ_DECOMP_CAP (concat (inf_chunks dec body)) in
         if inf_error dec body \<noteq> None
         then out @ (if out = []
                     then [with_detail (Msg ''{} bytes decompressed before stream error'' [N (length plain)])
                             (detected GzTruncated (stream_location body_start len))]
                     else [])
         else out @ gz_trailer_defects plain (u32_at d trailer_start) (u32_at d (trailer_start + 4)) len))"

definition gz_defects :: "inflater \<Rightarrow> Source \<Rightarrow> Detected list" where
  "gz_defects dec s =
     (let len = src_len s; d = src_bytes s in
      if len < GZ_MIN_SIZE
      then [with_detail (Msg ''file is only {len} bytes; minimum GZIP is {GZ_MIN_SIZE}'' [N len, N GZ_MIN_SIZE])
              (with_bytes (read_or_empty s 0 (min len 10)) None
                (detected GzTruncated (stream_location 0 len)))]
      else
        (let out = gz_header_defects d in
         if 3 \<le> length d \<and> d ! 2 \<noteq> 8
         then out @ [with_detail (Msg ''CM byte is 0x{:02X}; only DEFLATE (0x08) is supported'' [N (unat (d ! 2))])
                       (with_bytes [d ! 2] (Some [8]) (detected GzCompressionMethodBad (stream_location 2 3)))]
         else gz_body_defects dec d out))"

section \<open>SQLite\<close>

definition u32_be_bytes :: "u32 \<Rightarrow> bytes" where "u32_be_bytes w = rev (u32_bytes w)"

text \<open>A finding that is pushed when its condition holds and the cap leaves room.\<close>

definition push_if :: "nat \<Rightarrow> bool \<Rightarrow> Detected \<Rightarrow> Detected list \<Rightarrow> Detected list" where
  "push_if mx b x out = (if length out < mx \<and> b then out @ [x] else out)"

definition btree_defect :: "nat \<Rightarrow> BtreePageError \<Rightarrow> Detected" where
  "btree_defect ps e =
     (case (case be_kind e of
              InvalidPageType t \<Rightarrow>
                (SqBtreePageTypeBad, Msg ''page {}: type byte 0x{:02X} not in {{2,5,10,13}}'' [N (page_num e), N (unat t)])
            | CellCountExceedsCapacity c q \<Rightarrow>
                (SqBtreeCellCountBad, Msg ''page {}: cell_count {} exceeds capacity for page_size {}'' [N (page_num e), N c, N q])
            | CellPtrOutOfBounds ptr q \<Rightarrow>
                (SqBtreeCellPtrBad, Msg ''page {}: cell_ptr 0x{:04X} >= page_size {}'' [N (page_num e), N ptr, N q])) of
        (kind, detail) \<Rightarrow>
          with_detail detail (detected kind (stream_location (page_offset e) (page_offset e + ps))))"

fun btree_defects_loop :: "nat \<Rightarrow> nat \<Rightarrow> BtreePageError list \<Rightarrow> Detected list \<Rightarrow> Detected list" where
  "btree_defects_loop mx ps [] out = out"
| "btree_defects_loop mx ps (e # es) out =
     (if mx \<le> length out then out else btree_defects_loop mx ps es (out @ [btree_defect ps e]))"

definition sqlite_page_count_defect :: "Source \<Rightarrow> SqliteFacts \<Rightarrow> nat \<Rightarrow> Detected list \<Rightarrow> Detected list" where
  "sqlite_page_count_defect s p mx out =
     (case actual_pages p of
        None \<Rightarrow> out
      | Some actual \<Rightarrow>
          push_if mx (\<not> page_count_matches p \<and> 0 < declared_pages p)
            (with_detail (Msg ''declared {} pages but file holds {} ({} bytes, page_size {})''
                 [N (unat (declared_pages p)), N actual, N (src_len s), N (page_size p)])
              (with_bytes (u32_be_bytes (declared_pages p)) None
                (detected SqPageSizeMismatch (stream_location 28 32)))) out)"

definition sqlite_late_defects :: "Source \<Rightarrow> SqliteFacts \<Rightarrow> nat \<Rightarrow> Detected list \<Rightarrow> Detected list" where
  "sqlite_late_defects s p mx out =
     (let ap = (case actual_pages p of None \<Rightarrow> 0 | Some a \<Rightarrow> a);
          out = push_if mx (\<not> ends_on_page_boundary p \<and> \<not> truncated_before_page2 p)
            (with_detail (Msg ''file {} bytes is not a multiple of page_size {}'' [N (src_len s), N (page_size p)])
              (detected SqTruncatedMidPage (stream_location 0 (src_len s)))) out;
          out = push_if mx (\<not> freelist_trunk_valid p)
            (with_detail (Msg ''freelist trunk page {} > actual page count {}'' [N (unat (freelist_trunk p)), N ap])
              (with_bytes (u32_be_bytes (freelist_trunk p)) None
                (detected SqFreelistTrunkBad (stream_location 32 36)))) out;
          out = push_if mx (\<not> freelist_count_valid p)
            (with_detail (Msg ''freelist count {} > actual page count {}'' [N (unat (freelist_count p)), N ap])
              (with_bytes (u32_be_bytes (freelist_count p)) None
                (detected SqFreelistCountBad (stream_location 36 40)))) out;
          out = push_if mx (write_version p = 1 \<and> file_change_counter p \<noteq> version_valid_for p)
            (with_detail (Msg ''file_change_counter {} != version_valid_for {}''
                 [N (unat (file_change_counter p)), N (unat (version_valid_for p))])
              (with_bytes (u32_be_bytes (version_valid_for p)) (Some (u32_be_bytes (file_change_counter p)))
                (detected SqFileChangeCounter (stream_location 24 28)))) out;
          out = btree_defects_loop mx (page_size p) (btree_errors p) out;
          out = push_if mx (wal_present p \<and> \<not> wal_magic_ok p)
            (with_detail (Msg ''WAL file magic is not 0x377F0682 or 0x377F0683'' [])
              (detected SqWalMagicBad (stream_location 0 4))) out in
      push_if mx (wal_present p \<and> wal_magic_ok p \<and> \<not> wal_salt_matches p)
        (with_detail (Msg ''WAL salt-1 does not match database version_valid_for'' [])
          (detected SqWalSaltMismatch (stream_location 16 20))) out)"

definition sqlite_defects :: "Source \<Rightarrow> SqliteFacts \<Rightarrow> nat \<Rightarrow> Detected list" where
  "sqlite_defects s p mx =
     (if mx \<le> 0 then []
      else if \<not> sq_magic_ok p
      then [with_detail (Msg ''SQLite header magic mismatch'' [])
              (with_bytes [] (Some SQ_MAGIC) (detected SqMagicBad (stream_location 0 16)))]
      else if \<not> page_size_valid p
      then [with_detail (Msg ''page_size {} is not a power of two in [512, 65536]'' [N (page_size p)])
              (with_bytes (rev (u16_bytes (page_size_raw p))) None
                (detected SqPageSizeBad (stream_location 16 18)))]
      else
        (let out = sqlite_page_count_defect s p mx [] in
         if length out < mx \<and> truncated_before_page2 p
         then out @ [with_detail (Msg ''file {} bytes; need at least {} for two pages''
                         [N (src_len s), N (page_size p * 2)])
                       (detected SqTruncatedBeforePage2 (stream_location 0 (src_len s)))]
         else sqlite_late_defects s p mx out))"

section \<open>Every format\<close>

definition format_defects ::
  "inflater \<Rightarrow> bytes option option \<Rightarrow> Source \<Rightarrow> ArchiveFormat \<Rightarrow> bool \<Rightarrow> nat \<Rightarrow> Detected list outcome" where
  "format_defects dec wal s f verify mx =
     (case f of
        Zip \<Rightarrow> Returned (zip_defects s (zip_facts s) verify mx)
      | Tar \<Rightarrow> Returned (tar_defects s (tar_facts s) mx)
      | Iso9660 \<Rightarrow> Returned (iso_defects s (iso_facts s))
      | Gzip \<Rightarrow> Returned (gz_defects dec s)
      | Sqlite \<Rightarrow> Returned (sqlite_defects s (sqlite_facts wal s) mx)
      | SevenZ \<Rightarrow> sevenz_defects s
      | Rar \<Rightarrow> Returned (rar_defects s)
      | Pdf \<Rightarrow> Returned (pdf_stub_defects s)
      | Bzip2 \<Rightarrow> Returned (magic_defect s (str_bytes ''BZh'') ''BZ2_MAGIC_001'')
      | Xz \<Rightarrow> Returned (magic_defect s ([0xFD] @ str_bytes ''7zXZ'' @ [0]) ''XZ_MAGIC_001'')
      | Zstd \<Rightarrow> Returned (magic_defect s [0x28, 0xB5, 0x2F, 0xFD] ''ZST_MAGIC_001'')
      | Lz4 \<Rightarrow> Returned (magic_defect s [0x04, 0x22, 0x4D, 0x18] ''LZ4_MAGIC_001'')
      | Raw \<Rightarrow> Returned [])"

definition manifest_defect :: "Source \<Rightarrow> IntegrityResult \<Rightarrow> string \<Rightarrow> Detected" where
  "manifest_defect s integrity expected =
     with_detail (Msg ''expected {expected}, computed {}'' [S expected, S (actual_hash integrity)])
       (with_bytes (str_bytes (actual_hash integrity)) (Some (str_bytes expected))
         (detected ManifestHashMismatch (stream_location 0 (src_len s))))"

text \<open>The findings, cut at the cap, and whether the cap was reached.\<close>

definition detect_defects ::
  "inflater \<Rightarrow> bytes option option \<Rightarrow> Source \<Rightarrow> ArchiveFormat \<Rightarrow> IntegrityResult \<Rightarrow> bool \<Rightarrow> nat
    \<Rightarrow> (Detected list \<times> bool) outcome" where
  "detect_defects dec wal s f integrity verify mx =
     bind_outcome (format_defects dec wal s f verify mx) (\<lambda>out.
       let out = (case expected_hash integrity of
                    Some expected \<Rightarrow>
                      push_if mx (manifest_present integrity \<and> \<not> matches integrity)
                        (manifest_defect s integrity expected) out
                  | None \<Rightarrow> out) in
       Returned (take mx out, mx \<le> length out))"

record ScanResult =
  sr_corruptions :: "Corruption list"
  capped :: bool
  low_confidence_dropped :: nat

definition scan_source ::
  "inflater \<Rightarrow> bytes option option \<Rightarrow> Source \<Rightarrow> ArchiveFormat \<Rightarrow> IntegrityResult \<Rightarrow> bool \<Rightarrow> nat
    \<Rightarrow> ScanResult outcome" where
  "scan_source dec wal s f integrity verify mx =
     bind_outcome (detect_defects dec wal s f integrity verify mx) (\<lambda>(found, hit).
       bind_outcome (classify_all found) (\<lambda>cs.
         Returned \<lparr> sr_corruptions = merge_adjacent cs, capped = hit,
                    low_confidence_dropped = length found - length cs \<rparr>))"

end
