(* ===== verification/Detector_Safety.thy ===== *)
theory Detector_Safety
  imports Detector
begin

text \<open>
  The scan as a whole: whatever the source, every finding has a registered rule, a confidence
  above the emission threshold and an ordered location, so that classification neither panics
  nor drops a finding, and the cap bounds the report.
\<close>

section \<open>Sound findings\<close>

definition sound_finding :: "Detected \<Rightarrow> bool" where
  "sound_finding x \<longleftrightarrow> confident x \<and> registered (detected_rule_id x)
     \<and> offset_start (dt_location x) \<le> offset_end (dt_location x)"

lemma sound_detected [simp]: "sound_finding (detected k loc) \<longleftrightarrow> offset_start loc \<le> offset_end loc"
  using kind_registered by (simp add: sound_finding_def detected_def confident_def detected_rule_id_def)

lemma sound_builders [simp]:
  "sound_finding (with_range r x) \<longleftrightarrow> sound_finding x"
  "sound_finding (with_detail m x) \<longleftrightarrow> sound_finding x"
  "sound_finding (with_bytes a e x) \<longleftrightarrow> sound_finding x"
  "sound_finding x \<Longrightarrow> MIN_EMIT_CONFIDENCE \<le> c \<Longrightarrow> sound_finding (with_confidence c x)"
  "sound_finding x \<Longrightarrow> registered i \<Longrightarrow> sound_finding (with_rule i x)"
  by (auto simp: sound_finding_def confident_def detected_rule_id_def with_range_def with_detail_def
      with_bytes_def with_confidence_def with_rule_def split: option.splits)

lemma min_le_max [simp]: "min a b \<le> max a (b :: nat)"
  by (simp add: min_def max_def)

lemma location_bounds [simp]:
  "offset_start (stream_location a b) = a" "offset_end (stream_location a b) = b"
  "offset_start (ordered_stream a b) = min a b" "offset_end (ordered_stream a b) = max a b"
  "offset_start (member_location e a b) = a" "offset_end (member_location e a b) = b"
  by (simp_all add: stream_location_def ordered_stream_def member_location_def)

lemma offset_confidence [simp]: "MIN_EMIT_CONFIDENCE \<le> offset_out_of_bounds a b"
  by (simp add: MIN_EMIT_CONFIDENCE_def offset_out_of_bounds_def)

lemma stream_rules_registered [simp]:
  "registered ''PDF_HDR_001''" "registered ''PDF_EOF_001''" "registered ''BZ2_MAGIC_001''"
  "registered ''XZ_MAGIC_001''" "registered ''ZST_MAGIC_001''" "registered ''LZ4_MAGIC_001''"
  by (simp_all add: registered_def rule_id_list del: set_map)

section \<open>Every detector is sound\<close>

lemma sound_magic: "registered rule \<Longrightarrow> list_all sound_finding (magic_defect s magic rule)"
  by (simp add: magic_defect_def Let_def)

lemma sound_member: "list_all sound_finding (zip_member_defects s e meth)"
  by (simp add: zip_member_defects_def stored_crc_defects_def split: option.split)

lemma sound_zip_loop: "list_all sound_finding out \<Longrightarrow> list_all sound_finding (zip_members_loop s mx r out)"
  by (induction s mx r out rule: zip_members_loop.induct) (simp_all add: sound_member)

lemma sound_zip: "list_all sound_finding (zip_defects s p verify mx)"
proof -
  have "list_all sound_finding (zip_structure_defects s p eocd)" for eocd
    by (simp add: zip_structure_defects_def zip_directory_defect_def Let_def)
  then show ?thesis by (simp add: zip_defects_def Let_def sound_zip_loop split: option.split)
qed

lemma sound_tar: "list_all sound_finding (tar_defects s p mx)"
proof -
  have "list_all sound_finding out \<Longrightarrow> list_all sound_finding (tar_checksum_loop s mx r out)" for r out
    by (induction s mx r out rule: tar_checksum_loop.induct) simp_all
  then show ?thesis by (simp add: tar_defects_def)
qed

lemma sound_iso: "list_all sound_finding (iso_defects s p)"
  by (simp add: iso_defects_def)

lemma sound_gz: "list_all sound_finding (gz_defects dec s)"
proof -
  have "list_all sound_finding (gz_header_defects d)" for d by (simp add: gz_header_defects_def)
  moreover have "list_all sound_finding (gz_body_defects dec d out)" if "list_all sound_finding out" for d out
  proof -
    have "detector_body_start d \<le> length d" by (simp add: detector_body_start_def Let_def)
    with that show ?thesis by (simp add: gz_body_defects_def gz_trailer_defects_def Let_def diff_le_mono2)
  qed
  ultimately show ?thesis by (simp add: gz_defects_def Let_def)
qed

lemma sound_push_if: "list_all sound_finding out \<Longrightarrow> sound_finding x \<Longrightarrow> list_all sound_finding (push_if mx b x out)"
  by (simp add: push_if_def)

lemma sound_btree_loop:
  "list_all sound_finding out \<Longrightarrow> list_all sound_finding (btree_defects_loop mx ps es out)"
proof (induction mx ps es out rule: btree_defects_loop.induct)
  case (2 mx ps e es out)
  have "sound_finding (btree_defect ps e)" by (simp add: btree_defect_def split: BtreeErrorKind.split)
  with 2 show ?case by simp
qed simp

lemma sound_sqlite: "list_all sound_finding (sqlite_defects s p mx)"
proof -
  have "list_all sound_finding (sqlite_late_defects s p mx out)" if "list_all sound_finding out" for out
    using that unfolding sqlite_late_defects_def Let_def by (intro sound_push_if sound_btree_loop) simp_all
  moreover have "list_all sound_finding (sqlite_page_count_defect s p mx [])"
    by (simp add: sqlite_page_count_defect_def sound_push_if split: option.split)
  ultimately show ?thesis by (simp add: sqlite_defects_def Let_def)
qed

lemma sound_streams:
  "list_all sound_finding (rar_defects s)" "list_all sound_finding (pdf_stub_defects s)"
  by (simp_all add: rar_defects_def pdf_stub_defects_def sound_magic Let_def)

text \<open>
  The one place where a scan can overflow: a 7z start header that passes its own checksum and puts
  a non-empty end header within 32 bytes of the 64-bit limit.
\<close>

definition sevenz_overflow :: "Source \<Rightarrow> bool" where
  "sevenz_overflow s \<longleftrightarrow>
     (let head = read_or_empty s 0 (min (src_len s) 32) in
      get_range head 0 6 = Some SEVENZ_SIG \<and> length head = 32 \<and> u32_at head 8 = crc32 (cut head 12 32)
      \<and> 0 < unat (u64_at head 20) \<and> 2 ^ 64 \<le> 32 + unat (u64_at head 12))"

lemma sevenz_cases:
  "if sevenz_overflow s then sevenz_defects s = Panicked
   else \<exists>out. sevenz_defects s = Returned out \<and> list_all sound_finding out"
proof -
  define head where "head = read_or_empty s 0 (min (src_len s) 32)"
  have short: "\<not> length head < 32 \<longleftrightarrow> length head = 32"
    unfolding head_def by (auto simp: read_or_empty_def read_exact_at_def read_at_def cut_def Let_def split: option.split)
  have sig: "(case get_range head 0 6 of None \<Rightarrow> [] | Some x \<Rightarrow> x) = SEVENZ_SIG \<longleftrightarrow> get_range head 0 6 = Some SEVENZ_SIG"
    by (simp add: SEVENZ_SIG_def split: option.split)
  show ?thesis
    unfolding sevenz_overflow_def sevenz_defects_def head_def [symmetric] Let_def sig using short by auto
qed

definition scan_overflow :: "Source \<Rightarrow> ArchiveFormat \<Rightarrow> bool" where
  "scan_overflow s f \<longleftrightarrow> f = SevenZ \<and> sevenz_overflow s"

lemma sound_format:
  "if scan_overflow s f then format_defects dec wal s f verify mx = Panicked
   else \<exists>out. format_defects dec wal s f verify mx = Returned out \<and> list_all sound_finding out"
  using sevenz_cases [of s]
  by (cases f) (simp_all add: scan_overflow_def format_defects_def sound_zip sound_tar sound_iso sound_gz sound_sqlite
      sound_streams sound_magic)

lemma sound_all:
  "if scan_overflow s f then detect_defects dec wal s f integrity verify mx = Panicked
   else \<exists>found hit. detect_defects dec wal s f integrity verify mx = Returned (found, hit)
     \<and> list_all sound_finding found \<and> length found \<le> mx"
proof (cases "scan_overflow s f")
  case True
  then show ?thesis using sound_format [of s f dec wal verify mx] by (simp add: detect_defects_def)
next
  case False
  then obtain out where out: "format_defects dec wal s f verify mx = Returned out" "list_all sound_finding out"
    using sound_format [of s f dec wal verify mx] by auto
  have "sound_finding (manifest_defect s integrity e)" for e by (simp add: manifest_defect_def)
  then have "list_all sound_finding
      (case expected_hash integrity of
         Some e \<Rightarrow> push_if mx (manifest_present integrity \<and> \<not> matches integrity) (manifest_defect s integrity e) out
       | None \<Rightarrow> out)"
    using out(2) by (simp add: sound_push_if split: option.split)
  then show ?thesis
    using False out(1) by (auto simp: detect_defects_def Let_def list_all_iff dest: in_set_takeD)
qed

lemma merge_loop_length: "length (merge_loop cs p) \<le> length cs + 1"
  by (induction cs p rule: merge_loop.induct) (auto simp: Let_def le_SucI)

lemma merge_adjacent_length: "length (merge_adjacent cs) \<le> length cs"
proof -
  have "length (merge_flips xs) \<le> length xs" for xs
    using merge_loop_length by (cases xs) (simp_all add: merge_flips_def)
  then have "length (merge_adjacent cs) \<le> length (filter is_flip_region cs) + length (filter (\<lambda>c. \<not> is_flip_region c) cs)"
    by (simp add: merge_adjacent_def) (metis length_sort)
  then show ?thesis using sum_length_filter_compl [of is_flip_region cs] by simp
qed

lemma scan_source_total:
  "if scan_overflow s f then scan_source dec wal s f integrity verify mx = Panicked
   else \<exists>res found hit cs. detect_defects dec wal s f integrity verify mx = Returned (found, hit)
     \<and> scan_source dec wal s f integrity verify mx = Returned res
     \<and> low_confidence_dropped res = 0 \<and> length (sr_corruptions res) \<le> mx
     \<and> list_all sound_finding found \<and> sr_corruptions res = merge_adjacent cs
     \<and> list_all2 (\<lambda>x c. \<exists>r \<in> set RULES. cr_id r = detected_rule_id x \<and> classified_as x r c) found cs"
proof (cases "scan_overflow s f")
  case True
  then show ?thesis using sound_all [of s f dec wal integrity verify mx] by (simp add: scan_source_def)
next
  case False
  then obtain found hit where d: "detect_defects dec wal s f integrity verify mx = Returned (found, hit)"
    and sound: "list_all sound_finding found" and len: "length found \<le> mx"
    using sound_all [of s f dec wal integrity verify mx] by auto
  have "list_all (\<lambda>x. confident x \<and> registered (detected_rule_id x)) found"
    using sound by (auto simp: list_all_iff sound_finding_def)
  from classify_all_registered [OF this] obtain cs where cs: "classify_all found = Returned cs"
    "list_all2 (\<lambda>x c. \<exists>r \<in> set RULES. cr_id r = detected_rule_id x \<and> classified_as x r c) found cs" by blast
  have same: "length cs = length found" using cs(2) by (simp add: list_all2_lengthD)
  then have "length (merge_adjacent cs) \<le> mx" using merge_adjacent_length [of cs] len by simp
  then show ?thesis using False d cs sound same by (auto simp: scan_source_def)
qed

text \<open>
  The corruption scan is complete, and total but for one addition: on any source, for any format, manifest
  verdict and cap, it panics exactly on a 7z source whose start header makes the end header's
  position overflow, and otherwise returns, drops no finding for low confidence and reports at
  most as many corruptions as the cap; every finding has an ordered location and is classified by
  the registered rule it names.
\<close>

theorem corruption_scan_total:
  "if scan_overflow s f then scan_source dec wal s f integrity verify mx = Panicked
   else \<exists>res found hit cs. detect_defects dec wal s f integrity verify mx = Returned (found, hit)
     \<and> scan_source dec wal s f integrity verify mx = Returned res
     \<and> low_confidence_dropped res = 0 \<and> length (sr_corruptions res) \<le> mx
     \<and> list_all sound_finding found \<and> sr_corruptions res = merge_adjacent cs
     \<and> list_all2 (\<lambda>x c. \<exists>r \<in> set RULES. cr_id r = detected_rule_id x \<and> classified_as x r c) found cs"
  by (rule scan_source_total)

end
