(* ===== verification/Detector_Zip.thy ===== *)
theory Detector_Zip
  imports Detector_Safety Opc_Intact
begin

unbundle bit_operations_syntax

text \<open>
  The ZIP detector on archives as a writer lays them out: the reader of the analyser finds the
  directory and every member, the structural checks stay silent, and the checksum check reports
  exactly the stored members whose bytes contradict their checksum. So intact archives raise
  nothing, and any changed payload byte of a stored member is found and placed.
\<close>

section \<open>The end record\<close>

text \<open>No end-record signature behind the end record's own.\<close>

definition end_record_clear :: "zip_entry list \<Rightarrow> bool" where
  "end_record_clear es \<longleftrightarrow>
     list_all (\<lambda>k. u32_at (eocd_record (length es) (length (concat (map cd_record (headers_of 0 es))))
       (length (concat (map zip_local es)))) k \<noteq> ZIP_EOCD_SIG) [1..<19]"

definition scannable :: "zip_entry list \<Rightarrow> bool" where
  "scannable es \<longleftrightarrow>
     es \<noteq> [] \<and> list_all zip_entry_ok es \<and> length es < 2 ^ 16
     \<and> length (concat (map zip_local es)) < 2 ^ 32
     \<and> length (concat (map cd_record (headers_of 0 es))) < 2 ^ 32 \<and> end_record_clear es"

lemma find_last:
  assumes "m < n" "P m" "\<And>i. m < i \<Longrightarrow> i < n \<Longrightarrow> \<not> P i"
  shows "find P (rev [0..<n]) = Some m"
proof -
  have "[0..<n] = [0..<m] @ m # [Suc m..<n]"
    using assms(1) upt_add_eq_append [of 0 m "n - m"] upt_conv_Cons [of m n] by simp
  then have "rev [0..<n] = rev [Suc m..<n] @ m # rev [0..<m]" by simp
  moreover have "find P (xs @ m # ys) = Some m" if "\<forall>x \<in> set xs. \<not> P x" for xs ys
    using that assms(2) by (induction xs) simp_all
  ultimately show ?thesis using assms(3) by (simp add: Suc_le_eq)
qed

lemma reader_find_eocd_last:
  assumes "list_all (\<lambda>k. u32_at (eocd_record n a b) k \<noteq> ZIP_EOCD_SIG) [1..<19]"
  shows "reader_find_eocd (x @ eocd_record n a b) = Some (length x)"
proof -
  let ?d = "x @ eocd_record n a b"
  have "find (\<lambda>i. u32_at ?d i = ZIP_EOCD_SIG) (rev [0..<length x + 19]) = Some (length x)"
  proof (rule find_last)
    show "u32_at ?d (length x) = ZIP_EOCD_SIG"
      using word_at_append(2) [of x "eocd_record n a b" 0]
      by (simp add: eocd_record_def word_at_skip ZIP_EOCD_SIG_def Zip_Rebuild.EOCD_SIG_def)
  next
    fix i assume "length x < i" "i < length x + 19"
    moreover then obtain k where "i = length x + k" "0 < k" using less_imp_add_positive by blast
    ultimately have "i = length x + k" "k \<in> set [1..<19]" by simp_all
    with assms show "u32_at ?d i \<noteq> ZIP_EOCD_SIG"
      by (simp add: word_at_append list_all_iff)
  qed simp
  then show ?thesis by (simp add: reader_find_eocd_def EOCD_MIN_LEN_def add.commute)
qed

section \<open>The directory\<close>

text \<open>The member the reader makes of a directory record.\<close>

definition member_of :: "LocalHeader \<Rightarrow> ArchiveEntry" where
  "member_of h =
     \<lparr> ae_path = from_utf8_lossy (lh_name h), ae_size = uncomp_size h, ae_compressed_size = comp_size h,
       ae_offset = lfh_offset h,
       ae_encrypted = (lh_flags h AND 0x0001 \<noteq> 0 \<or> lh_flags h AND 0x0040 \<noteq> 0),
       stored_crc32 = Some (lh_crc32 h), is_link = False, link_target = None \<rparr>"

lemma directory_entry_record:
  assumes fits: "header_fits h"
  shows "directory_entry (pre @ cd_record h @ r) (length pre) = member_of h"
proof -
  note f = cd_record_entry [OF fits]
  have attrs: "u32_at (cd_record h @ r) 38 = 0" by (simp add: cd_record_def word_at_skip)
  have nm: "cut (pre @ cd_record h @ r) (length pre + 46) (length pre + 46 + length (lh_name h)) = lh_name h"
    using f(11) by (simp add: cut_append_right add.assoc)
  have sizes: "unat (comp_size32 h) = comp_size h" "unat (uncomp_size32 h) = uncomp_size h"
    "unat (of_nat (lfh_offset h) :: u32) = lfh_offset h"
    using fits unat_of_nat_len(1) by (auto simp: header_fits_def comp_size32_def uncomp_size32_def)
  show ?thesis
    unfolding directory_entry_def Let_def word_at_append f sizes attrs nm member_of_def by simp
qed

lemma directory_entries_records:
  assumes "cd = pre @ concat (map cd_record hs)" "list_all header_fits hs"
  shows "directory_entries cd (length pre) = map (\<lambda>h. (member_of h, lh_method h)) hs"
  using assms
proof (induction hs arbitrary: pre)
  case Nil
  then show ?case by (subst directory_entries.simps) simp
next
  case (Cons h hs)
  let ?r = "concat (map cd_record hs)"
  have cd: "cd = pre @ cd_record h @ ?r" and fits: "header_fits h" using Cons.prems by simp_all
  note f = cd_record_entry [OF fits]
  have at: "u16_at cd (length pre + k) = u16_at (cd_record h @ ?r) k"
    "u32_at cd (length pre + k) = u32_at (cd_record h @ ?r) k" for k
    unfolding cd by (simp_all add: word_at_append)
  have sig: "u32_at cd (length pre) = ZIP_CDFH_SIG"
    using at(2) [of 0] f(1) by (simp add: ZIP_CDFH_SIG_def Zip_Policy.CDFH_SIG_def)
  have ih: "directory_entries cd (length (pre @ cd_record h)) = map (\<lambda>h. (member_of h, lh_method h)) hs"
    using Cons.prems by (intro Cons.IH) simp_all
  have len: "length cd = length pre + 46 + length (lh_name h) + length ?r" using cd by simp
  show ?case
    by (subst directory_entries.simps)
      (use sig ih len f at directory_entry_record [OF fits, of pre ?r] cd in \<open>simp add: add.assoc\<close>)
qed


text \<open>The members of a scannable archive in the file, with the bytes behind their headers.\<close>

lemma scannable_members:
  assumes "scannable es"
  shows "list_all2 (\<lambda>h e. header_fits h \<and> zip_entry_ok e
      \<and> (\<exists>pre r. rebuilt_archive es = pre @ zip_local e @ r \<and> h = header_of (length pre) e))
    (headers_of 0 es) es"
proof -
  let ?body = "concat (map zip_local es)"
  have "list_all2 (\<lambda>h e. \<exists>pre r. ?body = pre @ zip_local e @ r \<and> h = header_of (length pre) e)
      (headers_of 0 es) es" using headers_members [of ?body "[]" es] by simp
  then show ?thesis
  proof (rule list.rel_mono_strong)
    fix h e
    assume mem: "e \<in> set es"
      and "\<exists>pre r. ?body = pre @ zip_local e @ r \<and> h = header_of (length pre) e"
    then obtain pre r where e: "?body = pre @ zip_local e @ r" and h: "h = header_of (length pre) e" by blast
    have ok: "zip_entry_ok e" using assms mem by (auto simp: scannable_def list_all_iff)
    have "rebuilt_archive es = pre @ zip_local e @ (r @ directory_bytes es)" using e by (simp add: rebuilt_split)
    moreover have "length pre < 2 ^ 32" using arg_cong [OF e, of length] assms by (simp add: scannable_def)
    then have "header_fits h"
      using ok unsigned_less [of "ze_usize e"] unfolding h
      by (simp add: header_fits_def zip_entry_ok_def header_of_def)
    ultimately show "header_fits h \<and> zip_entry_ok e
      \<and> (\<exists>pre r. rebuilt_archive es = pre @ zip_local e @ r \<and> h = header_of (length pre) e)"
      using ok h by blast
  qed
qed

lemma u32_at_start: "u32_at (u32_bytes w) 0 = w"
  by (simp add: u32_at_def cut_0 u32_of_bytes)

lemma local_header_ok_member:
  assumes "src_bytes s = pre @ zip_local e @ r" "zip_entry_ok e"
  shows "local_header_ok s (member_of (header_of (length pre) e))"
proof -
  have "read_at s (length pre) 4 = cut (zip_local e @ r) 0 4"
    using assms(1) by (simp add: read_at_def cut_append_right)
  also have "\<dots> = u32_bytes Zip_Rebuild.LFH_SIG" by (simp add: zip_local_def cut_append_left cut_0)
  finally have "read_at s (length pre) 4 = u32_bytes Zip_Rebuild.LFH_SIG" .
  moreover have "u32_at (u32_bytes Zip_Rebuild.LFH_SIG) 0 = ZIP_LFH_SIG"
    unfolding u32_at_start by (simp add: ZIP_LFH_SIG_def Zip_Rebuild.LFH_SIG_def)
  ultimately show ?thesis by (simp add: local_header_ok_def member_of_def)
qed

lemma zip_facts_scannable:
  assumes "scannable es" and src: "src_bytes s = rebuilt_archive es"
  shows "zip_facts s =
    \<lparr> zf_eocd_offset = Some (length (concat (map zip_local es) @ concat (map cd_record (headers_of 0 es)))),
      declared_entries = length es, zf_cd_offset = length (concat (map zip_local es)), cd_present = True,
      local_headers_ok = True, zf_entries = map member_of (headers_of 0 es),
      zf_methods = map lh_method (headers_of 0 es) \<rparr>"
proof -
  define body where "body = concat (map zip_local es)"
  define cd where "cd = concat (map cd_record (headers_of 0 es))"
  define en where "en = eocd_record (length es) (length cd) (length body)"
  define start where "start = src_len s - min EOCD_SCAN_WINDOW (src_len s)"
  have d: "src_bytes s = (body @ cd) @ en" "src_bytes s = body @ cd @ en"
    using src by (simp_all add: body_def cd_def en_def rebuilt_archive_def Let_def)
  have bounds: "length es < 2 ^ 16" "length cd < 2 ^ 32" "length body < 2 ^ 32" "es \<noteq> []"
    using assms(1) by (simp_all add: scannable_def body_def cd_def)
  have len: "src_len s = length (body @ cd) + 22" using d(1) by (simp add: en_def)
  have start: "start \<le> length (body @ cd)" using len by (simp add: start_def EOCD_SCAN_WINDOW_def min_def)
  have window: "read_exact_at s start (min EOCD_SCAN_WINDOW (src_len s)) = Some (drop start (body @ cd) @ en)"
  proof -
    have "start + min EOCD_SCAN_WINDOW (src_len s) = src_len s" by (simp add: start_def)
    moreover have "0 < min EOCD_SCAN_WINDOW (src_len s)" using len by (simp add: EOCD_SCAN_WINDOW_def)
    ultimately show ?thesis using start d(1) by (simp add: read_exact_at_Some cut_full)
  qed
  have find: "reader_find_eocd (drop start (body @ cd) @ en) = Some (length (drop start (body @ cd)))"
    unfolding en_def using assms(1)
    by (intro reader_find_eocd_last) (simp add: scannable_def end_record_clear_def body_def cd_def)
  have fits: "list_all header_fits (headers_of 0 es)"
    using scannable_members [OF assms(1)] by (rule list_all2_firstD) blast
  have walk: "directory_entries cd 0 = map (\<lambda>h. (member_of h, lh_method h)) (headers_of 0 es)"
    using directory_entries_records [of cd "[]" "headers_of 0 es"] fits by (simp add: cd_def)
  obtain h hs where hs: "headers_of 0 es = h # hs" using bounds(4) by (cases es) simp_all
  have sig: "4 \<le> length cd" "u32_at cd 0 = ZIP_CDFH_SIG"
    using cd_record_entry(1) [of h] fits hs by (simp_all add: cd_def ZIP_CDFH_SIG_def Zip_Policy.CDFH_SIG_def)
  have dir: "read_exact_at s (length body) (length cd) = Some cd"
    using sig(1) len d(2) by (subst read_exact_at_Some) (auto intro!: cut_append_mid [symmetric])
  have locals: "list_all (local_header_ok s) (map member_of (headers_of 0 es))"
    unfolding list.pred_map comp_def using scannable_members [OF assms(1)]
    by (rule list_all2_firstD) (use local_header_ok_member [of s] src in auto)
  note f = eocd_fields [OF bounds(1-3), folded en_def]
  have rel: "start + length (drop start (body @ cd)) = length (body @ cd)" using start by simp
  have tail: "drop (length (drop start (body @ cd))) (drop start (body @ cd) @ en) = en" by simp
  have "\<not> src_len s < EOCD_MIN_LEN" "\<not> length en < EOCD_MIN_LEN" "length body < src_len s"
    using len sig(1) by (simp_all add: EOCD_MIN_LEN_def en_def)
  then show ?thesis
    unfolding zip_facts_def Let_def start_def [symmetric] window find option.case tail rel f dir
    using sig walk locals by (simp add: zip_facts_default_def parse_central_directory_def body_def cd_def comp_def)
qed


section \<open>The members\<close>

lemma crc_chunks_cut:
  "cursor + remaining \<le> src_len s \<Longrightarrow>
    crc_chunks s cursor remaining acc = Some (crc32_update acc (cut (src_bytes s) cursor (cursor + remaining)))"
proof (induction remaining arbitrary: cursor acc rule: less_induct)
  case (less remaining)
  show ?case
  proof (cases "remaining = 0")
    case True
    then show ?thesis by (subst crc_chunks.simps) (simp add: crc32_update_def)
  next
    case False
    define n where "n = min remaining 65536"
    have n: "0 < n" "n \<le> remaining" using False by (simp_all add: n_def)
    have b: "read_at s cursor n = cut (src_bytes s) cursor (cursor + n)"
      and lb: "length (cut (src_bytes s) cursor (cursor + n)) = n"
      using less.prems n by (simp_all add: read_at_def)
    have ne: "cut (src_bytes s) cursor (cursor + n) \<noteq> []" using lb n(1) by (metis length_0_conv less_irrefl)
    have step: "crc_chunks s (cursor + n) (remaining - n) (crc32_update acc (cut (src_bytes s) cursor (cursor + n)))
        = Some (crc32_update (crc32_update acc (cut (src_bytes s) cursor (cursor + n)))
            (cut (src_bytes s) (cursor + n) (cursor + n + (remaining - n))))"
      using less.prems n by (intro less.IH) simp_all
    have "cut (src_bytes s) cursor (cursor + n) @ cut (src_bytes s) (cursor + n) (cursor + remaining)
        = cut (src_bytes s) cursor (cursor + remaining)"
      using n by (intro cut_concat) simp_all
    moreover have "crc_chunks s cursor remaining acc
        = crc_chunks s (cursor + n) (remaining - n) (crc32_update acc (cut (src_bytes s) cursor (cursor + n)))"
      using False ne by (subst crc_chunks.simps) (simp add: n_def [symmetric] b lb Let_def del: length_cut)
    ultimately show ?thesis using step n by (simp add: crc32_update_def flip: foldl_append)
  qed
qed

lemma stored_member_crc_member:
  assumes d: "src_bytes s = pre @ zip_local e @ r" and ok: "zip_entry_ok e"
  shows "stored_member_crc s (length pre) (length (ze_payload e))
    = Some (data_offset (header_of (length pre) e), crc32 (ze_payload e))"
proof -
  note f = zip_local_fields [OF ok]
  have head: "read_exact_at s (length pre) 30 = Some (cut (zip_local e @ r) 0 30)"
    using d by (subst read_exact_at_Some) (simp_all add: cut_append_right)
  have "zip_local e @ r = cut (zip_local e @ r) 0 30 @ drop 30 (zip_local e @ r)" by (simp add: cut_0)
  then have at: "u16_at (cut (zip_local e @ r) 0 30) 26 = u16_at (zip_local e @ r) 26"
    "u16_at (cut (zip_local e @ r) 0 30) 28 = u16_at (zip_local e @ r) 28"
    by (simp_all add: u16_at_def cut_cut)
  let ?off = "length pre + 30 + length (ze_name e) + length (ze_extra e)"
  have "cut (src_bytes s) ?off (?off + length (ze_payload e)) = ze_payload e"
    unfolding d by (simp add: zip_local_def cut_append_right cut_0)
  moreover have "?off + length (ze_payload e) \<le> src_len s" using d by simp
  ultimately have "crc_chunks s ?off (length (ze_payload e)) crc32_new = Some (crc32_update crc32_new (ze_payload e))"
    by (simp add: crc_chunks_cut)
  then show ?thesis
    unfolding stored_member_crc_def head option.case Let_def at f by (simp add: crc32_def header_of_def)
qed

text \<open>What the detector says of a member that contradicts its checksum.\<close>

definition contradicts :: "zip_entry \<Rightarrow> bool" where
  "contradicts e \<longleftrightarrow> ze_method e = 0 \<and> crc32 (ze_payload e) \<noteq> ze_crc e"

lemma zip_member_defects_member:
  assumes d: "src_bytes s = pre @ zip_local e @ r" and ok: "zip_entry_ok e" and h: "h = header_of (length pre) e"
  shows "map (\<lambda>x. (dt_kind x, rule_override x, dt_location x)) (zip_member_defects s (member_of h) (lh_method h))
    = (if contradicts e
       then [(ZipCrcMismatch, None, member_location (member_of h) (data_offset h) (header_end h))] else [])"
proof -
  have head: "read_exact_at s (length pre) 22 = Some (cut (zip_local e @ r) 0 22)"
    using d by (subst read_exact_at_Some) (simp_all add: cut_append_right)
  have "u32_at (cut (zip_local e @ r) 0 22) 18 = u32_at (zip_local e @ r) 18" by (simp add: u32_at_def cut_cut)
  then have "unat (u32_at (cut (zip_local e @ r) 0 22) 18) = length (ze_payload e)"
    using zip_local_fields(8) [OF ok] by simp
  then show ?thesis
    using head stored_member_crc_member [OF d ok] unfolding h
    by (simp add: zip_member_defects_def stored_crc_defects_def member_of_def header_of_def contradicts_def
        detected_def with_detail_def with_bytes_def with_range_def header_end_def)
qed

lemma zip_members_loop_short:
  "length out + length r \<le> mx \<Longrightarrow> list_all (\<lambda>(e, meth). length (zip_member_defects s e meth) \<le> 1) r \<Longrightarrow>
    zip_members_loop s mx r out = out @ concat (map (\<lambda>(e, meth). zip_member_defects s e meth) r)"
  by (induction s mx r out rule: zip_members_loop.induct) auto

lemma map_at_most_one: "map f xs = (if b then [y] else []) \<Longrightarrow> length xs \<le> 1"
  by (auto split: if_splits)

text \<open>The detector on a scannable archive.\<close>

lemma zip_defects_scannable:
  assumes es: "scannable es" and src: "src_bytes s = rebuilt_archive es" and cap: "length es \<le> mx"
  shows "map (\<lambda>x. (dt_kind x, rule_override x, dt_location x)) (zip_defects s (zip_facts s) True mx)
    = map (\<lambda>(h, e). (ZipCrcMismatch, None, member_location (member_of h) (data_offset h) (header_end h)))
        (filter (\<lambda>(h, e). contradicts e) (zip (headers_of 0 es) es))"
proof -
  let ?view = "map (\<lambda>x. (dt_kind x, rule_override x, dt_location x))"
  let ?hs = "headers_of 0 es" and ?found = "\<lambda>h. zip_member_defects s (member_of h) (lh_method h)"
  let ?said = "\<lambda>h e. if contradicts e
    then [(ZipCrcMismatch, None, member_location (member_of h) (data_offset h) (header_end h))] else []"
  have each: "list_all2 (\<lambda>h e. ?view (?found h) = ?said h e) ?hs es"
    using scannable_members [OF es]
    by (rule list.rel_mono_strong) (elim conjE exE, rule zip_member_defects_member, simp_all add: src)
  then have "list_all (\<lambda>h. length (?found h) \<le> 1) ?hs"
    by (rule list_all2_firstD) (rule map_at_most_one)
  then have "zip_defects s (zip_facts s) True mx = concat (map ?found ?hs)"
    using zip_facts_scannable [OF es src] cap zip_members_loop_short [of "[]" "zip (map member_of ?hs) (map lh_method ?hs)" mx s]
    by (simp add: zip_defects_def zip_structure_defects_def zip_map_map zip_same_conv_map comp_def list.pred_map)
  moreover have "?view (concat (map ?found hs)) = map (\<lambda>(h, e). (ZipCrcMismatch, None,
      member_location (member_of h) (data_offset h) (header_end h))) (filter (\<lambda>(h, e). contradicts e) (zip hs es'))"
    if "list_all2 (\<lambda>h e. ?view (?found h) = ?said h e) hs es'" for hs es'
    using that by (induction rule: list_all2_induct) simp_all
  ultimately show ?thesis using each by simp
qed


section \<open>The scan\<close>

lemma checksum_rule:
  assumes "r \<in> set RULES" "cr_id r = ''ZIP_CRC_001''"
  shows "cr_category r = ChecksumMismatch"
proof -
  have "hd ZIP_CONTENT_RULES \<in> set RULES"
    by (rule subsetD [of "set ZIP_CONTENT_RULES"]) (auto simp: RULES_def ZIP_CONTENT_RULES_def)
  moreover have "cr_id (hd ZIP_CONTENT_RULES) = ''ZIP_CRC_001''"
    "cr_category (hd ZIP_CONTENT_RULES) = ChecksumMismatch"
    by (simp_all add: ZIP_CONTENT_RULES_def crule_def)
  moreover have "inj_on cr_id (set RULES)" using rule_ids_distinct by (simp add: distinct_map)
  ultimately show ?thesis using assms by (metis inj_onD)
qed

lemma map_eq_all2: "map f xs = map g ys \<Longrightarrow> list_all2 (\<lambda>x y. f x = g y) xs ys"
  by (induction xs arbitrary: ys) (auto simp: Cons_eq_map_conv)

lemma scan_reports:
  assumes found: "map (\<lambda>x. (dt_kind x, rule_override x, dt_location x)) (zip_defects s (zip_facts s) True mx)
      = map (\<lambda>p. (ZipCrcMismatch, None, loc p)) ps"
    and "length ps \<le> mx" "\<not> manifest_present integrity"
  shows "\<exists>res. scan_source dec wal s Zip integrity True mx = Returned res
    \<and> map (\<lambda>c. (rule_id c, c_location c)) (sr_corruptions res) = map (\<lambda>p. (''ZIP_CRC_001'', loc p)) ps"
proof -
  define xs where "xs = zip_defects s (zip_facts s) True mx"
  have "length xs = length ps" using found map_eq_imp_length_eq unfolding xs_def by blast
  then have detect: "detect_defects dec wal s Zip integrity True mx = Returned (xs, mx \<le> length ps)"
    using assms(2,3)
    by (cases "expected_hash integrity")
      (simp_all add: detect_defects_def format_defects_def xs_def push_if_def Let_def)
  have "list_all sound_finding xs" unfolding xs_def by (rule sound_zip)
  then have "list_all (\<lambda>x. confident x \<and> registered (detected_rule_id x)) xs"
    by (auto simp: list_all_iff sound_finding_def)
  from classify_all_registered [OF this] obtain cs where cs: "classify_all xs = Returned cs"
    "list_all2 (\<lambda>x c. \<exists>r \<in> set RULES. cr_id r = detected_rule_id x \<and> classified_as x r c) xs cs" by blast
  have "list_all2 (\<lambda>x p. (dt_kind x, rule_override x, dt_location x) = (ZipCrcMismatch, None, loc p)) xs ps"
    using found unfolding xs_def [symmetric] by (rule map_eq_all2)
  then have kinds: "list_all2 (\<lambda>x p. dt_kind x = ZipCrcMismatch \<and> rule_override x = None \<and> dt_location x = loc p) xs ps"
    by simp
  have classes: "list_all2 (\<lambda>c x. \<exists>r \<in> set RULES. cr_id r = detected_rule_id x \<and> classified_as x r c) cs xs"
    using cs(2) by (simp add: list_all2_conv_all_nth)
  have each: "category c = ChecksumMismatch \<and> rule_id c = ''ZIP_CRC_001'' \<and> c_location c = loc p"
    if cl: "\<exists>r \<in> set RULES. cr_id r = detected_rule_id x \<and> classified_as x r c"
      and "dt_kind x = ZipCrcMismatch \<and> rule_override x = None \<and> dt_location x = loc p" for x c p
  proof -
    obtain r where r: "r \<in> set RULES" "cr_id r = detected_rule_id x" "classified_as x r c" using cl by blast
    moreover have "detected_rule_id x = ''ZIP_CRC_001''" using that by (simp add: detected_rule_id_def kind_rule_id_def)
    ultimately show ?thesis using that checksum_rule [of r] by (simp add: classified_as_def)
  qed
  from list_all2_trans [OF each classes kinds]
  have "list_all2 (\<lambda>c p. category c = ChecksumMismatch \<and> rule_id c = ''ZIP_CRC_001'' \<and> c_location c = loc p) cs ps" .
  then have "map (\<lambda>c. (rule_id c, c_location c)) cs = map (\<lambda>p. (''ZIP_CRC_001'', loc p)) ps
    \<and> list_all (\<lambda>c. \<not> is_flip_region c) cs"
    by (induction rule: list_all2_induct) (auto simp: is_flip_region_def)
  moreover then have "merge_adjacent cs = cs"
    by (simp add: merge_adjacent_def merge_flips_def list_all_iff filter_id_conv filter_empty_conv)
  ultimately show ?thesis by (simp add: scan_source_def detect cs(1))
qed

lemma zip_scan:
  assumes "scannable es" "src_bytes s = rebuilt_archive es" "length es \<le> mx" "\<not> manifest_present integrity"
  shows "\<exists>res. scan_source dec wal s Zip integrity True mx = Returned res
    \<and> map (\<lambda>c. (rule_id c, c_location c)) (sr_corruptions res)
      = map (\<lambda>(h, e). (''ZIP_CRC_001'',
            \<lparr> cl_file_path = Some (from_utf8_lossy (ze_name e)), offset_start = data_offset h,
              offset_end = data_offset h + length (ze_payload e) \<rparr>))
          (filter (\<lambda>(h, e). ze_method e = 0 \<and> crc32 (ze_payload e) \<noteq> ze_crc e) (zip (headers_of 0 es) es))"
proof -
  let ?ps = "filter (\<lambda>(h, e). contradicts e) (zip (headers_of 0 es) es)"
  let ?loc = "\<lambda>(h, e). member_location (member_of h) (data_offset h) (header_end h)"
  have "length ?ps \<le> length es" using length_filter_le [of _ "zip (headers_of 0 es) es"] by simp
  then have "\<exists>res. scan_source dec wal s Zip integrity True mx = Returned res
    \<and> map (\<lambda>c. (rule_id c, c_location c)) (sr_corruptions res) = map (\<lambda>p. (''ZIP_CRC_001'', ?loc p)) ?ps"
    using assms zip_defects_scannable [OF assms(1-3)]
    by (intro scan_reports) (simp_all add: case_prod_unfold)
  moreover have "list_all2 (\<lambda>h e. lh_name h = ze_name e \<and> header_end h = data_offset h + length (ze_payload e))
      (headers_of 0 es) es"
    using scannable_members [OF assms(1)]
    by (rule list.rel_mono_strong) (auto simp: header_of_def header_end_def)
  then have "\<forall>p \<in> set (zip (headers_of 0 es) es). ?loc p =
      (case p of (h, e) \<Rightarrow> \<lparr> cl_file_path = Some (from_utf8_lossy (ze_name e)), offset_start = data_offset h,
              offset_end = data_offset h + length (ze_payload e) \<rparr>)"
    by (auto simp: list_all2_iff member_location_def member_of_def)
  ultimately show ?thesis by (auto simp: contradicts_def case_prod_unfold cong: map_cong)
qed

text \<open>
  C18. The checksum scan of ZIP archives is exact: scanning an archive as a writer lays it out, without
  a manifest, reports precisely the stored members whose bytes contradict their checksum, each
  once, in order, under the checksum rule and at the extent of its data; an intact archive is
  reported clean.
\<close>

theorem zip_scan_exact:
  assumes "scannable es" "src_bytes s = rebuilt_archive es" "length es \<le> mx" "\<not> manifest_present integrity"
  shows "\<exists>res. scan_source dec wal s Zip integrity True mx = Returned res
    \<and> map (\<lambda>c. (rule_id c, c_location c)) (sr_corruptions res)
      = map (\<lambda>(h, e). (''ZIP_CRC_001'',
            \<lparr> cl_file_path = Some (from_utf8_lossy (ze_name e)), offset_start = data_offset h,
              offset_end = data_offset h + length (ze_payload e) \<rparr>))
          (filter (\<lambda>(h, e). ze_method e = 0 \<and> crc32 (ze_payload e) \<noteq> ze_crc e) (zip (headers_of 0 es) es))"
  using assms by (rule zip_scan)

section \<open>One changed byte\<close>

lemma headers_of_update:
  assumes "i < length es" "\<And>off. header_of off e' = header_of off (es ! i)" "length (zip_local e') = length (zip_local (es ! i))"
  shows "headers_of off (es[i := e']) = headers_of off es"
  using assms
proof (induction es arbitrary: i off)
  case (Cons e es)
  then show ?case by (cases i) (simp_all del: length_zip_local)
qed simp

lemma lfh_offset_lower: "i < length es \<Longrightarrow> off \<le> lfh_offset (headers_of off es ! i)"
  using headers_of_sorted [of off es] by (simp add: list_all_length)

lemma locals_update:
  assumes "i < length es" "zip_local e' = (zip_local (es ! i))[q := b]" "q < length (zip_local (es ! i))"
  shows "concat (map zip_local (es[i := e']))
    = (concat (map zip_local es))[lfh_offset (headers_of off es ! i) - off + q := b]"
  using assms
proof (induction es arbitrary: i off)
  case (Cons e es)
  show ?case
  proof (cases i)
    case 0
    then show ?thesis using Cons.prems by (simp add: list_update_append)
  next
    case (Suc j)
    let ?off = "off + length (zip_local e)"
    have j: "j < length es" using Cons.prems(1) Suc by simp
    have ih: "concat (map zip_local (es[j := e']))
        = (concat (map zip_local es))[lfh_offset (headers_of ?off es ! j) - ?off + q := b]"
      using Cons.prems Suc by (intro Cons.IH) simp_all
    have "lfh_offset (headers_of ?off es ! j) - off + q
        = length (zip_local e) + (lfh_offset (headers_of ?off es ! j) - ?off + q)"
      using lfh_offset_lower [OF j, of ?off] by simp
    then show ?thesis using ih Suc by (simp add: list_update_append del: length_zip_local)
  qed
qed simp

lemma filter_one:
  fixes hs :: "'b list"
  assumes "i < length es" "length hs = length es" "list_all (\<lambda>e. \<not> P e) es" "P e'"
  shows "filter (\<lambda>(h, e). P e) (zip hs (es[i := e'])) = [(hs ! i, e')]"
proof -
  have none: "filter (\<lambda>(h, e). P e) (zip (xs :: 'b list) ys) = []" if "set ys \<subseteq> set es" for xs ys
    using that assms(3) by (auto simp: list_all_iff filter_empty_conv dest: set_zip_rightD)
  have "zip hs (es[i := e']) = zip (take i hs) (take i es) @ (hs ! i, e') # zip (drop (Suc i) hs) (drop (Suc i) es)"
    using assms(1,2) id_take_nth_drop [of i hs] by (simp add: upd_conv_take_nth_drop) (metis length_take zip_append zip_Cons_Cons)
  then show ?thesis
    using assms(4) none [OF set_take_subset] none [OF set_drop_subset] by simp
qed


text \<open>A member with one payload byte replaced.\<close>

definition hit :: "zip_entry \<Rightarrow> nat \<Rightarrow> u8 \<Rightarrow> zip_entry" where
  "hit e k b = e\<lparr> ze_payload := (ze_payload e)[k := b] \<rparr>"

lemma hit_simps [simp]:
  "header_of off (hit e k b) = header_of off e" "length (zip_local (hit e k b)) = length (zip_local e)"
  "ze_name (hit e k b) = ze_name e" "ze_extra (hit e k b) = ze_extra e" "length (ze_payload (hit e k b)) = length (ze_payload e)"
  by (simp_all add: hit_def header_of_def)

lemma zip_local_payload: "\<exists>front. zip_local e = front @ ze_payload e
    \<and> length front = 30 + length (ze_name e) + length (ze_extra e)
    \<and> zip_local (hit e k b) = front @ (ze_payload e)[k := b]"
  by (rule exI [of _ "take (30 + length (ze_name e) + length (ze_extra e)) (zip_local e)"])
    (simp add: zip_local_def hit_def)

lemma contradicts_hit:
  assumes "ze_method e = 0" "\<not> contradicts e" "k < length (ze_payload e)" "b \<noteq> ze_payload e ! k"
  shows "contradicts (hit e k b)"
proof -
  have "ze_payload e = take k (ze_payload e) @ ze_payload e ! k # drop (Suc k) (ze_payload e)"
    using assms(3) by (rule id_take_nth_drop)
  moreover have "(ze_payload e)[k := b] = take k (ze_payload e) @ b # drop (Suc k) (ze_payload e)"
    using assms(3) by (rule upd_conv_take_nth_drop)
  ultimately have "crc32 ((ze_payload e)[k := b]) \<noteq> crc32 (ze_payload e)"
    using crc32_byte_change [OF assms(4)] by metis
  then show ?thesis using assms(1,2) by (simp add: contradicts_def hit_def)
qed

lemma rebuilt_hit:
  assumes "scannable es" "i < length es" "k < length (ze_payload (es ! i))"
  shows "rebuilt_archive (es[i := hit (es ! i) k b])
      = (rebuilt_archive es)[data_offset (headers_of 0 es ! i) + k := b]"
    "rebuilt_archive es ! (data_offset (headers_of 0 es ! i) + k) = ze_payload (es ! i) ! k"
    "header_end (headers_of 0 es ! i) = data_offset (headers_of 0 es ! i) + length (ze_payload (es ! i))"
    "scannable (es[i := hit (es ! i) k b])"
proof -
  let ?e = "es ! i" and ?h = "headers_of 0 es ! i" and ?e' = "hit (es ! i) k b"
  obtain pre r where d: "rebuilt_archive es = pre @ zip_local ?e @ r" and h: "?h = header_of (length pre) ?e"
    and ok: "zip_entry_ok ?e"
    using scannable_members [OF assms(1)] assms(2) by (auto simp: list_all2_conv_all_nth)
  obtain front where front: "zip_local ?e = front @ ze_payload ?e"
    "length front = 30 + length (ze_name ?e) + length (ze_extra ?e)" "zip_local ?e' = front @ (ze_payload ?e)[k := b]"
    using zip_local_payload by blast
  have off: "data_offset ?h = lfh_offset ?h + length front" "lfh_offset ?h = length pre"
    using front(2) h by (simp_all add: header_of_def)
  show "rebuilt_archive es ! (data_offset ?h + k) = ze_payload ?e ! k"
    using d off front(1) assms(3) by (simp add: nth_append)
  show "header_end ?h = data_offset ?h + length (ze_payload ?e)"
    unfolding h by (simp add: header_end_def header_of_def)
  have hs: "headers_of off (es[i := ?e']) = headers_of off es" for off
    using assms(2) by (intro headers_of_update) simp_all
  have body: "concat (map zip_local (es[i := ?e'])) = (concat (map zip_local es))[data_offset ?h + k := b]"
    using assms(2,3) front off locals_update [of i es ?e' "length front + k" b 0]
    by (simp add: list_update_append add.assoc)
  have pos: "data_offset ?h + k < length (concat (map zip_local es))"
  proof -
    have "lfh_offset ?h + length (zip_local ?e) \<le> length (concat (map zip_local es))"
      using headers_members [of "concat (map zip_local es)" "[]" es] assms(2)
      by (auto simp: list_all2_conv_all_nth simp del: length_zip_local)
    then show ?thesis using off front assms(3) by simp
  qed
  show "rebuilt_archive (es[i := ?e']) = (rebuilt_archive es)[data_offset ?h + k := b]"
    using pos by (simp add: rebuilt_archive_def Let_def hs body list_update_append)
  have "zip_entry_ok ?e'" using ok assms(3) by (auto simp: zip_entry_ok_def hit_def)
  then show "scannable (es[i := ?e'])"
    using assms(1) by (auto simp: scannable_def end_record_clear_def hs body list_all_iff
        dest!: subsetD [OF set_update_subset_insert])
qed


lemma zip_byte_change:
  assumes es: "scannable es" "list_all (\<lambda>e. ze_method e = 0 \<longrightarrow> crc32 (ze_payload e) = ze_crc e) es"
    and i: "i < length es" "ze_method (es ! i) = 0"
    and p: "data_offset (headers_of 0 es ! i) \<le> p" "p < header_end (headers_of 0 es ! i)"
      "b \<noteq> rebuilt_archive es ! p"
    and src: "src_bytes s = (rebuilt_archive es)[p := b]" "length es \<le> mx" "\<not> manifest_present integrity"
  shows "\<exists>res. scan_source dec wal s Zip integrity True mx = Returned res
    \<and> map (\<lambda>c. (rule_id c, c_location c)) (sr_corruptions res)
      = [(''ZIP_CRC_001'', \<lparr> cl_file_path = Some (from_utf8_lossy (ze_name (es ! i))),
            offset_start = data_offset (headers_of 0 es ! i), offset_end = header_end (headers_of 0 es ! i) \<rparr>)]"
proof -
  let ?h = "headers_of 0 es ! i"
  define k where "k = p - data_offset ?h"
  have end_: "header_end ?h = data_offset ?h + length (ze_payload (es ! i))"
  proof (cases "ze_payload (es ! i)")
    case Nil
    have "header_end h = data_offset h + length (ze_payload e)" if "h = header_of off e" for h off e
      using that by (simp add: header_end_def header_of_def)
    then show ?thesis using scannable_members [OF es(1)] i(1) by (auto simp: list_all2_conv_all_nth)
  next
    case Cons
    then show ?thesis using rebuilt_hit(3) [OF es(1) i(1), of 0] by simp
  qed
  then have k: "p = data_offset ?h + k" "k < length (ze_payload (es ! i))" using p by (simp_all add: k_def)
  note r = rebuilt_hit(1,4) [OF es(1) i(1) k(2), of b] rebuilt_hit(2) [OF es(1) i(1) k(2)]
  let ?es = "es[i := hit (es ! i) k b]"
  have quiet: "list_all (\<lambda>e. \<not> contradicts e) es" using es(2) by (auto simp: contradicts_def list_all_iff)
  have "contradicts (hit (es ! i) k b)"
    using i quiet k p(3) r(3) by (intro contradicts_hit) (auto simp: list_all_length)
  moreover have "headers_of 0 ?es = headers_of 0 es" using i(1) by (intro headers_of_update) simp_all
  ultimately have "filter (\<lambda>(h, e). contradicts e) (zip (headers_of 0 ?es) ?es) = [(?h, hit (es ! i) k b)]"
    using filter_one [of i es "headers_of 0 es" contradicts] i(1) quiet by simp
  moreover have "src_bytes s = rebuilt_archive ?es" using src(1) r(1) k(1) by simp
  ultimately show ?thesis
    using zip_scan [OF r(2), of s mx integrity dec wal] src(2,3) end_ by (simp add: contradicts_def)
qed

text \<open>
  No changed byte of a stored member escapes the scan: when every stored member of an archive
  matches its checksum and one byte anywhere in the data of one stored member is then changed,
  the scan reports exactly one corruption, the checksum rule on that member, at that member's
  data.
\<close>

theorem zip_byte_change_found:
  assumes es: "scannable es" "list_all (\<lambda>e. ze_method e = 0 \<longrightarrow> crc32 (ze_payload e) = ze_crc e) es"
    and i: "i < length es" "ze_method (es ! i) = 0"
    and p: "data_offset (headers_of 0 es ! i) \<le> p" "p < header_end (headers_of 0 es ! i)"
      "b \<noteq> rebuilt_archive es ! p"
    and src: "src_bytes s = (rebuilt_archive es)[p := b]" "length es \<le> mx" "\<not> manifest_present integrity"
  shows "\<exists>res. scan_source dec wal s Zip integrity True mx = Returned res
    \<and> map (\<lambda>c. (rule_id c, c_location c)) (sr_corruptions res)
      = [(''ZIP_CRC_001'', \<lparr> cl_file_path = Some (from_utf8_lossy (ze_name (es ! i))),
            offset_start = data_offset (headers_of 0 es ! i), offset_end = header_end (headers_of 0 es ! i) \<rparr>)]"
  using assms by (rule zip_byte_change)

section \<open>An example\<close>

text \<open>A stored member of two bytes, its checksum, and the archive with the first byte changed.\<close>

definition stored_entry :: zip_entry where
  "stored_entry =
     \<lparr> ze_version = 20, ze_flags = 0, ze_method = 0, ze_time = 0, ze_date = 0, ze_crc = crc32 [0x68, 0x69],
       ze_usize = 2, ze_name = [0x61], ze_extra = [], ze_payload = [0x68, 0x69] \<rparr>"

lemma scannable_stored: "scannable [stored_entry]"
proof -
  have "length (concat (map cd_record (headers_of 0 [stored_entry]))) = 47" "length (concat (map zip_local [stored_entry])) = 33"
    by (simp_all add: stored_entry_def header_of_def)
  moreover have "eocd_record 1 47 33 = [0x50, 0x4b, 5, 6, 0, 0, 0, 0, 1, 0, 1, 0, 47, 0, 0, 0, 33, 0, 0, 0, 0, 0]"
    by (simp add: eocd_record_def u32_bytes_def u16_bytes_def to_le_2 to_le_4 Zip_Rebuild.EOCD_SIG_def)
  moreover have "list_all (\<lambda>k. u32_at [0x50, 0x4b, 5, 6, 0, 0, 0, 0, 1, 0, 1, 0, 47, 0, 0, 0, 33, 0, 0, 0, 0, 0] k
      \<noteq> ZIP_EOCD_SIG) [1..<19]"
    by (simp add: u32_at_def cut_def upt_rec ZIP_EOCD_SIG_def)
  ultimately have "end_record_clear [stored_entry]"
    by (simp only: end_record_clear_def list.size One_nat_def add_0_right add_Suc_right)
  then show ?thesis by (simp add: scannable_def zip_entry_ok_def stored_entry_def header_of_def)
qed

definition stored_archive :: "bytes \<Rightarrow> Source" where
  "stored_archive d = \<lparr> src_path = ''a.zip'', src_bytes = d \<rparr>"

theorem zip_scan_exact_witness:
  "\<exists>res. scan_source prefix_inflater None (stored_archive (rebuilt_archive [stored_entry]))
      Zip (without_manifest Sha256 ''00'') True 10 = Returned res \<and> sr_corruptions res = []"
  using zip_scan_exact [OF scannable_stored, of "stored_archive (rebuilt_archive [stored_entry])"
      10 "without_manifest Sha256 ''00''" prefix_inflater None]
  by (simp add: without_manifest_def stored_archive_def stored_entry_def)

lemma stored_extent:
  "data_offset (headers_of 0 [stored_entry] ! 0) = 31" "header_end (headers_of 0 [stored_entry] ! 0) = 33"
  by (simp_all add: header_of_def header_end_def stored_entry_def)

theorem zip_byte_change_found_witness:
  "\<exists>res. scan_source prefix_inflater None (stored_archive ((rebuilt_archive [stored_entry])[31 := 0x48]))
      Zip (without_manifest Sha256 ''00'') True 10 = Returned res
    \<and> map rule_id (sr_corruptions res) = [''ZIP_CRC_001'']"
proof -
  have "rebuilt_archive [stored_entry] ! 31 = 0x68"
    by (simp add: rebuilt_archive_def Let_def stored_entry_def zip_local_def to_le_2 to_le_4 nth_append)
  then have "\<exists>res. scan_source prefix_inflater None (stored_archive ((rebuilt_archive [stored_entry])[31 := 0x48]))
      Zip (without_manifest Sha256 ''00'') True 10 = Returned res
    \<and> map (\<lambda>c. (rule_id c, c_location c)) (sr_corruptions res)
      = [(''ZIP_CRC_001'', \<lparr> cl_file_path = Some (from_utf8_lossy (ze_name ([stored_entry] ! 0))),
            offset_start = data_offset (headers_of 0 [stored_entry] ! 0),
            offset_end = header_end (headers_of 0 [stored_entry] ! 0) \<rparr>)]"
    by (intro zip_byte_change_found [OF scannable_stored, where p = 31 and b = "0x48"])
      (simp_all only: stored_extent, simp_all add: without_manifest_def stored_archive_def stored_entry_def)
  then show ?thesis by (auto simp: map_eq_Cons_conv)
qed

end
