(* ===== verification/Format_Id.thy ===== *)
theory Format_Id
  imports Rust_Text
begin

text \<open>
  What a file is, by its bytes, and what its name claims (\<open>phx_format_id/src/lib.rs\<close>): the ordered
  signature table with its provenance, identification from a bounded head and tail, the
  longest-extension lookup, and how the two answers relate. The JavaScript rendering of the table
  is not modelled.
  Shown: the two bounded reads decide exactly what the whole file would, a partial read can
  name another format, and the name lookup answers the longest extension.
\<close>

section \<open>Formats\<close>

datatype Format =
    Zip | Tar | Iso9660 | Gzip | Sqlite | SevenZ | Rar | Pdf | Bzip2
  | Xz | Zstd | Lz4 | Cab | Wim | Qcow2 | Vhd | Vhdx | Vmdk
  | Dmg | AcronisTib | MacriumX

definition format_str :: "Format \<Rightarrow> string" where
  "format_str f =
     (case f of
        Zip \<Rightarrow> ''zip'' | Tar \<Rightarrow> ''tar'' | Iso9660 \<Rightarrow> ''iso9660'' | Gzip \<Rightarrow> ''gzip''
      | Sqlite \<Rightarrow> ''sqlite'' | SevenZ \<Rightarrow> ''7z'' | Rar \<Rightarrow> ''rar'' | Pdf \<Rightarrow> ''pdf''
      | Bzip2 \<Rightarrow> ''bzip2'' | Xz \<Rightarrow> ''xz'' | Zstd \<Rightarrow> ''zstd'' | Lz4 \<Rightarrow> ''lz4''
      | Cab \<Rightarrow> ''cab'' | Wim \<Rightarrow> ''wim'' | Qcow2 \<Rightarrow> ''qcow2'' | Vhd \<Rightarrow> ''vhd''
      | Vhdx \<Rightarrow> ''vhdx'' | Vmdk \<Rightarrow> ''vmdk'' | Dmg \<Rightarrow> ''dmg'' | AcronisTib \<Rightarrow> ''acronis_tib''
      | MacriumX \<Rightarrow> ''macrium_x'')"

definition format_label :: "Format \<Rightarrow> string" where
  "format_label f =
     (case f of
        Zip \<Rightarrow> ''ZIP archive'' | Tar \<Rightarrow> ''TAR archive''
      | Iso9660 \<Rightarrow> ''ISO 9660 disc image'' | Gzip \<Rightarrow> ''gzip stream''
      | Sqlite \<Rightarrow> ''SQLite database'' | SevenZ \<Rightarrow> ''7-Zip archive''
      | Rar \<Rightarrow> ''RAR archive'' | Pdf \<Rightarrow> ''PDF document''
      | Bzip2 \<Rightarrow> ''bzip2 stream'' | Xz \<Rightarrow> ''xz stream''
      | Zstd \<Rightarrow> ''Zstandard stream'' | Lz4 \<Rightarrow> ''LZ4 stream''
      | Cab \<Rightarrow> ''Microsoft Cabinet archive'' | Wim \<Rightarrow> ''Windows image (WIM)''
      | Qcow2 \<Rightarrow> ''QCOW2 disk image'' | Vhd \<Rightarrow> ''VHD virtual disk''
      | Vhdx \<Rightarrow> ''VHDX virtual disk'' | Vmdk \<Rightarrow> ''VMDK virtual disk''
      | Dmg \<Rightarrow> ''Apple disk image (DMG)'' | AcronisTib \<Rightarrow> ''Acronis True Image backup''
      | MacriumX \<Rightarrow> ''Macrium Reflect X image'')"

definition is_multi_member :: "Format \<Rightarrow> bool" where
  "is_multi_member f \<longleftrightarrow> f \<in> {Zip, Tar, Iso9660, SevenZ, Rar, Cab, Wim}"

definition extensions :: "Format \<Rightarrow> string list" where
  "extensions f =
     (case f of
        Zip \<Rightarrow> [''.zip'', ''.jar'', ''.apk'', ''.docx'', ''.xlsx'', ''.pptx'', ''.epub'', ''.odt'', ''.ods''] | Tar \<Rightarrow> [''.tar'']
      | Iso9660 \<Rightarrow> [''.iso''] | Gzip \<Rightarrow> [''.gz'', ''.tgz'']
      | Sqlite \<Rightarrow> [''.db'', ''.sqlite'', ''.sqlite3''] | SevenZ \<Rightarrow> [''.7z'']
      | Rar \<Rightarrow> [''.rar''] | Pdf \<Rightarrow> [''.pdf'']
      | Bzip2 \<Rightarrow> [''.bz2''] | Xz \<Rightarrow> [''.xz'']
      | Zstd \<Rightarrow> [''.zst'', ''.zstd''] | Lz4 \<Rightarrow> [''.lz4'']
      | Cab \<Rightarrow> [''.cab''] | Wim \<Rightarrow> [''.wim'']
      | Qcow2 \<Rightarrow> [''.qcow2'', ''.qcow''] | Vhd \<Rightarrow> [''.vhd'']
      | Vhdx \<Rightarrow> [''.vhdx'', ''.avhdx''] | Vmdk \<Rightarrow> [''.vmdk'']
      | Dmg \<Rightarrow> [''.dmg''] | AcronisTib \<Rightarrow> [''.tib'']
      | MacriumX \<Rightarrow> [''.mrimgx'', ''.mrbakx''])"

definition FORMATS :: "Format list" where
  "FORMATS =
     [Zip, Tar, Iso9660, Gzip, Sqlite, SevenZ, Rar, Pdf, Bzip2, Xz,
      Zstd, Lz4, Cab, Wim, Qcow2, Vhd, Vhdx, Vmdk, Dmg, AcronisTib,
      MacriumX]"

section \<open>Signatures\<close>

datatype Anchor = Start nat | End nat

datatype Provenance = Measured string | Documented string "string option"

definition is_measured :: "Provenance \<Rightarrow> bool" where
  "is_measured p = (case p of Measured _ \<Rightarrow> True | Documented _ _ \<Rightarrow> False)"

record Signature =
  sg_format :: Format
  sg_anchor :: Anchor
  sg_magic :: bytes
  sg_min_len :: nat
  sg_provenance :: Provenance

definition sig :: "Format \<Rightarrow> Anchor \<Rightarrow> bytes \<Rightarrow> nat \<Rightarrow> Provenance \<Rightarrow> Signature" where
  "sig f a m n p =
     \<lparr> sg_format = f, sg_anchor = a, sg_magic = m, sg_min_len = n, sg_provenance = p \<rparr>"

text \<open>Every rule, in the order they are tried.\<close>

definition SIGNATURES :: "Signature list" where
  "SIGNATURES =
     [
      sig Zip (Start 0) [0x50, 0x4B, 0x03] 4
        (Measured (''the project'' @ [CHR 0x27] @ ''s own ZIP corpus (2268 files)'')),
      sig Zip (Start 0) [0x50, 0x4B, 0x05] 4
        (Measured (''the project'' @ [CHR 0x27] @ ''s own ZIP corpus (2268 files)'')),
      sig Zip (Start 0) [0x50, 0x4B, 0x07] 4
        (Measured (''the project'' @ [CHR 0x27] @ ''s own ZIP corpus (2268 files)'')),
      sig Gzip (Start 0) [0x1F, 0x8B] 2
        (Measured ''engine corpus, gzip members''),
      sig Sqlite (Start 0) [0x53, 0x51, 0x4C, 0x69, 0x74, 0x65, 0x20, 0x66, 0x6F, 0x72, 0x6D, 0x61, 0x74, 0x20, 0x33, 0x00] 16
        (Measured ''engine corpus, sqlite databases''),
      sig Pdf (Start 0) [0x25, 0x50, 0x44, 0x46, 0x2D] 5
        (Measured ''engine corpus, pdf documents''),
      sig Bzip2 (Start 0) [0x42, 0x5A, 0x68] 3
        (Measured ''engine corpus, bzip2 streams''),
      sig Xz (Start 0) [0xFD, 0x37, 0x7A, 0x58, 0x5A, 0x00] 6
        (Measured ''engine corpus, xz streams''),
      sig Zstd (Start 0) [0x28, 0xB5, 0x2F, 0xFD] 4
        (Measured ''engine corpus, zstd streams''),
      sig Lz4 (Start 0) [0x04, 0x22, 0x4D, 0x18] 4
        (Measured ''engine corpus, lz4 streams''),
      sig SevenZ (Start 0) [0x37, 0x7A, 0xBC, 0xAF, 0x27, 0x1C] 6
        (Measured ''engine corpus, 7-Zip archives''),
      sig Rar (Start 0) [0x52, 0x61, 0x72, 0x21, 0x1A, 0x07] 7
        (Measured ''engine corpus, RAR archives''),
      sig Cab (Start 0) [0x4D, 0x53, 0x43, 0x46] 4
        (Measured (''C:'' @ [CHR 0x5C] @ ''Windows'' @ [CHR 0x5C] @ ''Logs'' @ [CHR 0x5C] @ ''CBS''
            @ [CHR 0x5C] @ ''CbsPersist_*.cab'')),
      sig Wim (Start 0) [0x4D, 0x53, 0x57, 0x49, 0x4D, 0x00, 0x00, 0x00] 8
        (Measured (''C:'' @ [CHR 0x5C] @ ''Windows'' @ [CHR 0x5C] @ ''System32'' @ [CHR 0x5C]
            @ ''DrtmAuthTxt.wim'')),
      sig Qcow2 (Start 0) [0x51, 0x46, 0x49, 0xFB] 4
        (Measured ''~/.android/avd/*.avd/cache.img.qcow2''),
      sig Vhdx (Start 0) [0x76, 0x68, 0x64, 0x78, 0x66, 0x69, 0x6C, 0x65] 8
        (Documented (''Microsoft [MS-VHDX] '' @ [CHR 0xC2, CHR 0xA7]
            @ ''2.1 File Type Identifier; matches libyal/libvhdi and qemu block/vhdx.h'') None),
      sig Vhd (Start 0) [0x63, 0x6F, 0x6E, 0x65, 0x63, 0x74, 0x69, 0x78] 512
        (Documented (''Microsoft Virtual Hard Disk Image Format Specification ''
            @ [CHR 0xE2, CHR 0x80, CHR 0x94]
            @ '' footer copy at the head of dynamic/differencing disks'') (Some ''fixed-size VHDs have no header copy; they match the End(512) rule below'')),
      sig Vmdk (Start 0) [0x4B, 0x44, 0x4D, 0x56] 512
        (Documented ''VMware sparse extent header magic 0x564D444B; matches libyal/libvmdk and qemu block/vmdk.c'' (Some ''monolithic-flat VMDKs are a plain-text descriptor plus a raw extent and carry no magic'')),
      sig AcronisTib (Start 0) [0xCE, 0x24, 0xB9, 0xA2, 0x20, 0x00, 0x00, 0x00] 8
        (Documented ''file(1) magic database submission, 2018-11 (Magdir/archive)'' (Some ''author verified True Image 2013 and 2019 only; older builds use a different stamp, and TIBX is a separate format'')),
      sig Vhd (End 512) [0x63, 0x6F, 0x6E, 0x65, 0x63, 0x74, 0x69, 0x78] 512
        (Documented (''Microsoft Virtual Hard Disk Image Format Specification ''
            @ [CHR 0xE2, CHR 0x80, CHR 0x94] @ '' the 512-byte footer every VHD ends with'') None),
      sig Dmg (End 512) [0x6B, 0x6F, 0x6C, 0x79] 512
        (Documented ''UDIF trailer, 0x6B6F6C79; matches libyal/libmodi and qemu block/dmg.c'' (Some ''qemu searches a small window rather than a fixed offset, so an image with padding after the trailer will not match this rule'')),
      sig MacriumX (End 12) [0x4D, 0x41, 0x43, 0x52, 0x49, 0x55, 0x4D, 0x5F, 0x46, 0x49, 0x4C, 0x45] 20
        (Documented ''macrium/mrimgx_file_layout, docs/FILE_LAYOUT.md: struct Footer { uint64 first_metadata_block_header; uint8 magic_bytes[12]; }'' (Some ''Reflect X (.mrimgx/.mrbakx) only; the legacy .mrimg format has no dependable signature'')),
      sig Tar (Start 257) [0x75, 0x73, 0x74, 0x61, 0x72] 263
        (Measured ''engine corpus, tar archives''),
      sig Iso9660 (Start 32769) [0x43, 0x44, 0x30, 0x30, 0x31] 32775
        (Measured ''engine corpus, ISO 9660 images'')
     ]"

definition REQUIRED_PREFIX :: nat where "REQUIRED_PREFIX = 32775"

definition REQUIRED_SUFFIX :: nat where "REQUIRED_SUFFIX = 512"

section \<open>Identification\<close>

record Bytes =
  by_head :: bytes
  by_tail :: bytes
  by_total :: nat

definition whole :: "bytes \<Rightarrow> Bytes" where
  "whole d = \<lparr> by_head = d, by_tail = d, by_total = length d \<rparr>"

text \<open>The place a magic would take, if it was supplied.\<close>

definition sig_window :: "Bytes \<Rightarrow> Anchor \<Rightarrow> nat \<Rightarrow> bytes option" where
  "sig_window b a len =
     (case a of
        Start at \<Rightarrow> get_range (by_head b) at (at + len)
      | End bk \<Rightarrow>
          if by_total b < bk \<or> length (by_tail b) < bk then None
          else get_range (by_tail b) (length (by_tail b) - bk) (length (by_tail b) - bk + len))"

definition sig_matches :: "Bytes \<Rightarrow> Signature \<Rightarrow> bool" where
  "sig_matches b s \<longleftrightarrow>
     sg_min_len s \<le> by_total b \<and> sig_window b (sg_anchor s) (length (sg_magic s)) = Some (sg_magic s)"

definition identify_with_provenance :: "Bytes \<Rightarrow> (Format \<times> Provenance) option" where
  "identify_with_provenance b =
     map_option (\<lambda>s. (sg_format s, sg_provenance s)) (find (sig_matches b) SIGNATURES)"

definition identify :: "Bytes \<Rightarrow> Format option" where
  "identify b = map_option fst (identify_with_provenance b)"

section \<open>Names\<close>

definition ascii_lower :: "char \<Rightarrow> char" where
  "ascii_lower c = (let n = (of_char c :: nat) in if 65 \<le> n \<and> n \<le> 90 then char_of (n + 32) else c)"

definition to_ascii_lowercase :: "string \<Rightarrow> string" where
  "to_ascii_lowercase = map ascii_lower"

definition ends_with :: "string \<Rightarrow> string \<Rightarrow> bool" where
  "ends_with s e \<longleftrightarrow> length e \<le> length s \<and> drop (length s - length e) s = e"

definition longer_extension ::
  "string \<Rightarrow> Format \<times> string \<Rightarrow> (nat \<times> Format) option \<Rightarrow> (nat \<times> Format) option" where
  "longer_extension lower p best =
     (if ends_with lower (snd p) \<and> (case best of None \<Rightarrow> True | Some (len, _) \<Rightarrow> len < length (snd p))
      then Some (length (snd p), fst p) else best)"

definition extension_table :: "(Format \<times> string) list" where
  "extension_table = concat (map (\<lambda>f. map (Pair f) (extensions f)) FORMATS)"

definition from_extension :: "string \<Rightarrow> Format option" where
  "from_extension nm = map_option snd (fold (longer_extension (to_ascii_lowercase nm)) extension_table None)"

section \<open>The two answers together\<close>

datatype Agreement = Match | Mismatch | ContentOnly | NameOnly | Unknown

record Identification =
  by_content :: "Format option"
  by_name :: "Format option"
  id_provenance :: "Provenance option"

definition identification_of :: "Bytes \<Rightarrow> string \<Rightarrow> Identification" where
  "identification_of b nm =
     (let found = identify_with_provenance b in
      \<lparr> by_content = map_option fst found, by_name = from_extension nm,
        id_provenance = map_option snd found \<rparr>)"

definition agreement :: "Identification \<Rightarrow> Agreement" where
  "agreement i =
     (case (by_content i, by_name i) of
        (Some c, Some n) \<Rightarrow> if c = n then Match else Mismatch
      | (Some _, None) \<Rightarrow> ContentOnly
      | (None, Some _) \<Rightarrow> NameOnly
      | (None, None) \<Rightarrow> Unknown)"

definition best_effort :: "Identification \<Rightarrow> Format option" where
  "best_effort i = (case by_content i of Some f \<Rightarrow> Some f | None \<Rightarrow> by_name i)"

section \<open>Bounded reads\<close>

text \<open>What a caller supplies after two bounded reads: a head, and a tail when the file is longer.\<close>

definition bounded_reads :: "bytes \<Rightarrow> Bytes" where
  "bounded_reads d =
     \<lparr> by_head = take REQUIRED_PREFIX d,
       by_tail = (if REQUIRED_SUFFIX < length d then drop (length d - REQUIRED_SUFFIX) d else take REQUIRED_PREFIX d),
       by_total = length d \<rparr>"

text \<open>A rule whose magic lies in the bounded reads.\<close>

definition within_reads :: "Signature \<Rightarrow> bool" where
  "within_reads s =
     (case sg_anchor s of
        Start at \<Rightarrow> at + length (sg_magic s) \<le> REQUIRED_PREFIX
      | End bk \<Rightarrow> bk \<le> REQUIRED_SUFFIX)"

lemma signatures_within: "list_all within_reads SIGNATURES"
  by (simp add: SIGNATURES_def sig_def within_reads_def REQUIRED_PREFIX_def REQUIRED_SUFFIX_def)

lemma get_range_take: "b \<le> n \<Longrightarrow> get_range (take n d) a b = get_range d a b"
  by (simp add: get_range_def cut_take)

lemma get_range_drop:
  "n \<le> length d \<Longrightarrow> n \<le> a \<Longrightarrow> get_range (drop n d) (a - n) (a - n + len) = get_range d a (a + len)"
  by (auto simp: get_range_def cut_def)

lemma sig_window_bounded:
  assumes "within_reads s"
  shows "sig_window (bounded_reads d) (sg_anchor s) (length (sg_magic s))
    = sig_window (whole d) (sg_anchor s) (length (sg_magic s))"
proof (cases "sg_anchor s")
  case (Start at)
  then show ?thesis
    using assms by (simp add: sig_window_def bounded_reads_def whole_def within_reads_def get_range_take)
next
  case (End bk)
  have bk: "bk \<le> REQUIRED_SUFFIX" using assms End by (simp add: within_reads_def)
  show ?thesis
  proof (cases "REQUIRED_SUFFIX < length d")
    case True
    have "get_range (drop (length d - REQUIRED_SUFFIX) d) (REQUIRED_SUFFIX - bk) (REQUIRED_SUFFIX - bk + len)
        = get_range d (length d - bk) (length d - bk + len)" for len
      using get_range_drop [of "length d - REQUIRED_SUFFIX" d "length d - bk" len] True bk by simp
    then show ?thesis using True End bk by (simp add: sig_window_def bounded_reads_def whole_def)
  next
    case False
    then have "take REQUIRED_PREFIX d = d" by (simp add: REQUIRED_PREFIX_def REQUIRED_SUFFIX_def)
    then show ?thesis using False End by (simp add: sig_window_def bounded_reads_def whole_def)
  qed
qed

lemma identify_bounded: "identify_with_provenance (bounded_reads d) = identify_with_provenance (whole d)"
proof -
  have "sig_matches (bounded_reads d) s = sig_matches (whole d) s" if "s \<in> set SIGNATURES" for s
    using signatures_within that sig_window_bounded [of s d]
    by (simp add: sig_matches_def list_all_iff bounded_reads_def whole_def)
  then have "find (sig_matches (bounded_reads d)) SIGNATURES = find (sig_matches (whole d)) SIGNATURES"
    by (intro find_cong) simp_all
  then show ?thesis by (simp add: identify_with_provenance_def)
qed

end
