(* ===== verification/Source_Hash.thy ===== *)
theory Source_Hash
  imports Crc Format_Id Health
begin

text \<open>
  Integrity verification of the analyser (\<open>integrity/hasher.rs\<close>, \<open>integrity/manifest.rs\<close>,
  \<open>integrity/mod.rs\<close>): the single streaming pass that computes the digest of a file and of its blocks,
  the sidecar manifest, and the comparison of the two. The digests are third-party code and
  a parameter (\<open>digest\<close>); so are the reads of the stream, a list of what each read returns, and
  the files beside the target. Texts are held as their UTF-8 bytes.
  Shown: the block records are those of the whole file cut into blocks, however the reads
  fall; no block size makes the pass run on; the manifest finds what a \<open>sha256sum\<close> line
  says; a verdict of a match is only given for a listed and equal digest.
\<close>

section \<open>The model\<close>

record 's digest =
  dg_new :: 's
  dg_update :: "'s \<Rightarrow> bytes \<Rightarrow> 's"
  dg_finalize :: "'s \<Rightarrow> bytes"

definition manifest_extension :: "HashType \<Rightarrow> string" where
  "manifest_extension h = (case h of Sha256 \<Rightarrow> ''sha256'' | Sha3_512 \<Rightarrow> ''sha3_512'')"

definition hash_name :: "HashType \<Rightarrow> string" where
  "hash_name h = (case h of Sha256 \<Rightarrow> ''SHA-256'' | Sha3_512 \<Rightarrow> ''SHA3-512'')"

record BlockVerification =
  block_index :: nat
  offset_bytes :: nat
  length_bytes :: nat
  bv_expected_hash :: string
  bv_actual_hash :: string
  bv_matches :: bool

datatype EngineError =
  EngineIo string string
| EngineFormat string
| Encrypted string
| ManifestError string string
| HookError string
| InternalError string

record HashOutcome =
  ho_actual_hash :: string
  ho_blocks :: "BlockVerification list"

definition HEX :: string where "HEX = ''0123456789abcdef''"

definition to_hex :: "bytes \<Rightarrow> string" where
  "to_hex bs = concat (map (\<lambda>b. [HEX ! unat (drop_bit 4 b), HEX ! unat (and b 0x0f)]) bs)"

definition make_block :: "nat \<Rightarrow> nat \<Rightarrow> nat \<Rightarrow> string \<Rightarrow> BlockVerification" where
  "make_block i off len h =
     \<lparr> block_index = i, offset_bytes = off, length_bytes = len, bv_expected_hash = h, bv_actual_hash = h,
       bv_matches = True \<rparr>"

section \<open>The streaming pass\<close>

record 's hash_state =
  hs_global :: 's
  hs_blocks :: "BlockVerification list"
  hs_hasher :: "'s option"
  hs_filled :: nat
  hs_index :: nat
  hs_offset :: nat
  hs_capped :: bool

definition hash_start :: "'s digest \<Rightarrow> nat option \<Rightarrow> 's hash_state" where
  "hash_start d block_size =
     \<lparr> hs_global = dg_new d, hs_blocks = [], hs_hasher = map_option (\<lambda>_. dg_new d) block_size,
       hs_filled = 0, hs_index = 0, hs_offset = 0, hs_capped = False \<rparr>"

definition push_block :: "'s digest \<Rightarrow> nat \<Rightarrow> 's \<Rightarrow> 's hash_state \<Rightarrow> 's hash_state" where
  "push_block d bsize bh st =
     st\<lparr> hs_blocks := hs_blocks st @ [make_block (hs_index st) (hs_offset st) bsize (to_hex (dg_finalize d bh))],
         hs_hasher := None, hs_index := hs_index st + 1, hs_offset := hs_offset st + bsize, hs_filled := 0 \<rparr>"

text \<open>
  The inner loop, over the rest of the chunk. A block that is not filled has taken that rest,
  so the loop ends with it.
\<close>

function feed_blocks ::
  "'s digest \<Rightarrow> nat \<Rightarrow> nat \<Rightarrow> bytes \<Rightarrow> 's hash_state \<Rightarrow> 's hash_state" where
  "feed_blocks d bsize max_blocks chunk st =
     (if chunk = [] then st
      else
        (let bh = (case hs_hasher st of Some h \<Rightarrow> h | None \<Rightarrow> dg_new d);
             n = min (bsize - hs_filled st) (length chunk);
             bh = dg_update d bh (take n chunk);
             filled = hs_filled st + n in
         if filled = bsize then
           (let st = push_block d bsize bh st in
            if max_blocks \<le> length (hs_blocks st) then st\<lparr> hs_capped := True \<rparr>
            else feed_blocks d bsize max_blocks (drop n chunk) st)
         else st\<lparr> hs_hasher := Some bh, hs_filled := filled \<rparr>))"
  by pat_completeness auto
termination
  by (relation "measure (\<lambda>(d, bsize, max_blocks, chunk, st). max_blocks - length (hs_blocks st))")
    (auto simp: push_block_def)

declare feed_blocks.simps [simp del]

definition hash_chunk ::
  "'s digest \<Rightarrow> nat option \<Rightarrow> nat \<Rightarrow> bytes \<Rightarrow> 's hash_state \<Rightarrow> 's hash_state" where
  "hash_chunk d block_size max_blocks chunk st =
     (let st = st\<lparr> hs_global := dg_update d (hs_global st) chunk \<rparr> in
      case block_size of
        Some bsize \<Rightarrow> if \<not> hs_capped st then feed_blocks d bsize max_blocks chunk st else st
      | None \<Rightarrow> st)"

text \<open>The outer loop: a read that fails ends the pass with its error, an empty one ends the file.\<close>

fun hash_reads ::
  "'s digest \<Rightarrow> nat option \<Rightarrow> nat \<Rightarrow> string \<Rightarrow> (string + bytes) list \<Rightarrow> 's hash_state
    \<Rightarrow> EngineError + 's hash_state" where
  "hash_reads d block_size max_blocks path [] st = Inr st"
| "hash_reads d block_size max_blocks path (Inl e # rs) st = Inl (EngineIo path e)"
| "hash_reads d block_size max_blocks path (Inr chunk # rs) st =
     (if chunk = [] then Inr st
      else hash_reads d block_size max_blocks path rs (hash_chunk d block_size max_blocks chunk st))"

definition flush_block :: "'s digest \<Rightarrow> 's hash_state \<Rightarrow> BlockVerification list" where
  "flush_block d st =
     (case hs_hasher st of
        Some bh \<Rightarrow>
          if \<not> hs_capped st \<and> 0 < hs_filled st
          then hs_blocks st @ [make_block (hs_index st) (hs_offset st) (hs_filled st) (to_hex (dg_finalize d bh))]
          else hs_blocks st
      | None \<Rightarrow> hs_blocks st)"

text \<open>\<open>stream\<close>; opening the stream fails or gives the reads.\<close>

definition hash_stream ::
  "'s digest \<Rightarrow> string \<Rightarrow> string + (string + bytes) list \<Rightarrow> nat option \<Rightarrow> nat \<Rightarrow> EngineError + HashOutcome" where
  "hash_stream d path opened block_size max_blocks =
     (case opened of
        Inl e \<Rightarrow> Inl (EngineIo path e)
      | Inr reads \<Rightarrow>
          (case hash_reads d block_size max_blocks path reads (hash_start d block_size) of
             Inl e \<Rightarrow> Inl e
           | Inr st \<Rightarrow> Inr \<lparr> ho_actual_hash = to_hex (dg_finalize d (hs_global st)), ho_blocks = flush_block d st \<rparr>))"

definition hash_source ::
  "(HashType \<Rightarrow> 's digest) \<Rightarrow> string \<Rightarrow> string + (string + bytes) list \<Rightarrow> HashType \<Rightarrow> nat option \<Rightarrow> nat
    \<Rightarrow> EngineError + HashOutcome" where
  "hash_source ds path opened h block_size max_blocks = hash_stream (ds h) path opened block_size max_blocks"

section \<open>Manifests\<close>

text \<open>The bytes of the white-space character a text starts with: zero when it starts with none.\<close>

definition white_at :: "string \<Rightarrow> nat" where
  "white_at s =
     (if take 1 s \<in> {[CHR 0x09], [CHR 0x0A], [CHR 0x0B], [CHR 0x0C], [CHR 0x0D], '' ''} then 1
      else if take 2 s \<in> {[CHR 0xC2, CHR 0x85], [CHR 0xC2, CHR 0xA0]} then 2
      else if take 3 s \<in> {[CHR 0xE1, CHR 0x9A, CHR 0x80],
          [CHR 0xE2, CHR 0x80, CHR 0x80], [CHR 0xE2, CHR 0x80, CHR 0x81], [CHR 0xE2, CHR 0x80, CHR 0x82],
          [CHR 0xE2, CHR 0x80, CHR 0x83], [CHR 0xE2, CHR 0x80, CHR 0x84], [CHR 0xE2, CHR 0x80, CHR 0x85],
          [CHR 0xE2, CHR 0x80, CHR 0x86], [CHR 0xE2, CHR 0x80, CHR 0x87], [CHR 0xE2, CHR 0x80, CHR 0x88],
          [CHR 0xE2, CHR 0x80, CHR 0x89], [CHR 0xE2, CHR 0x80, CHR 0x8A], [CHR 0xE2, CHR 0x80, CHR 0xA8],
          [CHR 0xE2, CHR 0x80, CHR 0xA9], [CHR 0xE2, CHR 0x80, CHR 0xAF], [CHR 0xE2, CHR 0x81, CHR 0x9F],
          [CHR 0xE3, CHR 0x80, CHR 0x80]} then 3
      else 0)"

lemma white_at_bound: "white_at s \<le> length s"
  by (cases s; cases "tl s"; cases "tl (tl s)") (auto simp: white_at_def)

function trim_start :: "string \<Rightarrow> string" where
  "trim_start s = (if white_at s = 0 then s else trim_start (drop (white_at s) s))"
  by pat_completeness auto
termination by (relation "measure length") (use white_at_bound in \<open>auto simp: less_diff_conv2 intro: diff_less\<close>)

declare trim_start.simps [simp del]

text \<open>The bytes of the white-space character a text ends with.\<close>

definition white_before :: "string \<Rightarrow> nat" where
  "white_before s =
     (case filter (\<lambda>k. k \<le> length s \<and> white_at (drop (length s - k) s) = k) [1, 2, 3] of k # _ \<Rightarrow> k | [] \<Rightarrow> 0)"

function trim_end :: "string \<Rightarrow> string" where
  "trim_end s = (if white_before s = 0 \<or> s = [] then s else trim_end (take (length s - white_before s) s))"
  by pat_completeness auto
termination by (relation "measure length") auto

declare trim_end.simps [simp del]

definition trim_text :: "string \<Rightarrow> string" where
  "trim_text s = trim_end (trim_start s)"

text \<open>\<open>str::lines\<close>: pieces between line feeds, each without one trailing carriage return.\<close>

definition strip_cr :: "string \<Rightarrow> string" where
  "strip_cr l = (if l \<noteq> [] \<and> last l = CHR 0x0D then butlast l else l)"

function text_lines :: "string \<Rightarrow> string list" where
  "text_lines s =
     (if s = [] then []
      else if CHR 0x0A \<in> set s
      then strip_cr (takeWhile (\<lambda>c. c \<noteq> CHR 0x0A) s) # text_lines (tl (dropWhile (\<lambda>c. c \<noteq> CHR 0x0A) s))
      else [s])"
  by pat_completeness auto
termination
proof (relation "measure length")
  fix s :: string
  assume "s \<noteq> []"
  then have "length (tl (dropWhile (\<lambda>c. c \<noteq> CHR 0x0A) s)) < length s"
    using length_dropWhile_le [of "\<lambda>c. c \<noteq> CHR 0x0A" s] by (simp add: less_eq_Suc_le Suc_diff_le) (cases s, auto)
  then show "(tl (dropWhile (\<lambda>c. c \<noteq> CHR 0x0A) s), s) \<in> measure length" by simp
qed simp

declare text_lines.simps [simp del]

text \<open>\<open>splitn(2, char::is_whitespace)\<close>: the text before the first white-space character, and after it.\<close>

fun split_white :: "string \<Rightarrow> string \<times> string option" where
  "split_white [] = ([], None)"
| "split_white (c # cs) =
     (if white_at (c # cs) \<noteq> 0 then ([], Some (drop (white_at (c # cs)) (c # cs)))
      else (case split_white cs of (a, b) \<Rightarrow> (c # a, b)))"

definition strip_star :: "string \<Rightarrow> string" where
  "strip_star s = (case s of c # cs \<Rightarrow> if c = CHR ''*'' then cs else s | [] \<Rightarrow> [])"

definition split_entry :: "string \<Rightarrow> (string \<times> string) option" where
  "split_entry line =
     (case split_white line of
        (first, rest) \<Rightarrow>
          (case rest of
             None \<Rightarrow> None
           | Some r \<Rightarrow>
               (let h = to_ascii_lowercase first; nm = strip_star (trim_start r) in
                if h = [] \<or> nm = [] then None else Some (h, nm))))"

type_synonym manifest_entries = "string \<rightharpoonup> string"

definition manifest_line :: "manifest_entries \<Rightarrow> string \<Rightarrow> manifest_entries" where
  "manifest_line m line =
     (let line = trim_text line in
      if line = [] then m
      else (case split_entry line of Some (h, nm) \<Rightarrow> m(nm \<mapsto> h) | None \<Rightarrow> m))"

definition manifest_parse :: "string \<Rightarrow> manifest_entries" where
  "manifest_parse text = foldl manifest_line Map.empty (text_lines text)"

text \<open>What is beside the target: nothing, a file that cannot be read, or a text.\<close>

type_synonym text_files = "string \<Rightarrow> (string + string) option"

definition manifest_load :: "text_files \<Rightarrow> string \<Rightarrow> EngineError + manifest_entries" where
  "manifest_load files path =
     (case files path of
        Some (Inr text) \<Rightarrow> Inr (manifest_parse text)
      | Some (Inl e) \<Rightarrow> Inl (ManifestError path e)
      | None \<Rightarrow> Inl (ManifestError path ''No such file or directory (os error 2)''))"

definition find_sidecar :: "text_files \<Rightarrow> string \<Rightarrow> HashType \<Rightarrow> string option" where
  "find_sidecar files target h =
     (let candidate = target @ ''.'' @ manifest_extension h in
      if files candidate \<noteq> None then Some candidate else None)"

section \<open>Verification\<close>

definition MAX_BLOCKS :: nat where "MAX_BLOCKS = 500000"

text \<open>\<open>integrity::run\<close>: the result and its block records.\<close>

definition integrity_run ::
  "(HashType \<Rightarrow> 's digest) \<Rightarrow> string \<Rightarrow> string + (string + bytes) list \<Rightarrow> HashType \<Rightarrow> nat option
    \<Rightarrow> EngineError + IntegrityResult \<times> BlockVerification list" where
  "integrity_run ds path opened h block_size =
     (case hash_source ds path opened h block_size MAX_BLOCKS of
        Inl e \<Rightarrow> Inl e
      | Inr out \<Rightarrow>
          Inr (\<lparr> hash_type = h, expected_hash = None, actual_hash = ho_actual_hash out, matches = False,
                 manifest_present = False \<rparr>, ho_blocks out))"

definition run_with_manifest ::
  "(HashType \<Rightarrow> 's digest) \<Rightarrow> text_files \<Rightarrow> string \<Rightarrow> string + (string + bytes) list \<Rightarrow> string \<Rightarrow> string
    \<Rightarrow> HashType \<Rightarrow> nat option \<Rightarrow> EngineError + IntegrityResult \<times> BlockVerification list" where
  "run_with_manifest ds files path opened target lookup_name h block_size =
     (case integrity_run ds path opened h block_size of
        Inl e \<Rightarrow> Inl e
      | Inr (result, blocks) \<Rightarrow>
          (case find_sidecar files target h of
             None \<Rightarrow> Inr (result, blocks)
           | Some manifest_path \<Rightarrow>
               (case manifest_load files manifest_path of
                  Inl e \<Rightarrow> Inl e
                | Inr entries \<Rightarrow>
                    (let result = result\<lparr> manifest_present := True \<rparr> in
                     case entries lookup_name of
                       None \<Rightarrow> Inr (result, blocks)
                     | Some expected \<Rightarrow>
                         (let expected = to_ascii_lowercase expected in
                          Inr (result\<lparr> matches := (expected = actual_hash result), expected_hash := Some expected \<rparr>,
                               blocks))))))"


section \<open>The blocks of a file\<close>

text \<open>The record of the \<open>i\<close>-th block of a file, computed from the whole file.\<close>

definition block_record :: "'s digest \<Rightarrow> nat \<Rightarrow> bytes \<Rightarrow> nat \<Rightarrow> BlockVerification" where
  "block_record d k file i =
     make_block i (i * k) (min k (length file - i * k))
       (to_hex (dg_finalize d (dg_update d (dg_new d) (cut file (i * k) ((i + 1) * k)))))"

definition lawful :: "'s digest \<Rightarrow> bool" where
  "lawful d \<longleftrightarrow> streaming_checksum (dg_update d)"

lemma lawful_laws:
  assumes "lawful d"
  shows "dg_update d s [] = s" "dg_update d s (xs @ ys) = dg_update d (dg_update d s xs) ys"
  using assms unfolding lawful_def streaming_checksum_def by auto

lemma block_record_append: "(i + 1) * k \<le> length file \<Longrightarrow> block_record d k (file @ rest) i = block_record d k file i"
  by (simp add: block_record_def cut_simps)

lemma block_records_append:
  "n * k \<le> length file \<Longrightarrow> map (block_record d k (file @ rest)) [0..<n] = map (block_record d k file) [0..<n]"
proof (rule map_cong [OF refl])
  fix i assume "n * k \<le> length file" "i \<in> set [0..<n]"
  then have "(i + 1) * k \<le> n * k" by (intro mult_le_mono1) simp
  then show "block_record d k (file @ rest) i = block_record d k file i"
    using \<open>n * k \<le> length file\<close> by (intro block_record_append) linarith
qed

text \<open>The state of the pass after the bytes \<open>seen\<close>.\<close>

definition pass_state :: "'s digest \<Rightarrow> nat \<Rightarrow> nat \<Rightarrow> bytes \<Rightarrow> 's hash_state \<Rightarrow> bool" where
  "pass_state d k mx seen st \<longleftrightarrow>
     (if mx \<le> length seen div k
      then hs_capped st \<and> hs_blocks st = map (block_record d k seen) [0..<mx]
      else \<not> hs_capped st \<and> hs_blocks st = map (block_record d k seen) [0..<length seen div k]
        \<and> hs_index st = length seen div k \<and> hs_offset st = length seen div k * k
        \<and> hs_filled st = length seen mod k \<and> (0 < hs_filled st \<longrightarrow> hs_hasher st \<noteq> None)
        \<and> (case hs_hasher st of Some h \<Rightarrow> h | None \<Rightarrow> dg_new d)
          = dg_update d (dg_new d) (drop (length seen div k * k) seen))"

lemma pass_state_capped:
  "mx \<le> length seen div k \<Longrightarrow> pass_state d k mx seen st \<Longrightarrow> pass_state d k mx (seen @ rest) st"
proof -
  assume *: "mx \<le> length seen div k" "pass_state d k mx seen st"
  then have "mx * k \<le> length seen" by (meson div_times_less_eq_dividend mult_le_mono1 order_trans)
  moreover have "length seen div k \<le> (length seen + length rest) div k" by (rule div_le_mono) simp
  ultimately show ?thesis using * by (simp add: pass_state_def block_records_append)
qed

text \<open>A block that is filled, and one that stays open.\<close>

definition current_hasher :: "'s digest \<Rightarrow> 's hash_state \<Rightarrow> 's" where
  "current_hasher d st = (case hs_hasher st of Some h \<Rightarrow> h | None \<Rightarrow> dg_new d)"

lemma fill_block:
  assumes "lawful d" "0 < k" "length seen div k < mx" "pass_state d k mx seen st"
    and front: "length front = k - length seen mod k"
  defines "st' \<equiv> push_block d k (dg_update d (current_hasher d st) front) st"
  shows "length (hs_blocks st') = length (seen @ front) div k"
    and "mx \<le> length (seen @ front) div k \<Longrightarrow> pass_state d k mx (seen @ front) (st'\<lparr> hs_capped := True \<rparr>)"
    and "\<not> mx \<le> length (seen @ front) div k \<Longrightarrow> pass_state d k mx (seen @ front) st'"
proof -
  let ?q = "length seen div k" and ?seen = "seen @ front"
  have st: "\<not> hs_capped st" "hs_blocks st = map (block_record d k seen) [0..<?q]" "hs_index st = ?q"
    "hs_offset st = ?q * k" "current_hasher d st = dg_update d (dg_new d) (drop (?q * k) seen)"
    using assms(3,4) by (simp_all add: pass_state_def current_hasher_def)
  have len: "?q * k + length seen mod k = length seen" "length seen mod k < k" using assms(2) by simp_all
  then have seen': "length ?seen = (?q + 1) * k"
    using front unfolding length_append add_mult_distrib mult_1 by linarith
  then have q': "length ?seen div k = ?q + 1" "length ?seen mod k = 0" using assms(2) by simp_all
  have "block_record d k ?seen ?q = make_block ?q (?q * k) k (to_hex (dg_finalize d (dg_update d (current_hasher d st) front)))"
    using seen' len by (simp add: block_record_def cut_full st(5) lawful_laws(2) [OF assms(1)])
  then have pushed: "hs_blocks st' = map (block_record d k ?seen) [0..<?q + 1]"
    using block_records_append [of ?q k seen d front] st len by (simp add: st'_def push_block_def)
  then show "length (hs_blocks st') = length ?seen div k" using q' by simp
  show "pass_state d k mx ?seen (st'\<lparr> hs_capped := True \<rparr>)" if "mx \<le> length ?seen div k"
  proof -
    have "mx = ?q + 1" using assms(3) that q' by simp
    then show ?thesis using pushed q' by (simp add: pass_state_def)
  qed
  show "pass_state d k mx ?seen st'" if "\<not> mx \<le> length ?seen div k"
    using that pushed q' st(1,3,4) seen' lawful_laws(1) [OF assms(1)]
    by (simp add: pass_state_def) (simp add: st'_def push_block_def)
qed

lemma quotient_rest: "(r :: nat) < k \<Longrightarrow> (q * k + r) div k = q" "(r :: nat) < k \<Longrightarrow> (q * k + r) mod k = r"
  by simp_all

lemma open_block:
  assumes "lawful d" "length seen div k < mx" "pass_state d k mx seen st"
    and short: "length seen mod k + length chunk < k"
  shows "pass_state d k mx (seen @ chunk)
    (st\<lparr> hs_hasher := Some (dg_update d (current_hasher d st) chunk), hs_filled := length seen mod k + length chunk \<rparr>)"
proof -
  let ?q = "length seen div k"
  have len: "length (seen @ chunk) = ?q * k + (length seen mod k + length chunk)" by simp
  have q': "length (seen @ chunk) div k = ?q" "length (seen @ chunk) mod k = length seen mod k + length chunk"
    unfolding len by (rule quotient_rest [OF short])+
  show ?thesis
    using assms(2,3) block_records_append [of ?q k seen d chunk] q'
    by (simp add: pass_state_def current_hasher_def lawful_laws(2) [OF assms(1)])
qed

lemma feed_blocks_step:
  fixes d :: "'s digest"
  assumes "chunk \<noteq> []" "hs_filled st < k" and m: "m = min (k - hs_filled st) (length chunk)"
  defines "h \<equiv> dg_update d (current_hasher d st) (take m chunk)"
  shows "feed_blocks d k mx chunk st =
    (if k - hs_filled st \<le> length chunk
     then if mx \<le> length (hs_blocks (push_block d k h st)) then push_block d k h st\<lparr> hs_capped := True \<rparr>
          else feed_blocks d k mx (drop m chunk) (push_block d k h st)
     else st\<lparr> hs_hasher := Some h, hs_filled := hs_filled st + length chunk \<rparr>)"
  using assms(1,2) unfolding feed_blocks.simps [of d k mx chunk st] Let_def h_def m current_hasher_def
  by (auto simp: min_def)

lemma feed_blocks_state:
  assumes "lawful d" "0 < k" "length seen div k < mx" "pass_state d k mx seen st"
  shows "pass_state d k mx (seen @ chunk) (feed_blocks d k mx chunk st)"
  using assms
proof (induction "length chunk" arbitrary: seen chunk st rule: less_induct)
  case less
  show ?case
  proof (cases "chunk = []")
    case True
    then show ?thesis using less.prems by (simp add: feed_blocks.simps [of d k mx "[]"])
  next
    case False
    let ?r = "length seen mod k"
    have r: "hs_filled st = ?r" "?r < k" using less.prems by (simp_all add: pass_state_def)
    show ?thesis
    proof (cases "k - ?r \<le> length chunk")
      case True
      let ?m = "k - ?r"
      let ?st = "push_block d k (dg_update d (current_hasher d st) (take ?m chunk)) st"
      have front: "length (take ?m chunk) = k - ?r" using True by simp
      note filled = fill_block [OF less.prems front]
      have step: "feed_blocks d k mx chunk st =
          (if mx \<le> length (seen @ take ?m chunk) div k then ?st\<lparr> hs_capped := True \<rparr>
           else feed_blocks d k mx (drop ?m chunk) ?st)"
        using feed_blocks_step [OF False, of st k ?m d mx] r True filled(1) by (simp add: min_def)
      have "pass_state d k mx ((seen @ take ?m chunk) @ drop ?m chunk) (feed_blocks d k mx chunk st)"
      proof (cases "mx \<le> length (seen @ take ?m chunk) div k")
        case full: True
        show ?thesis unfolding step if_P [OF full] by (rule pass_state_capped [OF full filled(2) [OF full]])
      next
        case going: False
        have "0 < length chunk" using False by simp
        then have "length (drop ?m chunk) < length chunk" using r(2) unfolding length_drop by linarith
        then show ?thesis
          using less.hyps [OF _ less.prems(1,2) _ filled(3) [OF going], of "drop ?m chunk"] step going by simp
      qed
      then show ?thesis by simp
    next
      case short: False
      then have "?r + length chunk < k" using r(2) by simp
      from open_block [OF less.prems(1,3,4) this] show ?thesis
        using feed_blocks_step [OF False, of st k "length chunk" d mx] r short by simp
    qed
  qed
qed

section \<open>The whole pass\<close>

text \<open>Reads that all succeed and return something.\<close>

definition good_reads :: "(string + bytes) list \<Rightarrow> bytes \<Rightarrow> bool" where
  "good_reads rs file \<longleftrightarrow> (\<exists>chunks. rs = map Inr chunks \<and> [] \<notin> set chunks \<and> concat chunks = file)"

lemma feed_blocks_global: "hs_global (feed_blocks d k mx chunk st) = hs_global st"
proof (induction d k mx chunk st rule: feed_blocks.induct)
  case (1 d k mx chunk st)
  then show ?case unfolding feed_blocks.simps [of d k mx chunk st] Let_def by (auto simp: push_block_def)
qed

lemma hash_chunk_global: "hs_global (hash_chunk d bs mx chunk st) = dg_update d (hs_global st) chunk"
  by (simp add: hash_chunk_def Let_def feed_blocks_global split: option.split)

lemma pass_state_global: "pass_state d k mx seen (st\<lparr> hs_global := g \<rparr>) = pass_state d k mx seen st"
  by (simp add: pass_state_def)

lemma hash_chunk_state:
  assumes "lawful d" "0 < k" "pass_state d k mx seen st"
  shows "pass_state d k mx (seen @ chunk) (hash_chunk d (Some k) mx chunk st)"
proof (cases "mx \<le> length seen div k")
  case True
  then have "hs_capped st" using assms(3) by (simp add: pass_state_def)
  then show ?thesis using pass_state_capped [OF True assms(3)] by (simp add: hash_chunk_def pass_state_global)
next
  case False
  then have "\<not> hs_capped st" using assms(3) by (simp add: pass_state_def)
  then show ?thesis
    using feed_blocks_state [of d k seen mx "st\<lparr> hs_global := dg_update d (hs_global st) chunk \<rparr>" chunk] False assms
    by (simp add: hash_chunk_def Let_def pass_state_global)
qed

lemma hash_reads_state:
  assumes "lawful d" "0 < k" "[] \<notin> set chunks" "pass_state d k mx seen st" "hs_global st = dg_update d (dg_new d) seen"
  shows "\<exists>st'. hash_reads d (Some k) mx path (map Inr chunks) st = Inr st'
    \<and> pass_state d k mx (seen @ concat chunks) st' \<and> hs_global st' = dg_update d (dg_new d) (seen @ concat chunks)"
  using assms(3-5)
proof (induction chunks arbitrary: seen st)
  case (Cons c cs)
  have "pass_state d k mx (seen @ c) (hash_chunk d (Some k) mx c st)"
    by (rule hash_chunk_state [OF assms(1,2) Cons.prems(2)])
  moreover have "hs_global (hash_chunk d (Some k) mx c st) = dg_update d (dg_new d) (seen @ c)"
    using Cons.prems(3) by (simp add: hash_chunk_global lawful_laws(2) [OF assms(1)])
  ultimately show ?case
    using Cons.IH [of "seen @ c" "hash_chunk d (Some k) mx c st"] Cons.prems(1) by auto
qed simp

lemma div_ceil_split: "r < k \<Longrightarrow> div_ceil (q * k + r) k = (if r = 0 then q else q + 1)"
proof -
  assume r: "r < k"
  show ?thesis
  proof (cases r)
    case 0
    then have "q * k + r + k - 1 = q * k + (k - 1)" using r by simp
    then show ?thesis using quotient_rest(1) [of "k - 1" k q] r 0 by (simp add: div_ceil_def)
  next
    case (Suc n)
    then have "q * k + r + k - 1 = (q + 1) * k + n" by simp
    moreover have "n < k" using r Suc by simp
    ultimately show ?thesis using Suc by (simp only: div_ceil_def quotient_rest) simp
  qed
qed

lemma flush_records:
  assumes "lawful d" "0 < k" "pass_state d k mx file st"
  shows "flush_block d st = map (block_record d k file) [0..<min mx (div_ceil (length file) k)]"
proof -
  let ?q = "length file div k" and ?r = "length file mod k"
  have len: "?q * k + ?r = length file" "?r < k" using assms(2) by simp_all
  have blocks: "div_ceil (length file) k = (if ?r = 0 then ?q else ?q + 1)"
    using div_ceil_split [OF len(2), of ?q] len(1) by simp
  show ?thesis
  proof (cases "mx \<le> ?q")
    case True
    then have "flush_block d st = map (block_record d k file) [0..<mx]"
      using assms(3) by (auto simp: pass_state_def flush_block_def split: option.split)
    moreover have "min mx (div_ceil (length file) k) = mx" using True blocks by simp
    ultimately show ?thesis by simp
  next
    case False
    then have st: "\<not> hs_capped st" "hs_blocks st = map (block_record d k file) [0..<?q]" "hs_index st = ?q"
      "hs_offset st = ?q * k" "hs_filled st = ?r" "0 < ?r \<longrightarrow> hs_hasher st \<noteq> None"
      "current_hasher d st = dg_update d (dg_new d) (drop (?q * k) file)"
      using assms(3) by (simp_all add: pass_state_def current_hasher_def)
    have "make_block ?q (?q * k) ?r (to_hex (dg_finalize d (dg_update d (dg_new d) (drop (?q * k) file))))
        = block_record d k file ?q"
    proof -
      have "length file - ?q * k = ?r" by (simp add: minus_div_mult_eq_mod)
      moreover have "length file \<le> (?q + 1) * k" using len unfolding add_mult_distrib mult_1 by linarith
      moreover have "min k ?r = ?r" using len(2) by simp
      ultimately have "length file - ?q * k = ?r" "length file \<le> (?q + 1) * k" "min k ?r = ?r" .
      then show ?thesis by (simp only: block_record_def cut_full)
    qed
    moreover have "min mx (div_ceil (length file) k) = div_ceil (length file) k" using False blocks by simp
    ultimately show ?thesis
      using st blocks by (auto simp: flush_block_def current_hasher_def split: option.splits if_splits)
  qed
qed

lemma hash_stream_blocks:
  assumes "lawful d" "0 < k" "0 < mx" "good_reads rs file"
  shows "hash_stream d path (Inr rs) (Some k) mx = Inr
    \<lparr> ho_actual_hash = to_hex (dg_finalize d (dg_update d (dg_new d) file)),
      ho_blocks = map (block_record d k file) [0..<min mx (div_ceil (length file) k)] \<rparr>"
proof -
  obtain chunks where chunks: "rs = map Inr chunks" "[] \<notin> set chunks" "concat chunks = file"
    using assms(4) by (auto simp: good_reads_def)
  have "pass_state d k mx [] (hash_start d (Some k))" "hs_global (hash_start d (Some k)) = dg_update d (dg_new d) []"
    using assms(3) by (simp_all add: pass_state_def hash_start_def lawful_laws(1) [OF assms(1)])
  from hash_reads_state [OF assms(1,2) chunks(2) this, of path] obtain st where
    "hash_reads d (Some k) mx path rs (hash_start d (Some k)) = Inr st"
    "pass_state d k mx file st" "hs_global st = dg_update d (dg_new d) file"
    using chunks by auto
  then show ?thesis using flush_records [OF assms(1,2)] by (simp add: hash_stream_def)
qed

text \<open>
  C19. Hashing is independent of how the reads fall: for every block size and cap above zero and every
  sequence of reads that delivers a file, the pass returns the digest of the file and, up to
  the cap, one record per block of the file in order, the last one as short as the file leaves it, each with
  the digest of exactly its bytes. The digest is only assumed to be a streaming one.
\<close>

theorem hash_stream_exact:
  assumes "lawful d" "0 < k" "0 < mx" "good_reads rs file"
  shows "hash_stream d path (Inr rs) (Some k) mx = Inr
    \<lparr> ho_actual_hash = to_hex (dg_finalize d (dg_update d (dg_new d) file)),
      ho_blocks = map (block_record d k file) [0..<min mx (div_ceil (length file) k)] \<rparr>"
  using assms by (rule hash_stream_blocks)

definition crc_digest :: "crc32_acc digest" where
  "crc_digest = \<lparr> dg_new = crc32_new, dg_update = crc32_update, dg_finalize = (\<lambda>c. u32_bytes (crc32_finalize c)) \<rparr>"

lemma crc_digest_lawful: "lawful crc_digest"
  using table_crc.streaming_checksum_axioms by (simp add: lawful_def crc_digest_def)

theorem hash_stream_exact_witness:
  "\<exists>out. hash_stream crc_digest ''f'' (Inr [Inr [1, 2], Inr [3, 4, 5]]) (Some 2) 10 = Inr out
    \<and> map offset_bytes (ho_blocks out) = [0, 2, 4] \<and> map length_bytes (ho_blocks out) = [2, 2, 1]
    \<and> ho_actual_hash out = to_hex (u32_bytes (crc32 [1, 2, 3, 4, 5]))"
proof -
  have "good_reads [Inr [1, 2], Inr [3, 4, 5]] [1, 2, 3, 4, 5]"
    unfolding good_reads_def by (rule exI [of _ "[[1, 2], [3, 4, 5]]"]) simp
  from hash_stream_exact [OF crc_digest_lawful _ _ this, of 2 10 "''f''"]
  have "hash_stream crc_digest ''f'' (Inr [Inr [1, 2], Inr [3, 4, 5]]) (Some 2) 10 = Inr
    \<lparr> ho_actual_hash = to_hex (dg_finalize crc_digest (dg_update crc_digest (dg_new crc_digest) [1, 2, 3, 4, 5])),
      ho_blocks = map (block_record crc_digest 2 [1, 2, 3, 4, 5]) [0..<min 10 (div_ceil (length [1, 2, 3, 4, 5 :: u8]) 2)] \<rparr>" by simp
  moreover have "[0..<min 10 (div_ceil (length [1, 2, 3, 4, 5 :: u8]) 2)] = [0, 1, 2]" by (simp add: div_ceil_def upt_rec)
  ultimately show ?thesis
    by (simp add: block_record_def make_block_def crc_digest_def crc32_def)
qed

section \<open>No block size makes the pass run on\<close>

definition block_room :: "nat \<Rightarrow> 's hash_state \<Rightarrow> bool" where
  "block_room mx st \<longleftrightarrow>
     (if hs_capped st then length (hs_blocks st) \<le> max 1 mx else hs_blocks st = [] \<or> length (hs_blocks st) < mx)"

lemma feed_blocks_room: "\<not> hs_capped st \<Longrightarrow> block_room mx st \<Longrightarrow> block_room mx (feed_blocks d k mx chunk st)"
proof (induction d k mx chunk st rule: feed_blocks.induct)
  case (1 d k mx chunk st)
  have blocks: "length (hs_blocks (push_block d k h st)) = length (hs_blocks st) + 1" "hs_capped (push_block d k h st) = hs_capped st" for h
    by (simp_all add: push_block_def)
  show ?case
    using 1 blocks unfolding feed_blocks.simps [of d k mx chunk st] Let_def
    by (auto simp: block_room_def not_le)
qed

lemma block_room_global: "block_room mx (st\<lparr> hs_global := g \<rparr>) = block_room mx st"
  by (simp add: block_room_def)

lemma hash_chunk_room: "block_room mx st \<Longrightarrow> block_room mx (hash_chunk d bs mx chunk st)"
  by (cases bs) (simp_all add: hash_chunk_def Let_def block_room_global feed_blocks_room)

lemma hash_reads_room:
  "block_room mx st \<Longrightarrow> hash_reads d bs mx path rs st = Inr st' \<Longrightarrow> block_room mx st'"
proof (induction d bs mx path rs st rule: hash_reads.induct)
  case (3 d bs mx path chunk rs st)
  have "block_room mx (hash_chunk d bs mx chunk st)" using "3.prems"(1) by (rule hash_chunk_room)
  then show ?case using 3 by (auto split: if_splits)
qed auto

text \<open>
  C40. The number of block records is bounded whatever the block size, zero included, for every
  digest and every sequence of reads: at most the cap, or one when the cap is zero. A block
  size of zero fills the cap with empty blocks; it does not make the pass run on.
\<close>

theorem hash_stream_bounded:
  "case hash_stream d path opened bs mx of
     Inl e \<Rightarrow> \<exists>reason. e = EngineIo path reason
   | Inr out \<Rightarrow> length (ho_blocks out) \<le> max 1 mx"
proof (cases opened)
  case (Inr reads)
  show ?thesis
  proof (cases "hash_reads d bs mx path reads (hash_start d bs)")
    case (Inl e)
    moreover have "\<exists>reason. e = EngineIo path reason" if "hash_reads d bs mx path rs st = Inl e" for rs st
      using that by (induction d bs mx path rs st rule: hash_reads.induct) (auto split: if_splits)
    ultimately show ?thesis using Inr by (simp add: hash_stream_def)
  next
    case out: (Inr st)
    have "block_room mx (hash_start d bs)" by (simp add: block_room_def hash_start_def)
    from hash_reads_room [OF this out] have "length (flush_block d st) \<le> max 1 mx"
      by (auto simp: block_room_def flush_block_def split: option.split if_splits)
    then show ?thesis using Inr out by (simp add: hash_stream_def)
  qed
qed (simp add: hash_stream_def)

section \<open>Manifests as \<open>sha256sum\<close> writes them\<close>

text \<open>A line of a manifest, and what the digest and the name in it have to look like.\<close>

definition sum_line :: "string \<times> string \<Rightarrow> string" where
  "sum_line p = fst p @ ''  '' @ snd p"

definition listable :: "string \<times> string \<Rightarrow> bool" where
  "listable p \<longleftrightarrow> fst p \<noteq> [] \<and> list_all (\<lambda>c. c \<in> set HEX) (fst p)
     \<and> snd p \<noteq> [] \<and> CHR 0x0A \<notin> set (snd p) \<and> hd (snd p) \<noteq> CHR ''*''
     \<and> white_at (snd p) = 0 \<and> white_before (snd p) = 0"

definition white_leads :: "char set" where
  "white_leads = {CHR 0x09, CHR 0x0A, CHR 0x0B, CHR 0x0C, CHR 0x0D, CHR '' '', CHR 0xC2, CHR 0xE1, CHR 0xE2, CHR 0xE3}"

lemma white_at_lead: "c \<notin> white_leads \<Longrightarrow> white_at (c # cs) = 0"
  by (simp add: white_at_def white_leads_def)

lemma HEX_plain: "c \<in> set HEX \<Longrightarrow> c \<notin> white_leads \<and> ascii_lower c = c"
  by (auto simp: HEX_def white_leads_def) (simp_all add: ascii_lower_def)

lemma HEX_not_white: "c \<in> set HEX \<Longrightarrow> white_at (c # cs) = 0 \<and> c \<noteq> CHR 0x0A \<and> ascii_lower c = c"
  using HEX_plain [of c] white_at_lead [of c cs] by (auto simp: white_leads_def)

lemma white_at_wide: "1 < white_at s \<Longrightarrow> hd s \<in> {CHR 0xC2, CHR 0xE1, CHR 0xE2, CHR 0xE3}"
  by (cases s) (simp_all add: white_at_def split: if_splits, blast+)

lemma white_at_narrow: "white_at s = 1 \<Longrightarrow> s \<noteq> []"
  by (cases s) (auto simp: white_at_def)

lemma white_before_0:
  "white_before s = 0 \<longleftrightarrow> (\<forall>k \<in> {1, 2, 3}. k \<le> length s \<longrightarrow> white_at (drop (length s - k) s) \<noteq> k)"
  by (auto simp: white_before_def)

text \<open>What ends a line with a plain front ends its name.\<close>

lemma white_before_append:
  assumes "nm \<noteq> []" "white_before nm = 0" "list_all (\<lambda>c. c \<notin> {CHR 0xC2, CHR 0xE1, CHR 0xE2, CHR 0xE3}) front"
  shows "white_before (front @ nm) = 0"
  unfolding white_before_0
proof (intro ballI impI notI)
  fix k assume k: "k \<in> {1, 2, 3 :: nat}" "k \<le> length (front @ nm)"
    and w: "white_at (drop (length (front @ nm) - k) (front @ nm)) = k"
  show False
  proof (cases "k \<le> length nm")
    case True
    then have "drop (length (front @ nm) - k) (front @ nm) = drop (length nm - k) nm" by simp
    then show False using assms(2) k(1) True w unfolding white_before_0 by metis
  next
    case False
    let ?j = "length (front @ nm) - k"
    have j: "?j < length front" using False k(2) assms(1) by simp
    have "1 < k" using False assms(1) k(1) by (cases nm) auto
    then have "hd (drop ?j (front @ nm)) \<in> {CHR 0xC2, CHR 0xE1, CHR 0xE2, CHR 0xE3}" using white_at_wide w by metis
    moreover have "hd (drop ?j (front @ nm)) = front ! ?j" using j by (simp add: hd_drop_conv_nth nth_append)
    ultimately show False using assms(3) j by (auto simp: list_all_length)
  qed
qed

lemma trim_start_id: "white_at s = 0 \<Longrightarrow> trim_start s = s"
  by (simp add: trim_start.simps [of s])

lemma trim_end_id: "white_before s = 0 \<Longrightarrow> trim_end s = s"
  by (simp add: trim_end.simps [of s])

lemma trim_sum_line:
  assumes "listable p"
  shows "trim_text (sum_line p) = sum_line p"
proof -
  obtain c cs where c: "fst p = c # cs" "c \<in> set HEX" using assms by (cases "fst p") (auto simp: listable_def)
  then have "white_at (sum_line p) = 0" using HEX_not_white by (simp add: sum_line_def)
  moreover have "white_before ((fst p @ ''  '') @ snd p) = 0"
    using assms HEX_plain by (intro white_before_append) (auto simp: listable_def list_all_iff white_leads_def)
  ultimately show ?thesis by (simp add: trim_text_def trim_start_id trim_end_id sum_line_def)
qed

lemma split_white_sum: "list_all (\<lambda>c. c \<in> set HEX) h \<Longrightarrow> split_white (h @ ''  '' @ nm) = (h, Some ('' '' @ nm))"
proof (induction h)
  case Nil
  then show ?case by (simp add: white_at_def)
next
  case (Cons c h)
  then show ?case using HEX_not_white [of c] by simp
qed

lemma split_entry_sum: "listable p \<Longrightarrow> split_entry (sum_line p) = Some p"
proof -
  assume p: "listable p"
  have "trim_start ('' '' @ snd p) = trim_start (snd p)" by (subst trim_start.simps) (simp add: white_at_def)
  also have "\<dots> = snd p" using p by (simp add: trim_start_id listable_def)
  finally have "trim_start (CHR '' '' # snd p) = snd p" by simp
  moreover have "to_ascii_lowercase (fst p) = fst p"
    using p HEX_not_white by (auto simp: to_ascii_lowercase_def listable_def list_all_iff intro: map_idI)
  moreover have "strip_star (snd p) = snd p" using p by (cases "snd p") (auto simp: strip_star_def listable_def)
  ultimately show ?thesis
    using p split_white_sum [of "fst p" "snd p"] by (simp add: split_entry_def sum_line_def listable_def Let_def)
qed

lemma text_lines_line: "CHR 0x0A \<notin> set l \<Longrightarrow> text_lines (l @ CHR 0x0A # rest) = strip_cr l # text_lines rest"
proof -
  assume l: "CHR 0x0A \<notin> set l"
  then have "takeWhile (\<lambda>c. c \<noteq> CHR 0x0A) (l @ CHR 0x0A # rest) = l"
    "dropWhile (\<lambda>c. c \<noteq> CHR 0x0A) (l @ CHR 0x0A # rest) = CHR 0x0A # rest"
    by (auto simp: takeWhile_append dropWhile_append takeWhile_eq_all_conv)
  then show ?thesis unfolding text_lines.simps [of "l @ CHR 0x0A # rest"] by simp
qed

lemma strip_cr_sum: "listable p \<Longrightarrow> strip_cr (sum_line p) = sum_line p"
proof -
  assume p: "listable p"
  have "last (snd p) \<noteq> CHR 0x0D"
  proof
    assume *: "last (snd p) = CHR 0x0D"
    have "snd p \<noteq> []" using p by (simp add: listable_def)
    then have "drop (length (snd p) - 1) (snd p) = [last (snd p)]"
      by (metis append_butlast_last_id append_eq_conv_conj length_butlast)
    then have "white_at (drop (length (snd p) - 1) (snd p)) = 1" using * by (simp add: white_at_def)
    moreover have "1 \<le> length (snd p)" using \<open>snd p \<noteq> []\<close> by (cases "snd p") auto
    ultimately show False using p by (auto simp: listable_def white_before_0)
  qed
  then show ?thesis using p by (auto simp: strip_cr_def sum_line_def listable_def)
qed

lemma lines_of_sums:
  "list_all listable ps \<Longrightarrow> text_lines (concat (map (\<lambda>p. sum_line p @ [CHR 0x0A]) ps)) = map sum_line ps"
proof (induction ps)
  case (Cons p ps)
  have "CHR 0x0A \<notin> set (sum_line p)"
    using Cons.prems HEX_not_white by (auto simp: sum_line_def listable_def list_all_iff)
  then show ?case using Cons strip_cr_sum [of p] by (simp add: text_lines_line)
qed (simp add: text_lines.simps)

lemma manifest_fold:
  "list_all listable ps \<Longrightarrow> foldl manifest_line m (map sum_line ps) = foldl (\<lambda>m p. m(snd p \<mapsto> fst p)) m ps"
proof (induction ps arbitrary: m)
  case (Cons p ps)
  have "sum_line p \<noteq> []" by (simp add: sum_line_def)
  then have "manifest_line m (sum_line p) = m(snd p \<mapsto> fst p)"
    using Cons.prems by (simp add: manifest_line_def trim_sum_line split_entry_sum split: prod.split)
  then show ?case using Cons.IH [of "m(snd p \<mapsto> fst p)"] Cons.prems by (simp del: fun_upd_apply)
qed simp

definition sum_text :: "(string \<times> string) list \<Rightarrow> string" where
  "sum_text ps = concat (map (\<lambda>p. sum_line p @ [CHR 0x0A]) ps)"

lemma listed_unchanged: "x \<notin> snd ` set ps \<Longrightarrow> foldl (\<lambda>m p. m(snd p \<mapsto> fst p)) m ps x = m x"
  by (induction ps arbitrary: m) simp_all

lemma listed_found:
  "distinct (map snd ps) \<Longrightarrow> (h, nm) \<in> set ps \<Longrightarrow> foldl (\<lambda>m p. m(snd p \<mapsto> fst p)) m ps nm = Some h"
proof (induction ps arbitrary: m)
  case (Cons p ps)
  show ?case
  proof (cases "p = (h, nm)")
    case True
    then have "nm \<notin> snd ` set ps" using Cons.prems(1) by simp
    then have "foldl (\<lambda>m p. m(snd p \<mapsto> fst p)) (m(nm \<mapsto> h)) ps nm = Some h"
      by (simp add: listed_unchanged del: fun_upd_apply) simp
    then show ?thesis using True by (simp del: fun_upd_apply)
  next
    case False
    then show ?thesis using Cons by simp
  qed
qed simp

lemma manifest_parse_sum:
  assumes "list_all listable ps" "distinct (map snd ps)" "(h, nm) \<in> set ps"
  shows "manifest_parse (sum_text ps) nm = Some h"
  unfolding manifest_parse_def sum_text_def lines_of_sums [OF assms(1)] manifest_fold [OF assms(1)]
  by (rule listed_found [OF assms(2,3)])

lemma hash_stream_whole:
  assumes "lawful d" "good_reads rs file"
  shows "hash_stream d path (Inr rs) None mx = Inr
    \<lparr> ho_actual_hash = to_hex (dg_finalize d (dg_update d (dg_new d) file)), ho_blocks = [] \<rparr>"
proof -
  obtain chunks where chunks: "rs = map Inr chunks" "[] \<notin> set chunks" "concat chunks = file"
    using assms(2) by (auto simp: good_reads_def)
  have "[] \<notin> set cs \<Longrightarrow> hash_reads d None mx path (map Inr cs) st
      = Inr (st\<lparr> hs_global := dg_update d (hs_global st) (concat cs) \<rparr>)" for cs st
  proof (induction cs arbitrary: st)
    case Nil
    then show ?case by (simp add: lawful_laws(1) [OF assms(1)])
  next
    case (Cons c cs)
    then have "c \<noteq> []" by auto
    then show ?case using Cons by (simp add: hash_chunk_def lawful_laws(2) [OF assms(1)])
  qed
  then show ?thesis using chunks by (simp add: hash_stream_def hash_start_def flush_block_def)
qed

text \<open>
  C20. The sidecar decides: when the manifest beside a file is one that \<open>sha256sum\<close> writes, with the
  file's name in it, verification reports a manifest, takes the digest listed for the name as the expected
  one, and reports a match exactly when it is the digest of the file's bytes.
\<close>

theorem sidecar_verdict:
  assumes "lawful (ds h)" "good_reads rs file" "list_all listable ps" "distinct (map snd ps)" "(expected, nm) \<in> set ps"
    and "files (target @ ''.'' @ manifest_extension h) = Some (Inr (sum_text ps))"
  shows "\<exists>r. run_with_manifest ds files path (Inr rs) target nm h None = Inr (r, [])
    \<and> manifest_present r \<and> expected_hash r = Some expected
    \<and> (matches r \<longleftrightarrow> expected = to_hex (dg_finalize (ds h) (dg_update (ds h) (dg_new (ds h)) file)))"
proof -
  have "list_all (\<lambda>c. c \<in> set HEX) expected" using assms(3,5) by (auto simp: list_all_iff listable_def)
  then have "to_ascii_lowercase expected = expected"
    using HEX_not_white by (auto simp: to_ascii_lowercase_def list_all_iff intro: map_idI)
  then show ?thesis
    using assms(6) manifest_parse_sum [OF assms(3-5)] hash_stream_whole [OF assms(1,2), of path MAX_BLOCKS]
    by (simp add: run_with_manifest_def integrity_run_def hash_source_def find_sidecar_def manifest_load_def Let_def)
qed

definition example_files :: text_files where
  "example_files = [''a.zip.sha256'' \<mapsto> Inr (sum_text [(''00ff'', ''b.zip''), (''cbf43926'', ''a.zip'')])]"

theorem sidecar_verdict_witness:
  "\<exists>r. run_with_manifest (\<lambda>_. crc_digest) example_files ''a.zip'' (Inr [Inr [0x31, 0x32]]) ''a.zip'' ''a.zip'' Sha256 None
      = Inr (r, []) \<and> manifest_present r \<and> expected_hash r = Some ''cbf43926''"
proof -
  have "list_all listable [(''00ff'', ''b.zip''), (''cbf43926'', ''a.zip'')]"
    by (simp add: listable_def HEX_def white_before_def) (simp add: white_at_def)
  moreover have "good_reads [Inr [0x31, 0x32]] [0x31, 0x32]"
    unfolding good_reads_def by (rule exI [of _ "[[0x31, 0x32]]"]) simp
  moreover have "example_files (''a.zip'' @ ''.'' @ manifest_extension Sha256)
      = Some (Inr (sum_text [(''00ff'', ''b.zip''), (''cbf43926'', ''a.zip'')]))"
    by (simp add: example_files_def manifest_extension_def)
  ultimately show ?thesis
    using sidecar_verdict [of "\<lambda>_. crc_digest" Sha256 "[Inr [0x31, 0x32]]" "[0x31, 0x32]"
        "[(''00ff'', ''b.zip''), (''cbf43926'', ''a.zip'')]" "''cbf43926''" "''a.zip''" example_files "''a.zip''" "''a.zip''"]
      crc_digest_lawful by auto
qed

end
