(* ===== verification/Recoverability.thy ===== *)
theory Recoverability
  imports Format_Id Health "HOL-Library.Sublist"
begin

text \<open>
  The recoverability estimate (\<open>recoverability/estimator.rs\<close>, \<open>recoverability/weights.rs\<close>,
  \<open>model/recoverability.rs\<close>). Probabilities are \<open>f64\<close> in the code and \<open>f64\<close> here: every value that
  occurs is a multiple of \<open>2 ^ -56\<close>, so a number is held as that multiple, and each addition rounds to
  fifty-three significant bits, ties to even. Sizes are compared as whole numbers, which decides as the
  code's quotients do below \<open>2 ^ 52\<close> bytes.
  Shown: the estimate stays in range; the verdict "unrecoverable" is given for a fixed list
  of reasons and for nothing else, whatever the other factors add up to.
\<close>

section \<open>Floating point\<close>

type_synonym f64 = int

definition F64_ONE :: f64 where "F64_ONE = 2 ^ 56"

fun bit_len :: "int \<Rightarrow> nat" where
  "bit_len n = (if n \<le> 0 then 0 else Suc (bit_len (n div 2)))"

declare bit_len.simps [simp del]

text \<open>A quotient to the nearest whole number, ties to even.\<close>

definition div_half_even :: "int \<Rightarrow> int \<Rightarrow> int" where
  "div_half_even n d =
     (let q = n div d; r = n mod d in
      if 2 * r < d \<or> 2 * r = d \<and> even q then q else q + 1)"

text \<open>The unit in the last place of a number with fifty-three significant bits.\<close>

definition last_place :: "int \<Rightarrow> int" where
  "last_place n = 2 ^ (bit_len n - 53)"

definition f64_round :: "int \<Rightarrow> f64" where
  "f64_round x = sgn x * (div_half_even \<bar>x\<bar> (last_place \<bar>x\<bar>) * last_place \<bar>x\<bar>)"

definition f64_add :: "f64 \<Rightarrow> f64 \<Rightarrow> f64" where
  "f64_add a b = f64_round (a + b)"

text \<open>The literal \<open>0.dd\<close> with two decimals.\<close>

definition hundredths :: "int \<Rightarrow> f64" where
  "hundredths h =
     (let u = last_place (h * F64_ONE div 100) in div_half_even (h * F64_ONE) (100 * u) * u)"

definition f64_clamp :: "f64 \<Rightarrow> f64 \<Rightarrow> f64 \<Rightarrow> f64" where
  "f64_clamp x lo hi = (if x < lo then lo else if hi < x then hi else x)"

section \<open>Weights\<close>

definition BASE :: f64 where "BASE = hundredths 50"
definition BITFLIP_ONLY :: f64 where "BITFLIP_ONLY = hundredths 8"
definition ZIP_REDUNDANCY :: f64 where "ZIP_REDUNDANCY = hundredths 20"
definition TAR_CHECKSUM_ONLY :: f64 where "TAR_CHECKSUM_ONLY = hundredths 25"
definition EXTERNAL_MANIFEST :: f64 where "EXTERNAL_MANIFEST = hundredths 18"
definition EMBEDDED_CHECKSUMS :: f64 where "EMBEDDED_CHECKSUMS = hundredths 8"
definition SMALL_DAMAGE_AREA :: f64 where "SMALL_DAMAGE_AREA = hundredths 12"
definition PDF_LINEARIZATION :: f64 where "PDF_LINEARIZATION = hundredths 10"
definition SQLITE_WAL :: f64 where "SQLITE_WAL = hundredths 15"
definition LOW_FLOOR :: f64 where "LOW_FLOOR = hundredths 15"
definition NONE_CEILING :: f64 where "NONE_CEILING = hundredths 10"
definition SIGNATURE_MISSING :: f64 where "SIGNATURE_MISSING = - hundredths 60"
definition MISSING_DATA :: f64 where "MISSING_DATA = - hundredths 28"
definition CATASTROPHIC_STRUCTURAL :: f64 where "CATASTROPHIC_STRUCTURAL = - hundredths 45"
definition NO_MANIFEST_NO_CHECKSUMS :: f64 where "NO_MANIFEST_NO_CHECKSUMS = - hundredths 12"
definition TRUNCATED_AT_HEADER :: f64 where "TRUNCATED_AT_HEADER = - hundredths 45"
definition DB_PAGE_SIZE_INVALID :: f64 where "DB_PAGE_SIZE_INVALID = - hundredths 55"

section \<open>Scores\<close>

record RecoveryFactor =
  rf_name :: string
  rf_positive :: bool
  rf_weight :: f64

definition recovery_factor :: "string \<Rightarrow> f64 \<Rightarrow> RecoveryFactor" where
  "recovery_factor nm w = \<lparr> rf_name = nm, rf_positive = (0 \<le> w), rf_weight = w \<rparr>"

datatype RecoverabilityClass = RcHigh | RcMedium | RcLow | RcNone

definition class_parse :: "string \<Rightarrow> RecoverabilityClass option" where
  "class_parse s =
     (if s = ''High'' then Some RcHigh else if s = ''Medium'' then Some RcMedium
      else if s = ''Low'' then Some RcLow else if s = ''None'' then Some RcNone else None)"

definition class_label :: "RecoverabilityClass \<Rightarrow> string" where
  "class_label c = (case c of RcHigh \<Rightarrow> ''High'' | RcMedium \<Rightarrow> ''Medium'' | RcLow \<Rightarrow> ''Low'' | RcNone \<Rightarrow> ''None'')"

definition class_rank :: "RecoverabilityClass \<Rightarrow> nat" where
  "class_rank c = (case c of RcNone \<Rightarrow> 0 | RcLow \<Rightarrow> 1 | RcMedium \<Rightarrow> 2 | RcHigh \<Rightarrow> 3)"

definition class_distance :: "RecoverabilityClass \<Rightarrow> RecoverabilityClass \<Rightarrow> nat" where
  "class_distance a b = max (class_rank a) (class_rank b) - min (class_rank a) (class_rank b)"

record RecoverabilityScore =
  rs_probability :: f64
  rs_confidence :: f64
  rs_factors :: "RecoveryFactor list"

definition score_new :: "f64 \<Rightarrow> f64 \<Rightarrow> RecoveryFactor list \<Rightarrow> RecoverabilityScore" where
  "score_new p c fs =
     \<lparr> rs_probability = f64_clamp p 0 F64_ONE, rs_confidence = f64_clamp c 0 F64_ONE, rs_factors = fs \<rparr>"

definition certain :: RecoverabilityScore where
  "certain = \<lparr> rs_probability = F64_ONE, rs_confidence = F64_ONE, rs_factors = [] \<rparr>"

definition recoverability_class :: "RecoverabilityScore \<Rightarrow> RecoverabilityClass" where
  "recoverability_class s =
     (if hundredths 75 \<le> rs_probability s then RcHigh
      else if hundredths 40 \<le> rs_probability s then RcMedium
      else if hundredths 15 \<le> rs_probability s then RcLow
      else RcNone)"

definition em_dash :: string where "em_dash = [CHR 0xE2, CHR 0x80, CHR 0x94]"

definition verdict_text :: "RecoverabilityScore \<Rightarrow> string" where
  "verdict_text s =
     (case recoverability_class s of
        RcHigh \<Rightarrow> ''HIGH '' @ em_dash @ '' standard recovery tools likely succeed''
      | RcMedium \<Rightarrow> ''MEDIUM '' @ em_dash @ '' specialized tools required, partial loss expected''
      | RcLow \<Rightarrow> ''LOW '' @ em_dash @ '' forensic recovery only, significant data loss''
      | RcNone \<Rightarrow> ''NONE '' @ em_dash @ '' unrecoverable'')"

section \<open>The estimate\<close>

record Inputs =
  in_corruptions :: "Corruption list"
  in_format :: "ArchiveFormat option"
  in_manifest_present :: bool
  in_checksums_present :: bool
  in_total_size :: nat
  in_scan_capped :: bool
  in_io_errors :: bool
  in_format_failed :: bool

definition has_rule :: "Inputs \<Rightarrow> string \<Rightarrow> bool" where
  "has_rule i rid \<longleftrightarrow> list_ex (\<lambda>c. rule_id c = rid) (in_corruptions i)"

definition has_rule_prefix :: "Inputs \<Rightarrow> string \<Rightarrow> bool" where
  "has_rule_prefix i p \<longleftrightarrow> list_ex (\<lambda>c. take (length p) (rule_id c) = p) (in_corruptions i)"

definition has_rule_suffix :: "Inputs \<Rightarrow> string \<Rightarrow> bool" where
  "has_rule_suffix i p \<longleftrightarrow> list_ex (\<lambda>c. ends_with (rule_id c) p) (in_corruptions i)"

definition damaged_bytes :: "Inputs \<Rightarrow> nat" where
  "damaged_bytes i = sum_list (map (\<lambda>c. case byte_range c of Some r \<Rightarrow> byte_range_len r | None \<Rightarrow> 0) (in_corruptions i))"

text \<open>\<open>damage_fraction\<close> is known and below a hundredth.\<close>

definition small_damage :: "Inputs \<Rightarrow> bool" where
  "small_damage i \<longleftrightarrow> in_total_size i \<noteq> 0 \<and> damaged_bytes i \<noteq> 0 \<and> 100 * damaged_bytes i < in_total_size i"

definition truncation_at_header :: "Inputs \<Rightarrow> bool" where
  "truncation_at_header i \<longleftrightarrow> in_total_size i \<noteq> 0
     \<and> list_ex (\<lambda>c. category c = Truncation \<and> 0 < offset_end (c_location c)
          \<and> offset_end (c_location c) < in_total_size i div 10) (in_corruptions i)"

definition estimate_confidence :: "Inputs \<Rightarrow> f64" where
  "estimate_confidence i =
     (if in_format_failed i then hundredths 30 else if in_io_errors i then hundredths 40
      else if in_scan_capped i then hundredths 60 else F64_ONE)"

definition factor_if :: "bool \<Rightarrow> string \<Rightarrow> f64 \<Rightarrow> RecoveryFactor list" where
  "factor_if b nm w = (if b then [recovery_factor nm w] else [])"

definition positive_factors :: "Inputs \<Rightarrow> RecoveryFactor list" where
  "positive_factors i =
     (let cs = in_corruptions i in
      factor_if (cs \<noteq> [] \<and> list_all (\<lambda>c. category c = BitFlip) cs) ''bitflip-only damage'' BITFLIP_ONLY
      @ factor_if (cs \<noteq> [] \<and> list_all (\<lambda>c. rule_id c = ''TAR_UST_001'') cs) ''TAR checksum only'' TAR_CHECKSUM_ONLY
      @ factor_if (in_format i = Some ArchiveFormat.Zip \<and> \<not> has_rule i ''ZIP_CD_001''
          \<and> \<not> has_rule i ''ZIP_TRUNC_004'') ''ZIP central directory intact'' ZIP_REDUNDANCY
      @ factor_if (has_rule_prefix i ''PDF_'' \<and> \<not> has_rule i ''PDF_HDR_001'')
          ''PDF linearization hint'' PDF_LINEARIZATION
      @ factor_if (has_rule i ''SQ_WAL_001'') ''SQLite WAL recovery'' SQLITE_WAL
      @ factor_if (in_manifest_present i) ''external manifest available'' EXTERNAL_MANIFEST
      @ factor_if (in_checksums_present i) ''embedded checksums present'' EMBEDDED_CHECKSUMS
      @ factor_if (small_damage i) ''small damage area <1%'' SMALL_DAMAGE_AREA)"

definition signature_missing :: "Inputs \<Rightarrow> bool" where
  "signature_missing i \<longleftrightarrow> has_rule_suffix i ''_MAGIC_001'' \<and> \<not> has_rule i ''GZ_MAGIC_001''
     \<or> has_rule i ''PDF_HDR_001''"

definition unrecoverable :: "Inputs \<Rightarrow> bool" where
  "unrecoverable i \<longleftrightarrow> signature_missing i \<or> has_rule i ''SQ_PGSIZE_001'' \<or> has_rule i ''ZIP_TRUNC_004''
     \<or> has_rule i ''TAR_TRUNC_003''"

definition missing_regions :: "Inputs \<Rightarrow> nat" where
  "missing_regions i = length (filter (\<lambda>c. category c = MissingData) (in_corruptions i))"

definition zip_redundant_catastrophe :: "Inputs \<Rightarrow> bool" where
  "zip_redundant_catastrophe i \<longleftrightarrow> in_format i = Some ArchiveFormat.Zip
     \<and> (has_rule i ''ZIP_EOCD_001'' \<or> has_rule i ''ZIP_EOCD_002'' \<or> has_rule i ''ZIP_EOCD_003'')
     \<and> \<not> has_rule i ''ZIP_CD_001''"

definition negative_factors :: "Inputs \<Rightarrow> RecoveryFactor list" where
  "negative_factors i =
     factor_if (signature_missing i) ''format signature destroyed'' SIGNATURE_MISSING
     @ factor_if (has_rule i ''SQ_PGSIZE_001'') ''SQLite page size invalid'' DB_PAGE_SIZE_INVALID
     @ factor_if (truncation_at_header i \<or> has_rule i ''ZIP_TRUNC_004'' \<or> has_rule i ''TAR_TRUNC_003'')
         ''truncation at header'' TRUNCATED_AT_HEADER
     @ factor_if (0 < missing_regions i) ''missing data'' (f64_round (MISSING_DATA * int (missing_regions i)))
     @ factor_if (\<not> zip_redundant_catastrophe i
         \<and> list_ex (\<lambda>c. category c = StructuralCorruption \<and> severity c = Catastrophic) (in_corruptions i))
         ''catastrophic structural corruption'' CATASTROPHIC_STRUCTURAL
     @ factor_if (\<not> in_manifest_present i \<and> \<not> in_checksums_present i)
         ''no manifest and no checksums'' NO_MANIFEST_NO_CHECKSUMS"

definition security_threat :: "Inputs \<Rightarrow> bool" where
  "security_threat i \<longleftrightarrow> list_ex (\<lambda>c. category c = SecurityThreat) (in_corruptions i)"

definition estimate :: "Inputs \<Rightarrow> RecoverabilityScore" where
  "estimate i =
     (if in_corruptions i = [] \<and> \<not> in_io_errors i then certain
      else if security_threat i
      then score_new 0 F64_ONE
             [recovery_factor (''security threat detected '' @ em_dash @ '' unrecoverable by policy'') (- F64_ONE)]
      else
        (let factors = positive_factors i @ negative_factors i;
             prob = foldl f64_add BASE (map rf_weight factors);
             probability = (if unrecoverable i then min prob NONE_CEILING
                            else f64_clamp prob LOW_FLOOR F64_ONE) in
         score_new probability (estimate_confidence i) factors))"

section \<open>Range and verdict\<close>

lemma hundredths_values:
  "hundredths 10 = 7205759403792794" "hundredths 15 = 10808639105689190" "hundredths 30 = 21617278211378380"
  "hundredths 40 = 28823037615171176" "hundredths 60 = 43234556422756760" "hundredths 75 = 54043195528445952"
  by (simp_all add: hundredths_def last_place_def F64_ONE_def bit_len.simps div_half_even_def)

lemma constants_ordered:
  "0 \<le> NONE_CEILING" "NONE_CEILING < hundredths 15" "LOW_FLOOR = hundredths 15" "LOW_FLOOR \<le> F64_ONE"
  "hundredths 15 < hundredths 40" "hundredths 40 < hundredths 75" "hundredths 75 \<le> F64_ONE"
  by (simp_all add: NONE_CEILING_def LOW_FLOOR_def hundredths_values F64_ONE_def)

lemma class_none: "recoverability_class s = RcNone \<longleftrightarrow> rs_probability s < hundredths 15"
  using constants_ordered by (simp add: recoverability_class_def)

lemma has_rule_Nil:
  "in_corruptions i = [] \<Longrightarrow> \<not> unrecoverable i \<and> \<not> security_threat i"
  by (simp add: unrecoverable_def signature_missing_def has_rule_def has_rule_suffix_def security_threat_def)

lemma estimate_none:
  "recoverability_class (estimate i) = RcNone \<longleftrightarrow> security_threat i \<or> unrecoverable i"
proof (cases "in_corruptions i = [] \<and> \<not> in_io_errors i")
  case True
  then show ?thesis
    using has_rule_Nil [of i] constants_ordered
    by (simp add: estimate_def class_none certain_def)
next
  case False
  then show ?thesis
    using constants_ordered
    by (auto simp: estimate_def class_none score_new_def f64_clamp_def Let_def)
qed

text \<open>
  C38. A container is declared unrecoverable for exactly these reasons: a security threat, a
  destroyed signature (other than GZIP's, which can be written back), a lost PDF header, an
  invalid SQLite page size, or a ZIP or TAR file cut at its head. No sum of the other factors
  reaches the verdict, and none averts it.
\<close>

theorem estimate_none_iff:
  "recoverability_class (estimate i) = RcNone \<longleftrightarrow>
     (\<exists>c \<in> set (in_corruptions i). category c = SecurityThreat
        \<or> rule_id c \<in> {''PDF_HDR_001'', ''SQ_PGSIZE_001'', ''ZIP_TRUNC_004'', ''TAR_TRUNC_003''})
     \<or> (\<exists>c \<in> set (in_corruptions i). ends_with (rule_id c) ''_MAGIC_001'')
       \<and> \<not> (\<exists>c \<in> set (in_corruptions i). rule_id c = ''GZ_MAGIC_001'')"
  unfolding estimate_none security_threat_def unrecoverable_def signature_missing_def has_rule_def
    has_rule_suffix_def list_ex_iff
  by blast

lemma subseq_factor_if:
  "subseq (map rf_name xs) ns \<Longrightarrow> subseq (map rf_name (factor_if b n w @ xs)) (n # ns)"
  by (simp add: factor_if_def recovery_factor_def list_emb_Cons)

lemma distinct_subseq: "subseq xs ys \<Longrightarrow> distinct ys \<Longrightarrow> distinct xs"
  by (induction rule: list_emb.induct) (auto dest: list_emb_set)

lemma subseq_last_factor: "subseq (map rf_name (factor_if b n w)) [n]"
  by (simp add: factor_if_def recovery_factor_def)

definition factor_names :: "string list" where
  "factor_names =
     [''bitflip-only damage'', ''TAR checksum only'', ''ZIP central directory intact'', ''PDF linearization hint'',
      ''SQLite WAL recovery'', ''external manifest available'', ''embedded checksums present'',
      ''small damage area <1%'', ''format signature destroyed'', ''SQLite page size invalid'',
      ''truncation at header'', ''missing data'', ''catastrophic structural corruption'',
      ''no manifest and no checksums'']"

lemma factors_named: "subseq (map rf_name (positive_factors i @ negative_factors i)) factor_names"
  unfolding positive_factors_def negative_factors_def factor_names_def Let_def append_assoc
  by (intro subseq_factor_if subseq_last_factor)

lemma factor_if_flag: "list_all (\<lambda>x. rf_positive x \<longleftrightarrow> 0 \<le> rf_weight x) (factor_if b n w)"
  by (simp add: factor_if_def recovery_factor_def)

lemma score_new_in_range:
  "0 \<le> rs_probability (score_new p c fs)" "rs_probability (score_new p c fs) \<le> F64_ONE"
  by (simp_all add: score_new_def f64_clamp_def F64_ONE_def)

lemma score_new_fields:
  "rs_factors (score_new p c fs) = fs"
  "0 < c \<Longrightarrow> c \<le> F64_ONE \<Longrightarrow> rs_confidence (score_new p c fs) = c"
  by (simp_all add: score_new_def f64_clamp_def)

text \<open>
  Every estimate is well formed: the probability lies between zero and one, the confidence is
  positive and at most one, every factor is flagged by the sign of its weight, and no factor
  is applied twice.
\<close>

theorem estimate_bounds:
  "0 \<le> rs_probability (estimate i) \<and> rs_probability (estimate i) \<le> F64_ONE
    \<and> 0 < rs_confidence (estimate i) \<and> rs_confidence (estimate i) \<le> F64_ONE
    \<and> list_all (\<lambda>x. rf_positive x \<longleftrightarrow> 0 \<le> rf_weight x) (rs_factors (estimate i))
    \<and> distinct (map rf_name (rs_factors (estimate i)))"
proof -
  have "distinct (map rf_name (positive_factors i @ negative_factors i))"
    by (rule distinct_subseq [OF factors_named]) (simp add: factor_names_def)
  moreover have "list_all (\<lambda>x. rf_positive x \<longleftrightarrow> 0 \<le> rf_weight x) (positive_factors i @ negative_factors i)"
    unfolding positive_factors_def negative_factors_def Let_def list_all_append by (intro conjI factor_if_flag)
  moreover have "0 < estimate_confidence i" "estimate_confidence i \<le> F64_ONE"
    by (simp_all add: estimate_confidence_def hundredths_values F64_ONE_def)
  moreover have "0 < F64_ONE" by (simp add: F64_ONE_def)
  ultimately show ?thesis
    unfolding estimate_def Let_def
    by (simp add: score_new_in_range score_new_fields certain_def recovery_factor_def del: map_append list_all_append)
qed

section \<open>Rounding is monotone\<close>

lemma bit_len_bounds: "0 < n \<Longrightarrow> 2 ^ (bit_len n - 1) \<le> n \<and> n < 2 ^ bit_len n \<and> 0 < bit_len n"
proof (induction n rule: bit_len.induct)
  case (1 n)
  show ?case
  proof (cases "n = 1")
    case True
    then show ?thesis by (simp add: bit_len.simps)
  next
    case False
    then have "0 < n div 2" using "1.prems" by linarith
    then have IH: "2 ^ (bit_len (n div 2) - 1) \<le> n div 2" "n div 2 < 2 ^ bit_len (n div 2)" "0 < bit_len (n div 2)"
      using "1.IH" "1.prems" by auto
    have len: "bit_len n = Suc (bit_len (n div 2))" using "1.prems" by (subst bit_len.simps) simp
    obtain k where k: "bit_len (n div 2) = Suc k" using IH(3) by (cases "bit_len (n div 2)") auto
    show ?thesis using IH len k by simp linarith
  qed
qed

lemma bit_len_mono: "0 < a \<Longrightarrow> a \<le> b \<Longrightarrow> bit_len a \<le> bit_len b"
proof (rule ccontr)
  assume *: "0 < a" "a \<le> b" "\<not> bit_len a \<le> bit_len b"
  then have "(2 :: int) ^ bit_len b \<le> 2 ^ (bit_len a - 1)" by (intro power_increasing) auto
  then show False using * bit_len_bounds [of a] bit_len_bounds [of b] by linarith
qed

lemma bit_len_eqI: "2 ^ (k - 1) \<le> n \<Longrightarrow> n < 2 ^ k \<Longrightarrow> 0 < k \<Longrightarrow> bit_len n = k"
proof -
  assume *: "2 ^ (k - 1) \<le> n" "n < 2 ^ k" "0 < k"
  then have n: "0 < n" by (smt (verit) zero_less_power)
  have "\<not> k < bit_len n"
  proof
    assume "k < bit_len n"
    then have "(2 :: int) ^ k \<le> 2 ^ (bit_len n - 1)" by (intro power_increasing) auto
    then show False using * bit_len_bounds [OF n] by linarith
  qed
  moreover have "\<not> bit_len n < k"
  proof
    assume "bit_len n < k"
    then have "(2 :: int) ^ bit_len n \<le> 2 ^ (k - 1)" by (intro power_increasing) auto
    then show False using * bit_len_bounds [OF n] by linarith
  qed
  ultimately show ?thesis by simp
qed

lemma div_half_even_mult [simp]: "0 < d \<Longrightarrow> div_half_even (m * d) d = m"
  by (simp add: div_half_even_def)

lemma div_half_even_near:
  assumes "0 < d"
  shows "n div d \<le> div_half_even n d" "div_half_even n d \<le> n div d + 1"
  by (simp_all add: div_half_even_def Let_def)

lemma div_half_even_mono:
  assumes "0 < d" "a \<le> b"
  shows "div_half_even a d \<le> div_half_even b d"
proof (cases "a div d = b div d")
  case True
  have "a mod d \<le> b mod d" using assms(2) True by (simp add: minus_div_mult_eq_mod [symmetric])
  then show ?thesis using True by (auto simp: div_half_even_def Let_def)
next
  case False
  then have "a div d + 1 \<le> b div d" using zdiv_mono1 [OF assms(2,1)] by linarith
  then show ?thesis using div_half_even_near [OF assms(1), of a] div_half_even_near [OF assms(1), of b] by linarith
qed

lemma last_place_pos: "0 < last_place n"
  by (simp add: last_place_def)

text \<open>Rounding a magnitude.\<close>

definition round_magnitude :: "int \<Rightarrow> int" where
  "round_magnitude n = div_half_even n (last_place n) * last_place n"

lemma last_place_binade:
  assumes "0 < a" "a \<le> b" "last_place a \<noteq> last_place b"
  shows "\<exists>L. a \<le> 2 ^ L \<and> 2 ^ L \<le> b \<and> last_place a dvd 2 ^ L \<and> last_place b dvd 2 ^ L"
proof -
  have b: "0 < b" using assms by simp
  have "bit_len a \<le> bit_len b" using assms(1,2) by (rule bit_len_mono)
  moreover have "bit_len a - 53 \<noteq> bit_len b - 53" using assms(3) by (auto simp: last_place_def)
  ultimately have len: "bit_len a \<le> bit_len b - 1" "54 \<le> bit_len b" by linarith+
  then have "(2 :: int) ^ bit_len a \<le> 2 ^ (bit_len b - 1)" by (intro power_increasing) auto
  then have "a \<le> 2 ^ (bit_len b - 1)" using bit_len_bounds [OF assms(1)] by linarith
  moreover have "last_place a dvd 2 ^ (bit_len b - 1)" "last_place b dvd 2 ^ (bit_len b - 1)"
    using len unfolding last_place_def by (auto intro!: le_imp_power_dvd)
  ultimately show ?thesis using bit_len_bounds [OF b] by blast
qed

lemma round_multiple: "last_place n dvd m \<Longrightarrow> div_half_even m (last_place n) * last_place n = m"
  using last_place_pos [of n] by (auto simp: mult.commute)

lemma round_magnitude_mono:
  assumes "0 < a" "a \<le> b"
  shows "round_magnitude a \<le> round_magnitude b"
proof (cases "last_place a = last_place b")
  case True
  then show ?thesis
    using div_half_even_mono [OF last_place_pos assms(2), of b] last_place_pos [of b]
    by (simp add: round_magnitude_def)
next
  case False
  then obtain L where L: "a \<le> 2 ^ L" "2 ^ L \<le> b" "last_place a dvd 2 ^ L" "last_place b dvd 2 ^ L"
    using last_place_binade [OF assms] by blast
  have "round_magnitude a \<le> div_half_even (2 ^ L) (last_place a) * last_place a"
    using div_half_even_mono [OF last_place_pos L(1), of a] last_place_pos [of a] by (simp add: round_magnitude_def)
  also have "\<dots> = div_half_even (2 ^ L) (last_place b) * last_place b" using L(3,4) by (simp add: round_multiple)
  also have "\<dots> \<le> round_magnitude b"
    using div_half_even_mono [OF last_place_pos L(2), of b] last_place_pos [of b] by (simp add: round_magnitude_def)
  finally show ?thesis .
qed

lemma round_magnitude_nonneg: "0 \<le> n \<Longrightarrow> 0 \<le> round_magnitude n"
proof -
  assume "0 \<le> n"
  then have "0 \<le> n div last_place n" using last_place_pos [of n] by (simp add: pos_imp_zdiv_nonneg_iff)
  then show ?thesis
    using div_half_even_near(1) [OF last_place_pos, of n n] last_place_pos [of n] by (simp add: round_magnitude_def)
qed

lemma f64_round_sgn: "f64_round x = sgn x * round_magnitude \<bar>x\<bar>"
  by (simp add: f64_round_def round_magnitude_def)

lemma f64_round_mono: "x \<le> y \<Longrightarrow> f64_round x \<le> f64_round y"
proof -
  assume xy: "x \<le> y"
  consider "0 < x" | "y < 0" | "x \<le> 0" "0 \<le> y" by linarith
  then show ?thesis
  proof cases
    case 1
    then show ?thesis using xy round_magnitude_mono [of x y] by (simp add: f64_round_sgn)
  next
    case 2
    then show ?thesis using xy round_magnitude_mono [of "- y" "- x"] by (simp add: f64_round_sgn)
  next
    case 3
    then have "f64_round x \<le> 0" "0 \<le> f64_round y"
      using round_magnitude_nonneg [of "- x"] round_magnitude_nonneg [of y] by (auto simp: f64_round_sgn sgn_if)
    then show ?thesis by simp
  qed
qed

lemma last_place_dvd_round: "0 < n \<Longrightarrow> last_place (round_magnitude n) dvd round_magnitude n"
proof (cases "bit_len n \<le> 53")
  case True
  then have "round_magnitude n = n" using div_half_even_mult [of 1 n] by (simp add: round_magnitude_def last_place_def)
  then show ?thesis using True by (simp add: last_place_def)
next
  case False
  let ?L = "bit_len n" and ?r = "round_magnitude n"
  assume n: "0 < n"
  have dvd: "last_place n dvd 2 ^ (?L - 1)" "last_place n dvd 2 ^ ?L"
    using False by (auto simp: last_place_def intro!: le_imp_power_dvd)
  have "?r \<le> 2 ^ ?L"
    using div_half_even_mono [OF last_place_pos, of n "2 ^ ?L" n] round_multiple [OF dvd(2)]
      bit_len_bounds [OF n] last_place_pos [of n] unfolding round_magnitude_def
    by (metis less_imp_le mult_right_mono)
  moreover have "2 ^ (?L - 1) \<le> ?r"
    using div_half_even_mono [OF last_place_pos, of "2 ^ (?L - 1)" n n] round_multiple [OF dvd(1)]
      bit_len_bounds [OF n] last_place_pos [of n] unfolding round_magnitude_def
    by (metis less_imp_le mult_right_mono)
  ultimately consider "?r = 2 ^ ?L" | "2 ^ (?L - 1) \<le> ?r" "?r < 2 ^ ?L" by linarith
  then show ?thesis
  proof cases
    case 1
    have "bit_len ?r = Suc ?L" using 1 by (intro bit_len_eqI) auto
    then have "last_place ?r dvd 2 ^ ?L" using False by (auto simp: last_place_def intro!: le_imp_power_dvd)
    then show ?thesis using 1 by simp
  next
    case 2
    have "bit_len ?r = ?L" using 2 False by (intro bit_len_eqI) auto
    then have "last_place ?r = last_place n" by (simp add: last_place_def)
    then show ?thesis by (simp add: round_magnitude_def)
  qed
qed

definition f64_exact :: "int \<Rightarrow> bool" where
  "f64_exact x \<longleftrightarrow> f64_round x = x"

lemma f64_round_exact [simp]: "f64_exact (f64_round x)"
proof -
  have *: "round_magnitude (round_magnitude n) = round_magnitude n" if "0 < n" for n
    unfolding round_magnitude_def [of "round_magnitude n"] by (rule round_multiple [OF last_place_dvd_round [OF that]])
  show ?thesis
  proof (cases "x = 0")
    case False
    then have "round_magnitude (round_magnitude \<bar>x\<bar>) = round_magnitude \<bar>x\<bar>" using * by simp
    then show ?thesis
      using round_magnitude_nonneg [of "\<bar>x\<bar>"]
      by (cases "round_magnitude \<bar>x\<bar> = 0") (auto simp: f64_exact_def f64_round_sgn abs_mult sgn_mult)
  qed (simp add: f64_exact_def f64_round_def)
qed

lemma BASE_exact: "f64_exact BASE"
  by (simp add: f64_exact_def BASE_def hundredths_def f64_round_def last_place_def F64_ONE_def bit_len.simps
      div_half_even_def)

lemma add_exact: "f64_exact (f64_add p w)"
  by (simp add: f64_add_def)

lemma fold_exact: "f64_exact p \<Longrightarrow> f64_exact (foldl f64_add p ws)"
  by (induction ws arbitrary: p) (simp_all add: add_exact)

lemma fold_mono: "p \<le> q \<Longrightarrow> foldl f64_add p ws \<le> foldl f64_add q ws"
  by (induction ws arbitrary: p q) (simp_all add: f64_add_def f64_round_mono)

lemma add_raises: "f64_exact p \<Longrightarrow> 0 \<le> w \<Longrightarrow> p \<le> f64_add p w"
  using f64_round_mono [of p "p + w"] by (simp add: f64_add_def f64_exact_def)

lemma add_lowers: "f64_exact p \<Longrightarrow> w \<le> 0 \<Longrightarrow> f64_add p w \<le> p"
  using f64_round_mono [of "p + w" p] by (simp add: f64_add_def f64_exact_def)

text \<open>Replacing a penalty at the end by a bonus in the middle does not lower the sum.\<close>

lemma fold_trade:
  assumes "f64_exact p" "list_all (\<lambda>w. 0 \<le> w) ups" "list_all (\<lambda>w. w \<le> 0) downs"
  shows "foldl f64_add p (as @ bs @ downs) \<le> foldl f64_add p (as @ ups @ bs)"
proof -
  have raise: "f64_exact q \<Longrightarrow> list_all (\<lambda>w. 0 \<le> w) ws \<Longrightarrow> q \<le> foldl f64_add q ws" for q ws
  proof (induction ws arbitrary: q)
    case (Cons w ws)
    then have "f64_add q w \<le> foldl f64_add (f64_add q w) ws" by (intro Cons.IH add_exact) simp
    then show ?case using add_raises [of q w] Cons.prems by simp
  qed simp
  have lower: "f64_exact q \<Longrightarrow> list_all (\<lambda>w. w \<le> 0) ws \<Longrightarrow> foldl f64_add q ws \<le> q" for q ws
  proof (induction ws arbitrary: q)
    case (Cons w ws)
    then have "foldl f64_add (f64_add q w) ws \<le> f64_add q w" by (intro Cons.IH add_exact) simp
    then show ?case using add_lowers [of q w] Cons.prems by simp
  qed simp
  have "foldl f64_add p (as @ bs @ downs) \<le> foldl f64_add p (as @ bs)"
    using lower [OF fold_exact [OF assms(1)] assms(3), of "as @ bs"] by simp
  also have "\<dots> \<le> foldl f64_add p (as @ ups @ bs)"
    using fold_mono [OF raise [OF fold_exact [OF assms(1)] assms(2)], of as bs] by simp
  finally show ?thesis .
qed

section \<open>More evidence\<close>

text \<open>The facts about the damage do not depend on the manifest or the checksums.\<close>

lemma damage_facts:
  "has_rule (i\<lparr> in_manifest_present := b \<rparr>) = has_rule i"
  "has_rule_prefix (i\<lparr> in_manifest_present := b \<rparr>) = has_rule_prefix i"
  "has_rule_suffix (i\<lparr> in_manifest_present := b \<rparr>) = has_rule_suffix i"
  "small_damage (i\<lparr> in_manifest_present := b \<rparr>) = small_damage i"
  "truncation_at_header (i\<lparr> in_manifest_present := b \<rparr>) = truncation_at_header i"
  "missing_regions (i\<lparr> in_manifest_present := b \<rparr>) = missing_regions i"
  "security_threat (i\<lparr> in_manifest_present := b \<rparr>) = security_threat i"
  "estimate_confidence (i\<lparr> in_manifest_present := b \<rparr>) = estimate_confidence i"
  by (simp_all add: has_rule_def has_rule_prefix_def has_rule_suffix_def small_damage_def damaged_bytes_def
      truncation_at_header_def missing_regions_def security_threat_def estimate_confidence_def fun_eq_iff)

lemma damage_verdicts:
  "signature_missing (i\<lparr> in_manifest_present := b \<rparr>) = signature_missing i"
  "unrecoverable (i\<lparr> in_manifest_present := b \<rparr>) = unrecoverable i"
  "zip_redundant_catastrophe (i\<lparr> in_manifest_present := b \<rparr>) = zip_redundant_catastrophe i"
  by (simp_all add: signature_missing_def unrecoverable_def zip_redundant_catastrophe_def damage_facts)

lemma f64_clamp_mono: "x \<le> y \<Longrightarrow> f64_clamp x lo hi \<le> f64_clamp y lo hi \<or> hi < lo"
  by (auto simp: f64_clamp_def)

lemma score_mono: "p \<le> q \<Longrightarrow> rs_probability (score_new p c fs) \<le> rs_probability (score_new q d gs)"
  using f64_clamp_mono [of p q 0 F64_ONE] by (auto simp: score_new_def F64_ONE_def)

text \<open>The factors around the manifest's: those applied before it, those after, and the last one.\<close>

definition before_manifest :: "Inputs \<Rightarrow> RecoveryFactor list" where
  "before_manifest i =
     (let cs = in_corruptions i in
      factor_if (cs \<noteq> [] \<and> list_all (\<lambda>c. category c = BitFlip) cs) ''bitflip-only damage'' BITFLIP_ONLY
      @ factor_if (cs \<noteq> [] \<and> list_all (\<lambda>c. rule_id c = ''TAR_UST_001'') cs) ''TAR checksum only'' TAR_CHECKSUM_ONLY
      @ factor_if (in_format i = Some ArchiveFormat.Zip \<and> \<not> has_rule i ''ZIP_CD_001''
          \<and> \<not> has_rule i ''ZIP_TRUNC_004'') ''ZIP central directory intact'' ZIP_REDUNDANCY
      @ factor_if (has_rule_prefix i ''PDF_'' \<and> \<not> has_rule i ''PDF_HDR_001'')
          ''PDF linearization hint'' PDF_LINEARIZATION
      @ factor_if (has_rule i ''SQ_WAL_001'') ''SQLite WAL recovery'' SQLITE_WAL)"

definition after_manifest :: "Inputs \<Rightarrow> RecoveryFactor list" where
  "after_manifest i =
     factor_if (in_checksums_present i) ''embedded checksums present'' EMBEDDED_CHECKSUMS
     @ factor_if (small_damage i) ''small damage area <1%'' SMALL_DAMAGE_AREA"

definition damage_penalties :: "Inputs \<Rightarrow> RecoveryFactor list" where
  "damage_penalties i =
     factor_if (signature_missing i) ''format signature destroyed'' SIGNATURE_MISSING
     @ factor_if (has_rule i ''SQ_PGSIZE_001'') ''SQLite page size invalid'' DB_PAGE_SIZE_INVALID
     @ factor_if (truncation_at_header i \<or> has_rule i ''ZIP_TRUNC_004'' \<or> has_rule i ''TAR_TRUNC_003'')
         ''truncation at header'' TRUNCATED_AT_HEADER
     @ factor_if (0 < missing_regions i) ''missing data'' (f64_round (MISSING_DATA * int (missing_regions i)))
     @ factor_if (\<not> zip_redundant_catastrophe i
         \<and> list_ex (\<lambda>c. category c = StructuralCorruption \<and> severity c = Catastrophic) (in_corruptions i))
         ''catastrophic structural corruption'' CATASTROPHIC_STRUCTURAL"

lemma factors_split:
  "positive_factors i = before_manifest i
     @ factor_if (in_manifest_present i) ''external manifest available'' EXTERNAL_MANIFEST @ after_manifest i"
  "negative_factors i = damage_penalties i
     @ factor_if (\<not> in_manifest_present i \<and> \<not> in_checksums_present i)
         ''no manifest and no checksums'' NO_MANIFEST_NO_CHECKSUMS"
  by (simp_all only: positive_factors_def negative_factors_def before_manifest_def after_manifest_def
      damage_penalties_def Let_def append_assoc)

lemma factors_around:
  "before_manifest (i\<lparr> in_manifest_present := b \<rparr>) = before_manifest i"
  "after_manifest (i\<lparr> in_manifest_present := b \<rparr>) = after_manifest i"
  "damage_penalties (i\<lparr> in_manifest_present := b \<rparr>) = damage_penalties i"
  by (simp_all add: before_manifest_def after_manifest_def damage_penalties_def damage_facts damage_verdicts Let_def)

lemma weight_factor_if: "map rf_weight (factor_if b n w) = (if b then [w] else [])"
  by (simp add: factor_if_def recovery_factor_def)

lemma manifest_trade:
  assumes "\<not> in_manifest_present i" and j: "j = i\<lparr> in_manifest_present := True \<rparr>"
  shows "foldl f64_add BASE (map rf_weight (positive_factors i @ negative_factors i))
    \<le> foldl f64_add BASE (map rf_weight (positive_factors j @ negative_factors j))"
proof -
  let ?as = "map rf_weight (before_manifest i)" and ?bs = "map rf_weight (after_manifest i @ damage_penalties i)"
  let ?downs = "if in_checksums_present i then [] else [NO_MANIFEST_NO_CHECKSUMS]"
  have i: "map rf_weight (positive_factors i @ negative_factors i) = ?as @ ?bs @ ?downs"
    using assms(1) unfolding factors_split map_append append_assoc weight_factor_if by simp
  have "map rf_weight (positive_factors j @ negative_factors j) = ?as @ [EXTERNAL_MANIFEST] @ ?bs"
    unfolding j factors_split factors_around map_append append_assoc weight_factor_if by simp
  moreover have "0 \<le> EXTERNAL_MANIFEST" "NO_MANIFEST_NO_CHECKSUMS \<le> 0"
    by (simp_all add: EXTERNAL_MANIFEST_def NO_MANIFEST_NO_CHECKSUMS_def hundredths_def last_place_def
        F64_ONE_def bit_len.simps div_half_even_def)
  ultimately show ?thesis
    unfolding i by (simp only:) (intro fold_trade BASE_exact, simp_all)
qed

text \<open>
  A manifest never lowers the estimate: with everything else unchanged, the probability given
  when a manifest is present is at least the one given without it, rounding included.
\<close>

theorem manifest_never_lowers:
  assumes "\<not> in_manifest_present i"
  shows "rs_probability (estimate i) \<le> rs_probability (estimate (i\<lparr> in_manifest_present := True \<rparr>))"
proof -
  let ?j = "i\<lparr> in_manifest_present := True \<rparr>"
  let ?p = "\<lambda>i. foldl f64_add BASE (map rf_weight (positive_factors i @ negative_factors i))"
  have "?p i \<le> ?p ?j" using assms by (rule manifest_trade) simp
  moreover then have "f64_clamp (?p i) LOW_FLOOR F64_ONE \<le> f64_clamp (?p ?j) LOW_FLOOR F64_ONE"
    using f64_clamp_mono [of "?p i" "?p ?j" LOW_FLOOR F64_ONE] constants_ordered by auto
  ultimately show ?thesis
    by (simp add: estimate_def damage_facts damage_verdicts Let_def score_mono del: map_append)
qed

text \<open>One flipped bit in a file of ten thousand bytes: a manifest moves it from medium to high.\<close>

definition example_inputs :: Inputs where
  "example_inputs =
     \<lparr> in_corruptions = [synthetic (stream_location 0 4) BitFlip Minor ''GEN_FLIP_001'' (Some \<lparr> br_start = 0, br_end = 4 \<rparr>)],
       in_format = Some Raw, in_manifest_present = False, in_checksums_present = False, in_total_size = 10000,
       in_scan_capped = False, in_io_errors = False, in_format_failed = False \<rparr>"

lemma example_rules:
  "has_rule example_inputs r \<longleftrightarrow> r = ''GEN_FLIP_001''"
  "\<not> has_rule_prefix example_inputs ''PDF_''" "\<not> has_rule_suffix example_inputs ''_MAGIC_001''"
  "small_damage example_inputs" "\<not> truncation_at_header example_inputs"
  "missing_regions example_inputs = 0" "\<not> security_threat example_inputs"
  by (auto simp: has_rule_def has_rule_prefix_def has_rule_suffix_def small_damage_def damaged_bytes_def
      truncation_at_header_def missing_regions_def security_threat_def example_inputs_def synthetic_def
      byte_range_len_def ends_with_def stream_location_def)

lemma example_verdicts:
  "\<not> signature_missing example_inputs" "\<not> unrecoverable example_inputs"
  "\<not> zip_redundant_catastrophe example_inputs" "estimate_confidence example_inputs = F64_ONE"
  by (auto simp: signature_missing_def unrecoverable_def zip_redundant_catastrophe_def example_rules
      estimate_confidence_def) (simp_all add: example_inputs_def)

lemma example_fields:
  "list_all (\<lambda>c. category c = BitFlip) (in_corruptions example_inputs)" "in_corruptions example_inputs \<noteq> []"
  "\<not> list_all (\<lambda>c. rule_id c = ''TAR_UST_001'') (in_corruptions example_inputs)"
  "in_format example_inputs = Some Raw" "\<not> in_manifest_present example_inputs" "\<not> in_checksums_present example_inputs"
  "\<not> list_ex (\<lambda>c. category c = StructuralCorruption \<and> severity c = Catastrophic) (in_corruptions example_inputs)"
  by (simp_all add: example_inputs_def synthetic_def)

lemma example_probability:
  "rs_probability (estimate example_inputs) = hundredths 58"
proof -
  have "map rf_weight (positive_factors example_inputs @ negative_factors example_inputs)
      = [BITFLIP_ONLY, SMALL_DAMAGE_AREA, NO_MANIFEST_NO_CHECKSUMS]"
    unfolding factors_split before_manifest_def after_manifest_def damage_penalties_def Let_def
      map_append append_assoc weight_factor_if
    using example_rules example_verdicts example_fields by simp
  then show ?thesis
    using example_rules example_verdicts example_fields
    by (simp add: estimate_def Let_def score_new_def f64_clamp_def f64_add_def BASE_def BITFLIP_ONLY_def LOW_FLOOR_def
        SMALL_DAMAGE_AREA_def NO_MANIFEST_NO_CHECKSUMS_def hundredths_def f64_round_def last_place_def F64_ONE_def
        bit_len.simps div_half_even_def del: map_append)
qed

theorem manifest_never_lowers_witness:
  "hundredths 58 \<le> rs_probability (estimate (example_inputs\<lparr> in_manifest_present := True \<rparr>))"
  using manifest_never_lowers [of example_inputs] example_probability example_fields(5) by simp

end
