(* ===== verification/Format_Detection.thy ===== *)
theory Format_Detection
  imports Format_Id Archive_Reader
begin

text \<open>
  Format detection of the analyser (\<open>pipeline/format_detection.rs\<close>): the shared signature table on
  two bounded reads, and the fallback on the file name for files whose signature is destroyed.
  Formats of the table and of the analyser share their names, so both are written qualified.
  Shown: the two reads decide what the whole file would; a readable signature always wins over
  the name; and the fallback is the shared name lookup, except for two extensions.
\<close>

section \<open>The two formats\<close>

definition from_shared :: "Format \<Rightarrow> ArchiveFormat option" where
  "from_shared f =
     (case f of
        Format.Zip \<Rightarrow> Some ArchiveFormat.Zip
      | Format.Tar \<Rightarrow> Some ArchiveFormat.Tar
      | Format.Iso9660 \<Rightarrow> Some ArchiveFormat.Iso9660
      | Format.Gzip \<Rightarrow> Some ArchiveFormat.Gzip
      | Format.Sqlite \<Rightarrow> Some ArchiveFormat.Sqlite
      | Format.SevenZ \<Rightarrow> Some ArchiveFormat.SevenZ
      | Format.Rar \<Rightarrow> Some ArchiveFormat.Rar
      | Format.Pdf \<Rightarrow> Some ArchiveFormat.Pdf
      | Format.Bzip2 \<Rightarrow> Some ArchiveFormat.Bzip2
      | Format.Xz \<Rightarrow> Some ArchiveFormat.Xz
      | Format.Zstd \<Rightarrow> Some ArchiveFormat.Zstd
      | Format.Lz4 \<Rightarrow> Some ArchiveFormat.Lz4
      | _ \<Rightarrow> None)"

definition archive_format_str :: "ArchiveFormat \<Rightarrow> string" where
  "archive_format_str f =
     (case f of
        ArchiveFormat.Raw \<Rightarrow> ''raw'' | ArchiveFormat.Zip \<Rightarrow> ''zip'' | ArchiveFormat.Tar \<Rightarrow> ''tar''
      | ArchiveFormat.Iso9660 \<Rightarrow> ''iso9660'' | ArchiveFormat.Gzip \<Rightarrow> ''gzip''
      | ArchiveFormat.Sqlite \<Rightarrow> ''sqlite'' | ArchiveFormat.SevenZ \<Rightarrow> ''7z'' | ArchiveFormat.Rar \<Rightarrow> ''rar''
      | ArchiveFormat.Pdf \<Rightarrow> ''pdf'' | ArchiveFormat.Bzip2 \<Rightarrow> ''bzip2'' | ArchiveFormat.Xz \<Rightarrow> ''xz''
      | ArchiveFormat.Zstd \<Rightarrow> ''zstd'' | ArchiveFormat.Lz4 \<Rightarrow> ''lz4'')"

text \<open>The identifiers of the two agree, as the table promises.\<close>

lemma shared_identifiers: "from_shared f = Some a \<Longrightarrow> archive_format_str a = format_str f"
  by (cases f) (auto simp: from_shared_def archive_format_str_def format_str_def)

section \<open>Names\<close>

definition has_gz_extension :: "string \<Rightarrow> bool" where
  "has_gz_extension path \<longleftrightarrow> ends_with path ''.gz'' \<or> ends_with path ''.tgz''"

definition has_sqlite_extension :: "string \<Rightarrow> bool" where
  "has_sqlite_extension path \<longleftrightarrow>
     ends_with path ''.db'' \<or> ends_with path ''.sqlite'' \<or> ends_with path ''.sqlite3''"

definition ZIP_EXTS :: "string list" where
  "ZIP_EXTS = [''.zip'', ''.jar'', ''.apk'', ''.docx'', ''.xlsx'', ''.pptx'', ''.epub'']"

text \<open>The fallbacks, in their order, on the lowercased path.\<close>

definition name_fallback :: "string \<Rightarrow> ArchiveFormat" where
  "name_fallback path =
     (if has_gz_extension path then ArchiveFormat.Gzip
      else if has_sqlite_extension path then ArchiveFormat.Sqlite
      else if ends_with path ''.7z'' then ArchiveFormat.SevenZ
      else if ends_with path ''.rar'' then ArchiveFormat.Rar
      else if ends_with path ''.pdf'' then ArchiveFormat.Pdf
      else if ends_with path ''.bz2'' then ArchiveFormat.Bzip2
      else if ends_with path ''.xz'' then ArchiveFormat.Xz
      else if ends_with path ''.zst'' \<or> ends_with path ''.zstd'' then ArchiveFormat.Zstd
      else if ends_with path ''.lz4'' then ArchiveFormat.Lz4
      else if list_ex (ends_with path) ZIP_EXTS then ArchiveFormat.Zip
      else if ends_with path ''.tar'' then ArchiveFormat.Tar
      else if ends_with path ''.iso'' then ArchiveFormat.Iso9660
      else ArchiveFormat.Raw)"

section \<open>Detection\<close>

text \<open>The two reads; a file no longer than the suffix is its own tail.\<close>

definition detection_reads :: "Source \<Rightarrow> Bytes" where
  "detection_reads s =
     (let hd = read_at s 0 REQUIRED_PREFIX in
      \<lparr> by_head = hd,
        by_tail = (if REQUIRED_SUFFIX < src_len s
                   then read_or_empty s (src_len s - REQUIRED_SUFFIX) REQUIRED_SUFFIX else hd),
        by_total = src_len s \<rparr>)"

definition detect_format :: "Source \<Rightarrow> ArchiveFormat" where
  "detect_format s =
     (case Option.bind (identify (detection_reads s)) from_shared of
        Some af \<Rightarrow> af
      | None \<Rightarrow> name_fallback (to_ascii_lowercase (src_path s)))"

lemma detection_reads_bounded: "detection_reads s = bounded_reads (src_bytes s)"
proof -
  have "read_or_empty s (src_len s - REQUIRED_SUFFIX) REQUIRED_SUFFIX = drop (src_len s - REQUIRED_SUFFIX) (src_bytes s)"
    if "REQUIRED_SUFFIX < src_len s"
    using that by (auto simp: read_or_empty_def read_exact_at_def read_at_def Let_def cut_full REQUIRED_SUFFIX_def)
  moreover have "read_at s 0 REQUIRED_PREFIX = take REQUIRED_PREFIX (src_bytes s)"
    by (simp add: read_at_def cut_0)
  ultimately show ?thesis by (simp add: detection_reads_def bounded_reads_def Let_def)
qed

section \<open>The last extension of a name\<close>

definition dot_suffix :: "string \<Rightarrow> string" where
  "dot_suffix s = (if CHR ''.'' \<in> set s then CHR ''.'' # rev (takeWhile (\<lambda>c. c \<noteq> CHR ''.'') (rev s)) else [])"

lemma ends_with_append: "ends_with s e \<longleftrightarrow> (\<exists>p. s = p @ e)"
proof
  assume "ends_with s e"
  then have "s = take (length s - length e) s @ e" unfolding ends_with_def by (metis append_take_drop_id)
  then show "\<exists>p. s = p @ e" by blast
qed (auto simp: ends_with_def)

lemma ends_with_dot:
  assumes "CHR ''.'' \<notin> set r"
  shows "ends_with s (CHR ''.'' # r) \<longleftrightarrow> dot_suffix s = CHR ''.'' # r"
proof
  assume "ends_with s (CHR ''.'' # r)"
  then obtain p where s: "s = p @ CHR ''.'' # r" by (auto simp: ends_with_append)
  have "takeWhile (\<lambda>c. c \<noteq> CHR ''.'') (rev r @ CHR ''.'' # rev p) = rev r"
    using assms by (subst takeWhile_append2) auto
  then show "dot_suffix s = CHR ''.'' # r" by (simp add: dot_suffix_def s)
next
  assume d: "dot_suffix s = CHR ''.'' # r"
  then have dot: "CHR ''.'' \<in> set s" and r: "rev r = takeWhile (\<lambda>c. c \<noteq> CHR ''.'') (rev s)"
    by (auto simp: dot_suffix_def split: if_splits)
  have "dropWhile (\<lambda>c. c \<noteq> CHR ''.'') (rev s) \<noteq> []" using dot by (auto simp: dropWhile_eq_Nil_conv)
  then obtain q where "dropWhile (\<lambda>c. c \<noteq> CHR ''.'') (rev s) = CHR ''.'' # q"
    using hd_dropWhile [of "\<lambda>c. c \<noteq> CHR ''.''" "rev s"] by (cases "dropWhile (\<lambda>c. c \<noteq> CHR ''.'') (rev s)") auto
  then have "rev s = rev r @ CHR ''.'' # q" by (metis r takeWhile_dropWhile_id)
  then have "s = rev q @ CHR ''.'' # r" by (metis append.assoc append_Cons append_Nil rev.simps(2) rev_append rev_rev_ident)
  then show "ends_with s (CHR ''.'' # r)" by (auto simp: ends_with_append)
qed

lemma fold_longer_same:
  assumes "list_all (\<lambda>p. ends_with s (snd p) \<longleftrightarrow> snd p = x) ps"
  shows "fold (longer_extension s) ps (Some (length x, f)) = Some (length x, f)"
    "fold (longer_extension s) ps None = map_option (\<lambda>p. (length x, fst p)) (find (\<lambda>p. snd p = x) ps)"
proof -
  show same: "fold (longer_extension s) ps (Some (length x, f)) = Some (length x, f)" for f
    using assms by (induction ps) (auto simp: longer_extension_def)
  show "fold (longer_extension s) ps None = map_option (\<lambda>p. (length x, fst p)) (find (\<lambda>p. snd p = x) ps)"
    using assms
  proof (induction ps)
    case (Cons p ps)
    have "fold (longer_extension s) ps (Some (length x, fst p)) = Some (length x, fst p)"
      using Cons.prems by (induction ps) (auto simp: longer_extension_def)
    moreover have "longer_extension s p None = (if snd p = x then Some (length x, fst p) else None)"
      using Cons.prems by (simp add: longer_extension_def)
    ultimately show ?case using Cons by simp
  qed simp
qed

lemma extension_table_dots:
  "list_all (\<lambda>p. snd p \<noteq> [] \<and> hd (snd p) = CHR ''.'' \<and> CHR ''.'' \<notin> set (tl (snd p))) extension_table"
  by (simp add: extension_table_def FORMATS_def extensions_def)

lemma from_extension_find:
  "from_extension nm = map_option fst (find (\<lambda>p. snd p = dot_suffix (to_ascii_lowercase nm)) extension_table)"
proof -
  let ?s = "to_ascii_lowercase nm"
  have "list_all (\<lambda>p. ends_with ?s (snd p) \<longleftrightarrow> snd p = dot_suffix ?s) extension_table"
    unfolding list_all_iff
  proof
    fix p assume "p \<in> set extension_table"
    then obtain r where "snd p = CHR ''.'' # r" "CHR ''.'' \<notin> set r"
      using extension_table_dots unfolding list_all_iff by (metis list.collapse)
    then show "ends_with ?s (snd p) \<longleftrightarrow> snd p = dot_suffix ?s" using ends_with_dot by metis
  qed
  then show ?thesis by (simp add: from_extension_def fold_longer_same(2) option.map_comp comp_def)
qed


section \<open>What the detection answers\<close>

text \<open>The format the shared table gives a name, as far as the analyser reads it.\<close>

definition named_format :: "string \<Rightarrow> ArchiveFormat option" where
  "named_format nm = Option.bind (from_extension nm) from_shared"

lemma extension_rows:
  "extension_table =
    [(Format.Zip, ''.zip''), (Format.Zip, ''.jar''), (Format.Zip, ''.apk''), (Format.Zip, ''.docx''),
    (Format.Zip, ''.xlsx''), (Format.Zip, ''.pptx''), (Format.Zip, ''.epub''), (Format.Zip, ''.odt''),
    (Format.Zip, ''.ods''), (Format.Tar, ''.tar''), (Format.Iso9660, ''.iso''), (Format.Gzip, ''.gz''),
    (Format.Gzip, ''.tgz''), (Format.Sqlite, ''.db''), (Format.Sqlite, ''.sqlite''), (Format.Sqlite, ''.sqlite3''),
    (Format.SevenZ, ''.7z''), (Format.Rar, ''.rar''), (Format.Pdf, ''.pdf''), (Format.Bzip2, ''.bz2''),
    (Format.Xz, ''.xz''), (Format.Zstd, ''.zst''), (Format.Zstd, ''.zstd''), (Format.Lz4, ''.lz4''),
    (Format.Cab, ''.cab''), (Format.Wim, ''.wim''), (Format.Qcow2, ''.qcow2''), (Format.Qcow2, ''.qcow''),
    (Format.Vhd, ''.vhd''), (Format.Vhdx, ''.vhdx''), (Format.Vhdx, ''.avhdx''), (Format.Vmdk, ''.vmdk''),
    (Format.Dmg, ''.dmg''), (Format.AcronisTib, ''.tib''), (Format.MacriumX, ''.mrimgx''), (Format.MacriumX, ''.mrbakx'')]"
  by (simp add: extension_table_def FORMATS_def extensions_def)

lemma name_fallback_exact:
  "name_fallback (to_ascii_lowercase nm) =
     (if ends_with (to_ascii_lowercase nm) ''.odt'' \<or> ends_with (to_ascii_lowercase nm) ''.ods''
      then ArchiveFormat.Raw
      else (case named_format nm of Some af \<Rightarrow> af | None \<Rightarrow> ArchiveFormat.Raw))"
proof -
  define x where "x = dot_suffix (to_ascii_lowercase nm)"
  have ends: "ends_with (to_ascii_lowercase nm) (CHR ''.'' # r) \<longleftrightarrow> x = CHR ''.'' # r" if "CHR ''.'' \<notin> set r" for r
    using ends_with_dot [OF that] by (simp add: x_def)
  have found: "from_extension nm = map_option fst (find (\<lambda>p. snd p = x) extension_table)"
    unfolding x_def by (rule from_extension_find)
  show ?thesis
  proof (cases "x \<in> set (map snd extension_table)")
    case True
    then show ?thesis
      unfolding extension_rows list.map snd_conv list.set insert_iff empty_iff
      by (elim disjE)
        (simp_all add: found ends name_fallback_def named_format_def has_gz_extension_def has_sqlite_extension_def
          ZIP_EXTS_def extension_rows from_shared_def)
  next
    case False
    then have "from_extension nm = None" by (force simp: found find_None_iff)
    moreover have "x \<notin> {''.gz'', ''.tgz'', ''.db'', ''.sqlite'', ''.sqlite3'', ''.7z'', ''.rar'', ''.pdf'', ''.bz2'',
      ''.xz'', ''.zst'', ''.zstd'', ''.lz4'', ''.zip'', ''.jar'', ''.apk'', ''.docx'', ''.xlsx'', ''.pptx'', ''.epub'',
      ''.tar'', ''.iso''}"
      using False by (simp add: extension_rows)
    ultimately show ?thesis
      by (simp add: ends name_fallback_def named_format_def has_gz_extension_def has_sqlite_extension_def ZIP_EXTS_def)
  qed
qed


text \<open>
  Content decides, and two bounded reads see all of it: the detected format is the one the
  shared signature table gives the whole file, whenever the analyser reads that format, whatever
  the file is called. Only when the bytes name no readable format does the name decide, and then
  by the shared lookup of its extension; but a name ending in \<open>.odt\<close> or \<open>.ods\<close>, which
  the shared table counts as ZIP, is not routed to the ZIP rules.
\<close>

theorem detect_format_exact:
  "detect_format s =
    (case Option.bind (identify (whole (src_bytes s))) from_shared of
       Some af \<Rightarrow> af
     | None \<Rightarrow>
         if ends_with (to_ascii_lowercase (src_path s)) ''.odt'' \<or> ends_with (to_ascii_lowercase (src_path s)) ''.ods''
         then ArchiveFormat.Raw
         else (case named_format (src_path s) of Some af \<Rightarrow> af | None \<Rightarrow> ArchiveFormat.Raw))"
proof -
  have "identify (detection_reads s) = identify (whole (src_bytes s))"
    by (simp add: identify_def detection_reads_bounded identify_bounded)
  then show ?thesis by (simp add: detect_format_def name_fallback_exact split: option.split)
qed

section \<open>Partial reads\<close>

text \<open>
  A partial read is not always safe: with the head unread, a file that starts as a ZIP and ends
  with a disk-image trailer is named by the trailer.
\<close>

lemma partial_read_misnames:
  assumes d: "d = [0x50, 0x4B, 0x03, 0x04] @ str_bytes ''koly'' @ r" and r: "length r = 508"
  shows "identify (whole d) = Some Format.Zip"
    "identify \<lparr> by_head = [], by_tail = drop 4 d, by_total = length d \<rparr> = Some Format.Dmg"
proof -
  show "identify (whole d) = Some Format.Zip"
    by (simp add: d identify_def identify_with_provenance_def SIGNATURES_def sig_def sig_matches_def sig_window_def
        whole_def get_range_def cut_def)
  have "str_bytes ''koly'' = [0x6B, 0x6F, 0x6C, 0x79]" by (simp add: str_bytes_def byte_of_char_def)
  then show "identify \<lparr> by_head = [], by_tail = drop 4 d, by_total = length d \<rparr> = Some Format.Dmg"
    by (simp add: d r identify_def identify_with_provenance_def SIGNATURES_def sig_def sig_matches_def sig_window_def
        get_range_def cut_def)
qed

end
