(* ===== verification/Reference_Diff.thy ===== *)
theory Reference_Diff
  imports Detector_Safety Format_Id
begin

unbundle bit_operations_syntax

text \<open>
  The comparison with a known-good copy (\<open>corruption/reference.rs\<close>, \<open>scan_reference\<close> in
  \<open>corruption/mod.rs\<close>): truncation, insertion, signature damage, swapped blocks, damage in a known
  field, lost regions and flipped bits. The truncation share is compared as a fraction of whole
  numbers, which decides as the \<open>f64\<close> comparison does for files below \<open>2 ^ 52\<close> bytes.
  Shown: the comparison finds nothing exactly when the copies are equal, otherwise one or two
  findings that lie inside the files and carry registered rules; and the one input it panics on.
\<close>

section \<open>Labels and rules\<close>

definition format_label_for_ext :: "string \<Rightarrow> string" where
  "format_label_for_ext ext =
     (let lower = to_ascii_lowercase ext in
      if lower = ''zip'' then ''ZIP'' else if lower = ''tar'' then ''TAR'' else if lower = ''iso'' then ''ISO''
      else if lower = ''gz'' then ''GZIP'' else if lower = ''bz2'' then ''BZIP2'' else if lower = ''xz'' then ''XZ''
      else if lower = ''zst'' then ''ZSTD'' else if lower = ''lz4'' then ''LZ4'' else if lower = ''rar'' then ''RAR''
      else if lower = ''7z'' then ''7Z'' else if lower = ''pdf'' then ''PDF''
      else if lower = ''db'' \<or> lower = ''sqlite'' \<or> lower = ''sqlite3'' then ''SQLite''
      else ''*'')"

text \<open>The share of the file that is missing: at most one, at most five hundredths, or more.\<close>

definition tail_trunc_rule :: "string \<Rightarrow> nat \<Rightarrow> nat \<Rightarrow> string" where
  "tail_trunc_rule f removed entire =
     (if f = ''ZIP'' then
        (if 100 * removed \<le> entire then ''ZIP_TRUNC_001''
         else if 20 * removed \<le> entire then ''ZIP_TRUNC_002'' else ''ZIP_TRUNC_003'')
      else if f = ''TAR'' then (if 100 * removed \<le> entire then ''TAR_TRUNC_001'' else ''TAR_TRUNC_002'')
      else if f = ''ISO'' then (if 20 * removed \<le> entire then ''ISO_TRUNC_001'' else ''ISO_TRUNC_002'')
      else ''GEN_TRUNC_001'')"

definition head_trunc_rule :: "string \<Rightarrow> string" where
  "head_trunc_rule f =
     (if f = ''ZIP'' then ''ZIP_TRUNC_004'' else if f = ''TAR'' then ''TAR_TRUNC_003''
      else if f = ''ISO'' then ''ISO_TRUNC_003'' else ''GEN_TRUNC_001'')"

definition flip_rule :: "string \<Rightarrow> bool \<Rightarrow> nat \<Rightarrow> string" where
  "flip_rule f header k =
     (if f = ''ZIP'' then
        (if header then ''ZIP_FLIP_003'' else if 5 < k then ''ZIP_FLIP_002'' else ''ZIP_FLIP_001'')
      else if f = ''TAR'' then (if header then ''TAR_FLIP_002'' else ''TAR_FLIP_001'')
      else if f = ''ISO'' then ''ISO_SECTOR_001'' else ''GEN_FLIP_001'')"

definition missing_rule :: "string \<Rightarrow> string" where
  "missing_rule f =
     (if f = ''ZIP'' then ''ZIP_CD_003'' else if f = ''TAR'' then ''TAR_SIZE_002''
      else if f = ''ISO'' then ''ISO_SECTOR_002'' else ''GEN_MISSING_001'')"

definition magic_rule :: "string \<Rightarrow> string" where
  "magic_rule f =
     (if f = ''GZIP'' then ''GZ_MAGIC_001'' else if f = ''BZIP2'' then ''BZ2_MAGIC_001''
      else if f = ''XZ'' then ''XZ_MAGIC_001'' else if f = ''ZSTD'' then ''ZST_MAGIC_001''
      else if f = ''LZ4'' then ''LZ4_MAGIC_001'' else if f = ''RAR'' then ''RAR_MAGIC_001''
      else if f = ''7Z'' then ''7Z_MAGIC_001'' else if f = ''PDF'' then ''PDF_HDR_001''
      else if f = ''SQLite'' then ''SQ_MAGIC_001'' else ''GEN_STRUCT_001'')"

section \<open>Fields of the clean copy\<close>

definition zip_find_eocd :: "bytes \<Rightarrow> nat option" where
  "zip_find_eocd b =
     (if length b < 22 then None
      else find (\<lambda>i. u32_at b i = 0x06054b50) (rev [0..<length b - 4 + 1]))"

function zip_field_from :: "bytes \<Rightarrow> nat \<Rightarrow> nat \<Rightarrow> string option" where
  "zip_field_from clean off pos =
     (if pos + 46 \<le> length clean \<and> u32_at clean pos = 0x02014b50 then
        (if pos + 20 \<le> off \<and> off < pos + 24 then Some ''ZIP_SIZE_001''
         else if pos + 30 \<le> off \<and> off < pos + 32 then Some ''ZIP_EXTRA_001''
         else zip_field_from clean off
           (pos + (46 + unat (u16_at clean (pos + 28)) + unat (u16_at clean (pos + 30))
             + unat (u16_at clean (pos + 32)))))
      else None)"
  by pat_completeness auto
termination by (relation "measure (\<lambda>(clean, off, pos). length clean - pos)") auto

declare zip_field_from.simps [simp del]

definition zip_field_at :: "bytes \<Rightarrow> nat \<Rightarrow> string option" where
  "zip_field_at clean off =
     (case zip_find_eocd clean of
        None \<Rightarrow> None
      | Some eocd \<Rightarrow>
          (case get_range clean (eocd + 16) (eocd + 20) of
             None \<Rightarrow> None
           | Some b \<Rightarrow> zip_field_from clean off (unat (u32_at b 0))))"

definition tar_octal :: "bytes \<Rightarrow> nat option" where
  "tar_octal field = from_str_radix_8 (trim_white (takeWhile (\<lambda>b. b \<noteq> 0 \<and> b \<noteq> 0x20) field))"

text \<open>Past a member: its header and its data in entire blocks.\<close>

definition tar_next :: "bytes \<Rightarrow> nat \<Rightarrow> nat" where
  "tar_next clean off =
     off + 512 + div_ceil (case tar_octal (cut clean (off + 124) (off + 136)) of Some n \<Rightarrow> n | None \<Rightarrow> 0) 512 * 512"

definition zero_block :: "bytes \<Rightarrow> nat \<Rightarrow> bool" where
  "zero_block clean off \<longleftrightarrow> list_all (\<lambda>b. b = 0) (cut clean off (off + 512))"

function tar_field_from :: "bytes \<Rightarrow> nat \<Rightarrow> nat \<Rightarrow> string option" where
  "tar_field_from clean at off =
     (if off + 512 \<le> length clean \<and> \<not> zero_block clean off then
        (if off + 148 \<le> at \<and> at < off + 156 then Some ''TAR_UST_001''
         else if off + 124 \<le> at \<and> at < off + 136 then Some ''TAR_SIZE_001''
         else tar_field_from clean at (tar_next clean off))
      else None)"
  by pat_completeness auto
termination by (relation "measure (\<lambda>(clean, at, off). length clean - off)") (auto simp: tar_next_def)

declare tar_field_from.simps [simp del]

definition tar_field_at :: "bytes \<Rightarrow> nat \<Rightarrow> string option" where
  "tar_field_at clean at = tar_field_from clean at 0"

definition iso_field_at :: "bytes \<Rightarrow> nat \<Rightarrow> string option" where
  "iso_field_at corrupted off =
     (if 17 * 2048 + 1 \<le> off \<and> off < 17 * 2048 + 6 then Some ''ISO_SVD_001''
      else if 16 * 2048 + 156 \<le> off \<and> off < 16 * 2048 + 156 + 34 \<and> get_at corrupted off = Some 0
      then Some ''ISO_DIR_001'' else None)"

definition field_resolve :: "string \<Rightarrow> bytes \<Rightarrow> bytes \<Rightarrow> nat \<Rightarrow> string option" where
  "field_resolve f clean corrupted off =
     (if f = ''ZIP'' then zip_field_at clean off else if f = ''TAR'' then tar_field_at clean off
      else if f = ''ISO'' then iso_field_at corrupted off else None)"

section \<open>TAR blocks\<close>

definition block_at :: "bytes \<Rightarrow> nat \<Rightarrow> bytes" where
  "block_at d i = cut d (i * 512) ((i + 1) * 512)"

definition tar_block_swap :: "bytes \<Rightarrow> bytes \<Rightarrow> (nat \<times> nat) option" where
  "tar_block_swap clean corrupted =
     (if length clean \<noteq> length corrupted then None
      else
        (case filter (\<lambda>i. block_at clean i \<noteq> block_at corrupted i) [0..<length clean div 512] of
           [a, b] \<Rightarrow>
             if block_at corrupted a = block_at clean b \<and> block_at corrupted b = block_at clean a
             then Some (a, b) else None
         | _ \<Rightarrow> None))"

function tar_gnu_from :: "bytes \<Rightarrow> bytes \<Rightarrow> nat \<Rightarrow> nat option" where
  "tar_gnu_from clean corrupted off =
     (if off + 512 \<le> length clean \<and> \<not> zero_block clean off then
        (if get_at corrupted (off + 156) = Some 0x4C \<and> get_at clean (off + 156) \<noteq> Some 0x4C then Some off
         else tar_gnu_from clean corrupted (tar_next clean off))
      else None)"
  by pat_completeness auto
termination by (relation "measure (\<lambda>(clean, corrupted, off). length clean - off)") (auto simp: tar_next_def)

declare tar_gnu_from.simps [simp del]

definition tar_gnu_longname :: "bytes \<Rightarrow> bytes \<Rightarrow> nat option" where
  "tar_gnu_longname clean corrupted =
     (if length clean \<noteq> length corrupted then None else tar_gnu_from clean corrupted 0)"

section \<open>The comparison\<close>

definition count_ones :: "u8 \<Rightarrow> nat" where
  "count_ones b = length (filter (bit b) [0..<8])"

definition total_bit_diff :: "bytes \<Rightarrow> bytes \<Rightarrow> nat" where
  "total_bit_diff a b = sum_list (map (\<lambda>(x, y). count_ones (x XOR y)) (zip a b))"

definition range_of :: "nat \<Rightarrow> nat \<Rightarrow> ByteRange" where
  "range_of a b = \<lparr> br_start = of_nat a, br_end = of_nat b \<rparr>"

definition diff_finding :: "string \<Rightarrow> nat \<Rightarrow> nat \<Rightarrow> Detected" where
  "diff_finding rule a b = with_rule rule (detected ReferenceDiff (stream_location a b))"

definition length_findings :: "string \<Rightarrow> bytes \<Rightarrow> bytes \<Rightarrow> Detected list" where
  "length_findings f corrupted clean =
     (let lc = length clean; ld = length corrupted in
      if ld < lc then
        (let truncated = (\<lambda>rule a b what. [with_detail (Msg ''{what} {:.1}% ({} of {} bytes)'' [S what, N (lc - ld), N lc])
               (with_range (range_of a b) (diff_finding rule a b))]) in
         if corrupted = take ld clean then truncated (tail_trunc_rule f (lc - ld) lc) ld lc ''tail-truncated''
         else if corrupted = drop (lc - ld) clean then truncated (head_trunc_rule f) 0 (lc - ld) ''head-truncated''
         else truncated (missing_rule f) 0 (lc - ld) ''middle-deleted'')
      else if lc < ld then
        [with_detail (Msg ''grew by {} bytes (insertion)'' [N (ld - lc)]) (diff_finding ''GEN_STRUCT_001'' lc ld)]
      else [])"

definition diff_positions :: "bytes \<Rightarrow> bytes \<Rightarrow> nat list" where
  "diff_positions corrupted clean =
     filter (\<lambda>i. corrupted ! i \<noteq> clean ! i) [0..<min (length clean) (length corrupted)]"

text \<open>The finding for the changed positions, once the special cases are out of the way.\<close>

definition region_finding :: "string \<Rightarrow> bytes \<Rightarrow> bytes \<Rightarrow> nat list \<Rightarrow> Detected" where
  "region_finding f corrupted clean diffs =
     (let first = hd diffs; lst = last diffs; span = lst - first + 1; contiguous = (length diffs = span);
          actual = cut corrupted first (min lst (first + 63) + 1);
          expected = cut clean first (min lst (first + 63) + 1);
          found = (\<lambda>rule a b. with_range (range_of a b) (with_bytes actual (Some expected) (diff_finding rule a b))) in
      if first = 0 \<and> contiguous \<and> span \<le> 16 \<and> magic_rule f \<noteq> ''GEN_STRUCT_001'' \<and> 1 < total_bit_diff actual expected
      then found (magic_rule f) 0 span
      else
        (case field_resolve f clean corrupted first of
           Some rule \<Rightarrow> found rule first (lst + 1)
         | None \<Rightarrow>
             if contiguous \<and> 8 \<le> length diffs \<or> 16 \<le> length diffs \<and> list_all (\<lambda>i. corrupted ! i = 0) diffs
             then found (missing_rule f) first (lst + 1)
             else found (flip_rule f (first < 512) (length diffs)) first (lst + 1)))"

text \<open>Two swapped blocks, or a header turned into a long-name marker.\<close>

definition tar_finding :: "bytes \<Rightarrow> bytes \<Rightarrow> Detected option" where
  "tar_finding corrupted clean =
     (case tar_block_swap clean corrupted of
        Some (a, b) \<Rightarrow>
          Some (with_detail (Msg ''blocks {a} and {b} swapped'' [N a, N b])
            (with_range (range_of (a * 512) ((b + 1) * 512)) (diff_finding ''TAR_BLOCK_001'' (a * 512) ((b + 1) * 512))))
      | None \<Rightarrow>
          map_option (\<lambda>off. with_range (range_of off (off + 512)) (diff_finding ''TAR_GNU_001'' off (off + 512)))
            (tar_gnu_longname clean corrupted))"

text \<open>The slices of the volume descriptor's magic panic when a copy ends inside it.\<close>

definition iso_finding :: "bytes \<Rightarrow> bytes \<Rightarrow> Detected outcome" where
  "iso_finding corrupted clean =
     bind_outcome (index_range corrupted 32769 32774) (\<lambda>actual.
       bind_outcome (index_range clean 32769 32774) (\<lambda>expected.
         Returned (with_bytes actual (Some expected) (diff_finding ''ISO_PVD_001'' 32769 32774))))"

definition diff :: "string \<Rightarrow> bytes \<Rightarrow> bytes \<Rightarrow> Detected list outcome" where
  "diff f corrupted clean =
     (let out = length_findings f corrupted clean; diffs = diff_positions corrupted clean in
      if diffs = [] then Returned out
      else if f = ''ISO'' \<and> list_ex (\<lambda>i. 32769 \<le> i \<and> i < 32774) diffs
      then bind_outcome (iso_finding corrupted clean) (\<lambda>x. Returned (out @ [x]))
      else
        (case (if f = ''TAR'' then tar_finding corrupted clean else None) of
           Some x \<Rightarrow> Returned (out @ [x])
         | None \<Rightarrow> Returned (out @ [region_finding f corrupted clean diffs])))"

definition scan_reference :: "bytes \<Rightarrow> bytes \<Rightarrow> string \<Rightarrow> Corruption list outcome" where
  "scan_reference corrupted clean f = bind_outcome (diff f corrupted clean) classify_all"


section \<open>What the comparison reports\<close>

lemma diff_rule_ids:
  "registered ''7Z_MAGIC_001''" "registered ''BZ2_MAGIC_001''" "registered ''GEN_FLIP_001''"
  "registered ''GEN_MISSING_001''" "registered ''GEN_STRUCT_001''" "registered ''GEN_TRUNC_001''"
  "registered ''GZ_MAGIC_001''" "registered ''ISO_DIR_001''" "registered ''ISO_PVD_001''"
  "registered ''ISO_SECTOR_001''" "registered ''ISO_SECTOR_002''" "registered ''ISO_SVD_001''"
  "registered ''ISO_TRUNC_001''" "registered ''ISO_TRUNC_002''" "registered ''ISO_TRUNC_003''"
  "registered ''LZ4_MAGIC_001''" "registered ''PDF_HDR_001''" "registered ''RAR_MAGIC_001''"
  "registered ''SQ_MAGIC_001''" "registered ''TAR_BLOCK_001''" "registered ''TAR_FLIP_001''"
  "registered ''TAR_FLIP_002''" "registered ''TAR_GNU_001''" "registered ''TAR_SIZE_001''"
  "registered ''TAR_SIZE_002''" "registered ''TAR_TRUNC_001''" "registered ''TAR_TRUNC_002''"
  "registered ''TAR_TRUNC_003''" "registered ''TAR_UST_001''" "registered ''XZ_MAGIC_001''"
  "registered ''ZIP_CD_003''" "registered ''ZIP_EXTRA_001''" "registered ''ZIP_FLIP_001''"
  "registered ''ZIP_FLIP_002''" "registered ''ZIP_FLIP_003''" "registered ''ZIP_SIZE_001''"
  "registered ''ZIP_TRUNC_001''" "registered ''ZIP_TRUNC_002''" "registered ''ZIP_TRUNC_003''"
  "registered ''ZIP_TRUNC_004''" "registered ''ZST_MAGIC_001''"
  by (simp_all add: registered_def rule_id_list del: set_map)

lemma diff_rules_registered:
  "registered (tail_trunc_rule f a b)" "registered (head_trunc_rule f)" "registered (flip_rule f h k)"
  "registered (missing_rule f)" "registered (magic_rule f)" "registered ''GEN_STRUCT_001''"
  "registered ''TAR_BLOCK_001''" "registered ''TAR_GNU_001''" "registered ''ISO_PVD_001''"
  by (simp_all add: tail_trunc_rule_def head_trunc_rule_def flip_rule_def missing_rule_def magic_rule_def
      diff_rule_ids)

lemma zip_field_from_registered: "zip_field_from clean off pos = Some r \<Longrightarrow> registered r"
proof (induction clean off pos rule: zip_field_from.induct)
  case (1 clean off pos)
  then show ?case unfolding zip_field_from.simps [of clean off pos] using diff_rule_ids by (auto split: if_splits)
qed

lemma tar_field_from_registered: "tar_field_from clean at off = Some r \<Longrightarrow> registered r"
proof (induction clean at off rule: tar_field_from.induct)
  case (1 clean at off)
  then show ?case unfolding tar_field_from.simps [of clean at off] using diff_rule_ids by (auto split: if_splits)
qed

lemma field_resolve_registered: "field_resolve f clean corrupted off = Some r \<Longrightarrow> registered r"
  by (auto simp: field_resolve_def zip_field_at_def tar_field_at_def iso_field_at_def diff_rule_ids
      dest: zip_field_from_registered tar_field_from_registered split: if_splits option.splits)

text \<open>A finding with a registered rule at a non-empty place below a bound.\<close>

definition placed :: "nat \<Rightarrow> Detected \<Rightarrow> bool" where
  "placed n x \<longleftrightarrow> sound_finding x \<and> offset_start (dt_location x) < offset_end (dt_location x)
     \<and> offset_end (dt_location x) \<le> n"

lemma placed_builders [simp]:
  "placed n (diff_finding rule a b) \<longleftrightarrow> registered rule \<and> a < b \<and> b \<le> n"
  "placed n (with_range r x) \<longleftrightarrow> placed n x" "placed n (with_detail m x) \<longleftrightarrow> placed n x"
  "placed n (with_bytes u v x) \<longleftrightarrow> placed n x"
proof -
  have "sound_finding (diff_finding rule a b) \<longleftrightarrow> registered rule \<and> a \<le> b"
    by (simp add: diff_finding_def sound_finding_def detected_def with_rule_def confident_def detected_rule_id_def)
  then show "placed n (diff_finding rule a b) \<longleftrightarrow> registered rule \<and> a < b \<and> b \<le> n"
    by (auto simp: placed_def) (simp_all add: diff_finding_def detected_def with_rule_def)
  show "placed n (with_range r x) \<longleftrightarrow> placed n x" "placed n (with_detail m x) \<longleftrightarrow> placed n x"
    "placed n (with_bytes u v x) \<longleftrightarrow> placed n x"
    by (simp_all add: placed_def, simp_all add: with_range_def with_detail_def with_bytes_def)
qed

definition sole_placed :: "nat \<Rightarrow> Detected list \<Rightarrow> bool" where
  "sole_placed n xs \<longleftrightarrow> length xs = 1 \<and> list_all (placed n) xs"

lemma sole_placed_if: "sole_placed n xs \<Longrightarrow> sole_placed n ys \<Longrightarrow> sole_placed n (if p then xs else ys)"
  by simp

lemma sole_placed_Cons [simp]: "sole_placed n [x] \<longleftrightarrow> placed n x"
  by (simp add: sole_placed_def)

lemma length_findings_sole:
  assumes "length d \<noteq> length c"
  shows "sole_placed (max (length d) (length c)) (length_findings f d c)"
proof (cases "length d < length c")
  case True
  have "length c - length d \<le> max (length d) (length c)" by simp
  with True show ?thesis
    unfolding length_findings_def Let_def if_P [OF True]
    by (intro sole_placed_if) (simp_all add: diff_rules_registered)
next
  case False
  with assms show ?thesis by (simp add: length_findings_def Let_def diff_rules_registered)
qed

lemma length_findings_placed:
  "list_all (placed (max (length d) (length c))) (length_findings f d c)
    \<and> length (length_findings f d c) \<le> 1 \<and> (length_findings f d c = [] \<longleftrightarrow> length d = length c)"
proof (cases "length d = length c")
  case True
  then show ?thesis by (simp add: length_findings_def)
next
  case False
  with length_findings_sole [OF this, of f] show ?thesis
    unfolding sole_placed_def by fastforce
qed

lemma diff_positions_Nil: "diff_positions d c = [] \<longleftrightarrow> take (length c) d = take (length d) c"
proof -
  have "diff_positions d c = [] \<longleftrightarrow> (\<forall>i < min (length c) (length d). d ! i = c ! i)"
    by (auto simp: diff_positions_def filter_empty_conv)
  also have "\<dots> \<longleftrightarrow> take (length c) d = take (length d) c"
    unfolding list_eq_iff_nth_eq by (simp add: min.commute)
  finally show ?thesis .
qed

lemma diff_positions_sorted: "sorted_wrt (<) (diff_positions d c)"
  by (simp add: diff_positions_def sorted_wrt_filter)

lemma sorted_ends: "sorted_wrt (<) (xs :: nat list) \<Longrightarrow> xs \<noteq> [] \<Longrightarrow> hd xs \<le> last xs"
  by (cases xs) (auto simp: less_imp_le)

lemma region_finding_placed:
  assumes "diff_positions d c \<noteq> []"
  shows "placed (max (length d) (length c)) (region_finding f d c (diff_positions d c))"
proof -
  let ?ps = "diff_positions d c"
  have ends: "hd ?ps \<le> last ?ps" using sorted_ends [OF diff_positions_sorted assms] .
  have "last ?ps \<in> set ?ps" using assms by simp
  then have "last ?ps < length d" by (auto simp: diff_positions_def)
  with ends show ?thesis
    by (auto simp: region_finding_def Let_def diff_rules_registered less_max_iff_disj le_max_iff_disj
        dest: field_resolve_registered split: option.split)
qed

lemma tar_gnu_from_bound: "tar_gnu_from clean corrupted off = Some k \<Longrightarrow> k + 512 \<le> length clean"
proof (induction clean corrupted off rule: tar_gnu_from.induct)
  case (1 clean corrupted off)
  then show ?case unfolding tar_gnu_from.simps [of clean corrupted off] by (auto split: if_splits)
qed

lemma tar_block_swap_bound:
  assumes "tar_block_swap clean corrupted = Some (a, b)"
  shows "a < b" "(b + 1) * 512 \<le> length clean"
proof -
  let ?ps = "filter (\<lambda>i. block_at clean i \<noteq> block_at corrupted i) [0..<length clean div 512]"
  have ps: "?ps = [a, b]"
    using assms by (auto simp: tar_block_swap_def split: if_split_asm list.split_asm)
  have "sorted_wrt (<) ?ps" by (simp add: sorted_wrt_filter)
  with ps show "a < b" by simp
  have "b \<in> set ?ps" using ps by simp
  then have "b < length clean div 512" by simp
  then have "(b + 1) * 512 \<le> length clean div 512 * 512" by (intro mult_le_mono1) simp
  then show "(b + 1) * 512 \<le> length clean" using div_times_less_eq_dividend le_trans by blast
qed

lemma tar_finding_placed: "tar_finding d c = Some x \<Longrightarrow> placed (max (length d) (length c)) x"
  using tar_block_swap_bound [of c d] tar_gnu_from_bound [of c d 0]
  by (fastforce simp: tar_finding_def tar_gnu_longname_def diff_rules_registered le_max_iff_disj split: option.splits if_splits)

text \<open>The only input the comparison panics on.\<close>

definition cut_magic :: "string \<Rightarrow> bytes \<Rightarrow> bytes \<Rightarrow> bool" where
  "cut_magic f d c \<longleftrightarrow> f = ''ISO'' \<and> list_ex (\<lambda>i. 32769 \<le> i) (diff_positions d c)
     \<and> min (length d) (length c) < 32774"

lemma diff_positions_bound: "i \<in> set (diff_positions d c) \<Longrightarrow> i < length d \<and> i < length c"
  by (auto simp: diff_positions_def)

lemma diff_panics: "diff f d c = Panicked \<longleftrightarrow> cut_magic f d c"
proof (cases "f = ''ISO'' \<and> list_ex (\<lambda>i. 32769 \<le> i \<and> i < 32774) (diff_positions d c)")
  case True
  then have "diff_positions d c \<noteq> []" by auto
  with True have "diff f d c = Panicked \<longleftrightarrow> iso_finding d c = Panicked"
    by (simp add: diff_def Let_def bind_outcome_Panicked_iff)
  also have "\<dots> \<longleftrightarrow> min (length d) (length c) < 32774"
    by (auto simp: iso_finding_def index_range_def)
  finally show ?thesis using True by (auto simp: cut_magic_def list_ex_iff)
next
  case False
  then have "diff f d c \<noteq> Panicked" by (auto simp: diff_def Let_def split: option.split)
  moreover have "\<not> cut_magic f d c"
    using False diff_positions_bound [of _ d c] by (fastforce simp: cut_magic_def list_ex_iff)
  ultimately show ?thesis by simp
qed

text \<open>What the comparison returns when it returns.\<close>

definition diff_spec :: "bytes \<Rightarrow> bytes \<Rightarrow> Detected list \<Rightarrow> bool" where
  "diff_spec d c xs \<longleftrightarrow> (xs = [] \<longleftrightarrow> d = c) \<and> length xs \<le> 2
     \<and> list_all (placed (max (length d) (length c))) xs"

lemma equal_copies: "d = c \<longleftrightarrow> length d = length c \<and> diff_positions d c = []"
  by (auto simp: diff_positions_Nil)

lemma diff_spec_snoc:
  assumes "diff_positions d c \<noteq> []" "placed (max (length d) (length c)) x"
  shows "diff_spec d c (length_findings f d c @ [x])"
  using assms length_findings_placed [of d c f] by (auto simp: diff_spec_def equal_copies)

lemma diff_spec_length: "diff_positions d c = [] \<Longrightarrow> diff_spec d c (length_findings f d c)"
  using length_findings_placed [of d c f] by (auto simp: diff_spec_def equal_copies)

lemma iso_finding_placed:
  "iso_finding d c = Returned x \<Longrightarrow> placed (max (length d) (length c)) x"
  by (auto simp: iso_finding_def index_range_def diff_rules_registered le_max_iff_disj split: if_splits)

lemma diff_returns_spec:
  assumes "diff f d c = Returned xs"
  shows "diff_spec d c xs"
proof (cases "diff_positions d c = []")
  case True
  with assms show ?thesis by (auto simp: diff_def intro: diff_spec_length)
next
  case False
  note snoc = diff_spec_snoc [OF False]
  show ?thesis
  proof (cases "f = ''ISO'' \<and> list_ex (\<lambda>i. 32769 \<le> i \<and> i < 32774) (diff_positions d c)")
    case True
    with assms False obtain x where "iso_finding d c = Returned x" "xs = length_findings f d c @ [x]"
      by (auto simp: diff_def Let_def bind_outcome_Returned_iff)
    then show ?thesis using snoc [OF iso_finding_placed] by simp
  next
    case nonmagic: False
    show ?thesis
    proof (cases "if f = ''TAR'' then tar_finding d c else None")
      case None
      with assms False nonmagic have "xs = length_findings f d c @ [region_finding f d c (diff_positions d c)]"
        by (simp add: diff_def Let_def)
      then show ?thesis using snoc [OF region_finding_placed [OF False]] by simp
    next
      case (Some x)
      with assms False nonmagic have "xs = length_findings f d c @ [x]" by (simp add: diff_def Let_def)
      moreover have "tar_finding d c = Some x" using Some by (simp split: if_splits)
      ultimately show ?thesis using snoc [OF tar_finding_placed] by simp
    qed
  qed
qed

lemma placed_ready: "list_all (placed n) xs \<Longrightarrow>
    list_all (\<lambda>x. confident x \<and> registered (detected_rule_id x)) xs"
  by (auto simp: list_all_iff placed_def sound_finding_def)

lemma scan_reference_returns:
  assumes "diff f d c = Returned xs"
  obtains cs where "scan_reference d c f = Returned cs"
    "list_all2 (\<lambda>x y. c_location y = dt_location x \<and> rule_id y = detected_rule_id x) xs cs"
proof -
  have "list_all (placed (max (length d) (length c))) xs"
    using diff_returns_spec [OF assms] by (simp add: diff_spec_def)
  from classify_all_registered [OF placed_ready [OF this]] obtain cs where
    "classify_all xs = Returned cs" "list_all2 (\<lambda>x c. \<exists>r \<in> set RULES.
      cr_id r = detected_rule_id x \<and> classified_as x r c) xs cs" by blast
  then show thesis
    using assms by (intro that [of cs]) (auto simp: scan_reference_def classified_as_def elim!: list_all2_mono)
qed

text \<open>The bytes a corruption is about: not empty and inside the longer of the two files.\<close>

definition lies_in :: "nat \<Rightarrow> Corruption \<Rightarrow> bool" where
  "lies_in n y \<longleftrightarrow> offset_start (c_location y) < offset_end (c_location y) \<and> offset_end (c_location y) \<le> n
     \<and> registered (rule_id y)"

text \<open>
  C36. Comparing a file with its known-good copy reports nothing exactly when the two are equal,
  and otherwise one or two corruptions with registered rules at non-empty places inside the
  files, for every format name and any two byte strings. The one exception is stated too: the
  comparison panics exactly when the format is ISO, the copies differ at or after the volume
  descriptor's magic and one of them ends before the magic does.
\<close>

theorem scan_reference_exact:
  "case scan_reference d c f of
     Panicked \<Rightarrow> cut_magic f d c
   | Returned cs \<Rightarrow> \<not> cut_magic f d c \<and> (cs = [] \<longleftrightarrow> d = c) \<and> length cs \<le> 2
       \<and> list_all (lies_in (max (length d) (length c))) cs"
proof (cases "diff f d c")
  case Panicked
  have "cut_magic f d c" using Panicked by (rule iffD1 [OF diff_panics])
  moreover have "scan_reference d c f = Panicked" using Panicked by (simp add: scan_reference_def)
  ultimately show ?thesis by simp
next
  case (Returned xs)
  from scan_reference_returns [OF this] obtain cs where cs: "scan_reference d c f = Returned cs"
    "list_all2 (\<lambda>x y. c_location y = dt_location x \<and> rule_id y = detected_rule_id x) xs cs" .
  have spec: "diff_spec d c xs" using Returned by (rule diff_returns_spec)
  have "length cs = length xs" using cs by (simp add: list_all2_lengthD)
  moreover have "list_all (lies_in (max (length d) (length c))) cs"
    using cs(2) spec unfolding diff_spec_def
    by (auto simp: list_all2_conv_all_nth list_all_length lies_in_def placed_def sound_finding_def)
  moreover have "\<not> cut_magic f d c" using Returned diff_panics [of f d c] by simp
  ultimately show ?thesis using cs(1) spec by (auto simp: diff_spec_def)
qed

text \<open>The first and the last place where the copies differ bound what is reported.\<close>

lemma region_finding_location:
  "dt_location (region_finding f d c ps) = stream_location (hd ps) (last ps + 1) \<or> last ps < hd ps"
  by (auto simp: region_finding_def Let_def with_range_def with_bytes_def diff_finding_def detected_def
      with_rule_def split: option.split)

lemma sorted_within: "sorted_wrt (<) (xs :: nat list) \<Longrightarrow> i \<in> set xs \<Longrightarrow> hd xs \<le> i \<and> i \<le> last xs"
  by (induction xs) (auto simp: less_imp_le)

lemma diff_positions_mem: "i \<in> set (diff_positions d c) \<longleftrightarrow> i < length d \<and> i < length c \<and> d ! i \<noteq> c ! i"
  by (auto simp: diff_positions_def)

text \<open>
  C37. A change that keeps the length is located exactly, in every format but TAR and ISO: there is
  one corruption, its place starts at the first byte that differs and ends right after the
  last one, and the copies agree everywhere else.
\<close>

theorem scan_reference_localises:
  assumes "length d = length c" "d \<noteq> c" "f \<noteq> ''TAR''" "f \<noteq> ''ISO''"
  shows "\<exists>x a b. scan_reference d c f = Returned [x] \<and> c_location x = stream_location a b
    \<and> a < b \<and> b \<le> length c \<and> d ! a \<noteq> c ! a \<and> d ! (b - 1) \<noteq> c ! (b - 1)
    \<and> (\<forall>i < length c. i < a \<or> b \<le> i \<longrightarrow> d ! i = c ! i)"
proof -
  let ?ps = "diff_positions d c"
  have ps: "?ps \<noteq> []" using assms(1,2) equal_copies by blast
  have within: "hd ?ps \<le> i \<and> i \<le> last ?ps" if "i \<in> set ?ps" for i
    using that by (rule sorted_within [OF diff_positions_sorted])
  have hd: "hd ?ps \<in> set ?ps" and last: "last ?ps \<in> set ?ps" using ps by simp_all
  have "diff f d c = Returned [region_finding f d c ?ps]"
    using assms ps by (simp add: diff_def length_findings_def)
  then obtain cs where "scan_reference d c f = Returned cs"
    "list_all2 (\<lambda>x y. c_location y = dt_location x \<and> rule_id y = detected_rule_id x) [region_finding f d c ?ps] cs"
    by (rule scan_reference_returns)
  then obtain x where x: "scan_reference d c f = Returned [x]"
    "c_location x = stream_location (hd ?ps) (last ?ps + 1)"
    using region_finding_location [of f d c ?ps] within [OF hd] by (auto simp: list_all2_Cons1)
  have "d ! i = c ! i" if "i < length c" "i < hd ?ps \<or> last ?ps + 1 \<le> i" for i
    using that within [of i] diff_positions_mem [of i d c] assms(1) by fastforce
  then show ?thesis
    using x hd last within [OF hd] assms(1) unfolding diff_positions_mem
    by (intro exI [of _ x] exI [of _ "hd ?ps"] exI [of _ "last ?ps + 1"]) auto
qed

theorem scan_reference_localises_witness:
  "\<exists>x a b. scan_reference [1, 2, 3, 4] [1, 9, 3, 8] ''ZIP'' = Returned [x] \<and> c_location x = stream_location a b
    \<and> a = 1 \<and> b = 4"
proof -
  obtain x a b where "scan_reference [1, 2, 3, 4] [1, 9, 3, 8] ''ZIP'' = Returned [x]"
    and loc: "c_location x = stream_location a b" "a < b" "b \<le> length [1, 9, 3, 8 :: u8]"
    and ends: "[1, 2, 3, 4 :: u8] ! a \<noteq> [1, 9, 3, 8] ! a" "[1, 2, 3, 4 :: u8] ! (b - 1) \<noteq> [1, 9, 3, 8] ! (b - 1)"
    and rest: "\<forall>i < length [1, 9, 3, 8 :: u8]. i < a \<or> b \<le> i \<longrightarrow> [1, 2, 3, 4 :: u8] ! i = [1, 9, 3, 8] ! i"
    using scan_reference_localises [of "[1, 2, 3, 4]" "[1, 9, 3, 8]" "''ZIP''"] by force
  moreover have "a = 1 \<and> b = 4"
  proof -
    have "a \<le> 1" using rest [rule_format, of 1] by fastforce
    moreover have "a \<noteq> 0" using ends(1) by (intro notI) simp
    moreover have "\<not> b \<le> 3" using rest [rule_format, of 3] by fastforce
    ultimately show ?thesis using loc(3) by simp
  qed
  ultimately show ?thesis by blast
qed

end
