(* ===== verification/Analysis_Engine.thy ===== *)
theory Analysis_Engine
  imports Source_Hash Recoverability Format_Detection Reference_Diff Detector_Zip Engine_Safety
begin

text \<open>
  The analysis engine (\<open>phx_analyze_engine/src/engine.rs\<close>) and its pipeline
  (\<open>pipeline/discovery.rs\<close>, \<open>integrity_scan.rs\<close>, \<open>corruption_scan.rs\<close>, \<open>health_assessment.rs\<close>,
  \<open>recoverability_scoring.rs\<close>, \<open>report_assembly.rs\<close>) with its configuration and hooks
  (\<open>model/config.rs\<close>, \<open>hooks\<close>): the stages modelled by the other theories put together, and the
  recovery engine and the command line run on top of them.
  What the stages call outside the crate is gathered in \<open>analysis_env\<close>: digests and inflater, the
  stream of a source, sidecar and companion files, the reference file.
  Shown: an analysis without a reference panics at one overflowing addition only and its parts agree; an
  intact ZIP of the plain layout comes out clean and the command leaves it alone; a changed byte of
  a stored member is found end to end; and re-analysis of staged bytes looks at their signature only.
\<close>

section \<open>Configuration\<close>

record ProtectionHook =
  hook_verify :: "bytes \<Rightarrow> string + bool"
  hook_algorithm :: string
  hook_key_id :: "string option"

type_synonym OemHook = "string \<Rightarrow> bool \<Rightarrow> bool"

definition DEFAULT_MAX_CORRUPTIONS :: nat where "DEFAULT_MAX_CORRUPTIONS = 1000"

record AnalysisConfig =
  cfg_hash_type :: HashType
  cfg_block_size :: "nat option"
  cfg_verify_embedded :: bool
  cfg_max_corruptions :: nat
  cfg_strict :: bool
  cfg_parallelism :: nat
  cfg_reference :: "string option"
  cfg_protection_hook :: "ProtectionHook option"
  cfg_oem_hook :: "OemHook option"

definition default_config :: AnalysisConfig where
  "default_config =
     \<lparr> cfg_hash_type = Sha256, cfg_block_size = None, cfg_verify_embedded = True,
       cfg_max_corruptions = DEFAULT_MAX_CORRUPTIONS, cfg_strict = False, cfg_parallelism = 1,
       cfg_reference = None, cfg_protection_hook = None, cfg_oem_hook = None \<rparr>"

definition with_hash :: "HashType \<Rightarrow> AnalysisConfig \<Rightarrow> AnalysisConfig" where
  "with_hash h c = c\<lparr> cfg_hash_type := h \<rparr>"

definition with_block_size :: "nat \<Rightarrow> AnalysisConfig \<Rightarrow> AnalysisConfig" where
  "with_block_size n c = c\<lparr> cfg_block_size := Some n \<rparr>"

definition feature_enabled :: "AnalysisConfig \<Rightarrow> string \<Rightarrow> bool \<Rightarrow> bool" where
  "feature_enabled c flag dflt = (case cfg_oem_hook c of Some hook \<Rightarrow> hook flag dflt | None \<Rightarrow> dflt)"

section \<open>Results\<close>

record SignatureVerificationResult =
  sv_valid :: bool
  sv_key_id :: "string option"
  sv_algorithm :: string

record FileResult =
  fr_path :: string
  fr_size_bytes :: nat
  fr_corruptions :: "Corruption list"
  fr_health_score :: HealthScore
  fr_recoverability_score :: RecoverabilityScore

text \<open>The whole of \<open>AnalysisResult\<close>: what recovery reads, and what only reports read.\<close>

record FullResult = AnalysisResult +
  verified_blocks :: "BlockVerification list"
  signature_verification :: "SignatureVerificationResult option"
  recoverability_score :: RecoverabilityScore
  per_file_results :: "FileResult list"
  analysis_warnings :: "message list"

record EvidenceBreakdown =
  eb_strong :: u32
  eb_medium :: u32
  eb_weak :: u32
  eb_none :: u32

definition worst_severity :: "Corruption list \<Rightarrow> Severity option" where
  "worst_severity cs = (if cs = [] then None else Some (Max (set (map severity cs))))"

definition breakdown_total :: "EvidenceBreakdown \<Rightarrow> u32" where
  "breakdown_total b = eb_strong b + eb_medium b + eb_weak b + eb_none b"

definition breakdown_merge :: "EvidenceBreakdown \<Rightarrow> EvidenceBreakdown \<Rightarrow> EvidenceBreakdown" where
  "breakdown_merge a b =
     \<lparr> eb_strong = eb_strong a + eb_strong b, eb_medium = eb_medium a + eb_medium b,
       eb_weak = eb_weak a + eb_weak b, eb_none = eb_none a + eb_none b \<rparr>"

text \<open>One finding counted; a chain has one piece of evidence, so its confidence is the chain's.\<close>

definition breakdown_step :: "bool \<Rightarrow> EvidenceBreakdown \<Rightarrow> Corruption \<Rightarrow> EvidenceBreakdown" where
  "breakdown_step lost b c =
     (if lost \<and> severity c = Catastrophic then b\<lparr> eb_none := eb_none b + 1 \<rparr>
      else if (pe_type (c_primary c) = EvChecksumMismatch \<or> pe_type (c_primary c) = EvSignatureMismatch)
        \<and> 90 \<le> pe_confidence (c_primary c) then b\<lparr> eb_strong := eb_strong b + 1 \<rparr>
      else if 70 \<le> pe_confidence (c_primary c) then b\<lparr> eb_medium := eb_medium b + 1 \<rparr>
      else b\<lparr> eb_weak := eb_weak b + 1 \<rparr>)"

definition evidence_breakdown :: "FullResult \<Rightarrow> EvidenceBreakdown" where
  "evidence_breakdown r =
     (let lost = (recoverability_class (recoverability_score r) = RcNone);
          b = foldl (breakdown_step lost) \<lparr> eb_strong = 0, eb_medium = 0, eb_weak = 0, eb_none = 0 \<rparr> (corruptions r) in
      if lost \<and> corruptions r = [] then b\<lparr> eb_none := eb_none b + 1 \<rparr> else b)"

section \<open>Environment\<close>

record 's analysis_env =
  an_digest :: "HashType \<Rightarrow> 's digest"
  an_inflate :: inflater
  an_stream :: "Source \<Rightarrow> string + (string + bytes) list"
  an_texts :: text_files
  an_wal :: "string \<Rightarrow> bytes option option"
  an_read :: "string \<Rightarrow> string + bytes"
  an_open :: "string \<Rightarrow> string + Source"

text \<open>\<open>read_to_end\<close> on the stream of a source.\<close>

fun collect_reads :: "(string + bytes) list \<Rightarrow> bytes \<Rightarrow> string + bytes" where
  "collect_reads [] got = Inr got"
| "collect_reads (Inl e # rs) got = Inl e"
| "collect_reads (Inr b # rs) got = (if b = [] then Inr got else collect_reads rs (got @ b))"

definition read_source :: "'s analysis_env \<Rightarrow> Source \<Rightarrow> string + bytes" where
  "read_source env s = (case an_stream env s of Inl e \<Rightarrow> Inl e | Inr rs \<Rightarrow> collect_reads rs [])"

section \<open>Stages\<close>

definition discovery_run :: "'s analysis_env \<Rightarrow> string \<Rightarrow> EngineError + Source" where
  "discovery_run env path = (case an_open env path of Inl e \<Rightarrow> Inl (EngineIo path e) | Inr s \<Rightarrow> Inr s)"

definition verify_signature ::
  "'s analysis_env \<Rightarrow> Source \<Rightarrow> ProtectionHook \<Rightarrow> EngineError + SignatureVerificationResult" where
  "verify_signature env s hook =
     (case read_source env s of
        Inl e \<Rightarrow> Inl (EngineIo (src_path s) e)
      | Inr d \<Rightarrow>
          (case hook_verify hook d of
             Inl e \<Rightarrow> Inl (HookError e)
           | Inr valid \<Rightarrow>
               Inr \<lparr> sv_valid = valid, sv_key_id = hook_key_id hook, sv_algorithm = hook_algorithm hook \<rparr>))"

definition integrity_scan ::
  "'s analysis_env \<Rightarrow> Source \<Rightarrow> string \<Rightarrow> AnalysisConfig
    \<Rightarrow> EngineError + IntegrityResult \<times> BlockVerification list \<times> SignatureVerificationResult option" where
  "integrity_scan env s target config =
     (let lookup_name = (case file_name target of
                           Some n \<Rightarrow> from_utf8_lossy (str_bytes n) | None \<Rightarrow> []) in
      case run_with_manifest (an_digest env) (an_texts env) (src_path s) (an_stream env s) target lookup_name
             (cfg_hash_type config) (cfg_block_size config) of
        Inl e \<Rightarrow> Inl e
      | Inr (result, blocks) \<Rightarrow>
          (case cfg_protection_hook config of
             None \<Rightarrow> Inr (result, blocks, None)
           | Some hook \<Rightarrow>
               (case verify_signature env s hook of
                  Inl e \<Rightarrow> Inl e | Inr v \<Rightarrow> Inr (result, blocks, Some v))))"

definition corruption_scan ::
  "'s analysis_env \<Rightarrow> Source \<Rightarrow> ArchiveFormat \<Rightarrow> IntegrityResult \<Rightarrow> AnalysisConfig \<Rightarrow> ScanResult outcome" where
  "corruption_scan env s f integrity config =
     scan_source (an_inflate env) (an_wal env (src_path s)) s f integrity (cfg_verify_embedded config)
       (cfg_max_corruptions config)"

definition recoverability_run ::
  "Source \<Rightarrow> Corruption list \<Rightarrow> ArchiveFormat \<Rightarrow> IntegrityResult \<Rightarrow> bool \<Rightarrow> bool \<Rightarrow> bool \<Rightarrow> bool
    \<Rightarrow> RecoverabilityScore" where
  "recoverability_run s cs f integrity checksums hit_cap io_errors undetected =
     estimate \<lparr> in_corruptions = cs, in_format = Some f, in_manifest_present = manifest_present integrity,
       in_checksums_present = checksums, in_total_size = src_len s, in_scan_capped = hit_cap,
       in_io_errors = io_errors, in_format_failed = undetected \<rparr>"

definition member_recoverability :: "Corruption list \<Rightarrow> ArchiveEntry \<Rightarrow> RecoverabilityScore" where
  "member_recoverability cs e =
     estimate \<lparr> in_corruptions = cs, in_format = None, in_manifest_present = False,
       in_checksums_present = (stored_crc32 e \<noteq> None), in_total_size = max (ae_size e) 1, in_scan_capped = False,
       in_io_errors = False, in_format_failed = False \<rparr>"

text \<open>A finding belongs to a member when their paths are equal, that is, component by component.\<close>

definition located_in :: "string \<Rightarrow> Corruption \<Rightarrow> bool" where
  "located_in p c \<longleftrightarrow> (case cl_file_path (c_location c) of Some q \<Rightarrow> path_eq q p | None \<Rightarrow> False)"

definition file_result :: "Corruption list \<Rightarrow> ArchiveEntry \<Rightarrow> FileResult" where
  "file_result container e =
     (let cs = filter (located_in (ae_path e)) container in
      \<lparr> fr_path = ae_path e, fr_size_bytes = ae_size e, fr_corruptions = cs, fr_health_score = score cs,
        fr_recoverability_score = member_recoverability cs e \<rparr>)"

definition report_assembly :: "Source \<Rightarrow> ArchiveFormat \<Rightarrow> Corruption list \<Rightarrow> FileResult list" where
  "report_assembly s f cs = (if \<not> is_archive f then [] else map (file_result cs) (entries_for f s))"

section \<open>The engine\<close>

definition LARGE_FILE_WARN_BYTES :: nat where "LARGE_FILE_WARN_BYTES = 10 * 1024 * 1024 * 1024"

definition contains_text :: "string \<Rightarrow> string \<Rightarrow> bool" where
  "contains_text s p \<longleftrightarrow> list_ex (\<lambda>i. take (length p) (drop i s) = p) [0..<length s + 1]"

definition SYMPTOMS :: "string list" where
  "SYMPTOMS =
     [''ZIP_EOCD_001'', ''ZIP_EOCD_002'', ''ZIP_EOCD_003'', ''ZIP_CD_001'', ''ZIP_CD_002'', ''ZIP_CD_003'',
      ''ZIP_LFH_001'', ''TAR_TERM_001'', ''TAR_UST_001'', ''ISO_PVD_001'']"

definition suppress_truncation_symptoms :: "Corruption list \<Rightarrow> Corruption list" where
  "suppress_truncation_symptoms cs =
     (if \<not> list_ex (\<lambda>c. contains_text (rule_id c) ''TRUNC'') cs then cs
      else filter (\<lambda>c. contains_text (rule_id c) ''TRUNC'' \<or> rule_id c \<notin> set SYMPTOMS) cs)"

text \<open>\<open>Path::extension\<close>: what follows the last dot of the file name, unless that dot starts it.\<close>

definition path_extension :: "string \<Rightarrow> string option" where
  "path_extension p =
     (case file_name p of
        None \<Rightarrow> None
      | Some n \<Rightarrow>
          (let e = rev (takeWhile (\<lambda>c. c \<noteq> CHR ''.'') (rev n)) in
           if CHR ''.'' \<in> set n \<and> length e + 1 < length n then Some e else None))"

definition reference_findings ::
  "'s analysis_env \<Rightarrow> Source \<Rightarrow> string \<Rightarrow> string \<Rightarrow> string + Corruption list outcome" where
  "reference_findings env s target reference =
     (case read_source env s of
        Inl e \<Rightarrow> Inl e
      | Inr corrupted \<Rightarrow>
          (case an_read env reference of
             Inl e \<Rightarrow> Inl e
           | Inr clean \<Rightarrow>
               (let ext = (case path_extension target of
                             Some e \<Rightarrow> if utf8_valid (str_bytes e) then e else [] | None \<Rightarrow> []) in
                Inr (scan_reference corrupted clean (format_label_for_ext ext)))))"

text \<open>The findings with those of the comparison, and its warning.\<close>

definition add_reference ::
  "'s analysis_env \<Rightarrow> Source \<Rightarrow> string \<Rightarrow> AnalysisConfig \<Rightarrow> Corruption list
    \<Rightarrow> (Corruption list \<times> message list) outcome" where
  "add_reference env s target config cs =
     (case cfg_reference config of
        None \<Rightarrow> Returned (cs, [])
      | Some reference \<Rightarrow>
          (case reference_findings env s target reference of
             Inl e \<Rightarrow>
               Returned (suppress_truncation_symptoms (merge_adjacent cs), [Msg ''reference diff skipped: {e}'' [S e]])
           | Inr found \<Rightarrow>
               bind_outcome found (\<lambda>xs.
                 Returned (suppress_truncation_symptoms (merge_adjacent (cs @ xs)), []))))"

definition ensure_not_encrypted :: "Source \<Rightarrow> EngineError option" where
  "ensure_not_encrypted s =
     (if list_ex ae_encrypted (zf_entries (zip_facts s)) then Some (EngineError.Encrypted ''ZIP contains encrypted members'')
      else None)"

definition embedded_checksums_present :: "Source \<Rightarrow> ArchiveFormat \<Rightarrow> bool" where
  "embedded_checksums_present s f \<longleftrightarrow> f = ArchiveFormat.Zip \<and> list_ex (\<lambda>e. stored_crc32 e \<noteq> None) (entries_for f s)"

definition large_file_warning :: "Source \<Rightarrow> message list" where
  "large_file_warning s =
     (if LARGE_FILE_WARN_BYTES < src_len s
      then [Msg ''target is {} bytes (> 10 GiB); analysis may be slow'' [N (src_len s)]] else [])"

text \<open>The result, once the findings are complete.\<close>

definition assemble ::
  "Source \<Rightarrow> string \<Rightarrow> ArchiveFormat \<Rightarrow> IntegrityResult \<Rightarrow> BlockVerification list
    \<Rightarrow> SignatureVerificationResult option \<Rightarrow> bool \<Rightarrow> Corruption list \<Rightarrow> message list \<Rightarrow> FullResult" where
  "assemble s label f integrity blocks sv hit_cap cs warns =
     \<lparr> target_path = label, total_size_bytes = src_len s, archive_format = Some f, integrity_result = integrity,
       corruptions = cs, health_score = score cs, verified_blocks = blocks, signature_verification = sv,
       recoverability_score =
         recoverability_run s cs f integrity (embedded_checksums_present s f) hit_cap False False,
       per_file_results = report_assembly s f cs, analysis_warnings = warns \<rparr>"

definition analyze_source ::
  "'s analysis_env \<Rightarrow> Source \<Rightarrow> string \<Rightarrow> AnalysisConfig \<Rightarrow> (EngineError + FullResult) outcome" where
  "analyze_source env s label config =
     (let f = detect_format s in
      case (if f = ArchiveFormat.Zip then ensure_not_encrypted s else None) of
        Some e \<Rightarrow> Returned (Inl e)
      | None \<Rightarrow>
          (case integrity_scan env s label config of
             Inl e \<Rightarrow> Returned (Inl e)
           | Inr (integrity, blocks, sv) \<Rightarrow>
               bind_outcome (corruption_scan env s f integrity config) (\<lambda>scan.
                 let warns = large_file_warning s
                       @ (if capped scan
                          then [Msg ''corruption scan stopped after {} findings'' [N (cfg_max_corruptions config)]]
                          else []) in
                 bind_outcome (add_reference env s label config (sr_corruptions scan)) (\<lambda>(cs, more_warns).
                   Returned (Inr (assemble s label f integrity blocks sv (capped scan) cs (warns @ more_warns)))))))"

definition engine_analyze ::
  "'s analysis_env \<Rightarrow> string \<Rightarrow> AnalysisConfig \<Rightarrow> (EngineError + FullResult) outcome" where
  "engine_analyze env path config =
     (case discovery_run env path of
        Inl e \<Rightarrow> Returned (Inl e)
      | Inr s \<Rightarrow> analyze_source env s path config)"

definition verify_file ::
  "'s analysis_env \<Rightarrow> string \<Rightarrow> AnalysisConfig
    \<Rightarrow> EngineError + IntegrityResult \<times> BlockVerification list \<times> SignatureVerificationResult option" where
  "verify_file env path config =
     (case discovery_run env path of Inl e \<Rightarrow> Inl e | Inr s \<Rightarrow> integrity_scan env s path config)"


section \<open>Every analysis\<close>

lemma score_Nil: "score [] = perfect"
  by (simp add: score_def from_subscores_def perfect_def clamp_score_def Let_def)

lemma estimate_clean: "in_corruptions i = [] \<Longrightarrow> \<not> in_io_errors i \<Longrightarrow> estimate i = certain"
  by (simp add: estimate_def)

text \<open>What the parts of a result say about each other.\<close>

definition consistent_file :: "Corruption list \<Rightarrow> FileResult \<Rightarrow> bool" where
  "consistent_file cs x \<longleftrightarrow>
     fr_corruptions x = filter (located_in (fr_path x)) cs
     \<and> fr_health_score x = score (fr_corruptions x)
     \<and> (fr_corruptions x = [] \<longrightarrow> fr_health_score x = perfect \<and> fr_recoverability_score x = certain)"

definition consistent_result :: "Source \<Rightarrow> string \<Rightarrow> AnalysisConfig \<Rightarrow> FullResult \<Rightarrow> bool" where
  "consistent_result s label config a \<longleftrightarrow>
     target_path a = label \<and> total_size_bytes a = src_len s \<and> archive_format a = Some (detect_format s)
     \<and> length (corruptions a) \<le> cfg_max_corruptions config \<and> health_score a = score (corruptions a)
     \<and> (corruptions a = [] \<longrightarrow> health_score a = perfect \<and> recoverability_score a = certain)
     \<and> list_all (consistent_file (corruptions a)) (per_file_results a)"

lemma report_consistent: "list_all (consistent_file cs) (report_assembly s f cs)"
  by (auto simp: report_assembly_def list_all_iff consistent_file_def file_result_def score_Nil
      member_recoverability_def estimate_clean Let_def)

lemma assemble_consistent:
  assumes "length cs \<le> cfg_max_corruptions config"
  shows "consistent_result s label config (assemble s label (detect_format s) integ blocks sv h cs warns)"
  using assms report_consistent
  by (simp add: consistent_result_def assemble_def score_Nil recoverability_run_def estimate_clean)

lemma scan_stage:
  assumes "\<not> scan_overflow s f"
  obtains scan where "corruption_scan env s f integ config = Returned scan"
    "length (sr_corruptions scan) \<le> cfg_max_corruptions config"
  using scan_source_total [of s f "an_inflate env" "an_wal env (src_path s)" integ
      "cfg_verify_embedded config" "cfg_max_corruptions config"] that assms
  by (auto simp: corruption_scan_def)

lemma scan_stage_overflow: "scan_overflow s f \<Longrightarrow> corruption_scan env s f integ config = Panicked"
  using scan_source_total [of s f] by (simp add: corruption_scan_def)

lemma analyze_source_cases:
  assumes "cfg_reference config = None"
  obtains (encrypted) "detect_format s = ArchiveFormat.Zip" "list_ex ae_encrypted (zf_entries (zip_facts s))"
      "analyze_source env s label config = Returned (Inl (EngineError.Encrypted ''ZIP contains encrypted members''))"
  | (unhashed) e where "integrity_scan env s label config = Inl e" "analyze_source env s label config = Returned (Inl e)"
  | (analysed) integ blocks sv scan warns where
      "detect_format s = ArchiveFormat.Zip \<longrightarrow> \<not> list_ex ae_encrypted (zf_entries (zip_facts s))"
      "integrity_scan env s label config = Inr (integ, blocks, sv)"
      "corruption_scan env s (detect_format s) integ config = Returned scan"
      "length (sr_corruptions scan) \<le> cfg_max_corruptions config"
      "analyze_source env s label config = Returned (Inr (assemble s label (detect_format s) integ blocks sv
         (capped scan) (sr_corruptions scan) warns))"
  | (overflowed) r where "scan_overflow s (detect_format s)" "integrity_scan env s label config = Inr r"
      "analyze_source env s label config = Panicked"
proof (cases "if detect_format s = ArchiveFormat.Zip then ensure_not_encrypted s else None")
  case (Some e)
  then show thesis
    using encrypted by (auto simp: analyze_source_def ensure_not_encrypted_def split: if_splits)
next
  case None
  then have plain: "detect_format s = ArchiveFormat.Zip \<longrightarrow> \<not> list_ex ae_encrypted (zf_entries (zip_facts s))"
    by (auto simp: ensure_not_encrypted_def split: if_splits)
  show thesis
  proof (cases "integrity_scan env s label config")
    case (Inl e)
    then show thesis using unhashed None by (simp add: analyze_source_def)
  next
    case (Inr r)
    obtain integ blocks sv where r: "r = (integ, blocks, sv)" by (cases r)
    show thesis
    proof (cases "scan_overflow s (detect_format s)")
      case True
      then show thesis
        using overflowed [OF True] None Inr r scan_stage_overflow [OF True, of env integ config]
        by (simp add: analyze_source_def Let_def)
    next
      case False
      then obtain scan where scan: "corruption_scan env s (detect_format s) integ config = Returned scan"
        "length (sr_corruptions scan) \<le> cfg_max_corruptions config" by (rule scan_stage)
      show thesis
        by (rule analysed [OF plain _ scan])
          (use None Inr r scan assms in \<open>simp_all add: analyze_source_def add_reference_def Let_def\<close>)
    qed
  qed
qed

text \<open>
  C17. Analysis is total but for one addition, and its parts agree: without a reference file, on any bytes
  under any name and configuration, it panics exactly when the source was hashed and is a 7z
  archive whose start header makes the end header's position overflow (an unchecked addition of
  the finding's message, where overflow is checked). Otherwise it returns a result or an
  error; the result names the detected format and true size, carries at most as many findings
  as configured, scores health from just those findings, gives a clean file full marks in both
  scores, and shows each member exactly the findings whose path equals its own.
\<close>

theorem analyze_source_total:
  assumes "cfg_reference config = None"
  shows "if detect_format s = SevenZ \<and> sevenz_overflow s \<and> (\<exists>r. integrity_scan env s label config = Inr r)
    then analyze_source env s label config = Panicked
    else \<exists>r. analyze_source env s label config = Returned r
      \<and> (\<forall>a. r = Inr a \<longrightarrow> consistent_result s label config a)"
  using assms
proof (cases rule: analyze_source_cases [of config s env label])
  case (analysed integ blocks sv scan warns)
  have "\<not> scan_overflow s (detect_format s)"
    using analysed(3) scan_stage_overflow [of s "detect_format s" env integ config] by auto
  then show ?thesis using analysed assemble_consistent by (auto simp: scan_overflow_def)
qed (auto simp: scan_overflow_def)


section \<open>ZIP archives\<close>

text \<open>A source that can be read, without a sidecar manifest under the label.\<close>

definition readable :: "'s analysis_env \<Rightarrow> Source \<Rightarrow> string \<Rightarrow> bool" where
  "readable env s label \<longleftrightarrow> lawful (an_digest env Sha256)
     \<and> (\<exists>rs. an_stream env s = Inr rs \<and> good_reads rs (src_bytes s))
     \<and> an_texts env (label @ ''.sha256'') = None"

lemma integrity_readable:
  assumes "readable env s label"
  shows "\<exists>h. integrity_scan env s label default_config = Inr (without_manifest Sha256 h, [], None)"
proof -
  obtain rs where rs: "an_stream env s = Inr rs" "good_reads rs (src_bytes s)"
    using assms by (auto simp: readable_def)
  have "find_sidecar (an_texts env) label Sha256 = None"
    using assms by (simp add: find_sidecar_def manifest_extension_def readable_def)
  then show ?thesis
    using rs(1) hash_stream_whole [OF _ rs(2), of "an_digest env Sha256" "src_path s" MAX_BLOCKS] assms
    by (simp add: integrity_scan_def run_with_manifest_def integrity_run_def hash_source_def default_config_def
        without_manifest_def readable_def Let_def)
qed

lemma first_signature: "\<exists>p rest. Format_Id.SIGNATURES = sig Format.Zip (Start 0) [0x50, 0x4B, 0x03] 4 p # rest"
  unfolding Format_Id.SIGNATURES_def by blast

lemma detect_zip:
  assumes "take 3 (src_bytes s) = [0x50, 0x4B, 0x03]" "4 \<le> src_len s"
  shows "detect_format s = ArchiveFormat.Zip"
proof -
  obtain p rest where table: "Format_Id.SIGNATURES = sig Format.Zip (Start 0) [0x50, 0x4B, 0x03] 4 p # rest"
    using first_signature by blast
  have "get_range (take REQUIRED_PREFIX (src_bytes s)) 0 3 = Some (take 3 (src_bytes s))"
    using assms(2) by (simp add: get_range_def cut_0 REQUIRED_PREFIX_def)
  then have "sig_matches (bounded_reads (src_bytes s)) (sig Format.Zip (Start 0) [0x50, 0x4B, 0x03] 4 p)"
    using assms by (simp add: sig_matches_def sig_def sig_window_def bounded_reads_def numeral_3_eq_3)
  then have "identify (bounded_reads (src_bytes s)) = Some Format.Zip"
    unfolding identify_def identify_with_provenance_def table by (simp add: sig_def)
  then show ?thesis by (simp add: detect_format_def detection_reads_bounded from_shared_def)
qed

lemma rebuilt_starts:
  assumes "scannable es"
  shows "take 3 (rebuilt_archive es) = [0x50, 0x4B, 0x03]" "4 \<le> length (rebuilt_archive es)"
proof -
  obtain e es' where "es = e # es'" using assms by (cases es) (simp_all add: scannable_def)
  then show "take 3 (rebuilt_archive es) = [0x50, 0x4B, 0x03]" "4 \<le> length (rebuilt_archive es)"
    by (simp_all add: rebuilt_archive_def Let_def zip_local_def u32_bytes_def to_le_4 Zip_Rebuild.LFH_SIG_def)
qed

definition plain_entry :: "zip_entry \<Rightarrow> bool" where
  "plain_entry e \<longleftrightarrow> ze_flags e AND 0x0001 = 0 \<and> ze_flags e AND 0x0040 = 0"

lemma plain_members:
  "list_all plain_entry es \<Longrightarrow> \<not> list_ex ae_encrypted (map member_of (headers_of off es))"
  by (induction es arbitrary: off) (simp_all add: plain_entry_def member_of_def header_of_def)

lemma analyze_zip:
  assumes "scannable es" "list_all plain_entry es" "src_bytes s = rebuilt_archive es" "length es \<le> 1000"
    and "readable env s label"
  shows "\<exists>a. analyze_source env s label default_config = Returned (Inr a)
    \<and> consistent_result s label default_config a \<and> archive_format a = Some ArchiveFormat.Zip
    \<and> map fr_path (per_file_results a) = map (\<lambda>e. from_utf8_lossy (ze_name e)) es
    \<and> map (\<lambda>c. (rule_id c, c_location c)) (corruptions a)
      = map (\<lambda>(h, e). (''ZIP_CRC_001'',
            \<lparr> cl_file_path = Some (from_utf8_lossy (ze_name e)), offset_start = data_offset h,
              offset_end = data_offset h + length (ze_payload e) \<rparr>))
          (filter (\<lambda>(h, e). ze_method e = 0 \<and> crc32 (ze_payload e) \<noteq> ze_crc e) (zip (headers_of 0 es) es))"
proof -
  have fmt: "detect_format s = ArchiveFormat.Zip"
    using rebuilt_starts [OF assms(1)] assms(3) by (intro detect_zip) simp_all
  obtain eocd where facts: "zf_entries (zip_facts s) = map member_of (headers_of 0 es)"
    "zf_eocd_offset (zip_facts s) = Some eocd"
    using zip_facts_scannable [OF assms(1,3)] by simp
  obtain h where integ: "integrity_scan env s label default_config = Inr (without_manifest Sha256 h, [], None)"
    using integrity_readable [OF assms(5)] by blast
  have "length es \<le> cfg_max_corruptions default_config" "\<not> manifest_present (without_manifest Sha256 h)"
    using assms(4) by (simp_all add: default_config_def DEFAULT_MAX_CORRUPTIONS_def without_manifest_def)
  from zip_scan [OF assms(1,3) this, of "an_inflate env" "an_wal env (src_path s)"] obtain res where
    res: "corruption_scan env s ArchiveFormat.Zip (without_manifest Sha256 h) default_config = Returned res"
    "map (\<lambda>c. (rule_id c, c_location c)) (sr_corruptions res)
      = map (\<lambda>(h, e). (''ZIP_CRC_001'',
            \<lparr> cl_file_path = Some (from_utf8_lossy (ze_name e)), offset_start = data_offset h,
              offset_end = data_offset h + length (ze_payload e) \<rparr>))
          (filter (\<lambda>(h, e). ze_method e = 0 \<and> crc32 (ze_payload e) \<noteq> ze_crc e) (zip (headers_of 0 es) es))"
    by (auto simp: corruption_scan_def default_config_def)
  have len: "length (sr_corruptions res) \<le> cfg_max_corruptions default_config"
    using scan_stage [of s ArchiveFormat.Zip env "without_manifest Sha256 h" default_config] res(1)
    by (auto simp: scan_overflow_def)
  define a where "a = assemble s label ArchiveFormat.Zip (without_manifest Sha256 h) [] None (capped res)
    (sr_corruptions res) (large_file_warning s @ (if capped res
          then [Msg ''corruption scan stopped after {} findings'' [N (cfg_max_corruptions default_config)]] else []))"
  have "ensure_not_encrypted s = None" using facts(1) plain_members [OF assms(2)] by (simp add: ensure_not_encrypted_def)
  then have "analyze_source env s label default_config = Returned (Inr a)"
    using fmt integ res(1)
    by (simp add: analyze_source_def add_reference_def a_def default_config_def Let_def)
  moreover have "consistent_result s label default_config a"
    using assemble_consistent [OF len, of s label] fmt by (simp add: a_def)
  moreover have "map (\<lambda>h. from_utf8_lossy (lh_name h)) (headers_of off es) = map (\<lambda>e. from_utf8_lossy (ze_name e)) es" for off
    by (induction es arbitrary: off) (simp_all add: header_of_def)
  then have "map fr_path (per_file_results a) = map (\<lambda>e. from_utf8_lossy (ze_name e)) es"
    using facts by (simp add: a_def assemble_def report_assembly_def is_archive_def entries_for_def zip_entries_def
        file_result_def Let_def comp_def member_of_def)
  ultimately show ?thesis using res(2) by (simp add: a_def assemble_def)
qed

text \<open>
  The plain layout's members: what \<open>scannable\<close> asks of names and sizes, no encryption, no more members
  than the scan can report, and stored data that matches its checksum.
\<close>

definition intact :: "zip_entry list \<Rightarrow> bool" where
  "intact es \<longleftrightarrow> scannable es \<and> list_all plain_entry es \<and> length es \<le> 1000
     \<and> list_all (\<lambda>e. ze_method e = 0 \<longrightarrow> crc32 (ze_payload e) = ze_crc e) es"

lemma intact_quiet:
  "intact es \<Longrightarrow> filter (\<lambda>(h, e). ze_method e = 0 \<and> crc32 (ze_payload e) \<noteq> ze_crc e) (zip (headers_of 0 es) es) = []"
  by (auto simp: intact_def list_all_iff filter_empty_conv dest!: set_zip_rightD)

lemma consistent_clean:
  assumes "consistent_result s label config a" "corruptions a = []"
  shows "health_score a = perfect" "recoverability_score a = certain"
    "list_all (\<lambda>x. fr_corruptions x = [] \<and> fr_health_score x = perfect) (per_file_results a)"
  using assms by (auto simp: consistent_result_def consistent_file_def list_all_iff)

lemma analyze_intact:
  assumes "intact es" "src_bytes s = rebuilt_archive es" "readable env s label"
  shows "\<exists>a. analyze_source env s label default_config = Returned (Inr a)
    \<and> archive_format a = Some ArchiveFormat.Zip \<and> corruptions a = []
    \<and> health_score a = perfect \<and> recoverability_score a = certain
    \<and> map fr_path (per_file_results a) = map (\<lambda>e. from_utf8_lossy (ze_name e)) es
    \<and> list_all (\<lambda>x. fr_corruptions x = [] \<and> fr_health_score x = perfect) (per_file_results a)"
proof -
  have "scannable es" "list_all plain_entry es" "length es \<le> 1000" using assms(1) by (simp_all add: intact_def)
  from analyze_zip [OF this(1,2) assms(2) this(3) assms(3)] obtain a where
    "analyze_source env s label default_config = Returned (Inr a)" "consistent_result s label default_config a"
    "archive_format a = Some ArchiveFormat.Zip" "corruptions a = []"
    "map fr_path (per_file_results a) = map (\<lambda>e. from_utf8_lossy (ze_name e)) es"
    unfolding intact_quiet [OF assms(1)] by auto
  then show ?thesis using consistent_clean by blast
qed

text \<open>
  C16. An intact archive of the plain layout gets a clean bill end to end: a ZIP with its sizes in the local
  headers and its directory right behind the members, of at most 1000 members (the default cap
  on findings), none encrypted, the checksums of the stored ones right, readable, and without
  a \<open>.sha256\<close> sidecar beside its label. The default analysis detects the format, finds
  nothing, gives full health and certain recoverability, and lists every member by its name in
  order, each clean. Archives of the streaming writer, whose local headers hold no sizes, are not
  of this layout and are reported; a sidecar that disagrees adds a finding.
\<close>

theorem intact_zip_clean:
  assumes "intact es" "src_bytes s = rebuilt_archive es" "readable env s label"
  shows "\<exists>a. analyze_source env s label default_config = Returned (Inr a)
    \<and> archive_format a = Some ArchiveFormat.Zip \<and> corruptions a = []
    \<and> health_score a = perfect \<and> recoverability_score a = certain
    \<and> map fr_path (per_file_results a) = map (\<lambda>e. from_utf8_lossy (ze_name e)) es
    \<and> list_all (\<lambda>x. fr_corruptions x = [] \<and> fr_health_score x = perfect) (per_file_results a)"
  using assms by (rule analyze_intact)

lemma crc_health: "rule_id c = ''ZIP_CRC_001'' \<Longrightarrow> overall (score [c]) < 100"
  by (simp add: score_def score_step_def corruption_penalty_def penalty_for_def RULE_PENALTIES_def from_subscores_def
      clamp_score_def penalty_d_def penalty_s_def penalty_sd_def penalty_all_def Let_def)

lemma member_end:
  assumes "scannable es" "i < length es"
  shows "header_end (headers_of 0 es ! i) = data_offset (headers_of 0 es ! i) + length (ze_payload (es ! i))"
proof -
  have "header_end h = data_offset h + length (ze_payload e)" if "h = header_of off e" for h off e
    using that by (simp add: header_end_def header_of_def)
  then show ?thesis using scannable_members [OF assms(1)] assms(2) by (auto simp: list_all2_conv_all_nth)
qed

lemma analyze_changed:
  assumes "intact es" and i: "i < length es" "ze_method (es ! i) = 0"
    and p: "data_offset (headers_of 0 es ! i) \<le> p" "p < header_end (headers_of 0 es ! i)" "b \<noteq> rebuilt_archive es ! p"
    and src: "src_bytes s = (rebuilt_archive es)[p := b]" and env: "readable env s label"
  shows "\<exists>a c. analyze_source env s label default_config = Returned (Inr a) \<and> corruptions a = [c]
    \<and> rule_id c = ''ZIP_CRC_001''
    \<and> c_location c = \<lparr> cl_file_path = Some (from_utf8_lossy (ze_name (es ! i))),
        offset_start = data_offset (headers_of 0 es ! i), offset_end = header_end (headers_of 0 es ! i) \<rparr>
    \<and> overall (health_score a) < 100
    \<and> list_all (\<lambda>x. fr_corruptions x = (if path_eq (from_utf8_lossy (ze_name (es ! i))) (fr_path x) then [c] else []))
        (per_file_results a)"
proof -
  let ?h = "headers_of 0 es ! i"
  define k where "k = p - data_offset ?h"
  define es' where "es' = es[i := hit (es ! i) k b]"
  have es: "scannable es" "list_all plain_entry es" "length es \<le> 1000"
    "list_all (\<lambda>e. ze_method e = 0 \<longrightarrow> crc32 (ze_payload e) = ze_crc e) es"
    using assms(1) by (simp_all add: intact_def)
  have k: "p = data_offset ?h + k" "k < length (ze_payload (es ! i))"
    using p(1,2) member_end [OF es(1) i(1)] by (simp_all add: k_def)
  have src': "src_bytes s = rebuilt_archive es'" using rebuilt_hit(1) [OF es(1) i(1) k(2)] k(1) src by (simp add: es'_def)
  have es': "scannable es'" "length es' \<le> 1000" using rebuilt_hit(4) [OF es(1) i(1) k(2)] es(3) by (simp_all add: es'_def)
  have plain: "list_all plain_entry es'"
    using es(2) i(1) by (auto simp: es'_def list_all_length nth_list_update plain_entry_def hit_def)
  from analyze_zip [OF es'(1) plain src' es'(2) env] obtain a where
    a: "analyze_source env s label default_config = Returned (Inr a)" "consistent_result s label default_config a"
    and found: "map (\<lambda>c. (rule_id c, c_location c)) (corruptions a)
      = map (\<lambda>(h, e). (''ZIP_CRC_001'',
            \<lparr> cl_file_path = Some (from_utf8_lossy (ze_name e)), offset_start = data_offset h,
              offset_end = data_offset h + length (ze_payload e) \<rparr>))
          (filter (\<lambda>(h, e). ze_method e = 0 \<and> crc32 (ze_payload e) \<noteq> ze_crc e) (zip (headers_of 0 es') es'))"
    by blast
  have quiet: "\<not> manifest_present (without_manifest Sha256 [])" by (simp add: without_manifest_def)
  have "map (\<lambda>c. (rule_id c, c_location c)) (corruptions a)
      = [(''ZIP_CRC_001'', \<lparr> cl_file_path = Some (from_utf8_lossy (ze_name (es ! i))),
            offset_start = data_offset ?h, offset_end = header_end ?h \<rparr>)]"
    using zip_byte_change [OF es(1,4) i p src es(3) quiet, of "an_inflate env" None]
      zip_scan [OF es'(1) src' es'(2) quiet, of "an_inflate env" None] found by auto
  then obtain c where c: "corruptions a = [c]" "rule_id c = ''ZIP_CRC_001''"
    "c_location c = \<lparr> cl_file_path = Some (from_utf8_lossy (ze_name (es ! i))),
       offset_start = data_offset ?h, offset_end = header_end ?h \<rparr>" by auto
  have "overall (health_score a) < 100" using a(2) c(1,2) crc_health by (simp add: consistent_result_def)
  moreover have "list_all (\<lambda>x. fr_corruptions x = (if path_eq (from_utf8_lossy (ze_name (es ! i))) (fr_path x) then [c] else []))
        (per_file_results a)"
    using a(2) c by (auto simp: consistent_result_def consistent_file_def located_in_def list_all_iff)
  ultimately show ?thesis using a(1) c by blast
qed

text \<open>
  C3. One changed byte is found end to end: in an archive that was intact in the plain layout (sizes in the
  local headers, directory right behind the members, at most 1000 members, none encrypted, no
  \<open>.sha256\<close> sidecar), change any byte of a stored member's data; the default analysis then
  reports exactly one corruption, the checksum rule at that member's data, scores health below
  full marks, and shows the finding on exactly the members whose path equals that member's
  component by component, as paths are compared: \<open>a\<close> and \<open>a/\<close> are the same.
\<close>

theorem changed_byte_analysed:
  assumes "intact es" and i: "i < length es" "ze_method (es ! i) = 0"
    and p: "data_offset (headers_of 0 es ! i) \<le> p" "p < header_end (headers_of 0 es ! i)" "b \<noteq> rebuilt_archive es ! p"
    and src: "src_bytes s = (rebuilt_archive es)[p := b]" and env: "readable env s label"
  shows "\<exists>a c. analyze_source env s label default_config = Returned (Inr a) \<and> corruptions a = [c]
    \<and> rule_id c = ''ZIP_CRC_001''
    \<and> c_location c = \<lparr> cl_file_path = Some (from_utf8_lossy (ze_name (es ! i))),
        offset_start = data_offset (headers_of 0 es ! i), offset_end = header_end (headers_of 0 es ! i) \<rparr>
    \<and> overall (health_score a) < 100
    \<and> list_all (\<lambda>x. fr_corruptions x = (if path_eq (from_utf8_lossy (ze_name (es ! i))) (fr_path x) then [c] else []))
        (per_file_results a)"
  using assms by (rule analyze_changed)

section \<open>The command and re-analysis\<close>

definition engine_error_text :: "EngineError \<Rightarrow> string" where
  "engine_error_text e =
     (case e of
        EngineIo path src \<Rightarrow> ''I/O error on '' @ path @ '': '' @ src
      | EngineFormat m \<Rightarrow> ''format detection failed: '' @ m
      | EngineError.Encrypted m \<Rightarrow> ''input is encrypted and cannot be analyzed: '' @ m
      | ManifestError path reason \<Rightarrow> ''manifest parse error in '' @ path @ '': '' @ reason
      | HookError m \<Rightarrow> ''hook error: '' @ m
      | InternalError m \<Rightarrow> ''internal invariant violated: '' @ m)"

text \<open>
  The analyses recovery and the command line ask for, in the form they use: the error as its text, the result
  without the parts only reports read. A panic ends the program and has no value here; an analysis of
  anything but a 7z archive does not panic.
\<close>

definition as_analysis :: "(EngineError + FullResult) outcome \<Rightarrow> string + AnalysisResult" where
  "as_analysis r =
     (case r of
        Returned (Inr a) \<Rightarrow> Inr (AnalysisResult.truncate a)
      | Returned (Inl e) \<Rightarrow> Inl (engine_error_text e)
      | Panicked \<Rightarrow> Inl [])"

definition analyze_bytes :: "'s analysis_env \<Rightarrow> string \<Rightarrow> string \<Rightarrow> bytes \<Rightarrow> string + AnalysisResult" where
  "analyze_bytes an nm label d = as_analysis (analyze_source an \<lparr> src_path = nm, src_bytes = d \<rparr> label default_config)"

definition analyze_path :: "'s analysis_env \<Rightarrow> string \<Rightarrow> string + AnalysisResult" where
  "analyze_path an path = as_analysis (engine_analyze an path default_config)"

lemma recover_clean:
  assumes "corruptions analysis = []" "forced_strategy options = None"
  shows "case env_open env path of
      Inl e \<Rightarrow> \<exists>e'. recover env path analysis options = Returned (Inl e', [])
    | Inr src \<Rightarrow>
        if paths_equal env path (output_path_for path options)
        then recover env path analysis options = Returned (Inl OutputEqualsSource, [])
        else \<exists>rep. recover env path analysis options = Returned (Inr rep, [])"
proof -
  have "select env analysis options = Inl NoApplicableStrategy" using assms by (simp add: select_def)
  then have "run_passes env src analysis options l agg = Returned (Inl NoApplicableStrategy)" for src l agg
    by (simp add: run_passes_def)
  then show ?thesis
    by (simp add: recover_def commit_outcome_def pass_outcome_default_def Let_def split: sum.split)
qed

lemma truncate_fields:
  "corruptions (AnalysisResult.truncate a) = corruptions a" "health_score (AnalysisResult.truncate a) = health_score a"
  "archive_format (AnalysisResult.truncate a) = archive_format a"
  by (simp_all add: AnalysisResult.truncate_def)

text \<open>What the command needs to get as far as the recovery of a file.\<close>

definition output_ready :: "engine_env \<Rightarrow> string \<Rightarrow> string option \<Rightarrow> bool" where
  "output_ready env path out \<longleftrightarrow>
     (case out of
        None \<Rightarrow> True
      | Some dir \<Rightarrow> env_mkdir_error env dir = None
          \<and> \<not> paths_equal env path (output_path_for path (default_options\<lparr> output_dir := dir \<rparr>))
          \<and> (case env_open env path of Inr _ \<Rightarrow> True | Inl _ \<Rightarrow> False))"

lemma cli_clean:
  assumes "analyze_path an path = Inr a" "corruptions a = []"
  shows "cli_run env (analyze_path an) \<lparr> cli_path = path, cli_output = out \<rparr>
    = Returned (if output_ready env path out then EXIT_SUCCESS else EXIT_FATAL, [])"
proof (cases out)
  case None
  then show ?thesis using assms by (simp add: cli_run_def is_clean_def output_ready_def)
next
  case (Some dir)
  define opts where "opts = default_options\<lparr> output_dir := dir, opt_hash_type := hash_type (integrity_result a),
    tool_name := ''veraqis-recover'' \<rparr>"
  have "forced_strategy opts = None" by (simp add: opts_def default_options_def)
  note r = recover_clean [OF assms(2) this, of env path]
  have path: "output_path_for path opts = output_path_for path (default_options\<lparr> output_dir := dir \<rparr>)"
    by (simp add: opts_def output_path_for_def)
  show ?thesis
    using r assms Some
    by (cases "env_open env path")
      (auto simp: cli_run_def output_ready_def is_clean_def path opts_def [symmetric] Let_def split: option.split if_splits)
qed

text \<open>
  C10. The command leaves an intact archive of the plain layout alone: run on a path whose file is a ZIP with
  its sizes in the local headers and its directory right behind the members, of at most 1000
  members, none encrypted, the checksums of the stored ones right, and without a \<open>.sha256\<close>
  sidecar, it writes no file and exits with success, with or without an output directory; the
  only other outcome is the fatal code, when the output directory cannot be made, the output
  path is the source, or the file cannot be reopened.
\<close>

theorem intact_zip_command:
  assumes "intact es" "an_open an path = Inr s" "src_bytes s = rebuilt_archive es" "readable an s path"
  shows "cli_run env (analyze_path an) \<lparr> cli_path = path, cli_output = out \<rparr>
    = Returned (if output_ready env path out then EXIT_SUCCESS else EXIT_FATAL, [])"
proof -
  from analyze_intact [OF assms(1,3,4)] obtain a where
    "analyze_source an s path default_config = Returned (Inr a)" "corruptions a = []" by blast
  then have "analyze_path an path = Inr (AnalysisResult.truncate a)" "corruptions (AnalysisResult.truncate a) = []"
    using assms(2) by (simp_all add: analyze_path_def engine_analyze_def discovery_run_def as_analysis_def truncate_fields)
  then show ?thesis by (rule cli_clean)
qed

text \<open>Bytes in which no signature the analyser has a reader for is found.\<close>

definition unsigned :: "bytes \<Rightarrow> bool" where
  "unsigned d \<longleftrightarrow> Option.bind (identify (bounded_reads d)) from_shared = None"

lemma detect_unsigned:
  "unsigned d \<Longrightarrow> detect_format \<lparr> src_path = ''recovered'', src_bytes = d \<rparr> = Raw"
  by (simp add: unsigned_def detect_format_def detection_reads_bounded name_fallback_def has_gz_extension_def
      has_sqlite_extension_def ends_with_def to_ascii_lowercase_def ascii_lower_def ZIP_EXTS_def)

lemma scan_raw: "\<not> manifest_present integ \<Longrightarrow> 0 < mx
    \<Longrightarrow> scan_source dec wal s Raw integ v mx = Returned \<lparr> sr_corruptions = [], capped = False, low_confidence_dropped = 0 \<rparr>"
  by (cases "expected_hash integ")
    (simp_all add: scan_source_def detect_defects_def format_defects_def push_if_def merge_adjacent_def merge_flips_def)

lemma analyze_unsigned:
  assumes "unsigned d" "readable an \<lparr> src_path = ''recovered'', src_bytes = d \<rparr> label"
  shows "\<exists>a. analyze_bytes an ''recovered'' label d = Inr a \<and> corruptions a = [] \<and> overall (health_score a) = 100"
proof -
  let ?s = "\<lparr> src_path = ''recovered'', src_bytes = d \<rparr>"
  obtain h where "integrity_scan an ?s label default_config = Inr (without_manifest Sha256 h, [], None)"
    using integrity_readable [OF assms(2)] by blast
  moreover have "\<not> manifest_present (without_manifest Sha256 h)" by (simp add: without_manifest_def)
  ultimately show ?thesis
    using detect_unsigned [OF assms(1)]
    by (simp add: analyze_bytes_def as_analysis_def analyze_source_def corruption_scan_def scan_raw add_reference_def
        default_config_def DEFAULT_MAX_CORRUPTIONS_def assemble_def truncate_fields score_Nil perfect_def)
qed

lemma short_unsigned: "length d < 2 \<Longrightarrow> unsigned d"
proof -
  assume d: "length d < 2"
  have "list_all (\<lambda>x. 2 \<le> sg_min_len x) Format_Id.SIGNATURES" by (simp add: Format_Id.SIGNATURES_def sig_def)
  then have "find (sig_matches (bounded_reads d)) Format_Id.SIGNATURES = None"
    using d by (auto simp: find_None_iff sig_matches_def bounded_reads_def list_all_iff)
  then show ?thesis by (simp add: unsigned_def identify_def identify_with_provenance_def)
qed

lemma blind_pass:
  assumes "env_analyze env = analyze_bytes an" "unsigned (buf sink)" "buf sink \<noteq> []"
    and "readable an \<lparr> src_path = ''recovered'', src_bytes = buf sink \<rparr> label"
    and "s_risk st \<noteq> Inferred" "overall (health_score analysis) < 100"
  shows "\<exists>agg' plans v. pass_result env analysis options label st report sink agg po
      = ((agg', \<lparr> po_bytes = Some (buf sink), kept_plans = plans, output_verified = v \<rparr>), \<not> aggressive options)
    \<and> success agg' \<and> health_after agg' = Some 100"
proof -
  obtain a where a: "analyze_bytes an ''recovered'' label (buf sink) = Inr a" "overall (health_score a) = 100"
    using analyze_unsigned [OF assms(2,4)] by blast
  have "reanalyze_health env sink label = Some 100" using a assms(1) by (simp add: reanalyze_health_def)
  moreover have "\<not> sink_is_empty sink" using assms(3) by (simp add: sink_is_empty_def)
  ultimately show ?thesis
    using assms(5,6) by (simp add: pass_result_def Let_def report_merge_def)
qed

text \<open>
  C15. The rollback gate is blind to output without a signature. The engine re-analyses staged bytes
  under the name "recovered", so a format known from the file's name alone is not recognised again:
  whenever the analysed file had less than full health, non-empty output with no readable
  signature scores 100, and any strategy that is not an inferred repair has it kept and
  reported as a success, whatever the bytes are.
\<close>

theorem unsigned_output_kept:
  assumes "env_analyze env = analyze_bytes an" "unsigned (buf sink)" "buf sink \<noteq> []"
    and "readable an \<lparr> src_path = ''recovered'', src_bytes = buf sink \<rparr> label"
    and "s_risk st \<noteq> Inferred" "overall (health_score analysis) < 100"
  shows "\<exists>agg' plans v. pass_result env analysis options label st report sink agg po
      = ((agg', \<lparr> po_bytes = Some (buf sink), kept_plans = plans, output_verified = v \<rparr>), \<not> aggressive options)
    \<and> success agg' \<and> health_after agg' = Some 100"
  using assms by (rule blind_pass)

section \<open>An example\<close>

definition example_an :: "crc32_acc analysis_env" where
  "example_an =
     \<lparr> an_digest = (\<lambda>_. crc_digest), an_inflate = prefix_inflater,
       an_stream = (\<lambda>s. Inr (if src_bytes s = [] then [] else [Inr (src_bytes s)])), an_texts = Map.empty,
       an_wal = (\<lambda>_. None), an_read = (\<lambda>_. Inl ''missing''),
       an_open = (\<lambda>p. Inr \<lparr> src_path = p, src_bytes = rebuilt_archive [stored_entry] \<rparr>) \<rparr>"

lemma example_readable: "readable example_an s label"
proof -
  have "good_reads (if d = [] then [] else [Inr d]) d" for d
    unfolding good_reads_def by (rule exI [of _ "if d = [] then [] else [d]"]) simp
  then show ?thesis using crc_digest_lawful by (simp add: readable_def example_an_def)
qed

lemma example_intact: "intact [stored_entry]"
  using scannable_stored by (simp add: intact_def plain_entry_def stored_entry_def)

theorem intact_zip_clean_witness:
  "\<exists>a. analyze_source example_an (stored_archive (rebuilt_archive [stored_entry])) ''a.zip'' default_config
      = Returned (Inr a) \<and> corruptions a = [] \<and> health_score a = perfect"
  using intact_zip_clean [OF example_intact, of "stored_archive (rebuilt_archive [stored_entry])" example_an "''a.zip''"]
    example_readable by (auto simp: stored_archive_def)

theorem changed_byte_analysed_witness:
  "\<exists>a c. analyze_source example_an (stored_archive ((rebuilt_archive [stored_entry])[31 := 0x48])) ''a.zip'' default_config
      = Returned (Inr a) \<and> corruptions a = [c] \<and> rule_id c = ''ZIP_CRC_001'' \<and> overall (health_score a) < 100"
proof -
  have "rebuilt_archive [stored_entry] ! 31 = 0x68"
    by (simp add: rebuilt_archive_def Let_def stored_entry_def zip_local_def to_le_2 to_le_4 nth_append)
  moreover have "ze_method ([stored_entry] ! 0) = 0" by (simp add: stored_entry_def)
  ultimately show ?thesis
    using changed_byte_analysed [OF example_intact, of 0 31 "0x48"
        "stored_archive ((rebuilt_archive [stored_entry])[31 := 0x48])" example_an "''a.zip''"]
      stored_extent example_readable by (auto simp: stored_archive_def)
qed

theorem intact_zip_command_witness:
  "cli_run example_env (analyze_path example_an) \<lparr> cli_path = ''a.zip'', cli_output = None \<rparr> = Returned (0, [])"
  using intact_zip_command [OF example_intact, of example_an "''a.zip''"
      "\<lparr> src_path = ''a.zip'', src_bytes = rebuilt_archive [stored_entry] \<rparr>" example_env None] example_readable
  by (simp add: example_an_def output_ready_def EXIT_SUCCESS_def)

text \<open>
  A 7z start header, its checksum right, whose end header would start 31 bytes past the 64-bit range:
  the analysis of these 32 bytes panics where overflow is checked.
\<close>

definition far_header :: bytes where
  "far_header = [0xFF, 0xFF, 0xFF, 0xFF, 0xFF, 0xFF, 0xFF, 0xFF, 1, 0, 0, 0, 0, 0, 0, 0, 0, 0, 0, 0]"

definition overflowing_sevenz :: Source where
  "overflowing_sevenz = \<lparr> src_path = ''x.7z'',
     src_bytes = SEVENZ_SIG @ [0, 4] @ u32_bytes (crc32 far_header) @ far_header \<rparr>"

lemma overflowing_bytes:
  "src_bytes overflowing_sevenz = SEVENZ_SIG @ [0, 4] @ u32_bytes (crc32 far_header) @ far_header"
  "length (SEVENZ_SIG @ [0, 4] @ u32_bytes (crc32 far_header) @ far_header) = 32"
  by (simp_all add: overflowing_sevenz_def SEVENZ_SIG_def far_header_def)

lemma sevenz_rule: "list_all (\<lambda>x. sg_anchor x = Start 0 \<and> sg_magic x \<noteq> [] \<and> hd (sg_magic x) \<noteq> 0x37) (take 10 Format_Id.SIGNATURES)"
  "sg_format (Format_Id.SIGNATURES ! 10) = Format.SevenZ" "sg_anchor (Format_Id.SIGNATURES ! 10) = Start 0"
  "sg_magic (Format_Id.SIGNATURES ! 10) = SEVENZ_SIG" "sg_min_len (Format_Id.SIGNATURES ! 10) = 6"
  "10 < length Format_Id.SIGNATURES"
  by (simp_all add: Format_Id.SIGNATURES_def sig_def SEVENZ_SIG_def)

lemma find_skips: "list_all (\<lambda>x. \<not> P x) (take n xs) \<Longrightarrow> n < length xs \<Longrightarrow> P (xs ! n) \<Longrightarrow> find P xs = Some (xs ! n)"
  by (induction xs arbitrary: n) (auto simp: nth_Cons' take_Cons' split: if_splits)

lemma identify_sevenz:
  assumes "take 6 d = SEVENZ_SIG"
  shows "identify (bounded_reads d) = Some Format.SevenZ"
proof -
  have d: "d \<noteq> []" "hd d = 0x37" "6 \<le> length d"
  proof -
    have "min (length d) 6 = 6" using arg_cong [OF assms, of length] by (simp add: SEVENZ_SIG_def)
    then show "6 \<le> length d" by simp
    then obtain b d' where d: "d = b # d'" by (cases d) auto
    then show "d \<noteq> []" by simp
    show "hd d = 0x37" using assms d by (simp add: SEVENZ_SIG_def)
  qed
  have len: "length SEVENZ_SIG = 6" by (simp add: SEVENZ_SIG_def)
  have miss: "\<not> sig_matches (bounded_reads d) x" if "sg_anchor x = Start 0" "sg_magic x \<noteq> []" "hd (sg_magic x) \<noteq> 0x37" for x
  proof
    assume "sig_matches (bounded_reads d) x"
    then have "take (length (sg_magic x)) (take REQUIRED_PREFIX d) = sg_magic x"
      using that(1) by (auto simp: sig_matches_def sig_window_def bounded_reads_def get_range_def cut_0 split: if_splits)
    then have "hd (sg_magic x) = hd (take (length (sg_magic x)) (take REQUIRED_PREFIX d))" by simp
    also have "\<dots> = hd d" using that(2) d(1) by (simp add: REQUIRED_PREFIX_def min_def)
    finally show False using that(3) d(2) by simp
  qed
  have "sig_matches (bounded_reads d) (Format_Id.SIGNATURES ! 10)"
    using assms d(3) len
    by (simp add: sig_matches_def sevenz_rule sig_window_def bounded_reads_def get_range_def cut_0 REQUIRED_PREFIX_def min_def)
  moreover have "list_all (\<lambda>x. \<not> sig_matches (bounded_reads d) x) (take 10 Format_Id.SIGNATURES)"
    using sevenz_rule(1) miss by (auto simp: list_all_iff)
  ultimately have "find (sig_matches (bounded_reads d)) Format_Id.SIGNATURES = Some (Format_Id.SIGNATURES ! 10)"
    using sevenz_rule(6) by (intro find_skips)
  then show ?thesis by (simp add: identify_def identify_with_provenance_def sevenz_rule)
qed

lemma overflowing_sevenz: "detect_format overflowing_sevenz = SevenZ" "sevenz_overflow overflowing_sevenz"
proof -
  show "detect_format overflowing_sevenz = SevenZ"
    using identify_sevenz [of "src_bytes overflowing_sevenz"] overflowing_bytes
    by (simp add: detect_format_def detection_reads_bounded from_shared_def SEVENZ_SIG_def)
  let ?crc = "u32_bytes (crc32 far_header)"
  let ?d = "SEVENZ_SIG @ [0, 4] @ ?crc @ far_header"
  have whole: "read_or_empty overflowing_sevenz 0 (min (src_len overflowing_sevenz) 32) = ?d"
    using overflowing_bytes by (simp add: read_or_empty_def read_exact_at_def read_at_def cut_0 Let_def)
  have "cut ?d 0 6 = SEVENZ_SIG" by (simp add: cut_def SEVENZ_SIG_def)
  moreover have "cut ?d 8 (8 + 4) = ?crc" by (simp add: cut_def SEVENZ_SIG_def)
  then have "u32_at ?d 8 = crc32 far_header" unfolding u32_at_def by (simp only: u32_of_bytes)
  moreover have "cut ?d 12 32 = far_header" by (simp add: cut_def SEVENZ_SIG_def far_header_def)
  moreover have "cut ?d 12 (12 + 8) = [0xFF, 0xFF, 0xFF, 0xFF, 0xFF, 0xFF, 0xFF, 0xFF]" "cut ?d 20 (20 + 8) = [1, 0, 0, 0, 0, 0, 0, 0]"
    by (simp_all add: cut_def SEVENZ_SIG_def far_header_def)
  then have "unat (u64_at ?d 12) = 2 ^ 64 - 1" "unat (u64_at ?d 20) = 1"
    unfolding u64_at_def by (simp_all add: eval_nat_numeral(3) [symmetric])
  ultimately show "sevenz_overflow overflowing_sevenz"
    unfolding sevenz_overflow_def whole Let_def using overflowing_bytes(2)
    by (simp add: get_range_def)
qed

theorem analyze_source_total_witness:
  "analyze_source example_an overflowing_sevenz ''x.7z'' default_config = Panicked
   \<and> (\<exists>r. analyze_source example_an (stored_archive (rebuilt_archive [stored_entry])) ''a.zip'' default_config = Returned r)"
proof -
  have plain: "cfg_reference default_config = None" by (simp add: default_config_def)
  have zip: "detect_format (stored_archive (rebuilt_archive [stored_entry])) = ArchiveFormat.Zip"
    using rebuilt_starts [OF scannable_stored] by (intro detect_zip) (simp_all add: stored_archive_def)
  show ?thesis
    using analyze_source_total [OF plain, of overflowing_sevenz example_an "''x.7z''"] overflowing_sevenz
      integrity_readable [OF example_readable [of overflowing_sevenz "''x.7z''"]]
      analyze_source_total [OF plain, of "stored_archive (rebuilt_archive [stored_entry])" example_an "''a.zip''"] zip
    by auto
qed

definition damaged_analysis :: AnalysisResult where
  "damaged_analysis = example_analysis\<lparr> health_score := score [synthetic (stream_location 0 0) StructuralCorruption Major ''ZIP_CRC_001'' None] \<rparr>"

theorem unsigned_output_kept_witness:
  "\<exists>agg' po'. pass_result (example_env\<lparr> env_analyze := analyze_bytes example_an \<rparr>) damaged_analysis default_options ''x.tar''
      TarTerminatorAppend (strategy_report ''tar-terminator-append'') (sink_write sink_new [0x41]) (report_empty ''x'')
      pass_outcome_default = ((agg', po'), True) \<and> po_bytes po' = Some [0x41] \<and> success agg'"
proof -
  have "unsigned (buf (sink_write sink_new [0x41]))" by (rule short_unsigned) (simp add: sink_write_def sink_new_def)
  moreover have "overall (health_score damaged_analysis) < 100" by (simp add: damaged_analysis_def crc_health synthetic_def)
  ultimately show ?thesis
    using unsigned_output_kept [of "example_env\<lparr> env_analyze := analyze_bytes example_an \<rparr>" example_an
        "sink_write sink_new [0x41]" "''x.tar''" TarTerminatorAppend damaged_analysis default_options
        "strategy_report ''tar-terminator-append''" "report_empty ''x''" pass_outcome_default] example_readable
    by (auto simp: sink_write_def sink_new_def TarTerminatorAppend_def default_options_def)
qed

end
