(* ===== verification/Zip_Build.thy ===== *)
theory Zip_Build
  imports Opc_Intact
begin

unbundle bit_operations_syntax

text \<open>
  The ZIP and OPC encoder (\<open>phx_zip_core/src/build.rs\<close>): the plain writer, the streaming writer
  with data descriptors, and the minimal \<open>docx\<close>, \<open>xlsx\<close> and \<open>pptx\<close> packages. The compressor and
  the CRC of the third-party library are parameters.
  Shown: the reader is the inverse of both writers, and every part extracts verified.
\<close>

section \<open>Writing an archive\<close>

definition DD_SIG :: u32 where "DD_SIG = 0x08074b50"

text \<open>What the writer notes of a part for the directory.\<close>

record PartRecord =
  pr_name :: string
  pr_method :: u16
  pr_crc :: u32
  pr_comp :: u32
  pr_uncomp :: u32
  pr_lho :: u32

type_synonym part = "string \<times> bytes"

definition pack :: "(bytes \<Rightarrow> bytes) \<Rightarrow> bytes \<Rightarrow> u16 \<times> bytes" where
  "pack deflate dat =
     (let deflated = deflate dat in if length deflated < length dat then (8, deflated) else (0, dat))"

definition part_record :: "(bytes \<Rightarrow> bytes) \<Rightarrow> (bytes \<Rightarrow> u32) \<Rightarrow> bytes \<Rightarrow> part \<Rightarrow> PartRecord" where
  "part_record deflate crc out p =
     (case (p, pack deflate (snd p)) of
        ((name, dat), (meth, payload)) \<Rightarrow>
          \<lparr> pr_name = name, pr_method = meth, pr_crc = crc dat, pr_comp = of_nat (length payload),
            pr_uncomp = of_nat (length dat), pr_lho = of_nat (length out) \<rparr>)"

text \<open>One round of the writing loop: the local header, the name and the payload.\<close>

definition write_part ::
  "(bytes \<Rightarrow> bytes) \<Rightarrow> (bytes \<Rightarrow> u32) \<Rightarrow> bytes \<times> PartRecord list \<Rightarrow> part \<Rightarrow> bytes \<times> PartRecord list" where
  "write_part deflate crc st p =
     (case (st, p, pack deflate (snd p)) of
        ((out, recs), (name, dat), (meth, payload)) \<Rightarrow>
          (out @ u32_bytes LFH_SIG @ u16_bytes 20 @ u16_bytes 0 @ u16_bytes meth @ u16_bytes 0 @ u16_bytes 0
             @ u32_bytes (crc dat) @ u32_bytes (of_nat (length payload)) @ u32_bytes (of_nat (length dat))
             @ u16_bytes (of_nat (length name)) @ u16_bytes 0 @ str_bytes name @ payload,
           recs @ [part_record deflate crc out p]))"

text \<open>The streaming writer leaves CRC and sizes zero and appends them in a data descriptor.\<close>

definition write_part_streamed ::
  "(bytes \<Rightarrow> bytes) \<Rightarrow> (bytes \<Rightarrow> u32) \<Rightarrow> bytes \<times> PartRecord list \<Rightarrow> part \<Rightarrow> bytes \<times> PartRecord list" where
  "write_part_streamed deflate crc st p =
     (case (st, p, pack deflate (snd p)) of
        ((out, recs), (name, dat), (meth, payload)) \<Rightarrow>
          (out @ u32_bytes LFH_SIG @ u16_bytes 20 @ u16_bytes 0x0008 @ u16_bytes meth @ u16_bytes 0 @ u16_bytes 0
             @ u32_bytes 0 @ u32_bytes 0 @ u32_bytes 0
             @ u16_bytes (of_nat (length name)) @ u16_bytes 0 @ str_bytes name @ payload
             @ u32_bytes DD_SIG @ u32_bytes (crc dat) @ u32_bytes (of_nat (length payload))
             @ u32_bytes (of_nat (length dat)),
           recs @ [part_record deflate crc out p]))"

definition written_record :: "u16 \<Rightarrow> PartRecord \<Rightarrow> bytes" where
  "written_record flags r =
     u32_bytes CDFH_SIG @ u16_bytes 20 @ u16_bytes 20 @ u16_bytes flags @ u16_bytes (pr_method r)
     @ u16_bytes 0 @ u16_bytes 0 @ u32_bytes (pr_crc r) @ u32_bytes (pr_comp r) @ u32_bytes (pr_uncomp r)
     @ u16_bytes (of_nat (length (pr_name r))) @ u16_bytes 0 @ u16_bytes 0 @ u16_bytes 0
     @ u16_bytes 0 @ u32_bytes 0 @ u32_bytes (pr_lho r) @ str_bytes (pr_name r)"

definition end_record :: "nat \<Rightarrow> u32 \<Rightarrow> u32 \<Rightarrow> bytes" where
  "end_record n cd_size cd_offset =
     u32_bytes EOCD_SIG @ u16_bytes 0 @ u16_bytes 0 @ u16_bytes (of_nat n) @ u16_bytes (of_nat n)
     @ u32_bytes cd_size @ u32_bytes cd_offset @ u16_bytes 0"

definition encode_zip :: "(bytes \<Rightarrow> bytes) \<Rightarrow> (bytes \<Rightarrow> u32) \<Rightarrow> part list \<Rightarrow> bytes" where
  "encode_zip deflate crc parts =
     (case foldl (write_part deflate crc) ([], []) parts of
        (out, recs) \<Rightarrow>
          (let cd_offset = of_nat (length out);
               cd = concat (map (written_record 0) recs);
               cd_size = of_nat (length cd) in
           out @ cd @ end_record (length recs) cd_size cd_offset))"

definition encode_zip_streamed :: "(bytes \<Rightarrow> bytes) \<Rightarrow> (bytes \<Rightarrow> u32) \<Rightarrow> part list \<Rightarrow> bytes" where
  "encode_zip_streamed deflate crc parts =
     (case foldl (write_part_streamed deflate crc) ([], []) parts of
        (out, recs) \<Rightarrow>
          (let cd_offset = of_nat (length out);
               cd = concat (map (written_record 0x0008) recs);
               cd_size = of_nat (length cd) in
           out @ cd @ end_record (length recs) cd_size cd_offset))"

section \<open>The layout of what is written\<close>

definition trailer_len :: "bool \<Rightarrow> nat" where
  "trailer_len streamed = (if streamed then 16 else 0)"

definition part_header :: "bool \<Rightarrow> (bytes \<Rightarrow> bytes) \<Rightarrow> (bytes \<Rightarrow> u32) \<Rightarrow> nat \<Rightarrow> part \<Rightarrow> LocalHeader" where
  "part_header streamed deflate crc off p =
     (case (p, pack deflate (snd p)) of
        ((name, dat), (meth, payload)) \<Rightarrow>
          \<lparr> lfh_offset = off, version_needed = 20, lh_flags = (if streamed then 8 else 0), lh_method = meth,
            mod_time = 0, mod_date = 0, lh_crc32 = crc dat, comp_size = length payload,
            uncomp_size = length dat, data_offset = off + 30 + length name, lh_name = str_bytes name \<rparr>)"

definition part_local :: "bool \<Rightarrow> (bytes \<Rightarrow> bytes) \<Rightarrow> (bytes \<Rightarrow> u32) \<Rightarrow> part \<Rightarrow> bytes" where
  "part_local streamed deflate crc p =
     fst ((if streamed then write_part_streamed else write_part) deflate crc ([], []) p)"

primrec part_headers ::
  "bool \<Rightarrow> (bytes \<Rightarrow> bytes) \<Rightarrow> (bytes \<Rightarrow> u32) \<Rightarrow> nat \<Rightarrow> part list \<Rightarrow> LocalHeader list" where
  "part_headers s deflate crc off [] = []"
| "part_headers s deflate crc off (p # ps) =
     part_header s deflate crc off p # part_headers s deflate crc (off + length (part_local s deflate crc p)) ps"

definition writer :: "bool \<Rightarrow> (bytes \<Rightarrow> bytes) \<Rightarrow> (bytes \<Rightarrow> u32) \<Rightarrow> part list \<Rightarrow> bytes" where
  "writer s = (if s then encode_zip_streamed else encode_zip)"

lemma length_part_headers [simp]: "length (part_headers s deflate crc off ps) = length ps"
  by (induction ps arbitrary: off) simp_all

lemma length_part_local:
  "length (part_local s deflate crc p)
    = 30 + length (fst p) + length (snd (pack deflate (snd p))) + trailer_len s"
  by (simp add: part_local_def write_part_def write_part_streamed_def trailer_len_def split: prod.split)

lemma part_header_end:
  "header_end (part_header s deflate crc off p) + trailer_len s = off + length (part_local s deflate crc p)"
  by (simp add: header_end_def part_header_def length_part_local split: prod.split)

lemma part_header_offset [simp]: "lfh_offset (part_header s deflate crc off p) = off"
  by (simp add: part_header_def split: prod.split)

lemma written_record_header:
  "written_record (if s then 8 else 0) (part_record deflate crc out p)
    = cd_record (part_header s deflate crc (length out) p)"
  by (simp add: written_record_def cd_record_def part_record_def part_header_def comp_size32_def
      uncomp_size32_def split: prod.split)

lemma write_part_step:
  "(if s then write_part_streamed else write_part) deflate crc (out, recs) p
    = (out @ part_local s deflate crc p, recs @ [part_record deflate crc out p])"
  by (simp add: part_local_def write_part_def write_part_streamed_def split: prod.split)

lemma write_parts:
  "\<exists>recs'. foldl ((if s then write_part_streamed else write_part) deflate crc) (out, recs) ps
      = (out @ concat (map (part_local s deflate crc) ps), recs @ recs')
    \<and> length recs' = length ps
    \<and> map (written_record (if s then 8 else 0)) recs' = map cd_record (part_headers s deflate crc (length out) ps)"
proof (induction ps arbitrary: out recs)
  case (Cons p ps)
  from Cons.IH [of "out @ part_local s deflate crc p" "recs @ [part_record deflate crc out p]"]
  obtain recs' where r: "foldl ((if s then write_part_streamed else write_part) deflate crc)
        (out @ part_local s deflate crc p, recs @ [part_record deflate crc out p]) ps
      = ((out @ part_local s deflate crc p) @ concat (map (part_local s deflate crc) ps),
         (recs @ [part_record deflate crc out p]) @ recs')"
    "length recs' = length ps"
    "map (written_record (if s then 8 else 0)) recs'
      = map cd_record (part_headers s deflate crc (length (out @ part_local s deflate crc p)) ps)" by blast
  show ?case
    by (rule exI [of _ "part_record deflate crc out p # recs'"])
      (simp add: write_part_step r written_record_header del: if_split)
qed simp

lemma writer_laid_out:
  "writer s deflate crc ps
    = laid_out (concat (map (part_local s deflate crc) ps)) (part_headers s deflate crc 0 ps)"
proof -
  obtain recs where r: "foldl ((if s then write_part_streamed else write_part) deflate crc) ([], []) ps
      = (concat (map (part_local s deflate crc) ps), recs)" "length recs = length ps"
    "map (written_record (if s then 8 else 0)) recs = map cd_record (part_headers s deflate crc 0 ps)"
    using write_parts [of s deflate crc "[]" "[]" ps] by auto
  have e: "end_record n (of_nat a) (of_nat b) = eocd_record n a b" for n a b
    by (simp add: end_record_def eocd_record_def)
  show ?thesis
    using r by (cases s)
      (simp_all add: writer_def encode_zip_def encode_zip_streamed_def laid_out_def Let_def e)
qed

section \<open>Reading it back\<close>

text \<open>
  Parts that fit: text names and sizes below their fields, and the compressor is the inverse of
  the decoder on what it compresses.
\<close>

definition part_fits :: "(bytes \<Rightarrow> bytes) \<Rightarrow> inflater \<Rightarrow> part \<Rightarrow> bool" where
  "part_fits deflate dec p \<longleftrightarrow>
     utf8_valid (str_bytes (fst p)) \<and> length (fst p) < 2 ^ 16 \<and> length (snd p) < 2 ^ 32 - 1
     \<and> (length (deflate (snd p)) < length (snd p)
         \<longrightarrow> inflate_bounded dec (deflate (snd p)) MAX_INFLATE_BYTES = Some (snd p))"

definition directory_len :: "part list \<Rightarrow> nat" where
  "directory_len ps = sum_list (map (\<lambda>p. 46 + length (fst p)) ps)"

text \<open>The bounds of the format and of the default policy, and no embedded archive over the directory.\<close>

definition writable :: "(bytes \<Rightarrow> bytes) \<Rightarrow> inflater \<Rightarrow> part list \<Rightarrow> bytes \<Rightarrow> bool" where
  "writable deflate dec ps d \<longleftrightarrow>
     ps \<noteq> [] \<and> length ps < 2 ^ 16 \<and> list_all (part_fits deflate dec) ps
     \<and> length d < 2 ^ 32 - 1 \<and> directory_len ps \<le> 2 ^ 26
     \<and> owner_of (detect d policy_default) (length d - 22 - directory_len ps) = None"

lemma length_directory: "length (concat (map cd_record (part_headers s deflate crc off ps))) = directory_len ps"
  by (induction ps arbitrary: off)
    (simp_all add: directory_len_def part_header_def cd_record_def split: prod.split)

lemma pack_small: "length (snd (pack deflate dat)) \<le> length dat"
  by (simp add: pack_def Let_def)

lemma part_local_bytes:
  "\<exists>flags m c n u tr. (flags = 0 \<or> flags = 8) \<and> (m = 0 \<or> m = 8) \<and> part_local s deflate crc p =
     u32_bytes LFH_SIG @ u16_bytes 20 @ u16_bytes flags @ u16_bytes m @ u16_bytes 0 @ u16_bytes 0
     @ u32_bytes c @ u32_bytes n @ u32_bytes u @ u16_bytes (of_nat (length (fst p))) @ u16_bytes 0
     @ str_bytes (fst p) @ snd (pack deflate (snd p)) @ tr"
proof -
  obtain m payload where k: "pack deflate (snd p) = (m, payload)" by fastforce
  then have "m = 0 \<or> m = 8" by (auto simp: pack_def Let_def split: if_splits)
  then show ?thesis
    using k by (cases s; cases p) (simp_all add: part_local_def write_part_def write_part_streamed_def, blast+)
qed

lemma part_local_reads:
  assumes "length (fst p) < 2 ^ 16"
  shows "u32_at (part_local s deflate crc p @ r) 0 = LFH_SIG"
    "unat (u16_at (part_local s deflate crc p @ r) 26) = length (fst p)"
    "unat (u16_at (part_local s deflate crc p @ r) 28) = 0"
    "cut (part_local s deflate crc p @ r) 30 (30 + length (fst p)) = str_bytes (fst p)"
    "cut (part_local s deflate crc p @ r) (30 + length (fst p)) (30 + length (fst p) + length (snd (pack deflate (snd p))))
      = snd (pack deflate (snd p))"
proof -
  obtain flags m c n u tr where b: "part_local s deflate crc p =
     u32_bytes LFH_SIG @ u16_bytes 20 @ u16_bytes flags @ u16_bytes m @ u16_bytes 0 @ u16_bytes 0
     @ u32_bytes c @ u32_bytes n @ u32_bytes u @ u16_bytes (of_nat (length (fst p))) @ u16_bytes 0
     @ str_bytes (fst p) @ snd (pack deflate (snd p)) @ tr" using part_local_bytes by blast
  note nl = unat_of_nat_len(2) [OF assms]
  show "u32_at (part_local s deflate crc p @ r) 0 = LFH_SIG"
    "unat (u16_at (part_local s deflate crc p @ r) 26) = length (fst p)"
    "unat (u16_at (part_local s deflate crc p @ r) 28) = 0"
    using nl unfolding b by (simp_all add: word_at_skip)
  show "cut (part_local s deflate crc p @ r) 30 (30 + length (fst p)) = str_bytes (fst p)"
    "cut (part_local s deflate crc p @ r) (30 + length (fst p)) (30 + length (fst p) + length (snd (pack deflate (snd p))))
      = snd (pack deflate (snd p))"
    unfolding b by (simp_all add: cut_append_right cut_0)
qed

lemma part_in_place:
  assumes d: "d = pre @ part_local s deflate crc p @ r" and fits: "part_fits deflate dec p"
    and len: "length d < 2 ^ 32 - 1"
  shows "member_at d (part_header s deflate crc (length pre) p) (snd (pack deflate (snd p)))"
proof -
  let ?h = "part_header s deflate crc (length pre) p" and ?n = "length (fst p)" and ?p = "snd (pack deflate (snd p))"
  have nl: "?n < 2 ^ 16" "utf8_valid (str_bytes (fst p))" "length (snd p) < 2 ^ 32 - 1"
    using fits by (simp_all add: part_fits_def)
  note f = part_local_reads [OF nl(1), of s deflate crc]
  have h: "lh_name ?h = str_bytes (fst p)" "comp_size ?h = length ?p" "uncomp_size ?h = length (snd p)"
    "data_offset ?h = length pre + 30 + ?n"
    by (simp_all add: part_header_def split: prod.split)
  have at: "u16_at d (length pre + k) = u16_at (part_local s deflate crc p @ r) k"
    "u32_at d (length pre + k) = u32_at (part_local s deflate crc p @ r) k" for k
    unfolding d by (simp_all add: word_at_append)
  have at0: "u32_at d (length pre) = LFH_SIG" using at(2) [of 0] f(1) by simp
  have cuts: "cut d (length pre + 30) (length pre + 30 + ?n) = str_bytes (fst p)"
    "cut d (length pre + 30 + ?n) (length pre + 30 + ?n + length ?p) = ?p"
    unfolding d using f(4,5) [of r] by (simp_all add: cut_append_right add.assoc)
  have ld: "length d = length pre + (30 + ?n + length ?p + trailer_len s) + length r"
    using d by (simp add: length_part_local)
  have he: "header_end ?h = length pre + 30 + ?n + length ?p" using h by (simp add: header_end_def)
  have "header_fits ?h" using h nl ld len pack_small [of deflate "snd p"] by (simp add: header_fits_def)
  moreover have "local_reads d ?h 0"
    using h he at0 at(1) f(2,3) cuts ld len nl(2) by (simp add: local_reads_def)
  ultimately have "member_at d ?h (cut d (data_offset ?h) (header_end ?h))" by (rule member_in_place [rotated])
  then show ?thesis using cuts(2) by (simp add: h he)
qed

lemma parts_in_place:
  assumes "d = pre @ concat (map (part_local s deflate crc) ps) @ r" "list_all (part_fits deflate dec) ps"
    "length d < 2 ^ 32 - 1"
  shows "list_all2 (member_at d) (part_headers s deflate crc (length pre) ps) (map (\<lambda>p. snd (pack deflate (snd p))) ps)"
  using assms
proof (induction ps arbitrary: pre)
  case (Cons p ps)
  have "list_all2 (member_at d) (part_headers s deflate crc (length (pre @ part_local s deflate crc p)) ps)
      (map (\<lambda>p. snd (pack deflate (snd p))) ps)"
    using Cons.prems by (intro Cons.IH) simp_all
  moreover have "member_at d (part_header s deflate crc (length pre) p) (snd (pack deflate (snd p)))"
    using Cons.prems by (intro part_in_place [of d pre s deflate crc p _ dec]) simp_all
  ultimately show ?case by simp
qed simp

text \<open>A data descriptor is too short to hide a local header.\<close>

lemma parts_gap:
  "c \<le> off \<Longrightarrow> off \<le> c + 16 \<Longrightarrow>
    case gap_scan (map (\<lambda>h. (lfh_offset h, header_end h)) (part_headers s deflate crc off ps)) c of
      (gap, c') \<Rightarrow> \<not> gap \<and> off + length (concat (map (part_local s deflate crc) ps)) \<le> c' + 16"
proof (induction ps arbitrary: off c)
  case (Cons p ps)
  have e: "header_end (part_header s deflate crc off p) + trailer_len s = off + length (part_local s deflate crc p)"
    by (rule part_header_end)
  have t: "trailer_len s \<le> 16" by (simp add: trailer_len_def)
  have "c \<le> header_end (part_header s deflate crc off p)"
    using Cons.prems e t length_part_local [of s deflate crc p] by linarith
  then show ?case
    using Cons.prems e t Cons.IH [of "header_end (part_header s deflate crc off p)" "off + length (part_local s deflate crc p)"]
    by (auto simp: max_absorb2 add.assoc)
qed simp

lemma part_headers_sorted:
  "sorted (map lfh_offset (part_headers s deflate crc off ps)) \<and> sorted (map header_end (part_headers s deflate crc off ps))
   \<and> list_all (\<lambda>h. off \<le> lfh_offset h \<and> off \<le> header_end h) (part_headers s deflate crc off ps)"
proof (induction ps arbitrary: off)
  case (Cons p ps)
  have e: "header_end (part_header s deflate crc off p) \<le> off + length (part_local s deflate crc p)"
    "off \<le> header_end (part_header s deflate crc off p)"
    using part_header_end [of s deflate crc off p] length_part_local [of s deflate crc p] by simp_all
  from Cons.IH [of "off + length (part_local s deflate crc p)"] e show ?case by (fastforce simp: list_all_iff)
qed simp

lemma writer_in_order:
  assumes "writable deflate dec ps (writer s deflate crc ps)"
  shows "in_order (concat (map (part_local s deflate crc) ps)) (part_headers s deflate crc 0 ps)
    (map (\<lambda>p. snd (pack deflate (snd p))) ps)"
proof -
  let ?body = "concat (map (part_local s deflate crc) ps)" and ?hs = "part_headers s deflate crc 0 ps"
  let ?d = "writer s deflate crc ps"
  note w = assms [unfolded writable_def]
  have d: "?d = laid_out ?body ?hs" by (rule writer_laid_out)
  then have len: "length ?d = length ?body + directory_len ps + 22"
    by (simp add: laid_out_def Let_def length_directory)
  have "?d = [] @ ?body @ drop (length ?body) ?d" by (simp add: d laid_out_def Let_def)
  from parts_in_place [OF this, of dec] have "list_all2 (member_at ?d) ?hs (map (\<lambda>p. snd (pack deflate (snd p))) ps)"
    using w by simp
  moreover have "sort_ranges (map (\<lambda>h. (lfh_offset h, header_end h)) ?hs) = map (\<lambda>h. (lfh_offset h, header_end h)) ?hs"
    using part_headers_sorted [of s deflate crc 0 ps] by (simp add: sort_ranges_def sort_key_id_if_sorted comp_def)
  then have "members_tiled (length ?body) ?hs"
    using parts_gap [of 0 0 s deflate crc ps] by (auto simp: members_tiled_def)
  moreover have "owner_of (detect ?d policy_default) (length ?body) = None" using w len by simp
  moreover have "?hs \<noteq> []" using w by (cases ps) simp_all
  ultimately show ?thesis
    using w len unfolding in_order_def d [symmetric] by (simp add: length_directory)
qed

text \<open>What a written archive's entries extract to.\<close>

lemma part_extracts:
  assumes "part_fits deflate dec p" "off < 2 ^ 32 - 1"
    and "packed_bytes d (entry_of (part_header s deflate crc off p)) = Some (snd (pack deflate (snd p)))"
  shows "en_name (entry_of (part_header s deflate crc off p)) = fst p"
    "ep_bytes (extract_entry dec crc d (entry_of (part_header s deflate crc off p))) = snd p"
    "ep_status (extract_entry dec crc d (entry_of (part_header s deflate crc off p))) = VerifiedCrc"
    "has_data_descriptor (entry_of (part_header s deflate crc off p)) = s"
    "name_valid_utf8 (entry_of (part_header s deflate crc off p))"
    "from_central_dir (entry_of (part_header s deflate crc off p))"
    "en_uncomp_size (entry_of (part_header s deflate crc off p)) = length (snd p)"
proof -
  let ?e = "entry_of (part_header s deflate crc off p)"
  obtain name dat where p: "p = (name, dat)" by (cases p)
  obtain m payload where k: "pack deflate dat = (m, payload)" by (cases "pack deflate dat")
  have m: "m = 0 \<and> payload = dat \<or> m = 8 \<and> payload = deflate dat \<and> length (deflate dat) < length dat"
    using k by (auto simp: pack_def Let_def split: if_splits)
  have len: "length payload < 2 ^ 32 - 1" "length dat < 2 ^ 32 - 1"
    using assms(1) m p by (auto simp: part_fits_def)
  have ns: "(of_nat n :: u32) \<noteq> 0xFFFFFFFF" if "n < 2 ^ 32 - 1" for n
  proof
    assume "(of_nat n :: u32) = 0xFFFFFFFF"
    then have "unat (of_nat n :: u32) = unat (0xFFFFFFFF :: u32)" by simp
    then show False using that by (simp add: unat_of_nat_len)
  qed
  have fields: "en_flags ?e = (if s then 8 else 0)" "en_method ?e = m" "en_crc32 ?e = crc dat" "from_central_dir ?e"
    using k by (simp_all add: p entry_of_def part_header_def)
  have "\<not> en_zip64 ?e"
    using k ns [OF len(1)] ns [OF len(2)] ns [OF assms(2)]
    by (simp add: p entry_of_def part_header_def is_zip64_def ZIP64_SENTINEL_U32_def comp_size32_def uncomp_size32_def)
  then have sc: "in_scope ?e" using fields by (simp add: in_scope_def is_encrypted_def)
  have dec: "decoded dec m payload = Some dat"
    using assms(1) m by (auto simp: decoded_def part_fits_def p)
  show "ep_bytes (extract_entry dec crc d ?e) = snd p" "ep_status (extract_entry dec crc d ?e) = VerifiedCrc"
    using extract_in_scope [OF sc, of dec crc d] assms(3) dec m fields by (auto simp: p k)
  show "en_name ?e = fst p"
    using assms(1) by (simp add: p part_fits_def entry_of_def part_header_def k from_utf8_lossy_valid)
  show "has_data_descriptor ?e = s" using fields by (simp add: has_data_descriptor_def)
  show "name_valid_utf8 ?e" "from_central_dir ?e" "en_uncomp_size ?e = length (snd p)"
    using assms(1) k by (simp_all add: p part_fits_def entry_of_def part_header_def)
qed

lemma part_headers_form:
  "h \<in> set (part_headers s deflate crc off ps) \<Longrightarrow>
     lfh_offset h < off + length (concat (map (part_local s deflate crc) ps))"
proof (induction ps arbitrary: off)
  case (Cons p ps)
  then show ?case using Cons.IH [of "off + length (part_local s deflate crc p)"] length_part_local [of s deflate crc p]
    by (auto simp: add.assoc)
qed simp

lemma map_eq_pairwise: "map f xs = map g ys \<Longrightarrow> list_all2 (\<lambda>x y. f x = g y) xs ys"
  by (induction xs arbitrary: ys) (auto simp: Cons_eq_map_conv)

lemma part_headers_parts:
  "list_all2 (\<lambda>h p. h = part_header s deflate crc (lfh_offset h) p) (part_headers s deflate crc off ps) ps"
  by (induction ps arbitrary: off) simp_all

definition reads_as :: "bool \<Rightarrow> inflater \<Rightarrow> (bytes \<Rightarrow> u32) \<Rightarrow> bytes \<Rightarrow> ZipEntry \<Rightarrow> part \<Rightarrow> bool" where
  "reads_as s dec crc d e p \<longleftrightarrow>
     en_name e = fst p \<and> name_valid_utf8 e \<and> from_central_dir e \<and> has_data_descriptor e = s
     \<and> en_uncomp_size e = length (snd p) \<and> ep_bytes (extract_entry dec crc d e) = snd p
     \<and> ep_status (extract_entry dec crc d e) = VerifiedCrc"

lemma writer_entries:
  assumes w: "writable deflate dec ps d" and d: "d = writer s deflate crc ps"
  shows "list_all2 (reads_as s dec crc d) (zp_entries (parse_zip d)) ps
    \<and> zp_cd_found (parse_zip d) \<and> zp_count_consistent (parse_zip d) \<and> \<not> used_local_scan (parse_zip d)
    \<and> zp_warnings (parse_zip d) = []"
proof -
  let ?hs = "part_headers s deflate crc 0 ps"
  have o: "in_order (concat (map (part_local s deflate crc) ps)) ?hs (map (\<lambda>p. snd (pack deflate (snd p))) ps)"
    using w unfolding d by (rule writer_in_order)
  have dl: "d = laid_out (concat (map (part_local s deflate crc) ps)) ?hs"
    unfolding d by (rule writer_laid_out)
  note parse = parse_in_order [OF o, folded dl]
  then have entries: "zp_entries (parse_zip d) = map entry_of ?hs" by blast
  have body: "length (concat (map (part_local s deflate crc) ps)) < 2 ^ 32 - 1"
    using w by (simp add: writable_def dl laid_out_def Let_def)
  have packed: "list_all2 (\<lambda>h p. packed_bytes d (entry_of h) = Some (snd (pack deflate (snd p)))) ?hs ps"
  proof (rule map_eq_pairwise)
    from parse have "map (packed_bytes d) (zp_entries (parse_zip d)) = map Some (map (\<lambda>p. snd (pack deflate (snd p))) ps)"
      by blast
    then show "map (\<lambda>h. packed_bytes d (entry_of h)) ?hs = map (\<lambda>p. Some (snd (pack deflate (snd p)))) ps"
      by (simp only: entries list.map_comp comp_def)
  qed
  have "list_all2 (\<lambda>h p. reads_as s dec crc d (entry_of h) p) ?hs ps"
  proof (rule list_all2_all_nthI)
    fix i
    let ?h = "?hs ! i"
    assume i: "i < length ?hs"
    then have h: "?h = part_header s deflate crc (lfh_offset ?h) (ps ! i)"
      by (rule list_all2_nthD [OF part_headers_parts])
    have off: "lfh_offset ?h < 2 ^ 32 - 1"
      using part_headers_form [OF nth_mem [OF i]] body by simp
    have fits: "part_fits deflate dec (ps ! i)" using w i by (simp add: writable_def list_all_length)
    have "packed_bytes d (entry_of ?h) = Some (snd (pack deflate (snd (ps ! i))))"
      using packed i by (rule list_all2_nthD)
    from part_extracts [OF fits off, of d s crc, folded h, OF this]
    show "reads_as s dec crc d (entry_of ?h) (ps ! i)" by (simp add: reads_as_def)
  qed simp
  then show ?thesis using parse by (simp add: list_all2_map1)
qed

lemma written_reads_back:
  assumes "writable deflate dec ps d" "d = encode_zip deflate crc ps \<or> d = encode_zip_streamed deflate crc ps"
  shows "map (\<lambda>e. (en_name e, ep_bytes (extract_entry dec crc d e))) (zp_entries (parse_zip d)) = ps
    \<and> list_all (\<lambda>e. ep_status (extract_entry dec crc d e) = VerifiedCrc) (zp_entries (parse_zip d))
    \<and> zp_cd_found (parse_zip d) \<and> zp_count_consistent (parse_zip d) \<and> \<not> used_local_scan (parse_zip d)
    \<and> zp_warnings (parse_zip d) = []"
proof -
  obtain s where "d = writer s deflate crc ps" using assms(2) by (metis (full_types) writer_def)
  note w = writer_entries [OF assms(1) this]
  have "map (\<lambda>e. (en_name e, ep_bytes (extract_entry dec crc d e))) (zp_entries (parse_zip d)) = map (\<lambda>p. p) ps"
    using conjunct1 [OF w] by (rule list_all2_maps) (simp add: reads_as_def)
  moreover have "list_all (\<lambda>e. ep_status (extract_entry dec crc d e) = VerifiedCrc) (zp_entries (parse_zip d))"
    using conjunct1 [OF w] by (rule list_all2_firstD) (simp add: reads_as_def)
  ultimately show ?thesis using w by simp
qed

section \<open>Minimal OPC packages\<close>

definition CT_NS :: string where
  "CT_NS = ''http://schemas.openxmlformats.org/package/2006/content-types''"

definition REL_NS :: string where
  "REL_NS = ''http://schemas.openxmlformats.org/package/2006/relationships''"

definition OFFICE_DOC_REL :: string where
  "OFFICE_DOC_REL = ''http://schemas.openxmlformats.org/officeDocument/2006/relationships/officeDocument''"

definition WORKSHEET_REL :: string where
  "WORKSHEET_REL = ''http://schemas.openxmlformats.org/officeDocument/2006/relationships/worksheet''"

definition SLIDE_REL :: string where
  "SLIDE_REL = ''http://schemas.openxmlformats.org/officeDocument/2006/relationships/slide''"

definition WORD_MAIN_CT :: string where
  "WORD_MAIN_CT = ''application/vnd.openxmlformats-officedocument.wordprocessingml.document.main+xml''"

definition XLSX_MAIN_CT :: string where
  "XLSX_MAIN_CT = ''application/vnd.openxmlformats-officedocument.spreadsheetml.sheet.main+xml''"

definition XLSX_SHEET_CT :: string where
  "XLSX_SHEET_CT = ''application/vnd.openxmlformats-officedocument.spreadsheetml.worksheet+xml''"

definition PPTX_MAIN_CT :: string where
  "PPTX_MAIN_CT = ''application/vnd.openxmlformats-officedocument.presentationml.presentation.main+xml''"

definition PPTX_SLIDE_CT :: string where
  "PPTX_SLIDE_CT = ''application/vnd.openxmlformats-officedocument.presentationml.slide+xml''"

definition xml_header :: string where
  "xml_header =
     ''<?xml version=\"1.0\" encoding=\"UTF-8\" standalone=\"yes\"?>''"

definition docx_parts :: "part list" where
  "docx_parts =
    (let content_types =
     ''<?xml version=\"1.0\" encoding=\"UTF-8\" standalone=\"yes\"?><Types xmlns=\"'' @ CT_NS
     @ ''\"><Default Extension=\"rels\" ContentType=\"application/vnd.openxmlformats-package.relationships+xml\"/>''
     @ ''<Default Extension=\"xml\" ContentType=\"application/xml\"/>''
     @ ''<Override PartName=\"/word/document.xml\" ContentType=\"'' @ WORD_MAIN_CT @ ''\"/></Types>'';
         root_rels =
     ''<?xml version=\"1.0\" encoding=\"UTF-8\" standalone=\"yes\"?><Relationships xmlns=\"'' @ REL_NS
     @ ''\"><Relationship Id=\"rId1\" Type=\"'' @ OFFICE_DOC_REL @ ''\" Target=\"word/document.xml\"/></Relationships>'';
         document =
     ''<?xml version=\"1.0\" encoding=\"UTF-8\" standalone=\"yes\"?>''
     @ ''<w:document xmlns:w=\"http://schemas.openxmlformats.org/wordprocessingml/2006/main\"><w:body><w:p>''
     @ ''<w:r><w:t>Hello, PHX semantic recovery.</w:t></w:r></w:p></w:body></w:document>'' in
     [(''[Content_Types].xml'', str_bytes content_types),
      (''_rels/.rels'', str_bytes root_rels),
      (''word/document.xml'', str_bytes document)])"

definition xlsx_parts :: "part list" where
  "xlsx_parts =
    (let content_types =
     xml_header @ ''<Types xmlns=\"'' @ CT_NS
     @ ''\"><Default Extension=\"rels\" ContentType=\"application/vnd.openxmlformats-package.relationships+xml\"/>''
     @ ''<Default Extension=\"xml\" ContentType=\"application/xml\"/>''
     @ ''<Override PartName=\"/xl/workbook.xml\" ContentType=\"'' @ XLSX_MAIN_CT
     @ ''\"/><Override PartName=\"/xl/worksheets/sheet1.xml\" ContentType=\"'' @ XLSX_SHEET_CT @ ''\"/></Types>'';
         root_rels =
     xml_header @ ''<Relationships xmlns=\"'' @ REL_NS @ ''\"><Relationship Id=\"rId1\" Type=\"'' @ OFFICE_DOC_REL
     @ ''\" Target=\"xl/workbook.xml\"/></Relationships>'';
         workbook =
     xml_header @ ''<workbook xmlns=\"http://schemas.openxmlformats.org/spreadsheetml/2006/main\"><sheets>''
     @ ''<sheet name=\"Sheet1\" sheetId=\"1\" r:id=\"rId1\" xmlns:r=\"http://schemas.openxmlformats.org/officeDocume''
     @ ''nt/2006/relationships\"/></sheets></workbook>'';
         workbook_rels =
     xml_header @ ''<Relationships xmlns=\"'' @ REL_NS @ ''\"><Relationship Id=\"rId1\" Type=\"'' @ WORKSHEET_REL
     @ ''\" Target=\"worksheets/sheet1.xml\"/></Relationships>'';
         sheet1 =
     xml_header
     @ ''<worksheet xmlns=\"http://schemas.openxmlformats.org/spreadsheetml/2006/main\"><sheetData><row r=\"1\">''
     @ ''<c r=\"A1\" t=\"inlineStr\"><is><t>PHX</t></is></c></row></sheetData></worksheet>'' in
     [(''[Content_Types].xml'', str_bytes content_types),
      (''_rels/.rels'', str_bytes root_rels),
      (''xl/workbook.xml'', str_bytes workbook),
      (''xl/_rels/workbook.xml.rels'', str_bytes workbook_rels),
      (''xl/worksheets/sheet1.xml'', str_bytes sheet1)])"

definition pptx_parts :: "part list" where
  "pptx_parts =
    (let content_types =
     xml_header @ ''<Types xmlns=\"'' @ CT_NS
     @ ''\"><Default Extension=\"rels\" ContentType=\"application/vnd.openxmlformats-package.relationships+xml\"/>''
     @ ''<Default Extension=\"xml\" ContentType=\"application/xml\"/>''
     @ ''<Override PartName=\"/ppt/presentation.xml\" ContentType=\"'' @ PPTX_MAIN_CT
     @ ''\"/><Override PartName=\"/ppt/slides/slide1.xml\" ContentType=\"'' @ PPTX_SLIDE_CT @ ''\"/></Types>'';
         root_rels =
     xml_header @ ''<Relationships xmlns=\"'' @ REL_NS @ ''\"><Relationship Id=\"rId1\" Type=\"'' @ OFFICE_DOC_REL
     @ ''\" Target=\"ppt/presentation.xml\"/></Relationships>'';
         presentation =
     xml_header
     @ ''<p:presentation xmlns:p=\"http://schemas.openxmlformats.org/presentationml/2006/main\" xmlns:r=\"http:/''
     @ ''/schemas.openxmlformats.org/officeDocument/2006/relationships\"><p:sldIdLst>''
     @ ''<p:sldId id=\"256\" r:id=\"rId1\"/></p:sldIdLst></p:presentation>'';
         presentation_rels =
     xml_header @ ''<Relationships xmlns=\"'' @ REL_NS @ ''\"><Relationship Id=\"rId1\" Type=\"'' @ SLIDE_REL
     @ ''\" Target=\"slides/slide1.xml\"/></Relationships>'';
         slide1 =
     xml_header
     @ ''<p:sld xmlns:p=\"http://schemas.openxmlformats.org/presentationml/2006/main\"><p:cSld><p:spTree/>''
     @ ''</p:cSld></p:sld>'' in
     [(''[Content_Types].xml'', str_bytes content_types),
      (''_rels/.rels'', str_bytes root_rels),
      (''ppt/presentation.xml'', str_bytes presentation),
      (''ppt/_rels/presentation.xml.rels'', str_bytes presentation_rels),
      (''ppt/slides/slide1.xml'', str_bytes slide1)])"

definition encode_parts :: "(bytes \<Rightarrow> bytes) \<Rightarrow> (bytes \<Rightarrow> u32) \<Rightarrow> part list \<Rightarrow> bytes" where
  "encode_parts deflate crc parts = encode_zip deflate crc (map (\<lambda>(n, d). (n, d)) parts)"

definition encode_docx :: "(bytes \<Rightarrow> bytes) \<Rightarrow> (bytes \<Rightarrow> u32) \<Rightarrow> bytes" where
  "encode_docx deflate crc = encode_parts deflate crc docx_parts"

definition encode_xlsx :: "(bytes \<Rightarrow> bytes) \<Rightarrow> (bytes \<Rightarrow> u32) \<Rightarrow> bytes" where
  "encode_xlsx deflate crc = encode_parts deflate crc xlsx_parts"

definition encode_pptx :: "(bytes \<Rightarrow> bytes) \<Rightarrow> (bytes \<Rightarrow> u32) \<Rightarrow> bytes" where
  "encode_pptx deflate crc = encode_parts deflate crc pptx_parts"

text \<open>The packages are parts that fit, whenever the decoder undoes the compressor.\<close>

lemma text_fits:
  assumes "list_all (\<lambda>b. b < 128) (str_bytes n)" "length n < 2 ^ 16" "length dat < 2 ^ 32 - 1"
    "inflate_bounded dec (deflate dat) MAX_INFLATE_BYTES = Some dat"
  shows "part_fits deflate dec (n, dat)"
  using assms by (simp add: part_fits_def utf8_valid_ascii)

lemma package_names:
  "map fst docx_parts = [''[Content_Types].xml'', ''_rels/.rels'', ''word/document.xml'']"
  "map fst xlsx_parts = [''[Content_Types].xml'', ''_rels/.rels'', ''xl/workbook.xml'', ''xl/_rels/workbook.xml.rels'',
     ''xl/worksheets/sheet1.xml'']"
  "map fst pptx_parts = [''[Content_Types].xml'', ''_rels/.rels'', ''ppt/presentation.xml'',
     ''ppt/_rels/presentation.xml.rels'', ''ppt/slides/slide1.xml'']"
  by (simp_all only: docx_parts_def xlsx_parts_def pptx_parts_def Let_def list.map fst_conv)

definition plain_name :: "string \<Rightarrow> bool" where
  "plain_name n \<longleftrightarrow> length n \<le> 40 \<and> list_all (\<lambda>b. b < 128) (str_bytes n)"

lemma package_text:
  "list_all plain_name (map fst docx_parts)" "list_all plain_name (map fst xlsx_parts)"
  "list_all plain_name (map fst pptx_parts)"
  unfolding package_names by (simp_all add: plain_name_def str_bytes_def byte_of_char_def)

lemma package_sizes:
  "list_all (\<lambda>p. length (snd p) \<le> 1000) docx_parts" "list_all (\<lambda>p. length (snd p) \<le> 1000) xlsx_parts"
  "list_all (\<lambda>p. length (snd p) \<le> 1000) pptx_parts"
proof -
  have names: "length CT_NS \<le> 100" "length REL_NS \<le> 100" "length OFFICE_DOC_REL \<le> 100" "length WORKSHEET_REL \<le> 100"
    "length SLIDE_REL \<le> 100" "length WORD_MAIN_CT \<le> 100" "length XLSX_MAIN_CT \<le> 100" "length XLSX_SHEET_CT \<le> 100"
    "length PPTX_MAIN_CT \<le> 100" "length PPTX_SLIDE_CT \<le> 100" "length xml_header \<le> 100"
    by (simp_all add: CT_NS_def REL_NS_def OFFICE_DOC_REL_def WORKSHEET_REL_def SLIDE_REL_def WORD_MAIN_CT_def
        XLSX_MAIN_CT_def XLSX_SHEET_CT_def PPTX_MAIN_CT_def PPTX_SLIDE_CT_def xml_header_def)
  show "list_all (\<lambda>p. length (snd p) \<le> 1000) docx_parts" "list_all (\<lambda>p. length (snd p) \<le> 1000) xlsx_parts"
    "list_all (\<lambda>p. length (snd p) \<le> 1000) pptx_parts"
    unfolding docx_parts_def xlsx_parts_def pptx_parts_def Let_def list.pred_inject snd_conv length_str_bytes length_append
    using names by simp_all
qed

lemma package_fits:
  assumes "ps \<in> {docx_parts, xlsx_parts, pptx_parts}"
    and "\<forall>p \<in> set ps. inflate_bounded dec (deflate (snd p)) MAX_INFLATE_BYTES = Some (snd p)"
  shows "list_all (part_fits deflate dec) ps" "ps \<noteq> []" "length ps \<le> 5" "directory_len ps \<le> 2 ^ 26"
proof -
  have n: "list_all plain_name (map fst ps)" and z: "list_all (\<lambda>p. length (snd p) \<le> 1000) ps"
    using assms(1) package_text package_sizes by auto
  have "part_fits deflate dec p" if "p \<in> set ps" for p
  proof -
    have "plain_name (fst p)" "length (snd p) \<le> 1000" using n z that by (simp_all add: list_all_iff)
    then show ?thesis using assms(2) that by (simp add: part_fits_def plain_name_def utf8_valid_ascii)
  qed
  then show "list_all (part_fits deflate dec) ps" by (simp add: list_all_iff)
  have "0 < length ps \<and> length ps \<le> 5"
    using assms(1) package_names [THEN arg_cong [of _ _ length]] by auto
  then show len: "ps \<noteq> []" "length ps \<le> 5" by simp_all
  have "sum_list (map (\<lambda>p. 46 + length (fst p)) ps) \<le> sum_list (map (\<lambda>_. 86) ps)"
    using n by (intro sum_list_mono) (auto simp: list_all_iff plain_name_def)
  then show "directory_len ps \<le> 2 ^ 26" using len by (simp add: directory_len_def sum_list_triv)
qed

lemma encode_parts_encode [simp]: "encode_parts deflate crc ps = encode_zip deflate crc ps"
  by (simp add: encode_parts_def)

lemma length_locals_le:
  "length (concat (map (part_local s deflate crc) ps)) \<le> sum_list (map (\<lambda>p. 46 + length (fst p) + length (snd p)) ps)"
proof (induction ps)
  case (Cons p ps)
  have "length (part_local s deflate crc p) \<le> 46 + length (fst p) + length (snd p)"
    using pack_small [of deflate "snd p"] by (simp add: length_part_local trailer_len_def)
  with Cons show ?case by simp
qed simp

text \<open>The fixtures are read back: each package through its own encoder.\<close>

lemma package_reads_back:
  assumes ps: "ps \<in> {docx_parts, xlsx_parts, pptx_parts}" and d: "d = encode_parts deflate crc ps"
    and law: "\<forall>p \<in> set ps. inflate_bounded dec (deflate (snd p)) MAX_INFLATE_BYTES = Some (snd p)"
    and owner: "owner_of (detect d policy_default) (length d - 22 - directory_len ps) = None"
  shows "map (\<lambda>e. (en_name e, ep_bytes (extract_entry dec crc d e))) (zp_entries (parse_zip d)) = ps
    \<and> list_all (\<lambda>e. ep_status (extract_entry dec crc d e) = VerifiedCrc) (zp_entries (parse_zip d))"
proof -
  note fits = package_fits [OF ps law]
  have "list_all plain_name (map fst ps)" "list_all (\<lambda>p. length (snd p) \<le> 1000) ps"
    using ps package_text package_sizes by auto
  then have "sum_list (map (\<lambda>p. 46 + length (fst p) + length (snd p)) ps) \<le> sum_list (map (\<lambda>_. 1086) ps)"
    by (intro sum_list_mono) (fastforce simp: list_all_iff plain_name_def)
  then have "length (concat (map (part_local False deflate crc) ps)) \<le> 5430"
    using length_locals_le [of False deflate crc ps] fits(3) by (simp add: sum_list_triv)
  moreover have "d = writer False deflate crc ps" using d by (simp add: writer_def)
  ultimately have "length d < 2 ^ 32 - 1"
    using fits(4) by (simp add: writer_laid_out laid_out_def Let_def length_directory)
  then have "writable deflate dec ps d" using fits owner by (simp add: writable_def)
  from written_reads_back [OF this, of crc] d show ?thesis by simp
qed

section \<open>The writers and the reader\<close>

text \<open>
  C7. The ZIP reader is the inverse of both writers: for any parts that fit the format and whose
  compressed form the decoder undoes, written plainly or streamed with data descriptors, the
  reader returns the parts in order under their names, from the directory and without a scan or
  a warning, and every one extracts to its bytes with a verified CRC.
\<close>

theorem writer_roundtrip:
  assumes "writable deflate dec ps d" "d = encode_zip deflate crc ps \<or> d = encode_zip_streamed deflate crc ps"
  shows "map (\<lambda>e. (en_name e, ep_bytes (extract_entry dec crc d e))) (zp_entries (parse_zip d)) = ps
    \<and> list_all (\<lambda>e. ep_status (extract_entry dec crc d e) = VerifiedCrc) (zp_entries (parse_zip d))
    \<and> zp_cd_found (parse_zip d) \<and> zp_count_consistent (parse_zip d) \<and> \<not> used_local_scan (parse_zip d)
    \<and> zp_warnings (parse_zip d) = []"
  using assms by (rule written_reads_back)

text \<open>One part compressed and one stored, by a compressor that knows one word.\<close>

definition word_deflate :: "bytes \<Rightarrow> bytes" where
  "word_deflate d = (if d = [0, 0, 0] then [9] else d)"

definition word_inflater :: inflater where
  "word_inflater = \<lparr> inf_chunks = (\<lambda>d. [if d = [9] then [0, 0, 0] else d]), inf_error = (\<lambda>_. None), inf_total_in = length \<rparr>"

definition word_parts :: "part list" where
  "word_parts = [(''a'', [0, 0, 0]), (''b'', [7])]"

definition word_crc :: "bytes \<Rightarrow> u32" where
  "word_crc d = of_nat (length d)"

lemma word_written: "encode_zip_streamed word_deflate word_crc word_parts =
    [80, 75, 3, 4, 20, 0, 8, 0, 8, 0, 0, 0, 0, 0, 0, 0, 0, 0, 0, 0, 0, 0, 0, 0, 0, 0, 1, 0, 0, 0, 97, 9, 80, 75,
     7, 8, 3, 0, 0, 0, 1, 0, 0, 0, 3, 0, 0, 0, 80, 75, 3, 4, 20, 0, 8, 0, 0, 0, 0, 0, 0, 0, 0, 0, 0, 0, 0, 0, 0, 0,
     0, 0, 0, 0, 1, 0, 0, 0, 98, 7, 80, 75, 7, 8, 1, 0, 0, 0, 1, 0, 0, 0, 1, 0, 0, 0, 80, 75, 1, 2, 20, 0, 20, 0,
     8, 0, 8, 0, 0, 0, 0, 0, 3, 0, 0, 0, 1, 0, 0, 0, 3, 0, 0, 0, 1, 0, 0, 0, 0, 0, 0, 0, 0, 0, 0, 0, 0, 0, 0, 0, 0,
     0, 97, 80, 75, 1, 2, 20, 0, 20, 0, 8, 0, 0, 0, 0, 0, 0, 0, 1, 0, 0, 0, 1, 0, 0, 0, 1, 0, 0, 0, 1, 0, 0, 0, 0,
     0, 0, 0, 0, 0, 0, 0, 0, 0, 48, 0, 0, 0, 98, 80, 75, 5, 6, 0, 0, 0, 0, 2, 0, 2, 0, 94, 0, 0, 0, 96, 0, 0, 0, 0,
     0]"
  by (simp add: encode_zip_streamed_def write_part_streamed_def word_parts_def pack_def word_deflate_def word_crc_def
      part_record_def written_record_def end_record_def DD_SIG_def LFH_SIG_def CDFH_SIG_def EOCD_SIG_def Let_def
      str_bytes_def byte_of_char_def u16_bytes_def u32_bytes_def to_le_2 to_le_4)

lemma word_bytes: "list_all (\<lambda>p. cut (encode_zip_streamed word_deflate word_crc word_parts) p (p + 4) \<noteq> EOCD_MAGIC)
    [0..<length (encode_zip_streamed word_deflate word_crc word_parts) - EOCD_LEN]"
  unfolding word_written by code_simp

lemma word_written_len: "length (encode_zip_streamed word_deflate word_crc word_parts) = 212"
  unfolding word_written by simp

lemma word_writable:
  "writable word_deflate word_inflater word_parts (encode_zip_streamed word_deflate word_crc word_parts)"
proof -
  have "list_all (part_fits word_deflate word_inflater) word_parts \<and> word_parts \<noteq> []
      \<and> length word_parts < 2 ^ 16 \<and> directory_len word_parts \<le> 2 ^ 26"
    by (simp add: word_parts_def part_fits_def directory_len_def word_deflate_def word_inflater_def
        inflate_bounded_def MAX_INFLATE_BYTES_def utf8_valid_ascii str_bytes_def byte_of_char_def)
  then show ?thesis
    using detect_none [OF word_bytes] by (simp add: writable_def word_written_len owner_of_def)
qed

theorem writer_roundtrip_witness:
  "map (\<lambda>e. (en_name e, ep_bytes (extract_entry word_inflater word_crc (encode_zip_streamed word_deflate word_crc word_parts) e)))
     (zp_entries (parse_zip (encode_zip_streamed word_deflate word_crc word_parts))) = [(''a'', [0, 0, 0]), (''b'', [7])]"
  using writer_roundtrip [OF word_writable, of word_crc] by (simp add: word_parts_def)

end
