(* ===== verification/Mobile_Zip.thy ===== *)
theory Mobile_Zip
  imports Zip_Build
begin

text \<open>
  Recovery of fully present ZIP entries (\<open>phx_zip_core/src/mobile_zip.rs\<close>): the limits, the path
  rules, the decision for every entry the reader finds and the loop that hands verified entries
  to a sink, streaming or into memory. The decoder, the CRC and the Unicode table behind
  \<open>str::to_lowercase\<close> are parameters; the sink is a function on a state of its own.
  Shown: whatever is handed out is proven, safe and within the limits; a streaming sink sees
  what the collector returns; an undamaged archive is recovered whole.
\<close>

section \<open>Data\<close>

record MobileZipLimits =
  max_entries :: nat
  max_entry_bytes :: nat
  max_total_bytes :: nat
  max_path_bytes :: nat
  max_depth :: nat

definition mobile_limits_default :: MobileZipLimits where
  "mobile_limits_default =
     \<lparr> max_entries = 10000, max_entry_bytes = 512 * 1024 * 1024, max_total_bytes = 8 * 1024 * 1024 * 1024,
       max_path_bytes = 240, max_depth = 24 \<rparr>"

record MobileZipEntry =
  safe_path :: string
  me_bytes :: bytes
  me_crc32 :: u32
  me_verdict :: RecoveryVerdict

record MobileZipSkipped =
  sk_name :: string
  sk_reason :: string
  sk_verdict :: RecoveryVerdict

definition mobile_skipped :: "string \<Rightarrow> string \<Rightarrow> MobileZipSkipped" where
  "mobile_skipped name reason =
     \<lparr> sk_name = name, sk_reason = reason,
       sk_verdict = (if reason = ''crc_mismatch'' then SalvagedUnverified else Unrecoverable) \<rparr>"

record MobileZipEntrySummary =
  ms_safe_path :: string
  ms_bytes :: nat
  ms_crc32 :: u32
  ms_verdict :: RecoveryVerdict

record 'e MobileZipRecovery =
  mr_used_local_scan :: bool
  mr_central_directory_found :: bool
  entries_seen :: nat
  mr_entries :: "'e list"
  mr_skipped :: "MobileZipSkipped list"
  mr_warnings :: "message list"

section \<open>Safe paths\<close>

fun join_slash :: "string list \<Rightarrow> string" where
  "join_slash [] = []"
| "join_slash [p] = p"
| "join_slash (p # q # ps) = p @ CHR ''/'' # join_slash (q # ps)"

definition BACKSLASH :: char where "BACKSLASH = CHR 0x5C"

definition safe_relative_path :: "string \<Rightarrow> nat \<Rightarrow> nat \<Rightarrow> string option" where
  "safe_relative_path raw max_bytes depth =
     (if raw = [] \<or> max_bytes < length raw \<or> CHR 0x00 \<in> set raw \<or> take 1 raw = ''/'' \<or> take 1 raw = [BACKSLASH]
      then None
      else
        (let normalized = map (\<lambda>c. if c = BACKSLASH then CHR ''/'' else c) raw in
         if 1 < length normalized \<and> normalized ! 1 = CHR '':'' then None
         else
           (let parts = filter (\<lambda>p. p \<noteq> []) (split_slash normalized) in
            if parts = [] \<or> depth < length parts
              \<or> list_ex (\<lambda>p. p = ''.'' \<or> p = ''..'' \<or> CHR '':'' \<in> set p) parts
            then None
            else Some (join_slash parts))))"

section \<open>The decision for one entry\<close>

definition status_reason :: "ExtractStatus \<Rightarrow> string" where
  "status_reason status =
     (case status of
        VerifiedCrc \<Rightarrow> ''verified''
      | CrcMismatch \<Rightarrow> ''crc_mismatch''
      | DecodeFailed \<Rightarrow> ''decode_failed''
      | BadLocalHeader \<Rightarrow> ''bad_local_header''
      | Truncated \<Rightarrow> ''truncated''
      | Unsupported _ \<Rightarrow> ''unsupported_method''
      | Encrypted \<Rightarrow> ''encrypted''
      | Zip64Unsupported \<Rightarrow> ''zip64_unsupported''
      | StreamedUnsized \<Rightarrow> ''streamed_unsized'')"

text \<open>
  What the caller fixes: the decoder, the CRC, the lower-casing of paths, the archive, the limits,
  where the directory comes from and whether it can speak for the whole archive.
\<close>

record mobile_env =
  mb_inflate :: inflater
  mb_crc :: "bytes \<Rightarrow> u32"
  mb_lower :: "string \<Rightarrow> string"

type_synonym mobile_choice = "string + MobileZipEntry"

text \<open>The loop body up to the sink: a reason to skip or the entry, and the names taken so far.\<close>

definition mobile_decide ::
  "mobile_env \<Rightarrow> bytes \<Rightarrow> MobileZipLimits \<Rightarrow> CdProvenance \<Rightarrow> bool \<Rightarrow> nat \<Rightarrow> string set \<Rightarrow> ZipEntry
    \<Rightarrow> mobile_choice \<times> string set" where
  "mobile_decide env d limits prov enumerates spent names e =
     (if \<not> name_valid_utf8 e then (Inl ''invalid_utf8_path'', names)
      else if en_name e \<noteq> [] \<and> (last (en_name e) = CHR ''/'' \<or> last (en_name e) = BACKSLASH)
      then (Inl ''directory'', names)
      else
        (case safe_relative_path (en_name e) (max_path_bytes limits) (max_depth limits) of
           None \<Rightarrow> (Inl ''unsafe_path'', names)
         | Some path \<Rightarrow>
             if mb_lower env path \<in> names then (Inl ''duplicate_path'', names)
             else
               (let names = insert (mb_lower env path) names;
                    extracted = extract_entry (mb_inflate env) (mb_crc env) d e;
                    attests = entry_is_attested prov (from_central_dir e);
                    byte_len = length (ep_bytes extracted) in
                if max_entry_bytes limits < en_uncomp_size e then (Inl ''entry_limit'', names)
                else if ep_status extracted \<noteq> VerifiedCrc then (Inl (status_reason (ep_status extracted)), names)
                else if \<not> attests \<and> enumerates then (Inl ''unattested_by_complete_directory'', names)
                else if ep_bytes extracted = [] \<and> \<not> attests then (Inl ''zero_length_unattested'', names)
                else if max_entry_bytes limits < byte_len
                  \<or> (case checked_add spent byte_len of None \<Rightarrow> True | Some n \<Rightarrow> max_total_bytes limits < n)
                then (Inl ''total_limit'', names)
                else
                  (Inr \<lparr> safe_path = path, me_bytes = ep_bytes extracted, me_crc32 = crc_actual extracted,
                         me_verdict = ExactRecoverable \<rparr>, names))))"

section \<open>The loop\<close>

record 's MobileState =
  recovered :: "MobileZipEntrySummary list"
  skipped :: "MobileZipSkipped list"
  spent_bytes :: nat
  taken_names :: "string set"
  sink_state :: 's

text \<open>A sink takes an entry and answers with its new state and possibly an error.\<close>

type_synonym 's sink = "'s \<Rightarrow> MobileZipEntry \<Rightarrow> 's \<times> (string + unit)"

definition entry_summary :: "MobileZipEntry \<Rightarrow> MobileZipEntrySummary" where
  "entry_summary m =
     \<lparr> ms_safe_path = safe_path m, ms_bytes = length (me_bytes m), ms_crc32 = me_crc32 m, ms_verdict = me_verdict m \<rparr>"

definition mobile_step ::
  "mobile_env \<Rightarrow> bytes \<Rightarrow> MobileZipLimits \<Rightarrow> CdProvenance \<Rightarrow> bool \<Rightarrow> 's sink \<Rightarrow> 's MobileState \<Rightarrow> ZipEntry
    \<Rightarrow> 's \<times> string + 's MobileState" where
  "mobile_step env d limits prov enumerates emit st e =
     (case mobile_decide env d limits prov enumerates (spent_bytes st) (taken_names st) e of
        (Inl reason, names) \<Rightarrow>
          Inr (st\<lparr> taken_names := names, skipped := skipped st @ [mobile_skipped (en_name e) reason] \<rparr>)
      | (Inr m, names) \<Rightarrow>
          (case emit (sink_state st) m of
             (s, Inl err) \<Rightarrow> Inl (s, err)
           | (s, Inr _) \<Rightarrow>
               Inr (st\<lparr> taken_names := names, spent_bytes := spent_bytes st + length (me_bytes m),
                        sink_state := s, recovered := recovered st @ [entry_summary m] \<rparr>)))"

primrec mobile_loop ::
  "mobile_env \<Rightarrow> bytes \<Rightarrow> MobileZipLimits \<Rightarrow> CdProvenance \<Rightarrow> bool \<Rightarrow> 's sink \<Rightarrow> 's MobileState \<Rightarrow> ZipEntry list
    \<Rightarrow> 's \<times> string + 's MobileState" where
  "mobile_loop env d limits prov enumerates emit st [] = Inr st"
| "mobile_loop env d limits prov enumerates emit st (e # es) =
     (case mobile_step env d limits prov enumerates emit st e of
        Inl err \<Rightarrow> Inl err
      | Inr st' \<Rightarrow> mobile_loop env d limits prov enumerates emit st' es)"

definition directory_enumerates :: "ZipParse \<Rightarrow> CdProvenance \<Rightarrow> bool" where
  "directory_enumerates parsed prov \<longleftrightarrow> zp_count_consistent parsed \<and> attests_existence prov"

definition recover_verified_entries_to ::
  "mobile_env \<Rightarrow> bytes \<Rightarrow> MobileZipLimits \<Rightarrow> CdProvenance \<Rightarrow> 's sink \<Rightarrow> 's
    \<Rightarrow> 's \<times> (string + MobileZipEntrySummary MobileZipRecovery)" where
  "recover_verified_entries_to env d limits prov emit s =
     (let parsed = parse_zip d in
      case mobile_loop env d limits prov (directory_enumerates parsed prov) emit
             \<lparr> recovered = [], skipped = [], spent_bytes = 0, taken_names = {}, sink_state = s \<rparr>
             (take (max_entries limits) (zp_entries parsed)) of
        Inl (s', err) \<Rightarrow> (s', Inl err)
      | Inr st \<Rightarrow>
          (sink_state st,
           Inr \<lparr> mr_used_local_scan = used_local_scan parsed, mr_central_directory_found = zp_cd_found parsed,
                 entries_seen = length (zp_entries parsed), mr_entries = recovered st,
                 mr_skipped = skipped st
                   @ (if max_entries limits < length (zp_entries parsed)
                      then [mobile_skipped [] ''entry_count_limit''] else []),
                 mr_warnings = zp_warnings parsed \<rparr>))"

text \<open>The in-memory caller: its sink collects and never fails; a failure would be a panic.\<close>

definition collect :: "MobileZipEntry list sink" where
  "collect ms m = (ms @ [m], Inr ())"

definition recover_verified_entries ::
  "mobile_env \<Rightarrow> bytes \<Rightarrow> MobileZipLimits \<Rightarrow> CdProvenance \<Rightarrow> MobileZipEntry MobileZipRecovery outcome" where
  "recover_verified_entries env d limits prov =
     (case recover_verified_entries_to env d limits prov collect [] of
        (_, Inl _) \<Rightarrow> Panicked
      | (ms, Inr summary) \<Rightarrow>
          Returned \<lparr> mr_used_local_scan = mr_used_local_scan summary,
                     mr_central_directory_found = mr_central_directory_found summary,
                     entries_seen = entries_seen summary, mr_entries = ms,
                     mr_skipped = mr_skipped summary, mr_warnings = mr_warnings summary \<rparr>)"

section \<open>The loop as a list of decisions\<close>

text \<open>Every entry with what is decided about it, in order.\<close>

primrec decisions ::
  "mobile_env \<Rightarrow> bytes \<Rightarrow> MobileZipLimits \<Rightarrow> CdProvenance \<Rightarrow> bool \<Rightarrow> nat \<Rightarrow> string set \<Rightarrow> ZipEntry list
    \<Rightarrow> (ZipEntry \<times> mobile_choice) list" where
  "decisions env d limits prov en spent names [] = []"
| "decisions env d limits prov en spent names (e # es) =
     (case mobile_decide env d limits prov en spent names e of
        (c, names') \<Rightarrow>
          (e, c) # decisions env d limits prov en
            (spent + (case c of Inl _ \<Rightarrow> 0 | Inr m \<Rightarrow> length (me_bytes m))) names' es)"

primrec chosen :: "(ZipEntry \<times> mobile_choice) list \<Rightarrow> MobileZipEntry list" where
  "chosen [] = []"
| "chosen (x # xs) = (case snd x of Inl _ \<Rightarrow> chosen xs | Inr m \<Rightarrow> m # chosen xs)"

primrec refused :: "(ZipEntry \<times> mobile_choice) list \<Rightarrow> MobileZipSkipped list" where
  "refused [] = []"
| "refused (x # xs) =
     (case snd x of Inl reason \<Rightarrow> mobile_skipped (en_name (fst x)) reason # refused xs | Inr _ \<Rightarrow> refused xs)"

text \<open>Feeding a list of entries to a sink until it fails.\<close>

primrec emit_all :: "'s sink \<Rightarrow> 's \<Rightarrow> MobileZipEntry list \<Rightarrow> 's \<times> (string + unit)" where
  "emit_all emit s [] = (s, Inr ())"
| "emit_all emit s (m # ms) =
     (case emit s m of (s', Inl err) \<Rightarrow> (s', Inl err) | (s', Inr _) \<Rightarrow> emit_all emit s' ms)"

lemma emit_all_collect [simp]: "emit_all collect xs ms = (xs @ ms, Inr ())"
  by (induction ms arbitrary: xs) (simp_all add: collect_def)

lemma mobile_loop_decisions:
  assumes "ds = decisions env d limits prov en (spent_bytes st) (taken_names st) es"
  shows "case emit_all emit (sink_state st) (chosen ds) of
      (s, Inl err) \<Rightarrow> mobile_loop env d limits prov en emit st es = Inl (s, err)
    | (s, Inr _) \<Rightarrow>
        \<exists>st'. mobile_loop env d limits prov en emit st es = Inr st' \<and> sink_state st' = s
          \<and> recovered st' = recovered st @ map entry_summary (chosen ds) \<and> skipped st' = skipped st @ refused ds"
  using assms
proof (induction es arbitrary: st ds)
  case (Cons e es)
  obtain c names where dec: "mobile_decide env d limits prov en (spent_bytes st) (taken_names st) e = (c, names)"
    by fastforce
  show ?case
  proof (cases c)
    case (Inl reason)
    then show ?thesis
      using Cons.prems dec Cons.IH [OF refl, of "st\<lparr> taken_names := names, skipped := skipped st @ [mobile_skipped (en_name e) reason] \<rparr>"]
      by (auto simp: mobile_step_def split: prod.splits sum.splits)
  next
    case (Inr m)
    obtain s r where em: "emit (sink_state st) m = (s, r)" by fastforce
    show ?thesis
    proof (cases r)
      case (Inl err)
      then show ?thesis using Cons.prems dec \<open>c = Inr m\<close> em by (simp add: mobile_step_def)
    next
      case (Inr u)
      then show ?thesis
        using Cons.prems dec \<open>c = Inr m\<close> em
          Cons.IH [OF refl, of "st\<lparr> taken_names := names, spent_bytes := spent_bytes st + length (me_bytes m),
            sink_state := s, recovered := recovered st @ [entry_summary m] \<rparr>"]
        by (auto simp: mobile_step_def split: prod.splits sum.splits)
    qed
  qed
qed simp

definition mobile_decisions ::
  "mobile_env \<Rightarrow> bytes \<Rightarrow> MobileZipLimits \<Rightarrow> CdProvenance \<Rightarrow> (ZipEntry \<times> mobile_choice) list" where
  "mobile_decisions env d limits prov =
     decisions env d limits prov (directory_enumerates (parse_zip d) prov) 0 {}
       (take (max_entries limits) (zp_entries (parse_zip d)))"

text \<open>The report around a list of decisions, with the entries as \<open>f\<close> presents them.\<close>

definition mobile_report ::
  "(MobileZipEntry \<Rightarrow> 'e) \<Rightarrow> mobile_env \<Rightarrow> bytes \<Rightarrow> MobileZipLimits \<Rightarrow> CdProvenance \<Rightarrow> 'e MobileZipRecovery" where
  "mobile_report f env d limits prov =
     \<lparr> mr_used_local_scan = used_local_scan (parse_zip d), mr_central_directory_found = zp_cd_found (parse_zip d),
       entries_seen = length (zp_entries (parse_zip d)), mr_entries = map f (chosen (mobile_decisions env d limits prov)),
       mr_skipped = refused (mobile_decisions env d limits prov)
         @ (if max_entries limits < length (zp_entries (parse_zip d)) then [mobile_skipped [] ''entry_count_limit''] else []),
       mr_warnings = zp_warnings (parse_zip d) \<rparr>"

lemma recover_to_decisions:
  "recover_verified_entries_to env d limits prov emit s =
    (case emit_all emit s (chosen (mobile_decisions env d limits prov)) of
       (s', Inl err) \<Rightarrow> (s', Inl err)
     | (s', Inr _) \<Rightarrow> (s', Inr (mobile_report entry_summary env d limits prov)))"
proof -
  define es where "es = take (max_entries limits) (zp_entries (parse_zip d))"
  define late where "late = (if max_entries limits < length (zp_entries (parse_zip d))
    then [mobile_skipped [] ''entry_count_limit''] else [])"
  show ?thesis
    using mobile_loop_decisions [of "mobile_decisions env d limits prov" env d limits prov
        "directory_enumerates (parse_zip d) prov"
        "\<lparr> recovered = [], skipped = [], spent_bytes = 0, taken_names = {}, sink_state = s \<rparr>" es emit]
    unfolding mobile_decisions_def recover_verified_entries_to_def mobile_report_def Let_def
      es_def [symmetric] late_def [symmetric]
    by (auto split: prod.splits sum.splits)
qed

lemma recover_decisions:
  "recover_verified_entries env d limits prov = Returned (mobile_report (\<lambda>m. m) env d limits prov)"
  by (simp add: recover_verified_entries_def recover_to_decisions mobile_report_def)

lemma decisions_partition: "length (chosen ds) + length (refused ds) = length ds"
  by (induction ds) (simp_all split: sum.split)

lemma length_decisions [simp]: "length (decisions env d limits prov en spent names es) = length es"
  by (induction es arbitrary: spent names) (simp_all split: prod.split)

section \<open>Paths that stay inside\<close>

text \<open>Relative, without empty, current or parent components, drives, backslashes or NUL.\<close>

definition plain_component :: "string \<Rightarrow> bool" where
  "plain_component c \<longleftrightarrow> c \<noteq> [] \<and> c \<noteq> ''.'' \<and> c \<noteq> ''..'' \<and> CHR ''/'' \<notin> set c \<and> BACKSLASH \<notin> set c
     \<and> CHR '':'' \<notin> set c \<and> CHR 0x00 \<notin> set c"

definition stays_inside :: "string \<Rightarrow> bool" where
  "stays_inside p \<longleftrightarrow> list_all plain_component (split_slash p)"

lemma split_join:
  "ps \<noteq> [] \<Longrightarrow> list_all (\<lambda>p. CHR ''/'' \<notin> set p) ps \<Longrightarrow> split_slash (join_slash ps) = ps"
  by (induction ps rule: join_slash.induct) (simp_all add: split_slash_plain split_slash_append)

lemma length_join: "ps \<noteq> [] \<Longrightarrow> length (join_slash ps) + 1 = sum_list (map (\<lambda>p. length p + 1) ps)"
  by (induction ps rule: join_slash.induct) simp_all

lemma length_split: "sum_list (map (\<lambda>p. length p + 1) (split_slash s)) = length s + 1"
proof (induction s)
  case (Cons c s)
  then show ?case by (cases "split_slash s") (auto split: if_splits)
qed simp

lemma split_slash_set: "p \<in> set (split_slash s) \<Longrightarrow> set p \<subseteq> set s"
proof (induction s arbitrary: p)
  case (Cons c s)
  then show ?case by (cases "split_slash s") (fastforce split: if_splits)+
qed simp

lemma safe_path_inside:
  assumes "safe_relative_path raw mx depth = Some p"
  shows "stays_inside p" "p \<noteq> []" "length p \<le> mx" "length (split_slash p) \<le> depth"
proof -
  let ?n = "map (\<lambda>c. if c = BACKSLASH then CHR ''/'' else c) raw"
  define ps where "ps = filter (\<lambda>q. q \<noteq> []) (split_slash ?n)"
  have r: "length raw \<le> mx" "CHR 0x00 \<notin> set raw" "ps \<noteq> []" "length ps \<le> depth"
    "list_all (\<lambda>q. q \<noteq> ''.'' \<and> q \<noteq> ''..'' \<and> CHR '':'' \<notin> set q) ps" "p = join_slash ps"
    using assms by (auto simp: safe_relative_path_def Let_def ps_def list_ex_iff list_all_iff split: if_splits)
  have chars: "BACKSLASH \<notin> set ?n" "CHR 0x00 \<notin> set ?n"
    using r(2) by (auto simp: BACKSLASH_def)
  have "plain_component q" if "q \<in> set ps" for q
  proof -
    have q: "q \<in> set (split_slash ?n)" "q \<noteq> []" using that by (simp_all add: ps_def)
    have "set q \<subseteq> set ?n" using q(1) by (rule split_slash_set)
    moreover have "CHR ''/'' \<notin> set q" using q(1) by (rule split_slash_pieces)
    moreover have "q \<noteq> ''.'' \<and> q \<noteq> ''..'' \<and> CHR '':'' \<notin> set q" using r(5) that unfolding list_all_iff by blast
    ultimately show ?thesis using chars q(2) unfolding plain_component_def by blast
  qed
  then have plain: "list_all plain_component ps" by (simp add: list_all_iff)
  have "list_all (\<lambda>q. CHR ''/'' \<notin> set q) ps" using plain by (auto simp: list_all_iff plain_component_def)
  from split_join [OF r(3) this] have split: "split_slash p = ps" by (simp add: r(6))
  show "stays_inside p" "length (split_slash p) \<le> depth" using plain r(4) by (simp_all add: stays_inside_def split)
  show "p \<noteq> []"
  proof
    assume "p = []"
    then have "ps = [[]]" using split by simp
    then have "plain_component []" using plain by simp
    then show False by (simp add: plain_component_def)
  qed
  have "sum_list (map (\<lambda>q. length q + 1) ps) \<le> sum_list (map (\<lambda>q. length q + 1) (split_slash ?n))"
    unfolding ps_def by (rule sum_list_filter_le_nat)
  then have "length p + 1 \<le> length ?n + 1" using length_join [OF r(3)] length_split [of ?n] by (simp only: r(6))
  then show "length p \<le> mx" using r(1) by simp
qed

section \<open>What is handed out\<close>

text \<open>
  The proof an entry of the result carries: a named entry of the archive, its path made safe, its
  bytes decoded from the place the entry says with the CRC the archive holds, attested by a
  directory that is evidence, or non-empty in an archive whose directory cannot deny it.
\<close>

definition proven_by ::
  "mobile_env \<Rightarrow> bytes \<Rightarrow> MobileZipLimits \<Rightarrow> CdProvenance \<Rightarrow> bool \<Rightarrow> ZipEntry \<Rightarrow> MobileZipEntry \<Rightarrow> bool" where
  "proven_by env d limits prov enumerates e m \<longleftrightarrow>
     name_valid_utf8 e \<and> safe_relative_path (en_name e) (max_path_bytes limits) (max_depth limits) = Some (safe_path m)
     \<and> in_scope e \<and> Option.bind (packed_bytes d e) (decoded (mb_inflate env) (en_method e)) = Some (me_bytes m)
     \<and> mb_crc env (me_bytes m) = en_crc32 e \<and> me_crc32 m = en_crc32 e \<and> me_verdict m = ExactRecoverable
     \<and> length (me_bytes m) \<le> max_entry_bytes limits
     \<and> (entry_is_attested prov (from_central_dir e) \<or> me_bytes m \<noteq> [] \<and> \<not> enumerates)"

lemma verified_extraction:
  assumes "ep_status (extract_entry dec crc d e) = VerifiedCrc"
  shows "in_scope e" "Option.bind (packed_bytes d e) (decoded dec (en_method e)) = Some (ep_bytes (extract_entry dec crc d e))"
    "crc (ep_bytes (extract_entry dec crc d e)) = en_crc32 e" "crc_actual (extract_entry dec crc d e) = en_crc32 e"
proof -
  show sc: "in_scope e"
    using assms by (auto simp: extract_entry_def in_scope_def extract_base_def split: if_splits)
  show "Option.bind (packed_bytes d e) (decoded dec (en_method e)) = Some (ep_bytes (extract_entry dec crc d e))"
    "crc (ep_bytes (extract_entry dec crc d e)) = en_crc32 e" "crc_actual (extract_entry dec crc d e) = en_crc32 e"
    using assms unfolding extract_in_scope [OF sc] by (auto simp: extract_base_def split: option.splits if_splits)
qed

lemma decide_chosen:
  assumes "mobile_decide env d limits prov en spent names e = (Inr m, names')"
  shows "proven_by env d limits prov en e m" "spent + length (me_bytes m) \<le> max_total_bytes limits"
    "mb_lower env (safe_path m) \<notin> names" "names' = insert (mb_lower env (safe_path m)) names"
proof -
  have v: "ep_status (extract_entry (mb_inflate env) (mb_crc env) d e) = VerifiedCrc"
    using assms by (auto simp: mobile_decide_def Let_def split: if_splits option.splits)
  show "proven_by env d limits prov en e m" "spent + length (me_bytes m) \<le> max_total_bytes limits"
    "mb_lower env (safe_path m) \<notin> names" "names' = insert (mb_lower env (safe_path m)) names"
    using assms verified_extraction [OF v]
    by (auto simp: mobile_decide_def Let_def proven_by_def checked_add_def split: if_splits option.splits)
qed

lemma decide_names: "mobile_decide env d limits prov en spent names e = (c, names') \<Longrightarrow> names \<subseteq> names'"
  by (auto simp: mobile_decide_def Let_def split: if_splits option.splits)

lemma decisions_sound:
  assumes "ds = decisions env d limits prov en spent names es" "spent \<le> max_total_bytes limits"
  shows "list_all2 (\<lambda>x e. fst x = e \<and> (case snd x of Inl _ \<Rightarrow> True | Inr m \<Rightarrow> proven_by env d limits prov en e m)) ds es
    \<and> distinct (map (\<lambda>m. mb_lower env (safe_path m)) (chosen ds))
    \<and> (\<forall>m \<in> set (chosen ds). mb_lower env (safe_path m) \<notin> names)
    \<and> spent + sum_list (map (\<lambda>m. length (me_bytes m)) (chosen ds)) \<le> max_total_bytes limits"
  using assms
proof (induction es arbitrary: spent names ds)
  case (Cons e es)
  obtain c names' where dec: "mobile_decide env d limits prov en spent names e = (c, names')" by fastforce
  show ?case
  proof (cases c)
    case (Inl reason)
    then show ?thesis
      using Cons.IH [OF refl, of spent names'] Cons.prems dec decide_names [OF dec] by auto
  next
    case (Inr m)
    note k = decide_chosen [OF dec [unfolded Inr]]
    show ?thesis
      using Cons.IH [OF refl, of "spent + length (me_bytes m)" names'] Cons.prems dec k Inr by auto
  qed
qed simp

lemma chosen_set: "m \<in> set (chosen ds) \<Longrightarrow> \<exists>e. (e, Inr m) \<in> set ds"
  by (induction ds) (auto split: sum.splits)

lemma mobile_result:
  "\<exists>r. recover_verified_entries env d limits prov = Returned r
    \<and> list_all (\<lambda>m. stays_inside (safe_path m)
        \<and> list_ex (\<lambda>e. proven_by env d limits prov (directory_enumerates (parse_zip d) prov) e m)
            (zp_entries (parse_zip d))) (mr_entries r)
    \<and> distinct (map (\<lambda>m. mb_lower env (safe_path m)) (mr_entries r))
    \<and> sum_list (map (\<lambda>m. length (me_bytes m)) (mr_entries r)) \<le> max_total_bytes limits
    \<and> length (mr_entries r) + length (mr_skipped r)
        = (if entries_seen r \<le> max_entries limits then entries_seen r else max_entries limits + 1)
    \<and> entries_seen r = length (zp_entries (parse_zip d))"
proof -
  let ?ds = "mobile_decisions env d limits prov" and ?es = "take (max_entries limits) (zp_entries (parse_zip d))"
  let ?r = "mobile_report (\<lambda>m. m) env d limits prov"
  note s = decisions_sound [OF refl, of 0 limits env d prov "directory_enumerates (parse_zip d) prov" "{}" ?es,
      folded mobile_decisions_def]
  have "stays_inside (safe_path m)
      \<and> (\<exists>e \<in> set (zp_entries (parse_zip d)). proven_by env d limits prov (directory_enumerates (parse_zip d) prov) e m)"
    if "m \<in> set (chosen ?ds)" for m
  proof -
    from chosen_set [OF that] obtain e where "(e, Inr m) \<in> set ?ds" by blast
    then have "e \<in> set ?es \<and> proven_by env d limits prov (directory_enumerates (parse_zip d) prov) e m"
      using s by (fastforce simp: list_all2_conv_all_nth in_set_conv_nth)
    then show ?thesis using safe_path_inside(1) by (auto simp: proven_by_def dest: in_set_takeD)
  qed
  moreover have "length (chosen ?ds) + length (refused ?ds) = length ?es"
    by (simp only: decisions_partition) (simp only: mobile_decisions_def length_decisions)
  ultimately show ?thesis using s by (auto simp: recover_decisions mobile_report_def list_all_iff list_ex_iff)
qed

text \<open>
  C4. Nothing unproven is handed out: on any file, limits and directory provenance the recovery
  returns, and every entry it returns is an entry the reader found, under a relative path that
  stays inside its directory, with bytes decoded from the place the entry names whose CRC is the
  one in the archive, within the entry limit; an entry without an attesting directory record is
  returned only when it is not empty and no complete directory denies it. The paths are distinct
  after lower-casing, the bytes stay within the overall limit, and every entry up to the
  entry limit is either returned or listed as skipped.
\<close>

theorem mobile_entries_proven:
  "\<exists>r. recover_verified_entries env d limits prov = Returned r
    \<and> list_all (\<lambda>m. stays_inside (safe_path m)
        \<and> list_ex (\<lambda>e. proven_by env d limits prov (directory_enumerates (parse_zip d) prov) e m)
            (zp_entries (parse_zip d))) (mr_entries r)
    \<and> distinct (map (\<lambda>m. mb_lower env (safe_path m)) (mr_entries r))
    \<and> sum_list (map (\<lambda>m. length (me_bytes m)) (mr_entries r)) \<le> max_total_bytes limits
    \<and> length (mr_entries r) + length (mr_skipped r)
        = (if entries_seen r \<le> max_entries limits then entries_seen r else max_entries limits + 1)
    \<and> entries_seen r = length (zp_entries (parse_zip d))"
  by (rule mobile_result)

text \<open>
  C21. Streaming and collecting agree: with any sink, the streaming recovery feeds it exactly the
  entries the in-memory recovery returns, in that order, stops at the first error of the sink
  with that error, and otherwise reports the same skips, flags and warnings and the summary of
  every entry.
\<close>

theorem mobile_sink_equivalent:
  "\<exists>r. recover_verified_entries env d limits prov = Returned r
    \<and> recover_verified_entries_to env d limits prov emit s
      = (case emit_all emit s (mr_entries r) of
           (s', Inl err) \<Rightarrow> (s', Inl err)
         | (s', Inr _) \<Rightarrow>
             (s', Inr \<lparr> mr_used_local_scan = mr_used_local_scan r,
                        mr_central_directory_found = mr_central_directory_found r, entries_seen = entries_seen r,
                        mr_entries = map entry_summary (mr_entries r), mr_skipped = mr_skipped r,
                        mr_warnings = mr_warnings r \<rparr>))"
  by (simp add: recover_decisions recover_to_decisions mobile_report_def split: prod.split sum.split)

section \<open>Undamaged archives are recovered whole\<close>

definition part_kept :: "MobileZipLimits \<Rightarrow> part \<Rightarrow> bool" where
  "part_kept limits p \<longleftrightarrow> safe_relative_path (fst p) (max_path_bytes limits) (max_depth limits) = Some (fst p)
     \<and> length (snd p) \<le> max_entry_bytes limits"

lemma kept_not_directory:
  assumes "safe_relative_path n mx depth = Some n"
  shows "\<not> (n \<noteq> [] \<and> (last n = CHR ''/'' \<or> last n = BACKSLASH))"
proof
  assume l: "n \<noteq> [] \<and> (last n = CHR ''/'' \<or> last n = BACKSLASH)"
  note i = safe_path_inside(1) [OF assms]
  from l have n: "n = butlast n @ [last n]" by simp
  from l show False
  proof (elim conjE disjE)
    assume "last n = CHR ''/''"
    then have "split_slash n = split_slash (butlast n) @ [[]]" using n split_slash_append [of "butlast n" "[]"] by simp
    then show False using i by (simp add: stays_inside_def plain_component_def)
  next
    assume b: "last n = BACKSLASH"
    have "map (\<lambda>p. length p + 1) (split_slash n) \<noteq> []" by simp
    have "BACKSLASH \<in> set n" using b l last_in_set by metis
    moreover have "set n \<subseteq> insert (CHR ''/'') (\<Union> (set ` set (split_slash n)))"
    proof (induction n)
      case (Cons c n)
      then show ?case by (cases "split_slash n") auto
    qed simp
    ultimately obtain q where "q \<in> set (split_slash n)" "BACKSLASH \<in> set q" by (auto simp: BACKSLASH_def)
    then show False using i by (auto simp: stays_inside_def plain_component_def list_all_iff)
  qed
qed

lemma decisions_whole:
  assumes "list_all2 (reads_as s (mb_inflate env) (mb_crc env) d) es ps" "list_all (part_kept limits) ps"
    "attests_existence prov" "distinct (map (\<lambda>p. mb_lower env (fst p)) ps)"
    "\<forall>p \<in> set ps. mb_lower env (fst p) \<notin> names"
    "spent + sum_list (map (\<lambda>p. length (snd p)) ps) \<le> max_total_bytes limits" "max_total_bytes limits < 2 ^ 64"
  shows "map (\<lambda>m. (safe_path m, me_bytes m)) (chosen (decisions env d limits prov en spent names es)) = ps
    \<and> refused (decisions env d limits prov en spent names es) = []"
  using assms
proof (induction es ps arbitrary: spent names rule: list_all2_induct)
  case (Cons e es p ps)
  let ?m = "\<lparr> safe_path = fst p, me_bytes = snd p, me_crc32 = crc_actual (extract_entry (mb_inflate env) (mb_crc env) d e),
    me_verdict = ExactRecoverable \<rparr>"
  have r: "reads_as s (mb_inflate env) (mb_crc env) d e p" using Cons.hyps(1) .
  have kept: "part_kept limits p" using Cons.prems(1) by simp
  have "mobile_decide env d limits prov en spent names e = (Inr ?m, insert (mb_lower env (fst p)) names)"
    using r kept kept_not_directory [of "fst p"] Cons.prems
    by (auto simp: mobile_decide_def reads_as_def part_kept_def Let_def entry_is_attested_def checked_add_def)
  moreover have "\<forall>q \<in> set ps. mb_lower env (fst q) \<notin> insert (mb_lower env (fst p)) names"
  proof -
    have "mb_lower env (fst p) \<notin> set (map (\<lambda>p. mb_lower env (fst p)) ps)" using Cons.prems(3) by simp
    then show ?thesis using Cons.prems(4) by (metis (no_types, lifting) image_eqI insert_iff list.set_map list.set_intros(2))
  qed
  ultimately show ?case
    using Cons.IH [of "insert (mb_lower env (fst p)) names" "spent + length (snd p)"] Cons.prems by simp
qed simp

lemma written_recovered:
  assumes w: "writable deflate (mb_inflate env) ps d"
    and d: "d = encode_zip deflate (mb_crc env) ps \<or> d = encode_zip_streamed deflate (mb_crc env) ps"
    and prov: "attests_existence prov" and keep: "list_all (part_kept limits) ps"
    and names: "distinct (map (\<lambda>p. mb_lower env (fst p)) ps)"
    and fits: "length ps \<le> max_entries limits" "sum_list (map (\<lambda>p. length (snd p)) ps) \<le> max_total_bytes limits"
      "max_total_bytes limits < 2 ^ 64"
  shows "\<exists>r. recover_verified_entries env d limits prov = Returned r
    \<and> map (\<lambda>m. (safe_path m, me_bytes m)) (mr_entries r) = ps \<and> mr_skipped r = [] \<and> mr_warnings r = []
    \<and> mr_central_directory_found r \<and> \<not> mr_used_local_scan r"
proof -
  obtain s where "d = writer s deflate (mb_crc env) ps" using d by (metis (full_types) writer_def)
  note e = writer_entries [OF w this]
  then have len: "length (zp_entries (parse_zip d)) = length ps" by (auto dest: list_all2_lengthD)
  have "map (\<lambda>m. (safe_path m, me_bytes m)) (chosen (mobile_decisions env d limits prov)) = ps
      \<and> refused (mobile_decisions env d limits prov) = []"
    unfolding mobile_decisions_def take_all [OF fits(1) [folded len]]
    using fits by (intro decisions_whole [OF conjunct1 [OF e] keep prov names]) simp_all
  then show ?thesis using e len fits(1) by (auto simp: recover_decisions mobile_report_def)
qed

text \<open>
  C8. Undamaged archives come back whole: for any archive either writer lays out from parts with safe,
  distinct paths within the limits, with a directory that counts as evidence, the recovery
  returns exactly the parts in order and skips nothing.
\<close>

theorem mobile_recovers_written:
  assumes "writable deflate (mb_inflate env) ps d"
    "d = encode_zip deflate (mb_crc env) ps \<or> d = encode_zip_streamed deflate (mb_crc env) ps"
    "attests_existence prov" "list_all (part_kept limits) ps" "distinct (map (\<lambda>p. mb_lower env (fst p)) ps)"
    "length ps \<le> max_entries limits" "sum_list (map (\<lambda>p. length (snd p)) ps) \<le> max_total_bytes limits"
    "max_total_bytes limits < 2 ^ 64"
  shows "\<exists>r. recover_verified_entries env d limits prov = Returned r
    \<and> map (\<lambda>m. (safe_path m, me_bytes m)) (mr_entries r) = ps \<and> mr_skipped r = [] \<and> mr_warnings r = []
    \<and> mr_central_directory_found r \<and> \<not> mr_used_local_scan r"
  using assms by (rule written_recovered)

theorem mobile_recovers_written_witness:
  "\<exists>r. recover_verified_entries \<lparr> mb_inflate = word_inflater, mb_crc = word_crc, mb_lower = (\<lambda>s. s) \<rparr>
      (encode_zip_streamed word_deflate word_crc word_parts) mobile_limits_default OriginalSurviving = Returned r
    \<and> map (\<lambda>m. (safe_path m, me_bytes m)) (mr_entries r) = [(''a'', [0, 0, 0]), (''b'', [7])] \<and> mr_skipped r = []"
proof -
  have "list_all (part_kept mobile_limits_default) word_parts"
    by (simp add: part_kept_def word_parts_def mobile_limits_default_def safe_relative_path_def BACKSLASH_def)
  then show ?thesis
    using mobile_recovers_written [of word_deflate "\<lparr> mb_inflate = word_inflater, mb_crc = word_crc, mb_lower = (\<lambda>s. s) \<rparr>"
        word_parts "encode_zip_streamed word_deflate word_crc word_parts" OriginalSurviving mobile_limits_default] word_writable
    by (auto simp: attests_existence_def mobile_limits_default_def word_parts_def)
qed

end
