(* ===== verification/Android_Backup.thy ===== *)
theory Android_Backup
  imports Recovery_Model Zip_Entries
begin

unbundle bit_operations_syntax

text \<open>
  The Android backup container (\<open>phx_zip_core/src/android_backup_container.rs\<close>): the header lines
  with the further lines of an encrypted container, and the bounded decompression of the
  payload. The zlib decoder is a parameter; key derivation and decryption are not in this code.
  Shown: the parser reads back every header a writer lays out and cuts the payload where it
  starts; what it accepts is in range; decompression never exceeds its bound and never panics.
\<close>

section \<open>Data\<close>

definition MAGIC :: string where "MAGIC = ''ANDROID BACKUP''"

definition ENCRYPTION_NONE :: string where "ENCRYPTION_NONE = ''none''"

definition ENCRYPTION_AES256 :: string where "ENCRYPTION_AES256 = ''AES-256''"

definition supported_version :: "u32 \<Rightarrow> bool" where
  "supported_version v \<longleftrightarrow> 1 \<le> v \<and> v \<le> 5"

definition USER_SALT_BYTES :: nat where "USER_SALT_BYTES = 64"

record EncryptedBackupFields =
  user_salt :: bytes
  checksum_salt :: bytes
  rounds :: u32
  user_iv :: bytes
  master_key_blob :: bytes
  ef_payload_offset :: nat

record AndroidBackupHeader =
  ab_version :: u32
  ab_compressed :: bool
  ab_encrypted :: bool
  ab_payload_offset :: nat
  encrypted_fields :: "EncryptedBackupFields option"

datatype AndroidBackupRefusal = BadMagic | TruncatedHeader | UnsupportedVersion | MalformedField
  | MalformedEncryptedField

section \<open>Fields\<close>

text \<open>Two hexadecimal digits; the digits are read from the bytes of the text.\<close>

definition hex_byte :: "char \<Rightarrow> char \<Rightarrow> u8 option" where
  "hex_byte c d =
     (case (hex_value c, hex_value d) of
        (Some hi, Some lo) \<Rightarrow> Some (ucast ((push_bit 4 (of_nat hi) OR of_nat lo) :: u32))
      | _ \<Rightarrow> None)"

fun hex_bytes :: "string \<Rightarrow> bytes option" where
  "hex_bytes (c # d # s) =
     (case hex_byte c d of None \<Rightarrow> None | Some b \<Rightarrow> map_option (Cons b) (hex_bytes s))"
| "hex_bytes s = Some []"

definition hex_decode :: "string \<Rightarrow> bytes option" where
  "hex_decode s = (if length s mod 2 \<noteq> 0 then None else hex_bytes s)"

text \<open>
  \<open>str::parse::<u32>\<close>: an optional plus sign and at least one decimal digit, without overflow.
\<close>

definition decimal_digit :: "char \<Rightarrow> nat option" where
  "decimal_digit c = (let n = of_char c :: nat in if 48 \<le> n \<and> n \<le> 57 then Some (n - 48) else None)"

primrec decimal_value :: "string \<Rightarrow> nat \<Rightarrow> nat option" where
  "decimal_value [] acc = Some acc"
| "decimal_value (c # s) acc =
     (case decimal_digit c of
        None \<Rightarrow> None
      | Some k \<Rightarrow> if 10 * acc + k < 2 ^ 32 then decimal_value s (10 * acc + k) else None)"

definition parse_u32 :: "string \<Rightarrow> u32 option" where
  "parse_u32 s =
     (let digits = (if take 1 s = ''+'' then drop 1 s else s) in
      if digits = [] then None else map_option of_nat (decimal_value digits 0))"

text \<open>
  One line with its newline consumed: the text and the offset behind it. The offset after a
  failure is not used by any caller.
\<close>

definition next_line :: "bytes \<Rightarrow> nat \<Rightarrow> (string \<times> nat) option" where
  "next_line d off =
     (let line = takeWhile (\<lambda>b. b \<noteq> 0x0A) (drop off d); fin = off + length line in
      if length d \<le> fin then None
      else if utf8_valid line then Some (map char_of_byte line, fin + 1)
      else None)"

section \<open>The header\<close>

text \<open>The \<open>?\<close> operator on a line and on a parsed field.\<close>

definition with_line ::
  "bytes \<Rightarrow> nat \<Rightarrow> (string \<Rightarrow> nat \<Rightarrow> AndroidBackupRefusal + 'a) \<Rightarrow> AndroidBackupRefusal + 'a" where
  "with_line d off k = (case next_line d off of None \<Rightarrow> Inl TruncatedHeader | Some (line, off') \<Rightarrow> k line off')"

definition or_refuse :: "'b option \<Rightarrow> AndroidBackupRefusal \<Rightarrow> ('b \<Rightarrow> AndroidBackupRefusal + 'a) \<Rightarrow> AndroidBackupRefusal + 'a" where
  "or_refuse r err k = (case r of None \<Rightarrow> Inl err | Some x \<Rightarrow> k x)"

definition parse_encrypted ::
  "bytes \<Rightarrow> nat \<Rightarrow> u32 \<Rightarrow> bool \<Rightarrow> AndroidBackupRefusal + AndroidBackupHeader" where
  "parse_encrypted d off version compressed =
     with_line d off (\<lambda>line off.
       or_refuse (hex_decode line) MalformedEncryptedField (\<lambda>salt.
         if length salt \<noteq> USER_SALT_BYTES then Inl MalformedEncryptedField
         else with_line d off (\<lambda>line off.
           or_refuse (hex_decode line) MalformedEncryptedField (\<lambda>csalt.
             with_line d off (\<lambda>line off.
               or_refuse (parse_u32 line) MalformedEncryptedField (\<lambda>n.
                 with_line d off (\<lambda>line off.
                   or_refuse (hex_decode line) MalformedEncryptedField (\<lambda>iv.
                     with_line d off (\<lambda>line off.
                       or_refuse (hex_decode line) MalformedEncryptedField (\<lambda>blob.
                         Inr \<lparr> ab_version = version, ab_compressed = compressed, ab_encrypted = True,
                               ab_payload_offset = off,
                               encrypted_fields = Some \<lparr> user_salt = salt, checksum_salt = csalt, rounds = n,
                                 user_iv = iv, master_key_blob = blob, ef_payload_offset = off \<rparr> \<rparr>))))))))))"

definition parse_header :: "bytes \<Rightarrow> AndroidBackupRefusal + AndroidBackupHeader" where
  "parse_header d =
     with_line d 0 (\<lambda>magic off.
       if magic \<noteq> MAGIC then Inl BadMagic
       else with_line d off (\<lambda>line off.
         or_refuse (parse_u32 line) MalformedField (\<lambda>version.
           if \<not> supported_version version then Inl UnsupportedVersion
           else with_line d off (\<lambda>line off.
             or_refuse (if line = ''1'' then Some True else if line = ''0'' then Some False else None) MalformedField
               (\<lambda>compressed. with_line d off (\<lambda>line off.
                 or_refuse (if line = ENCRYPTION_NONE then Some False
                            else if line = ENCRYPTION_AES256 then Some True else None) MalformedField
                   (\<lambda>encrypted.
                     if \<not> encrypted
                     then Inr \<lparr> ab_version = version, ab_compressed = compressed, ab_encrypted = False,
                                ab_payload_offset = off, encrypted_fields = None \<rparr>
                     else parse_encrypted d off version compressed)))))))"

section \<open>The payload\<close>

datatype PayloadError = CorruptCompressedStream | DecompressedTooLarge

text \<open>
  The decoder hands out chunks and then ends or fails; the size is checked behind every chunk.
\<close>

definition decompress_if_needed :: "inflater \<Rightarrow> bytes \<Rightarrow> bool \<Rightarrow> nat \<Rightarrow> PayloadError + bytes" where
  "decompress_if_needed zlib payload compressed max_bytes =
     (if \<not> compressed then Inr payload
      else
        (case bounded_chunks max_bytes (inf_chunks zlib payload) [] of
           None \<Rightarrow> Inl DecompressedTooLarge
         | Some out \<Rightarrow> if inf_error zlib payload = None then Inr out else Inl CorruptCompressedStream))"

definition plaintext_tar_bytes ::
  "inflater \<Rightarrow> bytes \<Rightarrow> AndroidBackupHeader \<Rightarrow> nat \<Rightarrow> (PayloadError + bytes) outcome" where
  "plaintext_tar_bytes zlib d header max_bytes =
     (if length d < ab_payload_offset header then Panicked
      else Returned (decompress_if_needed zlib (drop (ab_payload_offset header) d) (ab_compressed header) max_bytes))"

section \<open>Headers as a writer lays them out\<close>

fun decimal :: "nat \<Rightarrow> string" where
  "decimal n = (if n < 10 then [char_of (48 + n)] else decimal (n div 10) @ [char_of (48 + n mod 10)])"

declare decimal.simps [simp del]

definition write_lines :: "string list \<Rightarrow> bytes" where
  "write_lines ls = concat (map (\<lambda>l. str_bytes l @ [0x0A]) ls)"

definition encrypted_lines :: "EncryptedBackupFields \<Rightarrow> string list" where
  "encrypted_lines f =
     [hex (user_salt f), hex (checksum_salt f), decimal (unat (rounds f)), hex (user_iv f), hex (master_key_blob f)]"

definition header_lines :: "u32 \<Rightarrow> bool \<Rightarrow> EncryptedBackupFields option \<Rightarrow> string list" where
  "header_lines version compressed ef =
     [MAGIC, decimal (unat version), if compressed then ''1'' else ''0'']
     @ (case ef of None \<Rightarrow> [ENCRYPTION_NONE] | Some f \<Rightarrow> ENCRYPTION_AES256 # encrypted_lines f)"

definition plain_line :: "string \<Rightarrow> bool" where
  "plain_line l \<longleftrightarrow> list_all (\<lambda>b. b < 128 \<and> b \<noteq> 0x0A) (str_bytes l)"

lemma decimal_digit_char: "k < 10 \<Longrightarrow> decimal_digit (char_of (48 + k)) = Some k"
  by (simp add: decimal_digit_def)

lemma decimal_value_append:
  "decimal_value (a @ b) acc = Option.bind (decimal_value a acc) (decimal_value b)"
  by (induction a arbitrary: acc) (simp_all split: option.split)

lemma decimal_value_decimal: "n < 2 ^ 32 \<Longrightarrow> decimal_value (decimal n) 0 = Some n"
proof (induction n rule: decimal.induct)
  case (1 n)
  show ?case
  proof (cases "n < 10")
    case True
    then show ?thesis by (subst decimal.simps) (simp add: decimal_digit_char)
  next
    case False
    then have "decimal_value (decimal (n div 10)) 0 = Some (n div 10)" using 1 by simp
    then show ?thesis
      using False 1(2) decimal_digit_char [of "n mod 10"] by (subst decimal.simps) (simp add: decimal_value_append)
  qed
qed

lemma char_of_plain:
  fixes k :: nat
  shows "k < 10 \<Longrightarrow> byte_of_char (char_of (48 + k)) < 128 \<and> byte_of_char (char_of (48 + k)) \<noteq> 0x0A
     \<and> char_of (48 + k) \<noteq> CHR ''+''"
proof -
  assume "k < 10"
  then have "k \<in> set [0, 1, 2, 3, 4, 5, 6, 7, 8, 9]" by auto
  moreover have "list_all (\<lambda>k. byte_of_char (char_of (48 + k)) < 128 \<and> byte_of_char (char_of (48 + k)) \<noteq> 0x0A
     \<and> char_of (48 + k) \<noteq> CHR ''+'') [0, 1, 2, 3, 4, 5, 6, 7, 8, 9 :: nat]"
    by (simp add: byte_of_char_def) code_simp
  ultimately show ?thesis unfolding list_all_iff by blast
qed

lemma plain_decimal: "plain_line (decimal n)"
proof (induction n rule: decimal.induct)
  case (1 n)
  then show ?case
    using char_of_plain [of n] char_of_plain [of "n mod 10"]
    by (subst decimal.simps) (simp add: plain_line_def str_bytes_def)
qed

lemma decimal_start: "decimal n \<noteq> [] \<and> hd (decimal n) \<noteq> CHR ''+''"
proof (induction n rule: decimal.induct)
  case (1 n)
  then show ?case using char_of_plain [of n] by (subst (1 2) decimal.simps) simp
qed

lemma parse_u32_decimal: "parse_u32 (decimal (unat v)) = Some v"
proof -
  have "unat v < 2 ^ LENGTH(32)" by (rule unsigned_less)
  then have "decimal_value (decimal (unat v)) 0 = Some (unat v)" by (intro decimal_value_decimal) simp
  moreover have "take 1 (decimal (unat v)) \<noteq> ''+''" "decimal (unat v) \<noteq> []"
    using decimal_start [of "unat v"] by (cases "decimal (unat v)"; simp)+
  ultimately show ?thesis by (simp add: parse_u32_def)
qed

lemma hex_byte_nibbles: "hex_byte (hex_digit (unat (drop_bit 4 b))) (hex_digit (unat (and b 0x0f))) = Some b"
proof -
  note n = nibbles [of b]
  have "mask 4 = (0x0f :: u8)" by (simp add: mask_eq_exp_minus_1)
  then have low: "and b 0x0f = take_bit 4 b" by (simp add: take_bit_eq_mask)
  have "push_bit 4 (ucast (drop_bit 4 b) :: u32) OR ucast (and b 0x0f) = ucast b"
  proof (rule bit_eqI)
    fix k
    assume "possible_bit TYPE(32 word) k"
    then show "bit (push_bit 4 (ucast (drop_bit 4 b) :: u32) OR ucast (and b 0x0f)) k = bit (ucast b :: u32) k"
      unfolding low by (cases "k < 4") (auto simp: bit_simps dest: bit_imp_le_length)
  qed
  moreover have "ucast (ucast b :: u32) = b" by (rule bit_eqI) (auto simp: bit_simps dest: bit_imp_le_length)
  ultimately show ?thesis
    using hex_digit_value [OF n(1)] hex_digit_value [OF n(2)]
    by (simp add: hex_byte_def)
qed

lemma hex_decode_hex: "hex_decode (hex bs) = Some bs"
proof -
  have "hex_bytes (hex bs) = Some bs" by (induction bs) (simp_all add: hex_byte_nibbles)
  then show ?thesis by (simp add: hex_decode_def)
qed

lemma plain_hex: "plain_line (hex bs)"
proof -
  have "list_all (\<lambda>n. byte_of_char (hex_digit n) < 128 \<and> byte_of_char (hex_digit n) \<noteq> 0x0A)
    [0, 1, 2, 3, 4, 5, 6, 7, 8, 9, 10, 11, 12, 13, 14, 15]"
    by (simp add: hex_digit_def byte_of_char_def)
  moreover have "n \<in> set [0, 1, 2, 3, 4, 5, 6, 7, 8, 9, 10, 11, 12, 13, 14, 15]" if "n < 16" for n :: nat
    using that by simp arith
  ultimately have "byte_of_char (hex_digit n) < 128 \<and> byte_of_char (hex_digit n) \<noteq> 0x0A" if "n < 16" for n
    using that unfolding list_all_iff by blast
  then show ?thesis by (induction bs) (simp_all add: plain_line_def str_bytes_def nibbles)
qed

lemma plain_words:
  "plain_line MAGIC" "plain_line ENCRYPTION_NONE" "plain_line ENCRYPTION_AES256" "plain_line ''1''" "plain_line ''0''"
  by (simp_all add: plain_line_def MAGIC_def ENCRYPTION_NONE_def ENCRYPTION_AES256_def str_bytes_def byte_of_char_def)

lemma next_line_plain:
  assumes "plain_line l"
  shows "next_line (pre @ str_bytes l @ 0x0A # r) (length pre) = Some (l, length (pre @ str_bytes l @ [0x0A]))"
proof -
  have "takeWhile (\<lambda>b. b \<noteq> 0x0A) (str_bytes l @ 0x0A # r) = str_bytes l"
    using assms by (auto simp: plain_line_def list_all_iff takeWhile_append2)
  moreover have "utf8_valid (str_bytes l)"
    using assms by (intro utf8_valid_ascii) (auto simp: plain_line_def list_all_iff)
  ultimately show ?thesis by (simp add: next_line_def Let_def)
qed

lemma with_line_plain:
  assumes "plain_line l"
  shows "with_line (write_lines seen @ write_lines (l # ls) @ r) (length (write_lines seen)) k
    = k l (length (write_lines (seen @ [l])))"
  using next_line_plain [OF assms, of "write_lines seen" "write_lines ls @ r"]
  by (simp add: with_line_def write_lines_def)

text \<open>The same with the lines already read on the left, for reading line after line.\<close>

lemma with_line_next:
  assumes "plain_line l" "d = write_lines (seen @ l # ls) @ r" "n = length (write_lines seen)"
  shows "with_line d n k = k l (length (write_lines (seen @ [l])))"
  using with_line_plain [OF assms(1), of seen ls r k] assms(2,3) by (simp add: write_lines_def)

definition backup_header :: "u32 \<Rightarrow> bool \<Rightarrow> EncryptedBackupFields option \<Rightarrow> nat \<Rightarrow> AndroidBackupHeader" where
  "backup_header version compressed ef off =
     \<lparr> ab_version = version, ab_compressed = compressed, ab_encrypted = (ef \<noteq> None), ab_payload_offset = off,
       encrypted_fields = map_option (\<lambda>f. f\<lparr> ef_payload_offset := off \<rparr>) ef \<rparr>"

lemma parse_encrypted_lines:
  assumes d: "d = write_lines (seen @ encrypted_lines f) @ r" and off: "off = length (write_lines seen)"
    and salt: "length (user_salt f) = USER_SALT_BYTES"
  shows "parse_encrypted d off version compressed
    = Inr (backup_header version compressed (Some f) (length (write_lines (seen @ encrypted_lines f))))"
proof -
  let ?a = "hex (user_salt f)" and ?b = "hex (checksum_salt f)" and ?c = "decimal (unat (rounds f))"
    and ?e = "hex (user_iv f)" and ?g = "hex (master_key_blob f)"
  note l = with_line_next [OF plain_hex] with_line_next [OF plain_decimal]
  have 1: "with_line d off k = k ?a (length (write_lines (seen @ [?a])))"
    for k :: "string \<Rightarrow> nat \<Rightarrow> AndroidBackupRefusal + AndroidBackupHeader"
    using off by (intro l(1) [of d seen _ "tl (encrypted_lines f)" r]) (simp_all add: d encrypted_lines_def)
  have 2: "with_line d (length (write_lines (seen @ [?a]))) k = k ?b (length (write_lines ((seen @ [?a]) @ [?b])))"
    for k :: "string \<Rightarrow> nat \<Rightarrow> AndroidBackupRefusal + AndroidBackupHeader"
    by (intro l(1) [of d _ _ "[?c, ?e, ?g]" r]) (simp_all add: d encrypted_lines_def)
  have 3: "with_line d (length (write_lines ((seen @ [?a]) @ [?b]))) k
      = k ?c (length (write_lines (((seen @ [?a]) @ [?b]) @ [?c])))"
    for k :: "string \<Rightarrow> nat \<Rightarrow> AndroidBackupRefusal + AndroidBackupHeader"
    by (intro l(2) [of d _ _ "[?e, ?g]" r]) (simp_all add: d encrypted_lines_def)
  have 4: "with_line d (length (write_lines (((seen @ [?a]) @ [?b]) @ [?c]))) k
      = k ?e (length (write_lines ((((seen @ [?a]) @ [?b]) @ [?c]) @ [?e])))"
    for k :: "string \<Rightarrow> nat \<Rightarrow> AndroidBackupRefusal + AndroidBackupHeader"
    by (intro l(1) [of d _ _ "[?g]" r]) (simp_all add: d encrypted_lines_def)
  have 5: "with_line d (length (write_lines ((((seen @ [?a]) @ [?b]) @ [?c]) @ [?e]))) k
      = k ?g (length (write_lines (seen @ encrypted_lines f)))"
    for k :: "string \<Rightarrow> nat \<Rightarrow> AndroidBackupRefusal + AndroidBackupHeader"
    using l(1) [of d "(((seen @ [?a]) @ [?b]) @ [?c]) @ [?e]" "master_key_blob f" "[]" r _ k]
    by (simp add: d encrypted_lines_def)
  show ?thesis
    unfolding parse_encrypted_def 1 2 3 4 5 or_refuse_def hex_decode_hex parse_u32_decimal option.case
    using salt by (simp add: backup_header_def)
qed

lemma parse_header_lines:
  assumes v: "supported_version version" and salt: "\<forall>f. ef = Some f \<longrightarrow> length (user_salt f) = USER_SALT_BYTES"
    and d: "d = write_lines (header_lines version compressed ef) @ payload"
  shows "parse_header d = Inr (backup_header version compressed ef (length d - length payload))"
proof -
  let ?v = "decimal (unat version)" and ?c = "if compressed then ''1'' else ''0''"
    and ?e = "case ef of None \<Rightarrow> ENCRYPTION_NONE | Some _ \<Rightarrow> ENCRYPTION_AES256"
    and ?rest = "case ef of None \<Rightarrow> [] | Some f \<Rightarrow> encrypted_lines f"
  have d': "d = write_lines ([MAGIC, ?v, ?c, ?e] @ ?rest) @ payload"
    unfolding d header_lines_def by (cases ef) simp_all
  have plain: "plain_line ?c" "plain_line ?e" using plain_words by (simp_all split: option.split)
  have 1: "with_line d 0 k = k MAGIC (length (write_lines [MAGIC]))"
    for k :: "string \<Rightarrow> nat \<Rightarrow> AndroidBackupRefusal + AndroidBackupHeader"
    using with_line_next [OF plain_words(1), of d "[]" "[?v, ?c, ?e] @ ?rest" payload 0 k] by (simp add: d' write_lines_def)
  have 2: "with_line d (length (write_lines [MAGIC])) k = k ?v (length (write_lines [MAGIC, ?v]))"
    for k :: "string \<Rightarrow> nat \<Rightarrow> AndroidBackupRefusal + AndroidBackupHeader"
    using with_line_next [OF plain_decimal, of d "[MAGIC]" "unat version" "[?c, ?e] @ ?rest" payload _ k] by (simp add: d')
  have 3: "with_line d (length (write_lines [MAGIC, ?v])) k = k ?c (length (write_lines [MAGIC, ?v, ?c]))"
    for k :: "string \<Rightarrow> nat \<Rightarrow> AndroidBackupRefusal + AndroidBackupHeader"
    using with_line_next [OF plain(1), of d "[MAGIC, ?v]" "?e # ?rest" payload _ k] by (simp add: d')
  have 4: "with_line d (length (write_lines [MAGIC, ?v, ?c])) k = k ?e (length (write_lines [MAGIC, ?v, ?c, ?e]))"
    for k :: "string \<Rightarrow> nat \<Rightarrow> AndroidBackupRefusal + AndroidBackupHeader"
    using with_line_next [OF plain(2), of d "[MAGIC, ?v, ?c]" ?rest payload _ k] by (simp add: d')
  have comp: "(if ?c = ''1'' then Some True else if ?c = ''0'' then Some False else None) = Some compressed" by simp
  have off: "length d - length payload = length (write_lines ([MAGIC, ?v, ?c, ?e] @ ?rest))" by (simp add: d')
  show ?thesis
  proof (cases ef)
    case None
    then show ?thesis
      unfolding parse_header_def 1 2 3 4 comp or_refuse_def parse_u32_decimal option.case off
      using v by (simp add: backup_header_def)
  next
    case (Some f)
    have "parse_encrypted d (length (write_lines [MAGIC, ?v, ?c, ?e])) version compressed
        = Inr (backup_header version compressed ef (length (write_lines ([MAGIC, ?v, ?c, ?e] @ ?rest))))"
      using Some salt parse_encrypted_lines [of d "[MAGIC, ?v, ?c, ?e]" f payload] by (simp add: d')
    then show ?thesis
      unfolding parse_header_def 1 2 3 4 comp or_refuse_def parse_u32_decimal option.case off
      using v Some by (simp add: ENCRYPTION_NONE_def ENCRYPTION_AES256_def)
  qed
qed

section \<open>What the parser accepts\<close>

lemma next_line_bounds: "next_line d off = Some (l, off') \<Longrightarrow> off < off' \<and> off' \<le> length d"
  by (auto simp: next_line_def Let_def split: if_splits)

lemma with_line_Inr:
  "with_line d off k = Inr h \<Longrightarrow> \<exists>l off'. off' \<le> length d \<and> k l off' = Inr h"
  by (auto simp: with_line_def split: option.splits dest: next_line_bounds)

lemma or_refuse_Inr: "or_refuse r err k = Inr h \<Longrightarrow> \<exists>x. r = Some x \<and> k x = Inr h"
  by (simp add: or_refuse_def split: option.splits)

definition header_valid :: "bytes \<Rightarrow> AndroidBackupHeader \<Rightarrow> bool" where
  "header_valid d h \<longleftrightarrow>
     supported_version (ab_version h) \<and> ab_payload_offset h \<le> length d
     \<and> (case encrypted_fields h of
          None \<Rightarrow> \<not> ab_encrypted h
        | Some f \<Rightarrow> ab_encrypted h \<and> length (user_salt f) = USER_SALT_BYTES \<and> ef_payload_offset f = ab_payload_offset h)"

lemma parse_encrypted_valid:
  "parse_encrypted d off version compressed = Inr h \<Longrightarrow> supported_version version \<Longrightarrow> header_valid d h"
  unfolding parse_encrypted_def
  by (auto simp: header_valid_def dest!: with_line_Inr or_refuse_Inr split: if_splits)

lemma parse_header_valid: "parse_header d = Inr h \<Longrightarrow> header_valid d h"
  unfolding parse_header_def
  by (auto dest!: with_line_Inr or_refuse_Inr parse_encrypted_valid split: if_splits simp: header_valid_def)

lemma bounded_chunks_exact:
  "length out \<le> mx \<Longrightarrow>
     bounded_chunks mx cs out = (if length (out @ concat cs) \<le> mx then Some (out @ concat cs) else None)"
  by (induction cs arbitrary: out) auto

lemma decompress_exact:
  "decompress_if_needed zlib payload compressed mx =
    (if \<not> compressed then Inr payload
     else if mx < length (concat (inf_chunks zlib payload)) then Inl DecompressedTooLarge
     else if inf_error zlib payload = None then Inr (concat (inf_chunks zlib payload))
     else Inl CorruptCompressedStream)"
  by (simp add: decompress_if_needed_def bounded_chunks_exact)

lemma plaintext_valid:
  assumes "parse_header d = Inr h"
  shows "plaintext_tar_bytes zlib d h mx
    = Returned (decompress_if_needed zlib (drop (ab_payload_offset h) d) (ab_compressed h) mx)"
  using parse_header_valid [OF assms] by (simp add: plaintext_tar_bytes_def header_valid_def)

text \<open>
  C22. Backup headers round-trip: for every supported version, compressed or not, plain or encrypted with
  any salts, rounds, vector and key blob, the parser reads the header that a writer lays out
  back field by field and the payload is cut exactly where the header ends.
\<close>

theorem backup_header_roundtrip:
  assumes "supported_version version" "\<forall>f. ef = Some f \<longrightarrow> length (user_salt f) = USER_SALT_BYTES"
    "d = write_lines (header_lines version compressed ef) @ payload"
  shows "parse_header d = Inr (backup_header version compressed ef (length d - length payload))
    \<and> plaintext_tar_bytes zlib d (backup_header version compressed ef (length d - length payload)) mx
        = Returned (decompress_if_needed zlib payload compressed mx)"
proof -
  note p = parse_header_lines [OF assms]
  have "drop (length d - length payload) d = payload" by (simp add: assms(3))
  then show ?thesis using p plaintext_valid [OF p, of zlib mx] by (simp add: backup_header_def)
qed

text \<open>
  C23. A header that is accepted is safe to use: its version is supported, its payload starts inside the
  file, it has the encrypted fields exactly when it is encrypted, with a salt of 64 bytes; and
  taking its payload never panics, returns a stored payload as it is, and a compressed one only
  when the decoder ended without an error within the bound, whole.
\<close>

theorem backup_payload_bounded:
  assumes "parse_header d = Inr h"
  shows "header_valid d h
    \<and> plaintext_tar_bytes zlib d h mx
      = Returned (let payload = drop (ab_payload_offset h) d in
          if \<not> ab_compressed h then Inr payload
          else if mx < length (concat (inf_chunks zlib payload)) then Inl DecompressedTooLarge
          else if inf_error zlib payload = None then Inr (concat (inf_chunks zlib payload))
          else Inl CorruptCompressedStream)"
  using parse_header_valid [OF assms] unfolding plaintext_valid [OF assms] decompress_exact Let_def by simp

section \<open>An encrypted container\<close>

definition example_fields :: EncryptedBackupFields where
  "example_fields =
     \<lparr> user_salt = replicate 64 0xab, checksum_salt = replicate 8 0xcd, rounds = 10000, user_iv = replicate 16 0x11,
       master_key_blob = [0xde, 0xad, 0xbe, 0xef], ef_payload_offset = 0 \<rparr>"

definition stored_zlib :: inflater where
  "stored_zlib = \<lparr> inf_chunks = (\<lambda>d. [d]), inf_error = (\<lambda>_. None), inf_total_in = length \<rparr>"

definition example_backup :: bytes where
  "example_backup = write_lines (header_lines 5 True (Some example_fields)) @ [1, 2, 3]"

lemma example_parses: "\<exists>off. parse_header example_backup = Inr (backup_header 5 True (Some example_fields) off)"
  using parse_header_lines [of 5 "Some example_fields" example_backup True "[1, 2, 3]"]
  by (auto simp: supported_version_def example_fields_def USER_SALT_BYTES_def example_backup_def)

theorem backup_header_roundtrip_witness:
  "\<exists>off. parse_header example_backup = Inr (backup_header 5 True (Some example_fields) off)
    \<and> plaintext_tar_bytes stored_zlib example_backup (backup_header 5 True (Some example_fields) off) 100 = Returned (Inr [1, 2, 3])"
  using backup_header_roundtrip [of 5 "Some example_fields" example_backup True "[1, 2, 3]" stored_zlib 100]
  by (auto simp: supported_version_def example_fields_def USER_SALT_BYTES_def example_backup_def decompress_exact
      stored_zlib_def intro!: exI)

theorem backup_payload_bounded_witness:
  "\<exists>h. parse_header example_backup = Inr h \<and> header_valid example_backup h
    \<and> (\<exists>r. plaintext_tar_bytes stored_zlib example_backup h 2 = Returned r)"
  using example_parses backup_payload_bounded [of example_backup _ stored_zlib 2] by blast

end
