(* ===== verification/Field_Map.thy ===== *)
theory Field_Map
  imports Zip_Build
begin

text \<open>
  The field tables of the formats (\<open>phx_analyze_engine/src/reader/field_map.rs\<close>): where a named
  field lies, how long it is, the bytes it must hold and the range of its value, with the lookups
  by format and by name.
  Shown: the names are unambiguous and every table is consistent in itself; the ZIP table agrees
  with the writers, field by field.
\<close>

section \<open>Tables\<close>

datatype OffsetRule = FixedAt nat | FromEnd nat | AfterField string | EntryRelative nat | Computed

datatype FieldLength = FixedLength nat | VariableLength

record FieldDef =
  fd_name :: string
  fd_description :: string
  offset_rule :: OffsetRule
  fd_length :: FieldLength
  expected_value :: "bytes option"
  valid_range :: "(nat \<times> nat) option"

definition field_def ::
  "string \<Rightarrow> string \<Rightarrow> OffsetRule \<Rightarrow> FieldLength \<Rightarrow> bytes option \<Rightarrow> (nat \<times> nat) option \<Rightarrow> FieldDef" where
  "field_def name description rule len expected bnds =
     \<lparr> fd_name = name, fd_description = description, offset_rule = rule, fd_length = len,
       expected_value = expected, valid_range = bnds \<rparr>"

definition ZIP_FIELDS :: "FieldDef list" where
  "ZIP_FIELDS =
    [field_def ''LocalFileHeader.signature'' ''Local file header signature'' (FixedAt 0) (FixedLength 4) (Some [0x50, 0x4B, 0x03, 0x04]) None,
     field_def ''LocalFileHeader.version_needed'' ''Version needed to extract'' (EntryRelative 4) (FixedLength 2) None (Some (10, 63)),
     field_def ''LocalFileHeader.flags'' ''General purpose bit flag'' (EntryRelative 6) (FixedLength 2) None (Some (0x0000, 0x083F)),
     field_def ''LocalFileHeader.compression'' ''Compression method'' (EntryRelative 8) (FixedLength 2) None (Some (0, 20)),
     field_def ''LocalFileHeader.crc32'' ''CRC-32 of uncompressed data'' (EntryRelative 14) (FixedLength 4) None None,
     field_def ''LocalFileHeader.compressed_size'' ''Compressed size'' (EntryRelative 18) (FixedLength 4) None None,
     field_def ''LocalFileHeader.uncompressed_size'' ''Uncompressed size'' (EntryRelative 22) (FixedLength 4) None None,
     field_def ''LocalFileHeader.filename_len'' ''File name length'' (EntryRelative 26) (FixedLength 2) None (Some (1, 65535)),
     field_def ''LocalFileHeader.extra_len'' ''Extra field length'' (EntryRelative 28) (FixedLength 2) None (Some (0, 65535)),
     field_def ''CentralDirHeader.signature'' ''Central directory file header signature'' Computed (FixedLength 4) (Some [0x50, 0x4B, 0x01, 0x02]) None,
     field_def ''CentralDirHeader.disk_number_start'' ''Disk number start'' (EntryRelative 34) (FixedLength 2) None (Some (0, 0)),
     field_def ''EOCD.signature'' ''End of central directory signature'' (FromEnd 22) (FixedLength 4) (Some [0x50, 0x4B, 0x05, 0x06]) None,
     field_def ''EOCD.disk_number'' ''Number of this disk'' (FromEnd 18) (FixedLength 2) None (Some (0, 0)),
     field_def ''EOCD.cd_start_disk'' ''Disk where central directory starts'' (FromEnd 16) (FixedLength 2) None (Some (0, 0)),
     field_def ''EOCD.cd_entry_count_disk'' ''CD entries on this disk'' (FromEnd 14) (FixedLength 2) None None,
     field_def ''EOCD.cd_entry_count_total'' ''Total CD entries'' (FromEnd 12) (FixedLength 2) None (Some (1, 65535)),
     field_def ''EOCD.cd_size'' ''Size of central directory'' (FromEnd 10) (FixedLength 4) None None,
     field_def ''EOCD.cd_offset'' ''Offset of central directory'' (FromEnd 6) (FixedLength 4) None None,
     field_def ''EOCD.comment_len'' ''Comment length'' (FromEnd 2) (FixedLength 2) None (Some (0, 65535)),
     field_def ''ZIP64_EOCD_Locator.signature'' ''ZIP64 EOCD locator signature'' Computed (FixedLength 4) (Some [0x50, 0x4B, 0x06, 0x07]) None,
     field_def ''ZIP64_EOCD_Locator.eocd64_offset'' ''Offset of ZIP64 EOCD'' Computed (FixedLength 8) None None]"

definition TAR_FIELDS :: "FieldDef list" where
  "TAR_FIELDS =
    [field_def ''UStarHeader.name'' ''File name'' (EntryRelative 0) (FixedLength 100) None None,
     field_def ''UStarHeader.size'' ''File size (octal)'' (EntryRelative 124) (FixedLength 12) None None,
     field_def ''UStarHeader.checksum'' ''Header checksum (octal)'' (EntryRelative 148) (FixedLength 8) None None,
     field_def ''UStarHeader.typeflag'' ''Type flag'' (EntryRelative 156) (FixedLength 1) None None,
     field_def ''UStarHeader.magic'' ''UStar magic'' (EntryRelative 257) (FixedLength 6) (Some (str_bytes ''ustar'' @ [0])) None]"

definition ISO_FIELDS :: "FieldDef list" where
  "ISO_FIELDS =
    [field_def ''PrimaryVolumeDescriptor.type'' ''Volume descriptor type'' (FixedAt 32768) (FixedLength 1) (Some [1]) None,
     field_def ''PrimaryVolumeDescriptor.magic'' ''Standard identifier'' (FixedAt 32769) (FixedLength 5) (Some (str_bytes ''CD001'')) None,
     field_def ''PrimaryVolumeDescriptor.volume_space'' ''Volume space size (LE)'' (FixedAt (32768 + 80)) (FixedLength 4) None None,
     field_def ''PrimaryVolumeDescriptor.path_table_size'' ''Path table size (LE)'' (FixedAt (32768 + 132)) (FixedLength 4) None None,
     field_def ''PrimaryVolumeDescriptor.path_table_location'' ''L-path table location (LBA)'' (FixedAt (32768 + 140)) (FixedLength 4) None None]"

definition GZIP_FIELDS :: "FieldDef list" where
  "GZIP_FIELDS =
    [field_def ''gzip.magic'' ''Magic bytes'' (FixedAt 0) (FixedLength 2) (Some [0x1F, 0x8B]) None,
     field_def ''gzip.cm'' ''Compression method'' (FixedAt 2) (FixedLength 1) (Some [8]) (Some (8, 8)),
     field_def ''gzip.flags'' ''Flags'' (FixedAt 3) (FixedLength 1) None None,
     field_def ''gzip.crc32'' ''CRC-32 of uncompressed data (trailer)'' (FromEnd 8) (FixedLength 4) None None,
     field_def ''gzip.isize'' ''Uncompressed size mod 2^32 (trailer)'' (FromEnd 4) (FixedLength 4) None None]"

definition RAR_FIELDS :: "FieldDef list" where
  "RAR_FIELDS =
    [field_def ''rar.signature'' ''RAR signature'' (FixedAt 0) (FixedLength 8) (Some [0x52, 0x61, 0x72, 0x21, 0x1A, 0x07, 0x01, 0x00]) None]"

definition SEVENZ_FIELDS :: "FieldDef list" where
  "SEVENZ_FIELDS =
    [field_def ''sevenz.signature'' ''7z signature'' (FixedAt 0) (FixedLength 6) (Some [0x37, 0x7A, 0xBC, 0xAF, 0x27, 0x1C]) None]"

definition PDF_FIELDS :: "FieldDef list" where
  "PDF_FIELDS =
    [field_def ''pdf.header'' ''PDF header'' (FixedAt 0) (FixedLength 5) (Some (str_bytes ''%PDF-'')) None]"

definition SQLITE_FIELDS :: "FieldDef list" where
  "SQLITE_FIELDS =
    [field_def ''sqlite.magic'' ''Header magic'' (FixedAt 0) (FixedLength 16) (Some (str_bytes ''SQLite format 3'' @ [0])) None,
     field_def ''sqlite.page_size'' ''Page size (BE)'' (FixedAt 16) (FixedLength 2) None None]"

definition fields_for :: "string \<Rightarrow> FieldDef list" where
  "fields_for format =
     (if format = ''ZIP'' then ZIP_FIELDS
      else if format = ''TAR'' then TAR_FIELDS
      else if format = ''ISO'' then ISO_FIELDS
      else if format = ''GZIP'' then GZIP_FIELDS
      else if format = ''RAR'' then RAR_FIELDS
      else if format = ''7Z'' then SEVENZ_FIELDS
      else if format = ''PDF'' then PDF_FIELDS
      else if format = ''SQLite'' then SQLITE_FIELDS
      else [])"

definition all_fields :: "FieldDef list" where
  "all_fields =
     concat [ZIP_FIELDS, TAR_FIELDS, ISO_FIELDS, GZIP_FIELDS, RAR_FIELDS, SEVENZ_FIELDS, PDF_FIELDS, SQLITE_FIELDS]"

definition field_named :: "string \<Rightarrow> FieldDef option" where
  "field_named name = find (\<lambda>f. fd_name f = name) all_fields"

section \<open>Consistency\<close>

text \<open>Expected bytes fill the field, and a range is a range of values the field can hold.\<close>

definition field_consistent :: "FieldDef \<Rightarrow> bool" where
  "field_consistent f \<longleftrightarrow>
     (case fd_length f of
        FixedLength n \<Rightarrow>
          0 < n \<and> (case expected_value f of None \<Rightarrow> True | Some v \<Rightarrow> length v = n)
          \<and> (case valid_range f of None \<Rightarrow> True | Some (lo, hi) \<Rightarrow> lo \<le> hi \<and> hi < 256 ^ n)
          \<and> (case offset_rule f of FromEnd k \<Rightarrow> n \<le> k | _ \<Rightarrow> True)
      | VariableLength \<Rightarrow> True)"

lemma tables_consistent: "list_all field_consistent all_fields"
  by (simp add: all_fields_def ZIP_FIELDS_def TAR_FIELDS_def ISO_FIELDS_def GZIP_FIELDS_def RAR_FIELDS_def
      SEVENZ_FIELDS_def PDF_FIELDS_def SQLITE_FIELDS_def field_def_def field_consistent_def str_bytes_def)

lemma names_distinct: "distinct (map fd_name all_fields)"
  by (simp add: all_fields_def ZIP_FIELDS_def TAR_FIELDS_def ISO_FIELDS_def GZIP_FIELDS_def RAR_FIELDS_def
      SEVENZ_FIELDS_def PDF_FIELDS_def SQLITE_FIELDS_def field_def_def)

lemma find_distinct:
  "distinct (map k xs) \<Longrightarrow> find (\<lambda>x. k x = n) xs = Some y \<longleftrightarrow> y \<in> set xs \<and> k y = n"
  by (induction xs) (auto simp: image_iff)

lemma field_named_exact: "field_named n = Some f \<longleftrightarrow> f \<in> set all_fields \<and> fd_name f = n"
  unfolding field_named_def by (rule find_distinct [OF names_distinct])

section \<open>The ZIP table and the writers\<close>

definition field_position :: "nat \<Rightarrow> nat \<Rightarrow> OffsetRule \<Rightarrow> nat option" where
  "field_position file_len entry rule =
     (case rule of
        FixedAt a \<Rightarrow> Some a
      | FromEnd a \<Rightarrow> if a \<le> file_len then Some (file_len - a) else None
      | EntryRelative a \<Rightarrow> Some (entry + a)
      | _ \<Rightarrow> None)"

text \<open>The bytes at the field's place are the expected ones, and their little-endian value is in range.\<close>

definition field_holds :: "bytes \<Rightarrow> nat \<Rightarrow> FieldDef \<Rightarrow> bool" where
  "field_holds d entry f \<longleftrightarrow>
     (case (field_position (length d) entry (offset_rule f), fd_length f) of
        (Some p, FixedLength n) \<Rightarrow>
          p + n \<le> length d
          \<and> (case expected_value f of None \<Rightarrow> True | Some v \<Rightarrow> cut d p (p + n) = v)
          \<and> (case valid_range f of None \<Rightarrow> True
             | Some (lo, hi) \<Rightarrow> lo \<le> le_nat (cut d p (p + n)) \<and> le_nat (cut d p (p + n)) \<le> hi)
      | _ \<Rightarrow> False)"

text \<open>The little-endian number the field holds, when the file reaches that far.\<close>

definition field_value :: "bytes \<Rightarrow> nat \<Rightarrow> FieldDef \<Rightarrow> nat option" where
  "field_value d entry f =
     (case (field_position (length d) entry (offset_rule f), fd_length f) of
        (Some p, FixedLength n) \<Rightarrow> if p + n \<le> length d then Some (le_nat (cut d p (p + n))) else None
      | _ \<Rightarrow> None)"

definition fields_of :: "string \<Rightarrow> FieldDef list" where
  "fields_of pfx = filter (\<lambda>f. take (length pfx) (fd_name f) = pfx \<and> offset_rule f \<noteq> Computed) ZIP_FIELDS"

lemma local_fields:
  "fields_of ''LocalFileHeader.'' = take 9 ZIP_FIELDS" "fields_of ''EOCD.'' = take 8 (drop 11 ZIP_FIELDS)"
  "fields_of ''CentralDirHeader.'' = [ZIP_FIELDS ! 10]"
  by (simp_all add: fields_of_def ZIP_FIELDS_def field_def_def)

lemma le_nat_u16 [simp]: "le_nat (u16_bytes w) = unat w"
proof -
  have "unat w < 2 ^ LENGTH(16)" by (rule unsigned_less)
  then show ?thesis by (simp add: u16_bytes_def le_nat_to_le)
qed

lemma le_nat_u32 [simp]: "le_nat (u32_bytes w) = unat w"
proof -
  have "unat w < 2 ^ LENGTH(32)" by (rule unsigned_less)
  then show ?thesis by (simp add: u32_bytes_def le_nat_to_le)
qed

lemma signature_bytes:
  "u32_bytes LFH_SIG = [0x50, 0x4B, 0x03, 0x04]" "u32_bytes EOCD_SIG = [0x50, 0x4B, 0x05, 0x06]"
  by (simp_all add: u32_bytes_def to_le_4 LFH_SIG_def EOCD_SIG_def)

text \<open>
  The records as the format lays them out, for any values: a table that misplaces a field reads another
  value from some record.
\<close>

definition local_layout ::
  "u16 \<Rightarrow> u16 \<Rightarrow> u16 \<Rightarrow> u16 \<Rightarrow> u16 \<Rightarrow> u32 \<Rightarrow> u32 \<Rightarrow> u32 \<Rightarrow> u16 \<Rightarrow> u16 \<Rightarrow> bytes" where
  "local_layout version flags meth time date crc packed plain name_len extra_len =
     u32_bytes LFH_SIG @ u16_bytes version @ u16_bytes flags @ u16_bytes meth @ u16_bytes time @ u16_bytes date
     @ u32_bytes crc @ u32_bytes packed @ u32_bytes plain @ u16_bytes name_len @ u16_bytes extra_len"

definition directory_layout ::
  "u16 list \<Rightarrow> u32 list \<Rightarrow> u16 list \<Rightarrow> u16 \<Rightarrow> u16 \<Rightarrow> u32 list \<Rightarrow> bytes" where
  "directory_layout head sizes lens disk attrs rest =
     u32_bytes CDFH_SIG @ concat (map u16_bytes head) @ concat (map u32_bytes sizes) @ concat (map u16_bytes lens)
     @ u16_bytes disk @ u16_bytes attrs @ concat (map u32_bytes rest)"

definition end_layout :: "u16 \<Rightarrow> u16 \<Rightarrow> u16 \<Rightarrow> u16 \<Rightarrow> u32 \<Rightarrow> u32 \<Rightarrow> u16 \<Rightarrow> bytes" where
  "end_layout disk cd_disk here entries cd_size cd_offset comment_len =
     u32_bytes EOCD_SIG @ u16_bytes disk @ u16_bytes cd_disk @ u16_bytes here @ u16_bytes entries
     @ u32_bytes cd_size @ u32_bytes cd_offset @ u16_bytes comment_len"

lemma local_layout_values:
  "map (field_value (pre @ local_layout v fl m t dt c k u n x @ r) (length pre)) (drop 1 (fields_of ''LocalFileHeader.''))
    = map Some [unat v, unat fl, unat m, unat c, unat k, unat u, unat n, unat x]"
proof -
  let ?l = "local_layout v fl m t dt c k u n x @ r"
  have cuts: "cut ?l 4 6 = u16_bytes v" "cut ?l 6 8 = u16_bytes fl" "cut ?l 8 10 = u16_bytes m"
    "cut ?l 14 18 = u32_bytes c" "cut ?l 18 22 = u32_bytes k" "cut ?l 22 26 = u32_bytes u"
    "cut ?l 26 28 = u16_bytes n" "cut ?l 28 30 = u16_bytes x"
    by (simp_all add: local_layout_def cut_append_right cut_0)
  have "30 \<le> length ?l" by (simp add: local_layout_def)
  with cuts show ?thesis
    by (simp add: local_fields ZIP_FIELDS_def field_def_def field_value_def field_position_def Suc_le_eq cut_append_right)
qed

lemma end_layout_values:
  "map (field_value (pre @ end_layout a b n m sz off cl) entry) (fields_of ''EOCD.'')
    = map Some [unat EOCD_SIG, unat a, unat b, unat n, unat m, unat sz, unat off, unat cl]"
proof -
  let ?l = "end_layout a b n m sz off cl"
  have cuts: "cut ?l 0 4 = u32_bytes EOCD_SIG" "cut ?l 4 6 = u16_bytes a" "cut ?l 6 8 = u16_bytes b"
    "cut ?l 8 10 = u16_bytes n" "cut ?l 10 12 = u16_bytes m" "cut ?l 12 16 = u32_bytes sz"
    "cut ?l 16 20 = u32_bytes off" "cut ?l 20 22 = u16_bytes cl"
    by (simp_all add: end_layout_def cut_append_right cut_0)
  have "length ?l = 22" by (simp add: end_layout_def)
  with cuts show ?thesis
    by (simp add: local_fields ZIP_FIELDS_def field_def_def field_value_def field_position_def cut_append_right)
qed

lemma directory_layout_values:
  assumes "length head = 6" "length sizes = 3" "length lens = 3"
  shows "map (field_value (pre @ directory_layout head sizes lens disk attrs rest @ r) (length pre))
      (fields_of ''CentralDirHeader.'') = [Some (unat disk)]"
proof -
  have "length (concat (map u16_bytes ws)) = 2 * length ws" "length (concat (map u32_bytes vs)) = 4 * length vs" for ws vs
    by (induction ws) (simp_all, induction vs, simp_all)
  with assms have "cut (directory_layout head sizes lens disk attrs rest @ r) 34 36 = u16_bytes disk"
    "36 \<le> length (directory_layout head sizes lens disk attrs rest @ r)"
    by (simp_all add: directory_layout_def cut_append_right cut_0)
  then show ?thesis
    by (simp add: local_fields ZIP_FIELDS_def field_def_def field_value_def field_position_def cut_append_right)
qed

text \<open>What a writer puts in a member's local header.\<close>

definition member_values ::
  "bool \<Rightarrow> (bytes \<Rightarrow> bytes) \<Rightarrow> (bytes \<Rightarrow> u32) \<Rightarrow> part \<Rightarrow> nat list" where
  "member_values streamed deflate crc p =
     (case (p, pack deflate (snd p)) of
        ((name, dat), (meth, payload)) \<Rightarrow>
          [20, if streamed then 8 else 0, unat meth]
          @ (if streamed then [0, 0, 0] else [unat (crc dat), length payload, length dat])
          @ [length name, 0])"

lemma part_local_values:
  assumes fits: "part_fits deflate dec p"
  shows "map (field_value (pre @ part_local s deflate crc p @ r) (length pre)) (drop 1 (fields_of ''LocalFileHeader.''))
    = map Some (member_values s deflate crc p)"
proof -
  obtain name dat where p: "p = (name, dat)" by (cases p)
  obtain meth payload where k: "pack deflate dat = (meth, payload)" by fastforce
  have "length payload \<le> length dat" using pack_small [of deflate dat] k by simp
  then have len: "length name < 2 ^ 16" "length dat < 2 ^ 32" "length payload < 2 ^ 32"
    using fits p by (auto simp: part_fits_def)
  note u = unat_of_nat_len(2) [OF len(1)] unat_of_nat_len(1) [OF len(2)] unat_of_nat_len(1) [OF len(3)]
  show ?thesis
  proof (cases s)
    case True
    then have b: "part_local s deflate crc p = local_layout 20 8 meth 0 0 0 0 0 (of_nat (length name)) 0
        @ str_bytes name @ payload @ u32_bytes DD_SIG @ u32_bytes (crc dat) @ u32_bytes (of_nat (length payload))
        @ u32_bytes (of_nat (length dat))"
      using p k by (simp add: part_local_def write_part_streamed_def local_layout_def)
    show ?thesis
      unfolding b append_assoc local_layout_values using True p k u by (simp add: member_values_def)
  next
    case False
    then have b: "part_local s deflate crc p = local_layout 20 0 meth 0 0 (crc dat) (of_nat (length payload))
        (of_nat (length dat)) (of_nat (length name)) 0 @ str_bytes name @ payload"
      using p k by (simp add: part_local_def write_part_def local_layout_def)
    show ?thesis
      unfolding b append_assoc local_layout_values using False p k u by (simp add: member_values_def)
  qed
qed

lemma members_values:
  assumes "list_all (part_fits deflate dec) ps"
  shows "list_all2 (\<lambda>p h. map (field_value (pre @ concat (map (part_local s deflate crc) ps) @ r) (lfh_offset h))
        (drop 1 (fields_of ''LocalFileHeader.'')) = map Some (member_values s deflate crc p))
      ps (part_headers s deflate crc (length pre) ps)"
  using assms
proof (induction ps arbitrary: pre)
  case (Cons p ps)
  have "list_all (part_fits deflate dec) ps" using Cons.prems by simp
  from Cons.IH [OF this, of "pre @ part_local s deflate crc p"]
  have "list_all2 (\<lambda>q h. map (field_value ((pre @ part_local s deflate crc p)
          @ concat (map (part_local s deflate crc) ps) @ r) (lfh_offset h))
        (drop 1 (fields_of ''LocalFileHeader.'')) = map Some (member_values s deflate crc q))
      ps (part_headers s deflate crc (length (pre @ part_local s deflate crc p)) ps)"
    .
  moreover have "map (field_value (pre @ part_local s deflate crc p @ concat (map (part_local s deflate crc) ps) @ r) (length pre))
      (drop 1 (fields_of ''LocalFileHeader.'')) = map Some (member_values s deflate crc p)"
    using Cons.prems by (intro part_local_values [of deflate dec]) simp
  ultimately show ?case by simp
qed simp

lemma cd_record_layout:
  "cd_record h = directory_layout [20, version_needed h, lh_flags h, lh_method h, mod_time h, mod_date h]
     [lh_crc32 h, comp_size32 h, uncomp_size32 h] [of_nat (length (lh_name h)), 0, 0] 0 0 [0, of_nat (lfh_offset h)]
     @ lh_name h"
  by (simp add: cd_record_def directory_layout_def)

text \<open>Every directory record starts on disk 0.\<close>

lemma directory_values:
  "list_all (\<lambda>i. map (field_value (pre @ concat (map cd_record hs) @ r)
        (length pre + length (concat (map cd_record (take i hs))))) (fields_of ''CentralDirHeader.'') = [Some 0])
     [0..<length hs]"
proof -
  have "map (field_value (pre @ concat (map cd_record hs) @ r)
        (length pre + length (concat (map cd_record (take i hs))))) (fields_of ''CentralDirHeader.'') = [Some 0]"
    if "i < length hs" for i
  proof -
    have d: "pre @ concat (map cd_record hs) @ r
        = (pre @ concat (map cd_record (take i hs))) @ cd_record (hs ! i) @ concat (map cd_record (drop (Suc i) hs)) @ r"
      using id_take_nth_drop [OF that] by (metis append.assoc concat_append list.simps(9) map_append concat.simps(2))
    have n: "length pre + length (concat (map cd_record (take i hs))) = length (pre @ concat (map cd_record (take i hs)))"
      by simp
    show ?thesis
      unfolding d n cd_record_layout [of "hs ! i"] append_assoc
      by (subst directory_layout_values [where pre = "pre @ concat (map cd_record (take i hs))", unfolded append_assoc]) simp_all
  qed
  then show ?thesis by (simp add: list_all_iff)
qed

lemma local_fields_hold:
  assumes d: "d = pre @ part_local s deflate crc p @ r" and n: "fst p \<noteq> []" "length (fst p) < 2 ^ 16"
  shows "list_all (field_holds d (length pre)) (drop 1 (fields_of ''LocalFileHeader.''))"
    and "pre = [] \<Longrightarrow> list_all (field_holds d 0) (fields_of ''LocalFileHeader.'')"
proof -
  obtain flags m c k u tr where f: "flags = 0 \<or> flags = 8" "m = 0 \<or> m = 8" and b: "part_local s deflate crc p =
     u32_bytes LFH_SIG @ u16_bytes 20 @ u16_bytes flags @ u16_bytes m @ u16_bytes 0 @ u16_bytes 0
     @ u32_bytes c @ u32_bytes k @ u32_bytes u @ u16_bytes (of_nat (length (fst p))) @ u16_bytes 0
     @ str_bytes (fst p) @ snd (pack deflate (snd p)) @ tr"
    using part_local_bytes [of s deflate crc p] by (elim exE conjE) (erule (2) that)
  note nl = unat_of_nat_len(2) [OF n(2)]
  have len: "30 \<le> length (part_local s deflate crc p)" unfolding b by simp
  have cuts: "cut (part_local s deflate crc p @ r) 0 4 = u32_bytes LFH_SIG"
    "cut (part_local s deflate crc p @ r) 4 6 = u16_bytes 20" "cut (part_local s deflate crc p @ r) 6 8 = u16_bytes flags"
    "cut (part_local s deflate crc p @ r) 8 10 = u16_bytes m"
    "cut (part_local s deflate crc p @ r) 26 28 = u16_bytes (of_nat (length (fst p)))"
    "cut (part_local s deflate crc p @ r) 28 30 = u16_bytes 0"
    unfolding b by (simp_all add: cut_append_right cut_0)
  have low: "unat flags \<le> 2111" "unat m \<le> 20" using f by auto
  show rest: "list_all (field_holds d (length pre)) (drop 1 (fields_of ''LocalFileHeader.''))"
    unfolding d using len cuts low nl n
    by (simp add: local_fields ZIP_FIELDS_def field_def_def field_holds_def field_position_def Suc_le_eq cut_append_right)
  show "list_all (field_holds d 0) (fields_of ''LocalFileHeader.'')" if "pre = []"
  proof -
    have "fields_of ''LocalFileHeader.'' = hd ZIP_FIELDS # drop 1 (fields_of ''LocalFileHeader.'')"
      by (simp add: local_fields ZIP_FIELDS_def)
    moreover have "field_holds d 0 (hd ZIP_FIELDS)"
      unfolding d using len cuts(1) that
      by (simp add: ZIP_FIELDS_def field_def_def field_holds_def field_position_def signature_bytes)
    ultimately show ?thesis using rest that by (metis list.pred_inject(2) list.size(3))
  qed
qed

lemma end_fields_hold:
  assumes d: "d = x @ eocd_record n a b" and n: "0 < n" "n < 2 ^ 16"
  shows "list_all (field_holds d entry) (fields_of ''EOCD.'')"
proof -
  note nl = unat_of_nat_len(2) [OF n(2)]
  have cuts: "cut (eocd_record n a b) 0 4 = u32_bytes EOCD_SIG" "cut (eocd_record n a b) 4 6 = u16_bytes 0"
    "cut (eocd_record n a b) 6 8 = u16_bytes 0" "cut (eocd_record n a b) 10 12 = u16_bytes (of_nat n)"
    "cut (eocd_record n a b) 20 22 = u16_bytes 0"
    by (simp_all add: eocd_record_def cut_append_right cut_0)
  show ?thesis
    unfolding d using cuts nl n
    by (simp add: local_fields ZIP_FIELDS_def field_def_def field_holds_def field_position_def signature_bytes cut_append_right)
qed

lemma part_headers_split:
  "h \<in> set (part_headers s deflate crc (length pre) ps) \<Longrightarrow>
     \<exists>pre' p r. p \<in> set ps \<and> lfh_offset h = length pre'
       \<and> pre @ concat (map (part_local s deflate crc) ps) = pre' @ part_local s deflate crc p @ r"
proof (induction ps arbitrary: pre)
  case (Cons p ps)
  show ?case
  proof (cases "h = part_header s deflate crc (length pre) p")
    case True
    then show ?thesis
      by (intro exI [of _ pre] exI [of _ p] exI [of _ "concat (map (part_local s deflate crc) ps)"]) simp
  next
    case False
    then have "h \<in> set (part_headers s deflate crc (length (pre @ part_local s deflate crc p)) ps)"
      using Cons.prems by simp
    from Cons.IH [OF this] show ?thesis by fastforce
  qed
qed simp

lemma writer_fields:
  assumes w: "writable deflate dec ps d" and d: "d = writer s deflate crc ps" and names: "list_all (\<lambda>p. fst p \<noteq> []) ps"
  shows "list_all (\<lambda>e. list_all (field_holds d (local_header_offset e)) (drop 1 (fields_of ''LocalFileHeader.'')))
      (zp_entries (parse_zip d))"
    "list_all (field_holds d 0) (fields_of ''LocalFileHeader.'')" "list_all (field_holds d entry) (fields_of ''EOCD.'')"
proof -
  let ?body = "concat (map (part_local s deflate crc) ps)" and ?hs = "part_headers s deflate crc 0 ps"
  have dl: "d = laid_out ?body ?hs" unfolding d by (rule writer_laid_out)
  have n: "fst p \<noteq> [] \<and> length (fst p) < 2 ^ 16" if "p \<in> set ps" for p
    using w names that by (auto simp: writable_def part_fits_def list_all_iff)
  have tail: "\<exists>r. d = ?body @ r" by (simp add: dl laid_out_def Let_def)
  have local: "list_all (field_holds d (lfh_offset h)) (drop 1 (fields_of ''LocalFileHeader.''))" if "h \<in> set ?hs" for h
  proof -
    obtain r where r: "d = ?body @ r" using tail by blast
    have "h \<in> set (part_headers s deflate crc (length []) ps)" using that by simp
    from part_headers_split [OF this] obtain pre' p r' where h: "p \<in> set ps" "lfh_offset h = length pre'"
      "[] @ ?body = pre' @ part_local s deflate crc p @ r'" by blast
    have "d = pre' @ part_local s deflate crc p @ (r' @ r)" using r h(3) by simp
    from local_fields_hold(1) [OF this] n [OF h(1)] h(2) show ?thesis by simp
  qed
  have "zp_entries (parse_zip d) = map entry_of ?hs"
    using parse_in_order [OF writer_in_order [OF w [unfolded d]]] unfolding dl by blast
  then show "list_all (\<lambda>e. list_all (field_holds d (local_header_offset e)) (drop 1 (fields_of ''LocalFileHeader.'')))
      (zp_entries (parse_zip d))"
    using local by (simp add: list_all_iff)
  obtain p ps' where ps: "ps = p # ps'" using w by (cases ps) (auto simp: writable_def)
  then obtain r where "d = [] @ part_local s deflate crc p @ r" using tail by auto
  from local_fields_hold(2) [OF this] n [of p] ps show "list_all (field_holds d 0) (fields_of ''LocalFileHeader.'')" by simp
  have "d = (?body @ concat (map cd_record ?hs)) @ eocd_record (length ?hs) (length (concat (map cd_record ?hs))) (length ?body)"
    by (simp add: dl laid_out_def Let_def)
  then show "list_all (field_holds d entry) (fields_of ''EOCD.'')"
    by (rule end_fields_hold) (use w in \<open>simp_all add: writable_def\<close>)
qed

lemma take_part_headers:
  "take i (part_headers s deflate crc off ps) = part_headers s deflate crc off (take i ps)"
proof (induction ps arbitrary: off i)
  case (Cons p ps)
  then show ?case by (cases i) simp_all
qed simp

lemma writer_values:
  assumes w: "writable deflate dec ps d" and d: "d = writer s deflate crc ps"
  shows "list_all2 (\<lambda>p e. map (field_value d (local_header_offset e)) (drop 1 (fields_of ''LocalFileHeader.''))
      = map Some (member_values s deflate crc p)) ps (zp_entries (parse_zip d))"
    "map (field_value d entry) (fields_of ''EOCD.'') = map Some [unat EOCD_SIG, 0, 0, length ps, length ps,
      directory_len ps, length d - 22 - directory_len ps, 0]"
    "list_all (\<lambda>i. map (field_value d (length d - 22 - directory_len (drop i ps))) (fields_of ''CentralDirHeader.'') = [Some 0])
      [0..<length ps]"
proof -
  let ?body = "concat (map (part_local s deflate crc) ps)" and ?hs = "part_headers s deflate crc 0 ps"
  have dl: "d = laid_out ?body ?hs" unfolding d by (rule writer_laid_out)
  then obtain r where r: "d = [] @ ?body @ r" by (auto simp: laid_out_def Let_def)
  have fits: "list_all (part_fits deflate dec) ps" using w by (simp add: writable_def)
  have "zp_entries (parse_zip d) = map entry_of ?hs"
    using parse_in_order [OF writer_in_order [OF w [unfolded d]]] unfolding dl by blast
  then show "list_all2 (\<lambda>p e. map (field_value d (local_header_offset e)) (drop 1 (fields_of ''LocalFileHeader.''))
      = map Some (member_values s deflate crc p)) ps (zp_entries (parse_zip d))"
    using members_values [OF fits, of "[]" s crc r] r by (simp add: list.rel_map)
  have n: "length ps < 2 ^ 16" and len: "length d < 2 ^ 32" using w by (simp_all add: writable_def)
  have sizes: "length d = length ?body + directory_len ps + 22"
    unfolding dl by (simp add: laid_out_def Let_def length_directory eocd_record_def)
  have e: "d = (?body @ concat (map cd_record ?hs)) @ end_layout 0 0 (of_nat (length ps)) (of_nat (length ps))
      (of_nat (directory_len ps)) (of_nat (length ?body)) 0"
    by (simp add: dl laid_out_def Let_def eocd_record_def end_layout_def length_directory)
  have "directory_len ps < 2 ^ 32" "length ?body < 2 ^ 32" using sizes len by simp_all
  note u = unat_of_nat_len(2) [OF n] unat_of_nat_len(1) [OF this(1)] unat_of_nat_len(1) [OF this(2)]
  have "length d - 22 - directory_len ps = length ?body" using sizes by simp
  moreover have "map (field_value d entry) (fields_of ''EOCD.'') = map Some [unat EOCD_SIG, unat (0 :: u16), unat (0 :: u16),
      unat (of_nat (length ps) :: u16), unat (of_nat (length ps) :: u16), unat (of_nat (directory_len ps) :: u32),
      unat (of_nat (length ?body) :: u32), unat (0 :: u16)]"
    unfolding e by (rule end_layout_values)
  ultimately show "map (field_value d entry) (fields_of ''EOCD.'') = map Some [unat EOCD_SIG, 0, 0, length ps, length ps,
      directory_len ps, length d - 22 - directory_len ps, 0]"
    using u by simp
  have at: "length d - 22 - directory_len (drop i ps) = length ?body + length (concat (map cd_record (take i ?hs)))"
    if "i < length ps" for i
  proof -
    have "directory_len ps = directory_len (take i ps) + directory_len (drop i ps)"
      by (simp add: directory_len_def flip: sum_list_append map_append)
    moreover have "length (concat (map cd_record (take i ?hs))) = directory_len (take i ps)"
      using length_directory [of s deflate crc 0 "take i ps"] by (simp add: take_part_headers)
    ultimately show ?thesis using sizes by simp
  qed
  have "d = ?body @ concat (map cd_record ?hs) @ eocd_record (length ?hs) (length (concat (map cd_record ?hs))) (length ?body)"
    by (simp add: dl laid_out_def Let_def)
  then show "list_all (\<lambda>i. map (field_value d (length d - 22 - directory_len (drop i ps))) (fields_of ''CentralDirHeader.'') = [Some 0])
      [0..<length ps]"
    using directory_values [of ?body ?hs "eocd_record (length ?hs) (length (concat (map cd_record ?hs))) (length ?body)"] at
    by (simp add: list_all_iff)
qed

text \<open>
  C35. The ZIP field table describes the format and what the writers write. In any record laid out as the
  format has it, whatever its values, each field of the local header, of the end record (counted
  from the end of a file without comment) and the directory record's disk number reads back
  the value put there. In every archive of either writer whose parts have names, the
  table reads, at the offset the reader reports for each member, exactly that member's method,
  checksum, sizes (zero in a streamed header) and name length; from the end record exactly the
  number of members and the size and offset of the directory; and every field holds the bytes the
  table expects and a value in the range it declares.
\<close>

theorem zip_fields_describe_writers:
  assumes "writable deflate dec ps d"
    and "d = (if streamed then encode_zip_streamed deflate crc ps else encode_zip deflate crc ps)"
    and "list_all (\<lambda>p. fst p \<noteq> []) ps"
  shows "map (field_value (pre @ local_layout v fl m t dt c k u n x @ r) (length pre)) (drop 1 (fields_of ''LocalFileHeader.''))
      = map Some [unat v, unat fl, unat m, unat c, unat k, unat u, unat n, unat x]
    \<and> map (field_value (pre @ end_layout dk cdk here tot sz off cl) 0) (fields_of ''EOCD.'')
      = map Some [unat EOCD_SIG, unat dk, unat cdk, unat here, unat tot, unat sz, unat off, unat cl]
    \<and> map (field_value (pre @ directory_layout [a1, a2, a3, a4, a5, a6] [b1, b2, b3] [c1, c2, c3] disk attrs rest @ r) (length pre))
        (fields_of ''CentralDirHeader.'') = [Some (unat disk)]
    \<and> list_all2 (\<lambda>p e. map (field_value d (local_header_offset e)) (drop 1 (fields_of ''LocalFileHeader.''))
        = map Some (member_values streamed deflate crc p)) ps (zp_entries (parse_zip d))
    \<and> map (field_value d 0) (fields_of ''EOCD.'') = map Some [unat EOCD_SIG, 0, 0, length ps, length ps,
        directory_len ps, length d - 22 - directory_len ps, 0]
    \<and> list_all (\<lambda>i. map (field_value d (length d - 22 - directory_len (drop i ps))) (fields_of ''CentralDirHeader.'') = [Some 0])
        [0..<length ps]
    \<and> list_all (\<lambda>e. list_all (field_holds d (local_header_offset e)) (drop 1 (fields_of ''LocalFileHeader.'')))
        (zp_entries (parse_zip d))
    \<and> list_all (field_holds d 0) (fields_of ''LocalFileHeader.'') \<and> list_all (field_holds d 0) (fields_of ''EOCD.'')"
proof -
  have d: "d = writer streamed deflate crc ps" using assms(2) by (simp add: writer_def)
  show ?thesis
    by (intro conjI local_layout_values end_layout_values directory_layout_values writer_values [OF assms(1) d]
        writer_fields [OF assms(1) d assms(3)]) simp_all
qed

theorem zip_fields_describe_writers_witness:
  "list_all2 (\<lambda>p e. map (field_value (encode_zip_streamed word_deflate word_crc word_parts) (local_header_offset e))
        (drop 1 (fields_of ''LocalFileHeader.'')) = map Some (member_values True word_deflate word_crc p))
      word_parts (zp_entries (parse_zip (encode_zip_streamed word_deflate word_crc word_parts)))
   \<and> list_all (field_holds (encode_zip_streamed word_deflate word_crc word_parts) 0) (fields_of ''EOCD.'')"
  using zip_fields_describe_writers [OF word_writable, of True word_crc] by (simp add: word_parts_def)

end
