(* ===== verification/Spec2Isabelle.thy ===== *)
theory Spec2Isabelle
  imports Evidence Resync_Tar Rar Zip_Repair Engine_Safety Engine_Paths Engine_Evidence Cd_Scan Detector_Zip Analysis_Engine Mobile_Zip Android_Backup Field_Map
begin

text \<open>
  A model of \<open>veraqis_recover\<close>: a command-line tool that analyses damaged archives and repairs
  them, and the crates it is made of (paths below are under \<open>src/crates\<close>).

  \<^bold>\<open>The program.\<close> The command line (\<open>veraqis_recover/src/main.rs\<close>) drives the recovery engine
  (\<open>phx_recovery/src/engine.rs\<close>). The engine asks the analyser (\<open>phx_analyze_engine\<close>) what is wrong
  with a file, selects the strategies that claim the reported rules (\<open>phx_recovery/src/strategies\<close>),
  runs each against the source into a fresh staging sink, keeps a staged candidate only when a
  second analysis of it does not look worse, writes the kept bytes to a new path and signs a
  manifest of what was done. Strategies rest on exact salvage scanners (\<open>resync\<close>, \<open>rar\<close>,
  \<open>sevenz\<close>) and on the recovery-oriented ZIP reader (\<open>phx_zip_core\<close>). Evidence of repair is a
  record with its own guard (\<open>evidence\<close>). The analyser identifies the format
  (\<open>phx_format_id\<close>, \<open>pipeline/format_detection.rs\<close>), reads structural facts (\<open>reader\<close>), detects
  and classifies defects (\<open>corruption\<close>) and scores health (\<open>health\<close>).

  \<^bold>\<open>How the model is laid out.\<close> One theory per component, importing what it calls. A Rust struct
  is a record, an enum a datatype, a sized integer that can wrap a word of its width, a
  \<open>Result\<close> a sum with the error on the left. A function that can panic returns an \<open>outcome\<close>
  (\<open>Returned\<close> or \<open>Panicked\<close>). A string is the list of its UTF-8 bytes as characters. A \<open>while\<close>
  loop is a function with a termination proof; no fuel is used anywhere, so every modelled
  operation is shown to end on every input. Offsets are naturals where the code's \<open>usize\<close> or
  \<open>u64\<close> arithmetic cannot leave its range on an input that fits in memory, and words or
  explicitly checked where it can.

  \<^item> \<^bold>\<open>Foundations.\<close> \<open>Prelude\<close>: byte strings, little-endian fields, slices, the interface every
    salvage scanner implements. \<open>Rust_Text\<close>: UTF-8, lossy decoding, octal. \<open>Crc\<close>
    (\<open>phx_recovery/src/crc\<close>, \<open>integrity/crc32.rs\<close>): the table-driven and the bit-serial checksum
    agree, and any changed byte changes the sum.
  \<^item> \<^bold>\<open>Evidence.\<close> \<open>Evidence\<close> (\<open>evidence/mod.rs\<close>): which builder histories may raise health.
  \<^item> \<^bold>\<open>Salvage.\<close> \<open>Resync\<close> (\<open>resync/mod.rs\<close>, \<open>resync/deflate.rs\<close>), \<open>Resync_Tar\<close>
    (\<open>resync/tar.rs\<close>, \<open>resync/build.rs\<close>), \<open>Resync_Gzip\<close> (\<open>resync/gzip.rs\<close>), \<open>Rar\<close>
    (\<open>rar/mod.rs\<close>), \<open>Sevenz\<close> (\<open>sevenz/mod.rs\<close>): what is salvaged is verbatim and verified, and
    members that survive between arbitrary damage are all found.
  \<^item> \<^bold>\<open>Strategies.\<close> \<open>Strategy_Base\<close> (the contract of a strategy), \<open>Tar_Strategies\<close>,
    \<open>Gz_Strategies\<close>, \<open>Salvage_Strategies\<close>, \<open>Zip_Rebuild\<close>, \<open>Zip_Crc_Fix\<close> (\<open>strategies/*.rs\<close>):
    every branch of every \<open>apply\<close>; what a strategy stages is characterised exactly.
    \<open>Zip_Repair\<close>: rebuild and checksum repair together.
  \<^item> \<^bold>\<open>ZIP core.\<close> \<open>Zip_Policy\<close> (\<open>zip_policy.rs\<close>, \<open>verdict.rs\<close>), \<open>Zip_Index\<close>, \<open>Zip_Offset_Map\<close>,
    \<open>Zip_Container\<close>, \<open>Cd_Scan\<close>, \<open>Zip_Entries\<close> and \<open>Opc_Zip\<close> (\<open>opc_zip.rs\<close>): lookups, offset
    maps, embedded archives, the surviving-directory search and the reader's merge are sound;
    \<open>Opc_Intact\<close>: archives in order are read exactly. \<open>Zip_Build\<close> (\<open>build.rs\<close>): the reader is
    the inverse of both writers. \<open>Mobile_Zip\<close> (\<open>mobile_zip.rs\<close>): only proven entries are handed
    out, and all of an undamaged archive. \<open>Android_Backup\<close> (\<open>android_backup_container.rs\<close>): the
    header round-trips and the payload stays in bounds.
  \<^item> \<^bold>\<open>Recovery.\<close> \<open>Recovery_Model\<close> (\<open>model.rs\<close>, \<open>plan.rs\<close>, \<open>manifest.rs\<close>), \<open>Engine\<close>
    (\<open>engine.rs\<close>, \<open>main.rs\<close>); \<open>Engine_Gate\<close>: an abstract acceptance gate that the passes
    refine; \<open>Engine_Safety\<close>: what is written, accounted for and reported; \<open>Engine_Evidence\<close>:
    which manifest entries count as trusted; \<open>Engine_Paths\<close>: the source is never the output.
  \<^item> \<^bold>\<open>Analyser.\<close> \<open>Format_Id\<close> (\<open>phx_format_id/src/lib.rs\<close>) and \<open>Format_Detection\<close>
    (\<open>pipeline/format_detection.rs\<close>): two bounded reads decide as the whole file would.
    \<open>Archive_Reader\<close> and \<open>Sqlite_Reader\<close> (\<open>reader\<close>): the structural facts of every format.
    \<open>Field_Map\<close> (\<open>reader/field_map.rs\<close>): the ZIP field table reads any laid-out record, and the writers' archives, back.
    \<open>Source_Hash\<close> (\<open>integrity\<close>): the streaming digest does not depend on the reads, and a sidecar
    manifest decides a match. \<open>Rule_Registry\<close> (\<open>corruption/rules.rs\<close>, \<open>classifier.rs\<close>,
    \<open>confidence.rs\<close>): the registry, classification and the merge of adjacent regions.
    \<open>Detector\<close> (\<open>corruption/detector.rs\<close>, \<open>corruption/mod.rs\<close>) and \<open>Detector_Safety\<close>: the scan
    is bounded, well located and total, but for one overflowing addition in a 7z message, which
    is a panic here, as where overflow is checked. \<open>Detector_Zip\<close>: on ZIP archives as a writer lays them out the
    checksum scan is exact. \<open>Reference_Diff\<close> (\<open>corruption/reference.rs\<close>): the comparison with a
    known-good copy. \<open>Health\<close> (\<open>model\<close>, \<open>health\<close>): scoring is monotone and order-free.
    \<open>Recoverability\<close> (\<open>recoverability\<close>): when a file is given up. \<open>Analysis_Engine\<close> (\<open>engine.rs\<close>,
    \<open>pipeline\<close>, \<open>model/config.rs\<close>, \<open>hooks\<close>): the stages put together, and the command and the
    rollback gate run on the modelled analyser.
  \<^bold>\<open>Parameters.\<close> Code outside the repository is an argument of the definitions that call it: the
  DEFLATE decoder (record \<open>inflater\<close>: the blocks its reads return, the error that ends it, the
  input consumed), the GZIP and DEFLATE encoders, the running CRC of the compression library
  (which the gzip strategies take separately from the repository's own), SHA digests, Ed25519
  signing and verification, JSON serialisation, the Unicode lower-casing of
  paths, the file system (reads, existence, writes). What a property needs of them is a hypothesis of that property, with a witness that meets it.

  \<^bold>\<open>Floating point.\<close> Confidences are hundredths, which is exact for every constant and comparison
  the code makes. Recoverability probabilities are \<open>f64\<close>: they are held as multiples of
  \<open>2 ^ -56\<close> and every addition rounds to fifty-three bits, ties to even, so the modelled sums are
  the code's. Two comparisons of sizes with \<open>f64\<close> fractions are made on whole numbers, which
  decides alike below \<open>2 ^ 52\<close> bytes.

  \<^bold>\<open>Not modelled.\<close> The aggregate confidence over several supporting findings, which no shipped
  path builds; I/O errors of positional reads inside the analyser, which the code treats as
  absent data. The parsing of command-line flags and the console output, serialisation
  derives, display strings, logging, run times, the JavaScript rendering of the signature
  table, and the test fixtures (\<open>phx_test_utils\<close>) are left out as glue.
\<close>

end
